(* ===== verification/Prelude.thy ===== *)
theory Prelude
  imports Complex_Main "HOL-Library.Word"
begin

text \<open>
  Shared vocabulary of the development: the machine types of the C++ code, byte strings,
  fallible results, bounds-checked access to a buffer, and the generic facts about them that
  the component theories use.

  A \<open>std::string\<close> and a \<open>std::vector<uint8_t>\<close> are both a list of bytes
  (\<open>bytes\<close>); \<open>lit\<close> turns an ASCII literal into bytes. A function that may throw
  returns a sum, \<open>Inl\<close> holding the exception.
\<close>

unbundle bit_operations_syntax

section \<open>Machine types\<close>

type_synonym u8 = "8 word"
type_synonym u16 = "16 word"
type_synonym u32 = "32 word"
type_synonym u64 = "64 word"
type_synonym bytes = "u8 list"

definition lit :: "string \<Rightarrow> bytes" where
  "lit s = map of_char s"

named_theorems exc_simps \<open>rewriting of fallible computations\<close>

section \<open>Fallible results\<close>

text \<open>Sequencing: the continuation runs on the value, an exception passes through.\<close>

fun bindE :: "'e + 'a \<Rightarrow> ('a \<Rightarrow> 'e + 'b) \<Rightarrow> 'e + 'b" where
  "bindE (Inl e) f = Inl e"
| "bindE (Inr x) f = f x"

lemma bindE_cong [fundef_cong]:
  "m = m' \<Longrightarrow> (\<And>x. m' = Inr x \<Longrightarrow> f x = g x) \<Longrightarrow> bindE m f = bindE m' g"
  by (cases m') auto

lemma bindE_eq_Inr_iff [exc_simps]: "bindE m f = Inr y \<longleftrightarrow> (\<exists>x. m = Inr x \<and> f x = Inr y)"
  by (cases m) auto

lemma bindE_eq_Inl_iff [exc_simps]:
  "bindE m f = Inl e \<longleftrightarrow> m = Inl e \<or> (\<exists>x. m = Inr x \<and> f x = Inl e)"
  by (cases m) auto

lemma bindE_assoc [exc_simps]: "bindE (bindE m f) g = bindE m (\<lambda>x. bindE (f x) g)"
  by (cases m) auto

lemma bindE_not_Inl:
  "m \<noteq> Inl e \<Longrightarrow> (\<And>x. m = Inr x \<Longrightarrow> f x \<noteq> Inl e) \<Longrightarrow> bindE m f \<noteq> Inl e"
  by (cases m) auto

section \<open>Words\<close>

lemma bit_0xFF [simp]: "bit (0xFF :: int) n \<longleftrightarrow> n < 8"
proof -
  have "(0xFF :: int) = mask 8" by (simp add: mask_eq_exp_minus_1)
  then show ?thesis by (simp only: bit_mask_iff) simp
qed

lemma bit_0xF [simp]: "bit (0xF :: int) n \<longleftrightarrow> n < 4"
proof -
  have "(0xF :: int) = mask 4" by (simp add: mask_eq_exp_minus_1)
  then show ?thesis by (simp only: bit_mask_iff) simp
qed

lemma ucast_and_0xFF16 [simp]: "(ucast (v AND 0xFF :: u16) :: u8) = ucast v"
  by (rule bit_word_eqI) (auto simp: bit_and_iff bit_ucast_iff)

lemma ucast_and_0xFF32 [simp]: "(ucast (v AND 0xFF :: u32) :: u8) = ucast v"
  by (rule bit_word_eqI) (auto simp: bit_and_iff bit_ucast_iff)

lemma unat_u16_less: "unat (w :: u16) < 65536"
  using unsigned_less [of w, where 'a = nat] by simp

lemma unat_u8_less: "unat (w :: u8) < 256"
  using unsigned_less [of w, where 'a = nat] by simp

section \<open>Lists\<close>

lemma take_drop_middle [simp]: "take (length ys) (drop (length xs) (xs @ ys @ zs)) = ys"
  by simp

lemma nth_middle [simp]: "(xs @ y # ys) ! length xs = y"
  by (rule nth_append_length)

section \<open>Characters and strings of the C++ library\<close>

text \<open>\<open>std::tolower\<close> and \<open>std::isspace\<close> in the C locale, the trimming loops that two
  components share, and \<open>std::getline\<close> with a delimiter, called until the stream is empty.\<close>

definition tolower :: "u8 \<Rightarrow> u8" where
  "tolower c = (if 65 \<le> c \<and> c \<le> 90 then c + 32 else c)"

definition isspace :: "u8 \<Rightarrow> bool" where
  "isspace c \<longleftrightarrow> c = 32 \<or> (9 \<le> c \<and> c \<le> 13)"

definition trim :: "bytes \<Rightarrow> bytes" where
  "trim s = rev (dropWhile isspace (rev (dropWhile isspace s)))"

function getlines :: "u8 \<Rightarrow> bytes \<Rightarrow> bytes list" where
  "getlines d s =
     (if s = [] then []
      else let l = takeWhile (\<lambda>c. c \<noteq> d) s in l # getlines d (drop (Suc (length l)) s))"
  by pat_completeness auto
termination by (relation "measure (\<lambda>(d, s). length s)") auto

declare getlines.simps [simp del]

lemma getlines_Nil [simp]: "getlines d [] = []"
  by (simp add: getlines.simps)

lemma takeWhile_delim [simp]:
  "d \<notin> set l \<Longrightarrow> takeWhile (\<lambda>c. c \<noteq> d) l = l"
  "d \<notin> set l \<Longrightarrow> takeWhile (\<lambda>c. c \<noteq> d) (l @ d # s) = l"
  by (induction l) auto

lemma getlines_one: "d \<notin> set l \<Longrightarrow> getlines d l = (if l = [] then [] else [l])"
  unfolding getlines.simps [of d l] by (simp add: Let_def)

lemma getlines_cons: "d \<notin> set l \<Longrightarrow> getlines d (l @ d # s) = l # getlines d s"
  unfolding getlines.simps [of d "l @ d # s"] by (simp add: Let_def)

lemma tolower_idem [simp]: "tolower (tolower c) = tolower c"
proof (cases "65 \<le> c \<and> c \<le> 90")
  case True
  then have r: "65 \<le> unat c" "unat c \<le> 90" by (simp_all add: word_le_nat_alt)
  then have "unat (c + 32) = unat c + 32" by (simp add: unat_word_ariths)
  with True r show ?thesis by (simp add: tolower_def word_le_nat_alt)
next
  case False
  then show ?thesis by (simp add: tolower_def)
qed

lemma dropWhile_hd: "s \<noteq> [] \<Longrightarrow> \<not> P (hd s) \<Longrightarrow> dropWhile P s = s"
  by (cases s) auto

lemma trim_id: "s \<noteq> [] \<Longrightarrow> \<not> isspace (hd s) \<Longrightarrow> \<not> isspace (last s) \<Longrightarrow> trim s = s"
  by (simp add: trim_def dropWhile_hd hd_rev)

end
