(* ===== verification/Codec.thy ===== *)
theory Codec
  imports Prelude
begin

text \<open>
  The two contracts the message parser relies on, as interfaces. A reader takes the buffer,
  the end of the readable part and a position, and returns a value with the position after it.

  \<open>bounded_reader\<close>: a reader stays within the buffer. The outcome \<open>bad\<close> marks an access
  outside it, and \<open>culprit\<close> tells at which positions that can happen (nowhere, for a reader
  that is memory safe). The clients are the section loops of \<open>DnsMessage::parse\<close>, which call
  one reader a fixed number of times.

  \<open>buffer_codec\<close>: a reader inverts an encoder wherever the encoding lies in the buffer.
\<close>

fun read_many :: "(nat \<Rightarrow> 'e + ('a \<times> nat)) \<Rightarrow> nat \<Rightarrow> nat \<Rightarrow> 'e + ('a list \<times> nat)" where
  "read_many rd 0 p = Inr ([], p)"
| "read_many rd (Suc n) p =
     bindE (rd p) (\<lambda>(x, q). bindE (read_many rd n q) (\<lambda>(xs, r). Inr (x # xs, r)))"

locale bounded_reader =
  fixes read :: "bytes \<Rightarrow> nat \<Rightarrow> nat \<Rightarrow> 'e + ('a \<times> nat)"
    and bad :: 'e
    and culprit :: "bytes \<Rightarrow> nat \<Rightarrow> nat \<Rightarrow> bool"
  assumes read_bad: "e \<le> length data \<Longrightarrow> p \<le> e \<Longrightarrow> read data e p = Inl bad \<Longrightarrow> culprit data e p"
    and read_within: "e \<le> length data \<Longrightarrow> p \<le> e \<Longrightarrow> read data e p = Inr (x, q) \<Longrightarrow> p \<le> q \<and> q \<le> e"
begin

lemma many_within:
  "e \<le> length data \<Longrightarrow> p \<le> e \<Longrightarrow> read_many (read data e) n p = Inr (xs, q) \<Longrightarrow> p \<le> q \<and> q \<le> e"
proof (induction n arbitrary: p xs)
  case 0
  then show ?case by simp
next
  case (Suc n)
  from Suc.prems(3) obtain x r ys
    where r: "read data e p = Inr (x, r)" "read_many (read data e) n r = Inr (ys, q)"
    by (auto simp: exc_simps)
  with read_within [OF Suc.prems(1,2) r(1)] Suc.IH [OF Suc.prems(1) _ r(2)] show ?case by auto
qed

lemma many_bad:
  "e \<le> length data \<Longrightarrow> p \<le> e \<Longrightarrow> read_many (read data e) n p = Inl bad
    \<Longrightarrow> \<exists>p'. p \<le> p' \<and> p' \<le> e \<and> culprit data e p'"
proof (induction n arbitrary: p)
  case 0
  then show ?case by simp
next
  case (Suc n)
  from Suc.prems(3) consider "read data e p = Inl bad"
    | x r where "read data e p = Inr (x, r)" "read_many (read data e) n r = Inl bad"
    by (auto simp: exc_simps)
  then show ?case
  proof cases
    case 1
    with read_bad Suc.prems(1,2) show ?thesis by blast
  next
    case 2
    with read_within [OF Suc.prems(1,2)] Suc.IH [OF Suc.prems(1)] show ?thesis
      by (meson order_trans)
  qed
qed

lemma many_length: "read_many (read data e) n p = Inr (xs, q) \<Longrightarrow> length xs = n"
  by (induction n arbitrary: p xs) (auto simp: exc_simps)

end

locale buffer_codec =
  fixes enc :: "'a \<Rightarrow> bytes"
    and read :: "bytes \<Rightarrow> nat \<Rightarrow> nat \<Rightarrow> 'e + ('a \<times> nat)"
    and wf :: "'a \<Rightarrow> bool"
  assumes read_enc:
    "wf x \<Longrightarrow> data = pre @ enc x @ post \<Longrightarrow>
      read data (length data) (length pre) = Inr (x, length pre + length (enc x))"
begin

lemma many_enc:
  "\<forall>x \<in> set xs. wf x \<Longrightarrow> data = pre @ concat (map enc xs) @ post \<Longrightarrow>
    read_many (read data (length data)) (length xs) (length pre)
      = Inr (xs, length pre + length (concat (map enc xs)))"
proof (induction xs arbitrary: pre)
  case Nil
  then show ?case by simp
next
  case (Cons x xs)
  have x: "read data (length data) (length pre) = Inr (x, length pre + length (enc x))"
    using Cons.prems by (intro read_enc [where post = "concat (map enc xs) @ post"]) auto
  have "read_many (read data (length data)) (length xs) (length (pre @ enc x))
      = Inr (xs, length (pre @ enc x) + length (concat (map enc xs)))"
    using Cons.prems by (intro Cons.IH) auto
  with x show ?case by (simp add: add.assoc)
qed

end

end
