(* ===== verification/Dns_Wire.thy ===== *)
theory Dns_Wire
  imports Codec
begin

text \<open>
  The byte level of \<open>src/dns_protocol.hpp\<close> and \<open>src/dns_protocol.cpp\<close>: big-endian
  integers, the header's flag bits, and the two translations between a domain name and its
  wire form, \<open>wireToName\<close> (with compression pointers) and \<open>nameToWire\<close>.

  A pointer into the message is its offset from the start. Every access to the buffer is
  checked here: an access outside it, undefined behaviour in C++, is the exception value
  \<open>Bad_Access\<close>, which no statement of the code produces. Memory safety is then the
  theorem that \<open>Bad_Access\<close> is never the result.
\<close>

section \<open>Exceptions of the parser\<close>

datatype dns_error =
    Truncated_Header | Truncated_Name | Truncated_Pointer | Pointer_Cycle
  | Truncated_Label | Label_Too_Long | Truncated_Question | Truncated_RR
  | Truncated_RDLEN | Truncated_MX | Truncated_SOA
  | Bad_Access

type_synonym 'a dns_result = "dns_error + 'a"

section \<open>Checked buffer access\<close>

definition byte_at :: "bytes \<Rightarrow> nat \<Rightarrow> u8 dns_result" where
  "byte_at data p = (if p < length data then Inr (data ! p) else Inl Bad_Access)"

definition read_bytes :: "bytes \<Rightarrow> nat \<Rightarrow> nat \<Rightarrow> bytes dns_result" where
  "read_bytes data p n = (if p + n \<le> length data then Inr (take n (drop p data)) else Inl Bad_Access)"

lemma byte_at_Inr [simp]: "p < length data \<Longrightarrow> byte_at data p = Inr (data ! p)"
  by (simp add: byte_at_def)

lemma read_bytes_Inr [simp]: "p + n \<le> length data \<Longrightarrow> read_bytes data p n = Inr (take n (drop p data))"
  by (simp add: read_bytes_def)

lemma byte_at_append [simp]: "byte_at (pre @ b # post) (length pre) = Inr b"
  by (simp add: byte_at_def)

lemma read_bytes_append [simp]: "read_bytes (pre @ xs @ post) (length pre) (length xs) = Inr xs"
  by (simp add: read_bytes_def)

section \<open>Big-endian integers\<close>

definition be16 :: "u8 \<Rightarrow> u8 \<Rightarrow> u16" where
  "be16 hi lo = push_bit 8 (ucast hi) OR ucast lo"

definition be32 :: "u8 \<Rightarrow> u8 \<Rightarrow> u8 \<Rightarrow> u8 \<Rightarrow> u32" where
  "be32 b0 b1 b2 b3 =
     push_bit 24 (ucast b0) OR push_bit 16 (ucast b1) OR push_bit 8 (ucast b2) OR ucast b3"

definition readU16 :: "bytes \<Rightarrow> nat \<Rightarrow> u16 dns_result" where
  "readU16 data p = bindE (byte_at data p) (\<lambda>hi. bindE (byte_at data (p + 1)) (\<lambda>lo. Inr (be16 hi lo)))"

definition readU32 :: "bytes \<Rightarrow> nat \<Rightarrow> u32 dns_result" where
  "readU32 data p =
     bindE (byte_at data p) (\<lambda>b0. bindE (byte_at data (p + 1)) (\<lambda>b1.
     bindE (byte_at data (p + 2)) (\<lambda>b2. bindE (byte_at data (p + 3)) (\<lambda>b3.
       Inr (be32 b0 b1 b2 b3)))))"

text \<open>The bytes that \<open>writeU16\<close> and \<open>writeU32\<close> store at their pointer.\<close>

definition writeU16 :: "u16 \<Rightarrow> bytes" where
  "writeU16 v = [ucast (drop_bit 8 v AND 0xFF), ucast (v AND 0xFF)]"

definition writeU32 :: "u32 \<Rightarrow> bytes" where
  "writeU32 v = [ucast (drop_bit 24 v AND 0xFF), ucast (drop_bit 16 v AND 0xFF),
                 ucast (drop_bit 8 v AND 0xFF), ucast (v AND 0xFF)]"

lemma length_writeU16 [simp]: "length (writeU16 v) = 2"
  by (simp add: writeU16_def)

lemma length_writeU32 [simp]: "length (writeU32 v) = 4"
  by (simp add: writeU32_def)

lemma be16_writeU16: "be16 (ucast (drop_bit 8 v)) (ucast v) = v"
  unfolding be16_def by (rule bit_word_eqI) (auto simp: bit_simps dest: bit_imp_le_length)

lemma be32_writeU32:
  "be32 (ucast (drop_bit 24 v)) (ucast (drop_bit 16 v)) (ucast (drop_bit 8 v)) (ucast v) = v"
proof (rule bit_word_eqI)
  fix n
  assume "n < LENGTH(32)"
  then show "bit (be32 (ucast (drop_bit 24 v)) (ucast (drop_bit 16 v)) (ucast (drop_bit 8 v)) (ucast v)) n
      \<longleftrightarrow> bit v n"
    unfolding be32_def by (cases "n < 8"; cases "n < 16"; cases "n < 24") (auto simp: bit_simps)
qed

text \<open>Reading back what was written, at any position of a buffer.\<close>

lemma readU16_writeU16 [simp]: "readU16 (pre @ writeU16 v @ post) (length pre) = Inr v"
  by (simp add: readU16_def byte_at_def writeU16_def nth_append be16_writeU16)

lemma readU32_writeU32 [simp]: "readU32 (pre @ writeU32 v @ post) (length pre) = Inr v"
  by (simp add: readU32_def byte_at_def writeU32_def nth_append be32_writeU32)

lemma readU16_safe: "p + 2 \<le> length data \<Longrightarrow> \<exists>v. readU16 data p = Inr v"
  by (simp add: readU16_def)

lemma readU32_safe: "p + 4 \<le> length data \<Longrightarrow> \<exists>v. readU32 data p = Inr v"
  by (simp add: readU32_def)

section \<open>Domain names: from the wire\<close>

definition dot :: u8 where "dot = 46"

text \<open>
  The loop of \<open>wireToName\<close>. \<open>p\<close> is the read position, \<open>e\<close> the end of the message and
  \<open>saved\<close> the position after the first compression pointer (\<open>None\<close> until a jump:
  \<open>jumped\<close> and \<open>saved != nullptr\<close> always agree). It terminates because every jump counts
  towards the limit of ten and every label advances the position.
\<close>

function wire_to_name_loop ::
  "bytes \<Rightarrow> nat \<Rightarrow> nat \<Rightarrow> bytes \<Rightarrow> nat option \<Rightarrow> nat \<Rightarrow> (bytes \<times> nat) dns_result" where
  "wire_to_name_loop data e p name saved jumps =
     (if e \<le> p then Inl Truncated_Name
      else bindE (byte_at data p) (\<lambda>len.
        if len = 0 then Inr (name, (case saved of None \<Rightarrow> p + 1 | Some q \<Rightarrow> q))
        else if len AND 0xC0 = 0xC0 then
          (if e \<le> p + 1 then Inl Truncated_Pointer
           else if 10 < jumps + 1 then Inl Pointer_Cycle
           else bindE (byte_at data (p + 1)) (\<lambda>lo.
             wire_to_name_loop data e (unat (be16 (len AND 0x3F) lo)) name
               (case saved of None \<Rightarrow> Some (p + 2) | Some q \<Rightarrow> Some q) (jumps + 1)))
        else if e < p + 1 + unat len then Inl Truncated_Label
        else bindE (read_bytes data (p + 1) (unat len)) (\<lambda>label.
          wire_to_name_loop data e (p + 1 + unat len)
            (if name = [] then label else name @ dot # label) saved jumps)))"
  by pat_completeness auto
termination
  by (relation "measures [\<lambda>(data, e, p, name, saved, jumps). 11 - jumps,
                          \<lambda>(data, e, p, name, saved, jumps). e - p]") auto

declare wire_to_name_loop.simps [simp del]

definition wireToName :: "bytes \<Rightarrow> nat \<Rightarrow> nat \<Rightarrow> (bytes \<times> nat) dns_result" where
  "wireToName data e p = wire_to_name_loop data e p [] None 0"

section \<open>Domain names: to the wire\<close>

text \<open>
  The loop of \<open>nameToWire\<close> over the part of the name from \<open>start\<close> on: the next label ends
  at the next dot or at the end of the name, an empty label is skipped.
\<close>

function name_to_wire_loop :: "bytes \<Rightarrow> bytes \<Rightarrow> bytes dns_result" where
  "name_to_wire_loop out rest =
     (let label = takeWhile (\<lambda>c. c \<noteq> dot) rest; n = length label
      in if 63 < n then Inl Label_Too_Long
         else let out' = (if 0 < n then out @ of_nat n # label else out)
              in if label = rest then Inr (out' @ [0])
                 else name_to_wire_loop out' (drop (n + 1) rest))"
  by pat_completeness auto
termination
proof (relation "measure (\<lambda>(out, rest). length rest)", simp, goal_cases)
  case (1 out rest label n out')
  then show ?case by (cases rest) auto
qed

declare name_to_wire_loop.simps [simp del]

definition nameToWire :: "bytes \<Rightarrow> bytes dns_result" where
  "nameToWire name = (if name = [dot] \<or> name = [] then Inr [0] else name_to_wire_loop [] name)"

section \<open>The reader of names: bounds and memory safety\<close>

lemma wire_to_name_loop_safe:
  "e \<le> length data \<Longrightarrow> wire_to_name_loop data e p name saved jumps \<noteq> Inl Bad_Access"
proof (induction data e p name saved jumps rule: wire_to_name_loop.induct)
  case (1 data e p name saved jumps)
  show ?case
  proof (cases "e \<le> p")
    case True
    then show ?thesis by (simp add: wire_to_name_loop.simps [of data e p])
  next
    case False
    with 1 show ?thesis
      by (subst wire_to_name_loop.simps) (auto simp: exc_simps)
  qed
qed

text \<open>
  The returned position lies after the start and within the message, or is the one saved at
  the first jump; the name is at most as long as the bytes read, over at most ten jumps.
\<close>

lemma wire_to_name_loop_result:
  "e \<le> length data \<Longrightarrow> wire_to_name_loop data e p name saved jumps = Inr (n, q) \<Longrightarrow>
    (case saved of None \<Rightarrow> p < q \<and> q \<le> e | Some r \<Rightarrow> q = r)
    \<and> length n \<le> length name + (e - p) + (10 - jumps) * e"
proof (induction data e p name saved jumps arbitrary: n q rule: wire_to_name_loop.induct)
  case (1 data e p name saved jumps)
  from "1.prems" have p: "p < e" "p < length data"
    by (auto simp: wire_to_name_loop.simps [of data e p] not_le split: if_splits)
  let ?len = "data ! p"
  consider (zero) "?len = 0"
    | (ptr) "?len \<noteq> 0" "?len AND 0xC0 = 0xC0"
    | (label) "?len \<noteq> 0" "?len AND 0xC0 \<noteq> 0xC0" by blast
  then show ?case
  proof cases
    case zero
    with p "1.prems" show ?thesis
      by (auto simp: wire_to_name_loop.simps [of data e p] split: option.splits)
  next
    case ptr
    define off where "off = unat (be16 (?len AND 0x3F) (data ! (p + 1)))"
    define sv where "sv = (case saved of None \<Rightarrow> Some (p + 2) | Some q \<Rightarrow> Some q)"
    have b: "p + 1 < e" "jumps + 1 \<le> 10"
      and rec: "wire_to_name_loop data e off name sv (jumps + 1) = Inr (n, q)"
      using p ptr "1.prems"
      by (auto simp: wire_to_name_loop.simps [of data e p] off_def sv_def split: if_splits)
    have "(case sv of None \<Rightarrow> off < q \<and> q \<le> e | Some r \<Rightarrow> q = r)
        \<and> length n \<le> length name + (e - off) + (10 - (jumps + 1)) * e"
      using "1.IH"(1) [of ?len "data ! (p + 1)"] p ptr b rec "1.prems"(1)
      by (cases saved) (auto simp: off_def sv_def)
    moreover have "(10 - jumps) * e = (10 - (jumps + 1)) * e + e"
      using b by (metis Suc_diff_Suc Suc_eq_plus1 Suc_le_eq mult_Suc add.commute)
    ultimately show ?thesis using b p by (auto simp: sv_def split: option.splits)
  next
    case label
    have b: "p + 1 + unat ?len \<le> e"
      and rec: "wire_to_name_loop data e (p + 1 + unat ?len)
        (if name = [] then take (unat ?len) (drop (p + 1) data)
         else name @ dot # take (unat ?len) (drop (p + 1) data)) saved jumps = Inr (n, q)"
      using p label "1.prems"
      by (auto simp: wire_to_name_loop.simps [of data e p] split: if_splits)
    with "1.IH"(2) [of ?len "take (unat ?len) (drop (p + 1) data)"] p label "1.prems"(1)
    show ?thesis by (auto split: option.splits if_splits)
  qed
qed

lemma wireToName_within:
  "e \<le> length data \<Longrightarrow> wireToName data e p = Inr (n, q) \<Longrightarrow> p < q \<and> q \<le> e"
  using wire_to_name_loop_result [of e data p "[]" None 0 n q] by (simp add: wireToName_def)

interpretation name_reader: bounded_reader wireToName Bad_Access "\<lambda>_ _ _. False"
proof (unfold_locales, goal_cases)
  case (1 e data p)
  then show ?case using wire_to_name_loop_safe by (simp add: wireToName_def)
next
  case (2 e data p x q)
  then show ?case using wireToName_within [of e data p x q] by simp
qed

end
