(* ===== verification/Dns_Name.thy ===== *)
theory Dns_Name
  imports Dns_Wire
begin

text \<open>
  The abstract view of a domain name, its list of labels, and what the two translations of
  \<open>Dns_Wire\<close> do in terms of it: \<open>nameToWire\<close> writes the non-empty labels, \<open>wireToName\<close>
  reads them back, so the round trip drops empty labels and is the identity on names whose
  labels are non-empty and at most 63 bytes long.
\<close>

declare takeWhile_eq_all_conv [simp del]

section \<open>Labels\<close>

fun split_dots :: "bytes \<Rightarrow> bytes list" where
  "split_dots [] = [[]]"
| "split_dots (c # cs) =
     (if c = dot then [] # split_dots cs
      else (c # hd (split_dots cs)) # tl (split_dots cs))"

definition labels :: "bytes \<Rightarrow> bytes list" where
  "labels n = filter (\<lambda>l. l \<noteq> []) (split_dots n)"

definition add_label :: "bytes \<Rightarrow> bytes \<Rightarrow> bytes" where
  "add_label name l = (if name = [] then l else name @ dot # l)"

definition join_labels :: "bytes list \<Rightarrow> bytes" where
  "join_labels ls = foldl add_label [] ls"

definition normalise :: "bytes \<Rightarrow> bytes" where
  "normalise n = join_labels (labels n)"

definition wf_name :: "bytes \<Rightarrow> bool" where
  "wf_name n \<longleftrightarrow> n = [] \<or> list_all (\<lambda>l. 0 < length l \<and> length l \<le> 63) (split_dots n)"

definition enc_labels :: "bytes list \<Rightarrow> bytes" where
  "enc_labels ls = concat (map (\<lambda>l. of_nat (length l) # l) ls)"

lemma enc_labels_simps [simp]:
  "enc_labels [] = []"
  "enc_labels (l # ls) = of_nat (length l) # l @ enc_labels ls"
  by (simp_all add: enc_labels_def)

lemma split_dots_ne [simp]: "split_dots n \<noteq> []"
  by (cases n) auto

lemma split_dots_step:
  "split_dots n = takeWhile (\<lambda>c. c \<noteq> dot) n #
     (if takeWhile (\<lambda>c. c \<noteq> dot) n = n then []
      else split_dots (drop (Suc (length (takeWhile (\<lambda>c. c \<noteq> dot) n))) n))"
  by (induction n) auto

lemma labels_step:
  "labels n = (let l = takeWhile (\<lambda>c. c \<noteq> dot) n;
                   r = (if l = n then [] else labels (drop (Suc (length l)) n))
               in if l = [] then r else l # r)"
  unfolding labels_def Let_def split_dots_step [of n] by simp

lemma no_dot_split: "l \<in> set (split_dots n) \<Longrightarrow> dot \<notin> set l"
proof (induction n arbitrary: l)
  case Nil
  then show ?case by simp
next
  case (Cons c n)
  obtain m ms where "split_dots n = m # ms" by (cases "split_dots n") auto
  with Cons show ?case by (cases "c = dot") fastforce+
qed

lemma labels_nonempty: "l \<in> set (labels n) \<Longrightarrow> l \<noteq> []"
  by (simp add: labels_def)

section \<open>nameToWire writes the labels\<close>

lemma name_to_wire_loop_eq:
  "name_to_wire_loop out rest =
     (if \<exists>l \<in> set (labels rest). 63 < length l then Inl Label_Too_Long
      else Inr (out @ enc_labels (labels rest) @ [0]))"
proof (induction out rest rule: name_to_wire_loop.induct)
  case (1 out rest)
  let ?l = "takeWhile (\<lambda>c. c \<noteq> dot) rest"
  show ?case
  proof (cases "63 < length ?l")
    case True
    then have "?l \<noteq> []" by auto
    then have "?l \<in> set (labels rest)" by (subst labels_step) (simp add: Let_def)
    with True show ?thesis by (subst name_to_wire_loop.simps) (auto simp: Let_def)
  next
    case False
    let ?out' = "if 0 < length ?l then out @ of_nat (length ?l) # ?l else out"
    show ?thesis
    proof (cases "?l = rest")
      case True
      then have "labels rest = (if rest = [] then [] else [rest])"
        using labels_step [of rest] unfolding True Let_def by simp
      with True False show ?thesis
        by (subst name_to_wire_loop.simps) (simp add: Let_def)
    next
      case more: False
      let ?rest = "drop (length ?l + 1) rest"
      have step: "name_to_wire_loop out rest = name_to_wire_loop ?out' ?rest"
        unfolding name_to_wire_loop.simps [of out rest] Let_def using False more by simp
      have lab: "labels rest = (if ?l = [] then labels ?rest else ?l # labels ?rest)"
        using labels_step [of rest] more by (cases "rest = []") (simp_all add: Let_def)
      have ih: "name_to_wire_loop ?out' ?rest =
          (if \<exists>l \<in> set (labels ?rest). 63 < length l then Inl Label_Too_Long
           else Inr (?out' @ enc_labels (labels ?rest) @ [0]))"
        by (rule "1") (use False more in auto)
      show ?thesis unfolding step ih lab using False by simp
    qed
  qed
qed

lemma nameToWire_eq:
  "nameToWire n =
     (if \<exists>l \<in> set (labels n). 63 < length l then Inl Label_Too_Long
      else Inr (enc_labels (labels n) @ [0]))"
proof (cases "n = [dot] \<or> n = []")
  case True
  then have "labels n = []" by (auto simp: labels_def)
  with True show ?thesis by (simp add: nameToWire_def)
next
  case False
  then show ?thesis by (simp add: nameToWire_def name_to_wire_loop_eq)
qed

section \<open>wireToName reads labels back\<close>

lemma len_byte_wide:
  assumes "0 < n" "n \<le> 191"
  shows "(of_nat n :: u8) \<noteq> 0" "(of_nat n :: u8) AND 0xC0 \<noteq> 0xC0" "unat (of_nat n :: u8) = n"
proof -
  show n: "unat (of_nat n :: u8) = n"
    using assms by (simp add: unat_of_nat)
  show "(of_nat n :: u8) \<noteq> 0" using n assms by (metis less_numeral_extra(3) unsigned_0)
  show "(of_nat n :: u8) AND 0xC0 \<noteq> 0xC0"
  proof
    assume a: "(of_nat n :: u8) AND 0xC0 = 0xC0"
    have "(of_nat n :: u8) AND 0xC0 \<le> of_nat n" by (rule word_and_le2)
    with a n assms show False by (simp add: word_le_nat_alt)
  qed
qed

lemma len_byte:
  assumes "0 < n" "n \<le> 63"
  shows "(of_nat n :: u8) \<noteq> 0" "(of_nat n :: u8) AND 0xC0 \<noteq> 0xC0" "unat (of_nat n :: u8) = n"
  using len_byte_wide [of n] assms by auto

lemma wire_to_name_loop_label:
  assumes "0 < length l" "length l \<le> 63"
    and "data = pre @ of_nat (length l) # l @ post" "length pre + 1 + length l \<le> e"
  shows "wire_to_name_loop data e (length pre) name saved jumps
       = wire_to_name_loop data e (length pre + 1 + length l) (add_label name l) saved jumps"
proof -
  have "read_bytes data (length (pre @ [of_nat (length l)])) (length l) = Inr l"
    using assms(3) read_bytes_append [of "pre @ [of_nat (length l)]" l post] by simp
  with assms len_byte [OF assms(1,2)] show ?thesis
    by (subst wire_to_name_loop.simps) (simp add: add_label_def)
qed

lemma wire_to_name_loop_enc:
  "\<forall>l \<in> set ls. 0 < length l \<and> length l \<le> 63 \<Longrightarrow> data = pre @ enc_labels ls @ 0 # post \<Longrightarrow>
    length pre + length (enc_labels ls) + 1 \<le> e \<Longrightarrow>
    wire_to_name_loop data e (length pre) name saved jumps
      = Inr (foldl add_label name ls,
             case saved of None \<Rightarrow> length pre + length (enc_labels ls) + 1 | Some q \<Rightarrow> q)"
proof (induction ls arbitrary: pre name)
  case Nil
  then show ?case by (subst wire_to_name_loop.simps) (auto split: option.splits)
next
  case (Cons l ls)
  have "wire_to_name_loop data e (length pre) name saved jumps
      = wire_to_name_loop data e (length (pre @ of_nat (length l) # l)) (add_label name l) saved jumps"
    using Cons.prems wire_to_name_loop_label [of l data pre "enc_labels ls @ 0 # post" e] by simp
  also have "\<dots> = Inr (foldl add_label (add_label name l) ls,
      case saved of None \<Rightarrow> length (pre @ of_nat (length l) # l) + length (enc_labels ls) + 1 | Some q \<Rightarrow> q)"
    using Cons.prems by (intro Cons.IH) auto
  finally show ?case by (simp add: add.assoc split: option.splits)
qed

lemma wireToName_nameToWire:
  assumes "nameToWire n = Inr w" "data = pre @ w @ post" "length pre + length w \<le> e"
  shows "wireToName data e (length pre) = Inr (normalise n, length pre + length w)"
proof -
  have w: "w = enc_labels (labels n) @ [0]" and ls: "\<forall>l \<in> set (labels n). length l \<le> 63"
    using assms(1) by (auto simp: nameToWire_eq not_less split: if_splits)
  then show ?thesis
    using assms(2,3) wire_to_name_loop_enc [of "labels n" data pre post e "[]" None 0] labels_nonempty
    by (auto simp: wireToName_def normalise_def join_labels_def)
qed

section \<open>Well-formed names\<close>

lemma foldl_add_label:
  "name \<noteq> [] \<Longrightarrow> foldl add_label name ls = name @ concat (map (\<lambda>l. dot # l) ls)"
  by (induction ls arbitrary: name) (auto simp: add_label_def)

lemma concat_split_dots: "dot # n = concat (map (\<lambda>l. dot # l) (split_dots n))"
proof (induction n)
  case Nil
  then show ?case by simp
next
  case (Cons c n)
  then show ?case by (cases "split_dots n") auto
qed

lemma normalise_wf: "wf_name n \<Longrightarrow> normalise n = n"
proof (cases "n = []")
  case True
  then show ?thesis by (simp add: normalise_def labels_def join_labels_def)
next
  case False
  assume "wf_name n"
  with False have all: "\<forall>l \<in> set (split_dots n). l \<noteq> []" by (auto simp: wf_name_def list_all_iff)
  then have ls: "labels n = split_dots n" by (simp add: labels_def filter_id_conv)
  obtain l ls' where sp: "split_dots n = l # ls'" by (cases "split_dots n") auto
  with all have "l \<noteq> []" by auto
  with concat_split_dots [of n] sp ls show ?thesis
    by (simp add: normalise_def join_labels_def add_label_def foldl_add_label)
qed

lemma wf_name_wire: "wf_name n \<Longrightarrow> \<exists>w. nameToWire n = Inr w"
  by (auto simp: nameToWire_eq wf_name_def list_all_iff labels_def)

text \<open>The encoder of a name, for names that \<open>nameToWire\<close> accepts.\<close>

definition name_wire :: "bytes \<Rightarrow> bytes" where
  "name_wire n = enc_labels (labels n) @ [0]"

lemma nameToWire_wf: "wf_name n \<Longrightarrow> nameToWire n = Inr (name_wire n)"
  using wf_name_wire [of n] by (auto simp: nameToWire_eq name_wire_def split: if_splits)

interpretation name_codec: buffer_codec name_wire wireToName wf_name
proof (unfold_locales, goal_cases)
  case (1 x data pre post)
  then show ?case
    using wireToName_nameToWire [of x "name_wire x" data pre post "length data"] nameToWire_wf [of x]
    by (simp add: normalise_wf)
qed

end
