(* ===== verification/Dns_Message.thy ===== *)
theory Dns_Message
  imports Dns_Name
begin

text \<open>
  Messages: the structs of \<open>src/dns_protocol.hpp\<close>, and \<open>DnsMessage::parse\<close>, \<open>pack\<close>,
  \<open>createQuery\<close>, \<open>createReply\<close>, \<open>createError\<close> and \<open>copy\<close> of \<open>src/dns_protocol.cpp\<close>.
  \<open>parse\<close> throws a \<open>dns_error\<close>; an access outside the message is \<open>Bad_Access\<close>. \<open>pack\<close>
  first computes the size of the buffer and then writes at a running position, here with
  checked writes.
\<close>

section \<open>The header and its flag bits\<close>

record dns_header =
  hid :: u16
  flags :: u16
  qdcount :: u16
  ancount :: u16
  nscount :: u16
  arcount :: u16

definition hdr_qr :: "dns_header \<Rightarrow> bool" where
  "hdr_qr h \<longleftrightarrow> drop_bit 15 (flags h) AND 1 = 1"
definition hdr_opcode :: "dns_header \<Rightarrow> u8" where
  "hdr_opcode h = ucast (drop_bit 11 (flags h) AND 0xF)"
definition hdr_aa :: "dns_header \<Rightarrow> bool" where
  "hdr_aa h \<longleftrightarrow> drop_bit 10 (flags h) AND 1 = 1"
definition hdr_tc :: "dns_header \<Rightarrow> bool" where
  "hdr_tc h \<longleftrightarrow> drop_bit 9 (flags h) AND 1 = 1"
definition hdr_rd :: "dns_header \<Rightarrow> bool" where
  "hdr_rd h \<longleftrightarrow> drop_bit 8 (flags h) AND 1 = 1"
definition hdr_ra :: "dns_header \<Rightarrow> bool" where
  "hdr_ra h \<longleftrightarrow> drop_bit 7 (flags h) AND 1 = 1"
definition hdr_rcode :: "dns_header \<Rightarrow> u8" where
  "hdr_rcode h = ucast (flags h AND 0xF)"

definition setQr :: "bool \<Rightarrow> dns_header \<Rightarrow> dns_header" where
  "setQr v h = h\<lparr>flags := (flags h AND NOT 0x8000) OR push_bit 15 (of_bool v)\<rparr>"
definition setOpcode :: "u8 \<Rightarrow> dns_header \<Rightarrow> dns_header" where
  "setOpcode v h = h\<lparr>flags := (flags h AND NOT 0x7800) OR push_bit 11 (ucast (v AND 0xF))\<rparr>"
definition setAa :: "bool \<Rightarrow> dns_header \<Rightarrow> dns_header" where
  "setAa v h = h\<lparr>flags := (flags h AND NOT 0x0400) OR push_bit 10 (of_bool v)\<rparr>"
definition setTc :: "bool \<Rightarrow> dns_header \<Rightarrow> dns_header" where
  "setTc v h = h\<lparr>flags := (flags h AND NOT 0x0200) OR push_bit 9 (of_bool v)\<rparr>"
definition setRd :: "bool \<Rightarrow> dns_header \<Rightarrow> dns_header" where
  "setRd v h = h\<lparr>flags := (flags h AND NOT 0x0100) OR push_bit 8 (of_bool v)\<rparr>"
definition setRa :: "bool \<Rightarrow> dns_header \<Rightarrow> dns_header" where
  "setRa v h = h\<lparr>flags := (flags h AND NOT 0x0080) OR push_bit 7 (of_bool v)\<rparr>"
definition setRcode :: "u8 \<Rightarrow> dns_header \<Rightarrow> dns_header" where
  "setRcode v h = h\<lparr>flags := (flags h AND NOT 0x000F) OR ucast (v AND 0xF)\<rparr>"

lemma getters_bit:
  "hdr_qr h \<longleftrightarrow> bit (flags h) 15" "hdr_aa h \<longleftrightarrow> bit (flags h) 10" "hdr_tc h \<longleftrightarrow> bit (flags h) 9"
  "hdr_rd h \<longleftrightarrow> bit (flags h) 8" "hdr_ra h \<longleftrightarrow> bit (flags h) 7"
  by (simp_all add: hdr_qr_def hdr_aa_def hdr_tc_def hdr_rd_def hdr_ra_def bit_iff_and_drop_bit_eq_1)

lemma flag_masks: "(0x8000::u16) = 2^15" "(0x400::u16) = 2^10" "(0x200::u16)=2^9" "(0x100::u16) = 2^8" "(0x80::u16) = 2^7"
  by simp_all

lemma setters_bit:
  "n < 16 \<Longrightarrow> bit (flags (setQr v h)) n \<longleftrightarrow> (if n = 15 then v else bit (flags h) n)"
  "n < 16 \<Longrightarrow> bit (flags (setAa v h)) n \<longleftrightarrow> (if n = 10 then v else bit (flags h) n)"
  "n < 16 \<Longrightarrow> bit (flags (setTc v h)) n \<longleftrightarrow> (if n = 9 then v else bit (flags h) n)"
  "n < 16 \<Longrightarrow> bit (flags (setRd v h)) n \<longleftrightarrow> (if n = 8 then v else bit (flags h) n)"
  "n < 16 \<Longrightarrow> bit (flags (setRa v h)) n \<longleftrightarrow> (if n = 7 then v else bit (flags h) n)"
  unfolding setQr_def setAa_def setTc_def setRd_def setRa_def flag_masks
  by (auto simp: bit_or_iff bit_and_iff bit_not_iff bit_push_bit_iff bit_exp_iff bit_1_iff simp del: power_numeral)

lemma setRcode_bit:
  "n < 16 \<Longrightarrow> bit (flags (setRcode v h)) n \<longleftrightarrow> (if n < 4 then bit v n else bit (flags h) n)"
proof -
  have m: "(0xF :: u16) = mask 4" "(0xF :: u8) = mask 4" by (simp_all add: mask_eq_exp_minus_1)
  show "n < 16 \<Longrightarrow> ?thesis"
    unfolding setRcode_def m
    by (auto simp: bit_or_iff bit_and_iff bit_not_iff bit_mask_iff bit_ucast_iff simp del: mask_numeral dest: bit_imp_le_length)
qed

lemma hdr_rcode_bit: "bit (hdr_rcode h) n \<longleftrightarrow> n < 4 \<and> bit (flags h) n"
  by (auto simp: hdr_rcode_def bit_and_iff bit_ucast_iff dest: bit_imp_le_length)

lemma rcode_setRcode: "hdr_rcode (setRcode v h) = v AND 0xF"
  by (rule bit_word_eqI) (auto simp: hdr_rcode_bit setRcode_bit bit_and_iff)
lemma rcode_setQr_setRa: "hdr_rcode (setQr v h) = hdr_rcode h" "hdr_rcode (setRa v h) = hdr_rcode h"
  by (rule bit_word_eqI; auto simp: hdr_rcode_bit setters_bit)+
lemma hdr_opcode_bit: "bit (hdr_opcode h) n \<longleftrightarrow> n < 4 \<and> bit (flags h) (n + 11)"
  by (auto simp: hdr_opcode_def bit_and_iff bit_ucast_iff bit_drop_bit_eq add.commute dest: bit_imp_le_length)

section \<open>Questions, records, messages\<close>

record dns_question =
  qname :: bytes
  qtype :: u16
  qclass :: u16

record dns_rr =
  rr_name :: bytes
  rr_type :: u16
  rr_class :: u16
  rr_ttl :: u32
  rr_rdata :: bytes

record dns_message =
  header :: dns_header
  questions :: "dns_question list"
  answers :: "dns_rr list"
  authorities :: "dns_rr list"
  additionals :: "dns_rr list"

definition type_A :: u16 where "type_A = 1"
definition type_NS :: u16 where "type_NS = 2"
definition type_CNAME :: u16 where "type_CNAME = 5"
definition type_SOA :: u16 where "type_SOA = 6"
definition type_PTR :: u16 where "type_PTR = 12"
definition type_MX :: u16 where "type_MX = 15"
definition type_AAAA :: u16 where "type_AAAA = 28"

lemmas type_defs = type_A_def type_NS_def type_CNAME_def type_SOA_def type_PTR_def
  type_MX_def type_AAAA_def

definition rcode_FormErr :: u8 where "rcode_FormErr = 1"
definition rcode_ServFail :: u8 where "rcode_ServFail = 2"
definition rcode_NXDomain :: u8 where "rcode_NXDomain = 3"
definition rcode_Refused :: u8 where "rcode_Refused = 5"

lemmas rcode_defs = rcode_FormErr_def rcode_ServFail_def rcode_NXDomain_def rcode_Refused_def

section \<open>parse\<close>

definition parse_header :: "bytes \<Rightarrow> nat \<Rightarrow> (dns_header \<times> nat) dns_result" where
  "parse_header data p =
     bindE (readU16 data p) (\<lambda>i. bindE (readU16 data (p + 2)) (\<lambda>fl.
     bindE (readU16 data (p + 4)) (\<lambda>qd. bindE (readU16 data (p + 6)) (\<lambda>an.
     bindE (readU16 data (p + 8)) (\<lambda>ns. bindE (readU16 data (p + 10)) (\<lambda>ar.
       Inr (\<lparr>hid = i, flags = fl, qdcount = qd, ancount = an, nscount = ns, arcount = ar\<rparr>, p + 12)))))))"

definition parse_question :: "bytes \<Rightarrow> nat \<Rightarrow> nat \<Rightarrow> (dns_question \<times> nat) dns_result" where
  "parse_question data e p =
     bindE (wireToName data e p) (\<lambda>(n, p).
       if e < p + 4 then Inl Truncated_Question
       else bindE (readU16 data p) (\<lambda>t. bindE (readU16 data (p + 2)) (\<lambda>c.
         Inr (\<lparr>qname = n, qtype = t, qclass = c\<rparr>, p + 4))))"

text \<open>
  The \<open>switch\<close> on the record type that decompresses names in the RDATA. In the SOA case
  \<open>remaining\<close> is a \<open>size_t\<close>: the subtraction wraps around when the two names reach past
  the RDATA.
\<close>

definition parse_rdata_name :: "bytes \<Rightarrow> nat \<Rightarrow> nat \<Rightarrow> bytes dns_result" where
  "parse_rdata_name data e rdStart =
     bindE (wireToName data e rdStart) (\<lambda>(n, np). nameToWire n)"

definition parse_rdata_mx :: "bytes \<Rightarrow> nat \<Rightarrow> nat \<Rightarrow> u16 \<Rightarrow> bytes dns_result" where
  "parse_rdata_mx data e rdStart rdlen =
     (if rdlen < 2 then Inl Truncated_MX
      else bindE (readU16 data rdStart) (\<lambda>pref.
           bindE (wireToName data e (rdStart + 2)) (\<lambda>(n, np).
           bindE (nameToWire n) (\<lambda>w. Inr (writeU16 pref @ w)))))"

definition parse_rdata_soa :: "bytes \<Rightarrow> nat \<Rightarrow> nat \<Rightarrow> u16 \<Rightarrow> bytes dns_result" where
  "parse_rdata_soa data e rdStart rdlen =
     bindE (wireToName data e rdStart) (\<lambda>(mname, np).
     bindE (wireToName data e np) (\<lambda>(rname, np).
       let remaining = (ucast rdlen - (of_nat np - of_nat rdStart) :: u64)
       in if remaining < 20 then Inl Truncated_SOA
          else bindE (nameToWire mname) (\<lambda>wm.
               bindE (nameToWire rname) (\<lambda>wr.
               bindE (read_bytes data np 20) (\<lambda>tail. Inr (wm @ wr @ tail))))))"

definition parse_rdata :: "bytes \<Rightarrow> nat \<Rightarrow> u16 \<Rightarrow> nat \<Rightarrow> u16 \<Rightarrow> bytes dns_result" where
  "parse_rdata data e t rdStart rdlen =
     (if t = type_CNAME \<or> t = type_NS \<or> t = type_PTR then parse_rdata_name data e rdStart
      else if t = type_MX then parse_rdata_mx data e rdStart rdlen
      else if t = type_SOA then parse_rdata_soa data e rdStart rdlen
      else read_bytes data rdStart (unat rdlen))"

definition parse_rr :: "bytes \<Rightarrow> nat \<Rightarrow> nat \<Rightarrow> (dns_rr \<times> nat) dns_result" where
  "parse_rr data e p =
     bindE (wireToName data e p) (\<lambda>(n, p).
       if e < p + 10 then Inl Truncated_RR
       else bindE (readU16 data p) (\<lambda>t. bindE (readU16 data (p + 2)) (\<lambda>c.
            bindE (readU32 data (p + 4)) (\<lambda>ttl. bindE (readU16 data (p + 8)) (\<lambda>rdlen.
              if e < p + 10 + unat rdlen then Inl Truncated_RDLEN
              else bindE (parse_rdata data e t (p + 10) rdlen) (\<lambda>rd.
                Inr (\<lparr>rr_name = n, rr_type = t, rr_class = c, rr_ttl = ttl, rr_rdata = rd\<rparr>,
                     p + 10 + unat rdlen)))))))"

text \<open>The four section loops; the three record loops are the same code.\<close>

definition parse_questions where
  "parse_questions data e h p = read_many (parse_question data e) (unat (qdcount h)) p"
definition parse_answers where
  "parse_answers data e h p = read_many (parse_rr data e) (unat (ancount h)) p"
definition parse_authorities where
  "parse_authorities data e h p = read_many (parse_rr data e) (unat (nscount h)) p"
definition parse_additionals where
  "parse_additionals data e h p = read_many (parse_rr data e) (unat (arcount h)) p"

text \<open>\<open>parse(data, len)\<close>: the memory behind \<open>data\<close> may be shorter than the \<open>len\<close> that the caller
  passes; every caller but the HTTP client passes the size of its buffer.\<close>

definition parse_span :: "bytes \<Rightarrow> nat \<Rightarrow> dns_message dns_result" where
  "parse_span data e =
     (if e < 12 then Inl Truncated_Header
      else bindE (parse_header data 0) (\<lambda>(h, p).
        bindE (parse_questions data e h p) (\<lambda>(qs, p).
        bindE (parse_answers data e h p) (\<lambda>(an, p).
        bindE (parse_authorities data e h p) (\<lambda>(ns, p).
        bindE (parse_additionals data e h p) (\<lambda>(ar, p).
          Inr \<lparr>header = h, questions = qs, answers = an, authorities = ns, additionals = ar\<rparr>))))))"

definition parse :: "bytes \<Rightarrow> dns_message dns_result" where
  "parse data = parse_span data (length data)"

lemmas parse_unfold = parse_def [unfolded parse_span_def]

section \<open>pack\<close>

fun questions_size :: "dns_question list \<Rightarrow> nat dns_result" where
  "questions_size [] = Inr 0"
| "questions_size (q # qs) =
     bindE (nameToWire (qname q)) (\<lambda>w. bindE (questions_size qs) (\<lambda>n. Inr (length w + 4 + n)))"

fun rrs_size :: "dns_rr list \<Rightarrow> nat dns_result" where
  "rrs_size [] = Inr 0"
| "rrs_size (rr # rrs) =
     bindE (nameToWire (rr_name rr)) (\<lambda>w. bindE (rrs_size rrs)
       (\<lambda>n. Inr (length w + 10 + length (rr_rdata rr) + n)))"

definition pack_size :: "dns_message \<Rightarrow> nat dns_result" where
  "pack_size m =
     bindE (questions_size (questions m)) (\<lambda>q. bindE (rrs_size (answers m)) (\<lambda>a.
     bindE (rrs_size (authorities m)) (\<lambda>n. bindE (rrs_size (additionals m)) (\<lambda>r.
       Inr (12 + q + a + n + r)))))"

text \<open>A checked write of some bytes at the running position, which moves behind them.\<close>

fun put :: "bytes \<Rightarrow> bytes \<times> nat \<Rightarrow> (bytes \<times> nat) dns_result" where
  "put bs (buf, p) =
     (if p + length bs \<le> length buf
      then Inr (take p buf @ bs @ drop (p + length bs) buf, p + length bs) else Inl Bad_Access)"

fun put_questions :: "dns_question list \<Rightarrow> bytes \<times> nat \<Rightarrow> (bytes \<times> nat) dns_result" where
  "put_questions [] s = Inr s"
| "put_questions (q # qs) s =
     bindE (nameToWire (qname q)) (\<lambda>w. bindE (put w s) (\<lambda>s.
     bindE (put (writeU16 (qtype q)) s) (\<lambda>s. bindE (put (writeU16 (qclass q)) s)
       (put_questions qs))))"

fun put_rrs :: "dns_rr list \<Rightarrow> bytes \<times> nat \<Rightarrow> (bytes \<times> nat) dns_result" where
  "put_rrs [] s = Inr s"
| "put_rrs (rr # rrs) s =
     bindE (nameToWire (rr_name rr)) (\<lambda>w. bindE (put w s) (\<lambda>s.
     bindE (put (writeU16 (rr_type rr)) s) (\<lambda>s. bindE (put (writeU16 (rr_class rr)) s) (\<lambda>s.
     bindE (put (writeU32 (rr_ttl rr)) s) (\<lambda>s.
     bindE (put (writeU16 (of_nat (length (rr_rdata rr)))) s) (\<lambda>s.
     bindE (put (rr_rdata rr) s) (put_rrs rrs)))))))"

definition put_header :: "dns_message \<Rightarrow> bytes \<times> nat \<Rightarrow> (bytes \<times> nat) dns_result" where
  "put_header m s =
     bindE (put (writeU16 (hid (header m))) s) (\<lambda>s. bindE (put (writeU16 (flags (header m))) s) (\<lambda>s.
     bindE (put (writeU16 (of_nat (length (questions m)))) s) (\<lambda>s.
     bindE (put (writeU16 (of_nat (length (answers m)))) s) (\<lambda>s.
     bindE (put (writeU16 (of_nat (length (authorities m)))) s) (\<lambda>s.
       put (writeU16 (of_nat (length (additionals m)))) s)))))"

definition pack :: "dns_message \<Rightarrow> bytes dns_result" where
  "pack m =
     bindE (pack_size m) (\<lambda>size.
     bindE (put_header m (replicate size 0, 0)) (\<lambda>s.
     bindE (put_questions (questions m) s) (\<lambda>s. bindE (put_rrs (answers m) s) (\<lambda>s.
     bindE (put_rrs (authorities m) s) (\<lambda>s. bindE (put_rrs (additionals m) s)
       (\<lambda>s. Inr (fst s)))))))"

section \<open>Building messages\<close>

definition copy :: "dns_message \<Rightarrow> dns_message" where
  "copy m = \<lparr>header = header m, questions = questions m, answers = answers m,
             authorities = authorities m, additionals = additionals m\<rparr>"

definition empty_header :: dns_header where
  "empty_header = \<lparr>hid = 0, flags = 0, qdcount = 0, ancount = 0, nscount = 0, arcount = 0\<rparr>"

definition createQuery :: "bytes \<Rightarrow> u16 \<Rightarrow> u16 \<Rightarrow> dns_message" where
  "createQuery name t c =
     \<lparr>header = (setRd True empty_header)\<lparr>qdcount := 1\<rparr>,
      questions = [\<lparr>qname = name, qtype = t, qclass = c\<rparr>],
      answers = [], authorities = [], additionals = []\<rparr>"

definition createReply :: "dns_message \<Rightarrow> dns_message" where
  "createReply query =
     (let m = copy query in
      m\<lparr>header := (setRa True (setQr True (header m)))\<lparr>ancount := 0, nscount := 0, arcount := 0\<rparr>,
        answers := [], authorities := [], additionals := []\<rparr>)"

definition createError :: "dns_message \<Rightarrow> u8 \<Rightarrow> dns_message" where
  "createError query rcode =
     (let m = createReply query in m\<lparr>header := setRcode rcode (header m)\<rparr>)"

lemma hdr_flags_createReply: "flags (header (createReply m)) = flags (setRa True (setQr True (header m)))"
  by (simp add: createReply_def copy_def Let_def)

lemma getters_cong:
  "flags h = flags h' \<Longrightarrow> hdr_qr h = hdr_qr h' \<and> hdr_ra h = hdr_ra h' \<and> hdr_rd h = hdr_rd h' \<and> hdr_rcode h = hdr_rcode h'"
  by (simp add: hdr_qr_def hdr_ra_def hdr_rd_def hdr_rcode_def)

lemma reply_facts:
  "hid (header (createReply m)) = hid (header m) \<and> questions (createReply m) = questions m
    \<and> hdr_qr (header (createReply m)) \<and> hdr_ra (header (createReply m))
    \<and> hdr_rd (header (createReply m)) = hdr_rd (header m)
    \<and> answers (createReply m) = [] \<and> authorities (createReply m) = [] \<and> additionals (createReply m) = []
    \<and> hdr_rcode (header (createReply m)) = hdr_rcode (header m)
    \<and> createError m r = (createReply m)\<lparr>header := setRcode r (header (createReply m))\<rparr>
    \<and> hdr_rcode (header (createError m r)) = r AND 0xF"
proof -
  note flags = getters_cong [OF hdr_flags_createReply [of m]]
  have "hid (header (createReply m)) = hid (header m)" by (simp add: createReply_def copy_def Let_def setRa_def setQr_def)
  moreover have "hdr_rd (setRa True (setQr True h)) = hdr_rd h" for h by (simp add: getters_bit setters_bit)
  moreover have "hdr_qr (setRa True (setQr True h))" "hdr_ra (setRa True (setQr True h))" for h
    by (simp_all add: getters_bit setters_bit)
  moreover have "hdr_rcode (header (createError m r)) = r AND 0xF"
    by (simp add: createError_def Let_def rcode_setRcode)
  ultimately show ?thesis using flags rcode_setQr_setRa
    by (simp add: createReply_def copy_def createError_def Let_def)
qed

end
