(* ===== verification/Dns_Codec.thy ===== *)
theory Dns_Codec
  imports Dns_Message
begin

text \<open>
  What the parser and the packer of \<open>Dns_Message\<close> guarantee: the readers of questions and
  records stay within the message (\<open>bounded_reader\<close>), with one exception, the SOA branch;
  \<open>pack\<close> fills exactly the buffer it allocates with the concatenated encodings; and
  \<open>parse\<close> inverts \<open>pack\<close> (\<open>buffer_codec\<close> for questions and for records).
\<close>

section \<open>The readers stay within the message\<close>

lemma parse_question_result:
  assumes "e \<le> length data" "parse_question data e p = Inr (q, r)"
  shows "p \<le> r \<and> r \<le> e"
  using assms wireToName_within [OF assms(1)]
  by (fastforce simp: parse_question_def exc_simps split: if_splits)

lemma parse_question_safe:
  assumes "e \<le> length data" "p \<le> e"
  shows "parse_question data e p \<noteq> Inl Bad_Access"
proof
  assume "parse_question data e p = Inl Bad_Access"
  moreover have "wireToName data e p \<noteq> Inl Bad_Access"
    using name_reader.read_bad [OF assms] by blast
  ultimately obtain n r where "wireToName data e p = Inr (n, r)" "r + 4 \<le> e"
    by (auto simp: parse_question_def exc_simps not_less split: if_splits)
  with assms \<open>parse_question data e p = Inl Bad_Access\<close>
    readU16_safe [of r data] readU16_safe [of "r + 2" data]
  show False by (auto simp: parse_question_def)
qed

interpretation question_reader: bounded_reader parse_question Bad_Access "\<lambda>_ _ _. False"
  by unfold_locales (auto dest: parse_question_safe parse_question_result)

text \<open>
  The one way out of the message: an SOA record whose two names end behind its RDATA, within
  the last twenty bytes of the message.
\<close>

definition soa_overread :: "bytes \<Rightarrow> nat \<Rightarrow> nat \<Rightarrow> bool" where
  "soa_overread data e p =
     (case wireToName data e p of Inl _ \<Rightarrow> False
      | Inr (n, q) \<Rightarrow> readU16 data q = Inr type_SOA \<and>
        (case readU16 data (q + 8) of Inl _ \<Rightarrow> False
         | Inr rdlen \<Rightarrow>
           (case wireToName data e (q + 10) of Inl _ \<Rightarrow> False
            | Inr (mname, np) \<Rightarrow>
              (case wireToName data e np of Inl _ \<Rightarrow> False
               | Inr (rname, np') \<Rightarrow> q + 10 + unat rdlen < np' \<and> length data < np' + 20))))"

lemma name_safe: "e \<le> length data \<Longrightarrow> p \<le> e \<Longrightarrow> wireToName data e p \<noteq> Inl Bad_Access"
  using name_reader.read_bad by blast

lemma nameToWire_safe: "nameToWire n \<noteq> Inl Bad_Access"
  by (simp add: nameToWire_eq)

lemma soa_remaining:
  fixes rdlen :: u16
  assumes "rdStart \<le> np" "np \<le> rdStart + unat rdlen"
    and "\<not> (ucast rdlen - (of_nat np - of_nat rdStart) :: u64) < 20"
  shows "np + 20 \<le> rdStart + unat rdlen"
proof -
  define k where "k = rdStart + unat rdlen - np"
  have "(ucast rdlen - (of_nat np - of_nat rdStart) :: u64) = of_nat k"
    using assms(1,2) by (simp add: k_def of_nat_diff)
  moreover have "k < 65536" using unat_u16_less [of rdlen] assms(1,2) by (simp add: k_def)
  then have "unat (of_nat k :: u64) = k" by (simp add: unat_of_nat)
  ultimately have "20 \<le> k" using assms(3) by (simp add: word_less_nat_alt)
  then show ?thesis by (simp add: k_def)
qed

lemma parse_rdata_soa_bad:
  assumes "e \<le> length data" "rdStart + unat rdlen \<le> e"
    and bad: "parse_rdata_soa data e rdStart rdlen = Inl Bad_Access"
  obtains mname np rname np' where "wireToName data e rdStart = Inr (mname, np)"
    "wireToName data e np = Inr (rname, np')" "rdStart + unat rdlen < np'" "length data < np' + 20"
proof -
  have "rdStart \<le> e" using assms(2) by simp
  with bad obtain mname np where m: "wireToName data e rdStart = Inr (mname, np)"
    using name_safe [OF assms(1)] by (auto simp: parse_rdata_soa_def exc_simps)
  with wireToName_within [OF assms(1) m] bad obtain rname np'
    where r: "wireToName data e np = Inr (rname, np')"
    using name_safe [OF assms(1), of np] by (auto simp: parse_rdata_soa_def exc_simps)
  have rem: "\<not> (ucast rdlen - (of_nat np' - of_nat rdStart) :: u64) < 20"
    and out: "length data < np' + 20"
    using bad m r nameToWire_safe
    by (auto simp: parse_rdata_soa_def Let_def exc_simps read_bytes_def split: if_splits)
  have "rdStart \<le> np'"
    using wireToName_within [OF assms(1) m] wireToName_within [OF assms(1) r] by linarith
  then have "rdStart + unat rdlen < np'"
    using soa_remaining [of rdStart np' rdlen] rem out assms(1,2) by linarith
  with that m r out show thesis by blast
qed

lemma parse_rdata_bad:
  assumes "e \<le> length data" "rdStart + unat rdlen \<le> e"
    and bad: "parse_rdata data e t rdStart rdlen = Inl Bad_Access"
  shows "t = type_SOA \<and> parse_rdata_soa data e rdStart rdlen = Inl Bad_Access"
proof -
  have start: "rdStart \<le> e" using assms(2) by simp
  have "parse_rdata_name data e rdStart \<noteq> Inl Bad_Access"
    using name_safe [OF assms(1) start] nameToWire_safe
    by (auto simp: parse_rdata_name_def exc_simps)
  moreover have "parse_rdata_mx data e rdStart rdlen \<noteq> Inl Bad_Access"
  proof (cases "rdlen < 2")
    case True
    then show ?thesis by (simp add: parse_rdata_mx_def)
  next
    case False
    then have "rdStart + 2 \<le> e" using assms(2) by (simp add: word_less_nat_alt)
    with name_safe [OF assms(1), of "rdStart + 2"] readU16_safe [of rdStart data] assms(1) False
    show ?thesis using nameToWire_safe by (auto simp: parse_rdata_mx_def exc_simps)
  qed
  moreover have "read_bytes data rdStart (unat rdlen) \<noteq> Inl Bad_Access"
    using assms by simp
  ultimately show ?thesis using bad by (auto simp: parse_rdata_def split: if_splits)
qed

lemma parse_rr_result:
  assumes "e \<le> length data" "parse_rr data e p = Inr (rr, r)"
  shows "p \<le> r \<and> r \<le> e"
  using assms wireToName_within [OF assms(1)]
  by (fastforce simp: parse_rr_def exc_simps split: if_splits)

lemma parse_rr_bad:
  assumes "e \<le> length data" "p \<le> e" and bad: "parse_rr data e p = Inl Bad_Access"
  shows "soa_overread data e p"
proof -
  obtain n q where n: "wireToName data e p = Inr (n, q)" "q + 10 \<le> e"
    using bad name_safe [OF assms(1,2)]
    by (auto simp: parse_rr_def exc_simps not_less split: if_splits)
  obtain t c ttl rdlen where
    f: "readU16 data q = Inr t" "readU16 data (q + 2) = Inr c"
       "readU32 data (q + 4) = Inr ttl" "readU16 data (q + 8) = Inr rdlen"
    using readU16_safe [of q data] readU16_safe [of "q + 2" data]
      readU32_safe [of "q + 4" data] readU16_safe [of "q + 8" data] n(2) assms(1)
    by auto
  have len: "q + 10 + unat rdlen \<le> e" and "parse_rdata data e t (q + 10) rdlen = Inl Bad_Access"
    using bad n f by (auto simp: parse_rr_def exc_simps split: if_splits)
  then have "t = type_SOA" "parse_rdata_soa data e (q + 10) rdlen = Inl Bad_Access"
    using parse_rdata_bad [OF assms(1) len] by auto
  with parse_rdata_soa_bad [OF assms(1) len] n f show ?thesis
    by (fastforce simp: soa_overread_def)
qed

interpretation rr_reader: bounded_reader parse_rr Bad_Access soa_overread
  by unfold_locales (auto intro: parse_rr_bad dest: parse_rr_result)

lemma parse_header_ok:
  assumes "12 \<le> length data"
  obtains h where "parse_header data 0 = Inr (h, 12)"
proof -
  have "\<exists>h. parse_header data 0 = Inr (h, 12)"
    using assms by (auto simp: parse_header_def readU16_def byte_at_def)
  then show thesis using that by blast
qed

lemma parse_bad:
  assumes "parse data = Inl Bad_Access"
  shows "\<exists>p \<le> length data. soa_overread data (length data) p"
proof -
  let ?e = "length data"
  have "12 \<le> ?e" using assms by (simp add: parse_unfold split: if_splits)
  then obtain h where h: "parse_header data 0 = Inr (h, 12)" by (rule parse_header_ok)
  note secs = parse_questions_def parse_answers_def parse_authorities_def parse_additionals_def
  have bad: "bindE (parse_questions data ?e h 12) (\<lambda>(qs, p).
      bindE (parse_answers data ?e h p) (\<lambda>(an, p). bindE (parse_authorities data ?e h p) (\<lambda>(ns, p).
      bindE (parse_additionals data ?e h p) (\<lambda>(ar, p).
        Inr \<lparr>header = h, questions = qs, answers = an, authorities = ns, additionals = ar\<rparr>))))
      = Inl Bad_Access"
    using assms h \<open>12 \<le> ?e\<close> by (simp add: parse_unfold Let_def)
  moreover have "parse_questions data ?e h 12 \<noteq> Inl Bad_Access"
    using question_reader.many_bad [of ?e data 12] \<open>12 \<le> ?e\<close> by (auto simp: secs)
  ultimately obtain qs p1 where q: "parse_questions data ?e h 12 = Inr (qs, p1)"
    by (auto simp: bindE_eq_Inl_iff)
  then have p1: "p1 \<le> ?e"
    using question_reader.many_within [of ?e data 12] \<open>12 \<le> ?e\<close> by (auto simp: secs)
  from bad q consider
      (an) "parse_answers data ?e h p1 = Inl Bad_Access"
    | (ns) an p2 where "parse_answers data ?e h p1 = Inr (an, p2)"
        "parse_authorities data ?e h p2 = Inl Bad_Access"
    | (ar) an p2 ns p3 where "parse_answers data ?e h p1 = Inr (an, p2)"
        "parse_authorities data ?e h p2 = Inr (ns, p3)"
        "parse_additionals data ?e h p3 = Inl Bad_Access"
    by (auto simp: bindE_eq_Inl_iff split: prod.splits)
  then show ?thesis
  proof cases
    case an
    with rr_reader.many_bad [of ?e data p1] p1 show ?thesis by (auto simp: secs)
  next
    case ns
    with rr_reader.many_within [of ?e data p1] p1 have "p2 \<le> ?e" by (auto simp: secs)
    with ns(2) rr_reader.many_bad [of ?e data p2] show ?thesis by (auto simp: secs)
  next
    case ar
    with rr_reader.many_within [of ?e data p1] p1 have "p2 \<le> ?e" by (auto simp: secs)
    with ar(2) rr_reader.many_within [of ?e data p2] have "p3 \<le> ?e" by (auto simp: secs)
    with ar(3) rr_reader.many_bad [of ?e data p3] show ?thesis by (auto simp: secs)
  qed
qed

section \<open>pack fills its buffer exactly\<close>

definition enc_question :: "dns_question \<Rightarrow> bytes" where
  "enc_question q = name_wire (qname q) @ writeU16 (qtype q) @ writeU16 (qclass q)"

definition enc_rr :: "dns_rr \<Rightarrow> bytes" where
  "enc_rr rr = name_wire (rr_name rr) @ writeU16 (rr_type rr) @ writeU16 (rr_class rr)
     @ writeU32 (rr_ttl rr) @ writeU16 (of_nat (length (rr_rdata rr))) @ rr_rdata rr"

definition enc_header :: "dns_message \<Rightarrow> bytes" where
  "enc_header m = writeU16 (hid (header m)) @ writeU16 (flags (header m))
     @ writeU16 (of_nat (length (questions m))) @ writeU16 (of_nat (length (answers m)))
     @ writeU16 (of_nat (length (authorities m))) @ writeU16 (of_nat (length (additionals m)))"

definition encode :: "dns_message \<Rightarrow> bytes" where
  "encode m = enc_header m @ concat (map enc_question (questions m)) @ concat (map enc_rr (answers m))
     @ concat (map enc_rr (authorities m)) @ concat (map enc_rr (additionals m))"

definition sendable :: "bytes \<Rightarrow> bool" where
  "sendable n \<longleftrightarrow> list_all (\<lambda>l. length l \<le> 63) (labels n)"

definition all_sendable :: "dns_message \<Rightarrow> bool" where
  "all_sendable m \<longleftrightarrow> list_all (\<lambda>q. sendable (qname q)) (questions m)
     \<and> list_all (\<lambda>r. sendable (rr_name r)) (answers m @ authorities m @ additionals m)"

lemma nameToWire_sendable:
  "nameToWire n = (if sendable n then Inr (name_wire n) else Inl Label_Too_Long)"
  by (simp add: nameToWire_eq sendable_def name_wire_def list_all_iff not_less Bex_def)
     (metis linorder_not_le)

lemma length_enc_question: "length (enc_question q) = length (name_wire (qname q)) + 4"
  by (simp add: enc_question_def)

lemma length_enc_rr:
  "length (enc_rr rr) = length (name_wire (rr_name rr)) + 10 + length (rr_rdata rr)"
  by (simp add: enc_rr_def)

lemma questions_size_eq:
  "questions_size qs = (if list_all (\<lambda>q. sendable (qname q)) qs
     then Inr (length (concat (map enc_question qs))) else Inl Label_Too_Long)"
  by (induction qs) (auto simp: nameToWire_sendable length_enc_question)

lemma rrs_size_eq:
  "rrs_size rrs = (if list_all (\<lambda>r. sendable (rr_name r)) rrs
     then Inr (length (concat (map enc_rr rrs))) else Inl Label_Too_Long)"
  by (induction rrs) (auto simp: nameToWire_sendable length_enc_rr)

lemma length_enc_header [simp]: "length (enc_header m) = 12"
  by (simp add: enc_header_def)

lemma pack_size_eq:
  "pack_size m = (if all_sendable m then Inr (length (encode m)) else Inl Label_Too_Long)"
  by (auto simp: pack_size_def questions_size_eq rrs_size_eq all_sendable_def encode_def)

text \<open>The buffer while it is filled: what has been written, then \<open>n\<close> bytes still zero.\<close>

definition filled :: "bytes \<Rightarrow> nat \<Rightarrow> bytes \<times> nat" where
  "filled out n = (out @ replicate n 0, length out)"

lemma put_filled [simp]:
  "length bs \<le> n \<Longrightarrow> put bs (filled out n) = Inr (filled (out @ bs) (n - length bs))"
  by (simp add: filled_def)

lemma put_questions_filled:
  "list_all (\<lambda>q. sendable (qname q)) qs \<Longrightarrow> length (concat (map enc_question qs)) \<le> n \<Longrightarrow>
    put_questions qs (filled out n)
      = Inr (filled (out @ concat (map enc_question qs)) (n - length (concat (map enc_question qs))))"
  by (induction qs arbitrary: out n) (auto simp: nameToWire_sendable enc_question_def algebra_simps)

lemma put_rrs_filled:
  "list_all (\<lambda>r. sendable (rr_name r)) rrs \<Longrightarrow> length (concat (map enc_rr rrs)) \<le> n \<Longrightarrow>
    put_rrs rrs (filled out n)
      = Inr (filled (out @ concat (map enc_rr rrs)) (n - length (concat (map enc_rr rrs))))"
  by (induction rrs arbitrary: out n) (auto simp: nameToWire_sendable enc_rr_def algebra_simps)

lemma put_header_filled:
  "12 \<le> n \<Longrightarrow> put_header m (filled [] n) = Inr (filled (enc_header m) (n - 12))"
  by (simp add: put_header_def enc_header_def)

lemma pack_eq_encode: "pack m = (if all_sendable m then Inr (encode m) else Inl Label_Too_Long)"
proof (cases "all_sendable m")
  case False
  then show ?thesis by (simp add: pack_def pack_size_eq)
next
  case True
  then have s: "list_all (\<lambda>q. sendable (qname q)) (questions m)"
    "list_all (\<lambda>r. sendable (rr_name r)) (answers m)"
    "list_all (\<lambda>r. sendable (rr_name r)) (authorities m)"
    "list_all (\<lambda>r. sendable (rr_name r)) (additionals m)"
    by (auto simp: all_sendable_def)
  have start: "(replicate k 0, 0) = filled [] k" for k by (simp add: filled_def)
  show ?thesis
    using True by (simp add: pack_def pack_size_eq start put_header_filled put_questions_filled
      put_rrs_filled s encode_def) (simp add: filled_def)
qed

section \<open>parse inverts pack\<close>

text \<open>
  Well-formed RDATA: for the types whose names the parser decompresses, the uncompressed form
  that it stores; for the others any bytes.
\<close>

definition name_rdata :: "bytes \<Rightarrow> bool" where
  "name_rdata rd \<longleftrightarrow> (case wireToName rd (length rd) 0 of Inl _ \<Rightarrow> False
     | Inr (n, q) \<Rightarrow> wf_name n \<and> rd = name_wire n)"

definition soa_rdata :: "bytes \<Rightarrow> bool" where
  "soa_rdata rd \<longleftrightarrow> (case wireToName rd (length rd) 0 of Inl _ \<Rightarrow> False
     | Inr (m, q) \<Rightarrow> (case wireToName rd (length rd) q of Inl _ \<Rightarrow> False
       | Inr (r, q') \<Rightarrow> wf_name m \<and> wf_name r \<and> length rd = q' + 20
           \<and> rd = name_wire m @ name_wire r @ drop q' rd))"

definition wf_rdata :: "u16 \<Rightarrow> bytes \<Rightarrow> bool" where
  "wf_rdata t rd \<longleftrightarrow>
     (if t = type_CNAME \<or> t = type_NS \<or> t = type_PTR then name_rdata rd
      else if t = type_MX then 2 \<le> length rd \<and> name_rdata (drop 2 rd)
      else t = type_SOA \<longrightarrow> soa_rdata rd)"

definition wf_rr :: "dns_rr \<Rightarrow> bool" where
  "wf_rr rr \<longleftrightarrow> wf_name (rr_name rr) \<and> length (rr_rdata rr) < 65536
     \<and> wf_rdata (rr_type rr) (rr_rdata rr)"

definition wf_question :: "dns_question \<Rightarrow> bool" where
  "wf_question q \<longleftrightarrow> wf_name (qname q)"

definition wf_message :: "dns_message \<Rightarrow> bool" where
  "wf_message m \<longleftrightarrow>
     length (questions m) < 65536 \<and> length (answers m) < 65536
     \<and> length (authorities m) < 65536 \<and> length (additionals m) < 65536
     \<and> list_all wf_question (questions m)
     \<and> list_all wf_rr (answers m @ authorities m @ additionals m)"

text \<open>The header as \<open>pack\<close> sends it: the counts are those of the sections.\<close>

definition with_counts :: "dns_message \<Rightarrow> dns_message" where
  "with_counts m = m\<lparr>header := (header m)\<lparr>
     qdcount := of_nat (length (questions m)), ancount := of_nat (length (answers m)),
     nscount := of_nat (length (authorities m)), arcount := of_nat (length (additionals m))\<rparr>\<rparr>"

lemma name_at:
  assumes "wf_name n" "data = pre @ name_wire n @ post"
  shows "wireToName data (length data) (length pre) = Inr (n, length pre + length (name_wire n))"
  by (rule name_codec.read_enc [OF assms])

lemma name_rdata_obtain:
  assumes "name_rdata rd"
  obtains n where "wf_name n" "rd = name_wire n"
  using assms by (auto simp: name_rdata_def split: sum.splits)

lemma read_at:
  "data = pre @ writeU16 v @ post \<Longrightarrow> p = length pre \<Longrightarrow> readU16 data p = Inr v"
  "data = pre @ writeU32 w @ post \<Longrightarrow> p = length pre \<Longrightarrow> readU32 data p = Inr w"
  "data = pre @ bs @ post \<Longrightarrow> p = length pre \<Longrightarrow> n = length bs \<Longrightarrow> read_bytes data p n = Inr bs"
  by simp_all

interpretation question_codec: buffer_codec enc_question parse_question wf_question
proof (unfold_locales, goal_cases)
  case (1 q data pre post)
  let ?w = "name_wire (qname q)"
  have "wireToName data (length data) (length pre) = Inr (qname q, length pre + length ?w)"
    using 1 by (intro name_at) (auto simp: wf_question_def enc_question_def)
  moreover have "readU16 data (length pre + length ?w) = Inr (qtype q)"
    using 1 by (intro read_at(1) [where pre = "pre @ ?w"]) (auto simp: enc_question_def)
  moreover have "readU16 data (length pre + length ?w + 2) = Inr (qclass q)"
    using 1 by (intro read_at(1) [where pre = "pre @ ?w @ writeU16 (qtype q)"])
      (auto simp: enc_question_def)
  ultimately show ?case
    using 1 by (simp add: parse_question_def length_enc_question)
qed

lemma parse_rdata_name_enc:
  assumes "name_rdata rd" "data = pre @ rd @ post"
  shows "parse_rdata_name data (length data) (length pre) = Inr rd"
proof -
  obtain n where "wf_name n" "rd = name_wire n" using assms(1) by (rule name_rdata_obtain)
  with name_at [of n data pre post] assms(2) nameToWire_wf [of n] show ?thesis
    by (simp add: parse_rdata_name_def)
qed

lemma be16_split: "2 \<le> length rd \<Longrightarrow> rd = writeU16 (be16 (rd ! 0) (rd ! 1)) @ drop 2 rd"
proof -
  assume "2 \<le> length rd"
  then obtain a b rs where rd: "rd = a # b # rs"
    by (metis Suc_le_length_iff numeral_2_eq_2)
  have "writeU16 (be16 a b) = [a, b]"
    by (simp add: writeU16_def be16_def, intro conjI; rule bit_word_eqI)
       (auto simp: bit_simps dest: bit_imp_le_length)
  with rd show ?thesis by simp
qed

lemma parse_rdata_mx_enc:
  assumes "2 \<le> length rd" "name_rdata (drop 2 rd)" "data = pre @ rd @ post" "length rd < 65536"
  shows "parse_rdata_mx data (length data) (length pre) (of_nat (length rd)) = Inr rd"
proof -
  obtain n where n: "wf_name n" "drop 2 rd = name_wire n" using assms(2) by (rule name_rdata_obtain)
  define v where "v = be16 (rd ! 0) (rd ! 1)"
  have rd: "rd = writeU16 v @ name_wire n" using be16_split [OF assms(1)] n(2) by (simp add: v_def)
  have "\<not> (of_nat (length rd) :: u16) < 2"
    using assms(1,4) by (simp add: word_less_nat_alt unat_of_nat)
  moreover have "readU16 data (length pre) = Inr v"
    using assms(3) rd by (intro read_at(1)) auto
  moreover have "wireToName data (length data) (length pre + 2) = Inr (n, length pre + 2 + length (name_wire n))"
    using name_at [OF n(1), of data "pre @ writeU16 v" post] assms(3) rd by simp
  ultimately show ?thesis using nameToWire_wf [OF n(1)] rd by (simp add: parse_rdata_mx_def)
qed

lemma parse_rdata_soa_enc:
  assumes "soa_rdata rd" "data = pre @ rd @ post" "length rd < 65536"
  shows "parse_rdata_soa data (length data) (length pre) (of_nat (length rd)) = Inr rd"
proof -
  obtain m q where 1: "wireToName rd (length rd) 0 = Inr (m, q)"
    using assms(1) by (cases "wireToName rd (length rd) 0") (auto simp: soa_rdata_def)
  obtain r q' where 2: "wireToName rd (length rd) q = Inr (r, q')"
    using assms(1) 1 by (cases "wireToName rd (length rd) q") (auto simp: soa_rdata_def)
  have w: "wf_name m" "wf_name r" "length rd = q' + 20"
      "rd = name_wire m @ name_wire r @ drop q' rd"
    using assms(1) 1 2 by (auto simp: soa_rdata_def)
  define tail where "tail = drop q' rd"
  have rd: "rd = name_wire m @ name_wire r @ tail" and tail: "length tail = 20"
    using w(3,4) by (simp_all add: tail_def)
  let ?np = "length pre + length (name_wire m) + length (name_wire r)"
  have m: "wireToName data (length data) (length pre) = Inr (m, length pre + length (name_wire m))"
    using name_at [OF w(1), of data pre] assms(2) rd by simp
  have r: "wireToName data (length data) (length pre + length (name_wire m)) = Inr (r, ?np)"
    using name_at [OF w(2), of data "pre @ name_wire m"] assms(2) rd by (simp add: add.assoc)
  have "(ucast (of_nat (length rd) :: u16) - (of_nat ?np - of_nat (length pre)) :: u64) = 20"
  proof -
    have "(ucast (of_nat (length rd) :: u16) :: u64) = of_nat (length rd)"
      using assms(3) by (simp add: unsigned_of_nat take_bit_nat_eq_self)
    then show ?thesis using arg_cong [OF rd, of length] tail by simp
  qed
  moreover have "read_bytes data ?np 20 = Inr tail"
    using assms(2) rd tail by (intro read_at(3) [where pre = "pre @ name_wire m @ name_wire r"]) auto
  ultimately show ?thesis
    using m r nameToWire_wf [OF w(1)] nameToWire_wf [OF w(2)] rd
    by (simp add: parse_rdata_soa_def Let_def)
qed

lemma parse_rdata_enc:
  assumes "wf_rdata t rd" "length rd < 65536" "data = pre @ rd @ post"
  shows "parse_rdata data (length data) t (length pre) (of_nat (length rd)) = Inr rd"
proof -
  have "unat (of_nat (length rd) :: u16) = length rd" using assms(2) by (simp add: unat_of_nat)
  then have "read_bytes data (length pre) (unat (of_nat (length rd) :: u16)) = Inr rd"
    using assms(3) by simp
  with assms parse_rdata_name_enc [of rd data pre post] parse_rdata_mx_enc [of rd data pre post]
    parse_rdata_soa_enc [of rd data pre post]
  show ?thesis by (auto simp: parse_rdata_def wf_rdata_def type_defs split: if_splits)
qed

interpretation rr_codec: buffer_codec enc_rr parse_rr wf_rr
proof (unfold_locales, goal_cases)
  case (1 rr data pre post)
  let ?w = "name_wire (rr_name rr)" and ?t = "writeU16 (rr_type rr)" and ?c = "writeU16 (rr_class rr)"
    and ?l = "writeU32 (rr_ttl rr)" and ?n = "of_nat (length (rr_rdata rr)) :: u16"
  let ?p = "length pre + length ?w"
  have wf: "wf_name (rr_name rr)" "length (rr_rdata rr) < 65536"
      "wf_rdata (rr_type rr) (rr_rdata rr)"
    using 1(1) by (auto simp: wf_rr_def)
  note data = 1(2) [unfolded enc_rr_def]
  have "wireToName data (length data) (length pre) = Inr (rr_name rr, ?p)"
    using data by (intro name_at wf) simp
  moreover have "readU16 data ?p = Inr (rr_type rr)"
    using data by (intro read_at(1) [where pre = "pre @ ?w"]) auto
  moreover have "readU16 data (?p + 2) = Inr (rr_class rr)"
    using data by (intro read_at(1) [where pre = "pre @ ?w @ ?t"]) auto
  moreover have "readU32 data (?p + 4) = Inr (rr_ttl rr)"
    using data by (intro read_at(2) [where pre = "pre @ ?w @ ?t @ ?c"]) auto
  moreover have "readU16 data (?p + 8) = Inr ?n"
    using data by (intro read_at(1) [where pre = "pre @ ?w @ ?t @ ?c @ ?l"]) auto
  moreover have "parse_rdata data (length data) (rr_type rr) (?p + 10) ?n = Inr (rr_rdata rr)"
    using parse_rdata_enc [OF wf(3,2), of data "pre @ ?w @ ?t @ ?c @ ?l @ writeU16 ?n" post] data
    by (simp add: add.assoc)
  moreover have "unat ?n = length (rr_rdata rr)" using wf(2) by (simp add: unat_of_nat)
  moreover have "length data = length pre + length (enc_rr rr) + length post" using 1(2) by simp
  ultimately show ?case by (simp add: parse_rr_def length_enc_rr)
qed

lemma parse_header_enc:
  "parse_header (enc_header m @ post) 0 = Inr (header (with_counts m), 12)"
proof -
  have r: "readU16 (pre @ writeU16 v @ post) p = Inr v" if "p = length pre" for pre v post p
    using that by simp
  have "readU16 (enc_header m @ post) 0 = Inr (hid (header m))"
    unfolding enc_header_def append_assoc by (rule r [of _ "[]", simplified]) simp
  moreover have "readU16 (enc_header m @ post) 2 = Inr (flags (header m))"
    unfolding enc_header_def
    using r [of 2 "writeU16 (hid (header m))"] by simp
  moreover have "readU16 (enc_header m @ post) 4 = Inr (of_nat (length (questions m)))"
    unfolding enc_header_def
    using r [of 4 "writeU16 (hid (header m)) @ writeU16 (flags (header m))"] by simp
  moreover have "readU16 (enc_header m @ post) 6 = Inr (of_nat (length (answers m)))"
    unfolding enc_header_def
    using r [of 6 "writeU16 (hid (header m)) @ writeU16 (flags (header m))
      @ writeU16 (of_nat (length (questions m)))"] by simp
  moreover have "readU16 (enc_header m @ post) 8 = Inr (of_nat (length (authorities m)))"
    unfolding enc_header_def
    using r [of 8 "writeU16 (hid (header m)) @ writeU16 (flags (header m))
      @ writeU16 (of_nat (length (questions m))) @ writeU16 (of_nat (length (answers m)))"] by simp
  moreover have "readU16 (enc_header m @ post) 10 = Inr (of_nat (length (additionals m)))"
    unfolding enc_header_def
    using r [of 10 "writeU16 (hid (header m)) @ writeU16 (flags (header m))
      @ writeU16 (of_nat (length (questions m))) @ writeU16 (of_nat (length (answers m)))
      @ writeU16 (of_nat (length (authorities m)))"] by simp
  ultimately show ?thesis
    by (cases "header m") (simp add: parse_header_def with_counts_def numeral_2_eq_2)
qed

lemma parse_encode:
  assumes "wf_message m"
  shows "parse (encode m) = Inr (with_counts m)"
proof -
  let ?h = "header (with_counts m)"
  let ?H = "enc_header m" and ?Q = "concat (map enc_question (questions m))"
    and ?A = "concat (map enc_rr (answers m))" and ?N = "concat (map enc_rr (authorities m))"
    and ?R = "concat (map enc_rr (additionals m))"
  let ?d = "encode m"
  have n: "unat (qdcount ?h) = length (questions m)" "unat (ancount ?h) = length (answers m)"
      "unat (nscount ?h) = length (authorities m)" "unat (arcount ?h) = length (additionals m)"
    using assms by (simp_all add: wf_message_def with_counts_def unat_of_nat)
  have wf: "\<forall>q \<in> set (questions m). wf_question q" "\<forall>r \<in> set (answers m). wf_rr r"
      "\<forall>r \<in> set (authorities m). wf_rr r" "\<forall>r \<in> set (additionals m). wf_rr r"
    using assms by (auto simp: wf_message_def list_all_iff)
  have "parse_header ?d 0 = Inr (?h, 12)" by (simp add: encode_def parse_header_enc)
  moreover have "parse_questions ?d (length ?d) ?h 12 = Inr (questions m, 12 + length ?Q)"
    using question_codec.many_enc [OF wf(1), of ?d ?H "?A @ ?N @ ?R"]
    by (simp add: parse_questions_def n encode_def)
  moreover have "parse_answers ?d (length ?d) ?h (12 + length ?Q) = Inr (answers m, 12 + length ?Q + length ?A)"
    using rr_codec.many_enc [OF wf(2), of ?d "?H @ ?Q" "?N @ ?R"]
    by (simp add: parse_answers_def n encode_def)
  moreover have "parse_authorities ?d (length ?d) ?h (12 + length ?Q + length ?A)
      = Inr (authorities m, 12 + length ?Q + length ?A + length ?N)"
    using rr_codec.many_enc [OF wf(3), of ?d "?H @ ?Q @ ?A" "?R"]
    by (simp add: parse_authorities_def n encode_def add.assoc)
  moreover have "parse_additionals ?d (length ?d) ?h (12 + length ?Q + length ?A + length ?N)
      = Inr (additionals m, 12 + length ?Q + length ?A + length ?N + length ?R)"
    using rr_codec.many_enc [OF wf(4), of ?d "?H @ ?Q @ ?A @ ?N" "[]"]
    by (simp add: parse_additionals_def n encode_def add.assoc)
  moreover have "12 \<le> length ?d" by (simp add: encode_def)
  ultimately show ?thesis by (simp add: parse_unfold Let_def with_counts_def)
qed

lemma wf_name_sendable: "wf_name n \<Longrightarrow> sendable n"
  by (auto simp: sendable_def wf_name_def labels_def list_all_iff)

lemma wf_message_sendable: "wf_message m \<Longrightarrow> all_sendable m"
  by (auto simp: wf_message_def all_sendable_def wf_question_def wf_rr_def list_all_iff
    intro: wf_name_sendable)

section \<open>Names that can be received but not sent\<close>

text \<open>The reader only takes the top two bits being both set for a pointer, so that a length byte
  from 64 to 191 is a label of that length; the writer refuses more than 63.\<close>

lemma wide_label:
  assumes "64 \<le> length l" "length l \<le> 191" "dot \<notin> set l"
  shows "wireToName (pre @ of_nat (length l) # l @ 0 # post) (length pre + length l + 2 + length post) (length pre)
      = Inr (l, length pre + length l + 2)"
    and "nameToWire l = Inl Label_Too_Long"
proof -
  let ?d = "pre @ of_nat (length l) # l @ 0 # post" and ?e = "length pre + length l + 2 + length post"
  have "0 < length l" using assms(1) by linarith
  note b = len_byte_wide [OF this assms(2)]
  have "read_bytes ?d (length (pre @ [of_nat (length l)])) (length l) = Inr l"
    using read_bytes_append [of "pre @ [of_nat (length l)]" l "0 # post"] by simp
  moreover have "byte_at ?d (length (pre @ of_nat (length l) # l)) = Inr 0"
    using byte_at_append [of "pre @ of_nat (length l) # l" 0 post] by simp
  ultimately show "wireToName ?d ?e (length pre) = Inr (l, length pre + length l + 2)"
    using b unfolding wireToName_def by (subst wire_to_name_loop.simps, simp, subst wire_to_name_loop.simps, simp)
  have "takeWhile (\<lambda>c. c \<noteq> dot) l = l" using assms(3) by (auto simp: takeWhile_eq_all_conv)
  then have "labels l = [l]" using labels_step [of l] assms(1) by (auto simp: Let_def)
  then show "nameToWire l = Inl Label_Too_Long" using assms(1) by (simp add: nameToWire_eq)
qed

section \<open>A pointer to itself\<close>

lemma pointer_byte:
  fixes o1 o2 :: u8
  assumes "o1 < 64"
  shows "o1 OR 0xC0 \<noteq> 0" "(o1 OR 0xC0) AND 0xC0 = 0xC0" "(o1 OR 0xC0) AND 0x3F = o1"
proof -
  have m: "(0x3F :: u8) = mask 6" by (simp add: mask_eq_exp_minus_1)
  have "o1 AND mask 6 = o1" using assms by (simp add: less_mask_eq)
  moreover have "(0xC0 :: u8) AND mask 6 = 0" by (simp add: mask_eq_exp_minus_1)
  ultimately show "(o1 OR 0xC0) AND 0x3F = o1" unfolding m by (simp add: bit.conj_disj_distrib2)
  show two: "(o1 OR 0xC0) AND 0xC0 = 0xC0" by (rule bit_word_eqI) (auto simp: bit_simps)
  show "o1 OR 0xC0 \<noteq> 0"
  proof
    assume z: "o1 OR 0xC0 = 0"
    have "(0 :: u8) AND 0xC0 = 0xC0" by (rule two [unfolded z])
    then show False by simp
  qed
qed

lemma self_pointer_loop:
  assumes "p + 1 < e" "e \<le> length data" "data ! p = o1 OR 0xC0" "data ! (p + 1) = o2" "o1 < 64" "p = unat (be16 o1 o2)"
  shows "wire_to_name_loop data e p name saved jumps = Inl Pointer_Cycle"
proof (induction "10 - jumps" arbitrary: jumps saved)
  case 0
  then show ?case using assms pointer_byte [OF assms(5)]
    by (subst wire_to_name_loop.simps) (simp add: byte_at_def)
next
  case (Suc n)
  then have "n = 10 - (jumps + 1)" by simp
  from Suc.hyps(1) [OF this] show ?case using assms pointer_byte [OF assms(5)]
    by (subst wire_to_name_loop.simps) (simp add: byte_at_def)
qed

lemma self_pointer:
  assumes "o1 < 64" "length pre = unat (be16 o1 o2)"
  shows "wireToName (pre @ [o1 OR 0xC0, o2] @ post) (length (pre @ [o1 OR 0xC0, o2] @ post)) (length pre) = Inl Pointer_Cycle"
  unfolding wireToName_def using assms
  by (intro self_pointer_loop [of _ _ _ o1 o2]) (simp_all add: nth_append)

end
