(* ===== verification/Dns_Normal.thy ===== *)
theory Dns_Normal
  imports Dns_Codec
begin

text \<open>
  What a parsed message looks like: as many records as its header counts, and RDATA in the form in
  which \<open>pack\<close> sends it, whatever compression the sender used. Packing it again and parsing the
  result gives the same message, its names with empty labels left out.
\<close>

section \<open>Normal names\<close>

lemma split_dots_no_dot: "dot \<notin> set l \<Longrightarrow> split_dots l = [l]"
  by (induction l) auto

lemma split_dots_join: "dot \<notin> set l \<Longrightarrow> split_dots (l @ dot # n) = l # split_dots n"
  by (induction l) auto

lemma split_joined:
  "l \<noteq> [] \<Longrightarrow> \<forall>k \<in> set (l # ls). dot \<notin> set k \<Longrightarrow> split_dots (foldl add_label l ls) = l # ls"
proof -
  assume "l \<noteq> []" and dots: "\<forall>k \<in> set (l # ls). dot \<notin> set k"
  then have j: "foldl add_label l ls = l @ concat (map (\<lambda>l. dot # l) ls)" by (simp add: foldl_add_label)
  have "split_dots (k @ concat (map (\<lambda>l. dot # l) ls)) = k # ls" if "dot \<notin> set k" for k
    using that dots
  proof (induction ls arbitrary: k)
    case Nil
    then show ?case by (simp add: split_dots_no_dot)
  next
    case (Cons m ls)
    then show ?case by (simp add: split_dots_join)
  qed
  with j dots show ?thesis by simp
qed

lemma labels_normalise: "labels (normalise n) = labels n" "normalise n = [] \<or> split_dots (normalise n) = labels n"
proof -
  have ls: "\<forall>l \<in> set (labels n). l \<noteq> [] \<and> dot \<notin> set l"
    using labels_nonempty [of _ n] no_dot_split [of _ n] by (auto simp: labels_def)
  have "labels n = [] \<and> normalise n = [] \<or> split_dots (normalise n) = labels n"
  proof (cases "labels n")
    case Nil
    then show ?thesis by (simp add: normalise_def join_labels_def)
  next
    case (Cons l ks)
    with ls have "split_dots (foldl add_label l ks) = l # ks" by (intro split_joined) auto
    with Cons show ?thesis by (simp add: normalise_def join_labels_def add_label_def)
  qed
  with ls show "labels (normalise n) = labels n" "normalise n = [] \<or> split_dots (normalise n) = labels n"
    by (auto simp: labels_def filter_id_conv)
qed

lemma normalise_facts:
  assumes "sendable n"
  shows "wf_name (normalise n)" "name_wire (normalise n) = name_wire n"
proof -
  show "name_wire (normalise n) = name_wire n" by (simp add: name_wire_def labels_normalise(1))
  have "list_all (\<lambda>l. 0 < length l \<and> length l \<le> 63) (labels n)"
    using assms labels_nonempty [of _ n] by (fastforce simp: sendable_def list_all_iff)
  with labels_normalise(2) [of n] show "wf_name (normalise n)" by (auto simp: wf_name_def)
qed

lemma nameToWire_normal:
  assumes "nameToWire n = Inr w"
  obtains n' where "wf_name n'" "w = name_wire n'"
  using assms normalise_facts [of n] that [of "normalise n"] by (auto simp: nameToWire_sendable split: if_splits)

section \<open>RDATA\<close>

lemma name_rdata_wire: "wf_name n \<Longrightarrow> name_rdata (name_wire n)"
  using name_at [of n "name_wire n" "[]" "[]"] by (simp add: name_rdata_def)

lemma soa_rdata_wire:
  assumes "wf_name m" "wf_name r" "length tail = 20"
  shows "soa_rdata (name_wire m @ name_wire r @ tail)"
  using assms name_at [of m "name_wire m @ name_wire r @ tail" "[]" "name_wire r @ tail"]
    name_at [of r "name_wire m @ name_wire r @ tail" "name_wire m" tail]
  by (simp add: soa_rdata_def)

lemma length_read_bytes: "read_bytes data p n = Inr bs \<Longrightarrow> length bs = n"
  by (auto simp: read_bytes_def split: if_splits)

lemma parse_rdata_normal:
  assumes "parse_rdata data e t p rdlen = Inr rd"
  shows "wf_rdata t rd"
proof -
  consider (name) "t = type_CNAME \<or> t = type_NS \<or> t = type_PTR"
    | (mx) "\<not> (t = type_CNAME \<or> t = type_NS \<or> t = type_PTR)" "t = type_MX"
    | (soa) "\<not> (t = type_CNAME \<or> t = type_NS \<or> t = type_PTR)" "t \<noteq> type_MX" "t = type_SOA"
    | (raw) "\<not> (t = type_CNAME \<or> t = type_NS \<or> t = type_PTR)" "t \<noteq> type_MX" "t \<noteq> type_SOA" by blast
  then show ?thesis
  proof cases
    case name
    then obtain n q where "nameToWire n = Inr rd"
      using assms by (auto simp: parse_rdata_def parse_rdata_name_def exc_simps)
    then obtain n' where "wf_name n'" "rd = name_wire n'" by (rule nameToWire_normal)
    with name show ?thesis by (auto simp: wf_rdata_def name_rdata_wire)
  next
    case mx
    then obtain v n w where "nameToWire n = Inr w" "rd = writeU16 v @ w"
      using assms by (auto simp: parse_rdata_def parse_rdata_mx_def exc_simps split: if_splits)
    then obtain n' where "wf_name n'" "rd = writeU16 v @ name_wire n'" using nameToWire_normal by metis
    with mx show ?thesis by (simp add: wf_rdata_def name_rdata_wire)
  next
    case soa
    then obtain m r wm wr np tail where w: "nameToWire m = Inr wm" "nameToWire r = Inr wr"
      "read_bytes data np 20 = Inr tail" "rd = wm @ wr @ tail"
      using assms by (auto simp: parse_rdata_def parse_rdata_soa_def exc_simps Let_def split: if_splits)
    obtain m' where "wf_name m'" "wm = name_wire m'" using w(1) by (rule nameToWire_normal)
    moreover obtain r' where "wf_name r'" "wr = name_wire r'" using w(2) by (rule nameToWire_normal)
    ultimately have "soa_rdata rd" using soa_rdata_wire length_read_bytes [OF w(3)] w(4) by simp
    with soa show ?thesis by (simp add: wf_rdata_def)
  qed (simp add: wf_rdata_def)
qed

section \<open>Messages\<close>

definition counts_match :: "dns_message \<Rightarrow> bool" where
  "counts_match m \<longleftrightarrow> length (questions m) = unat (qdcount (header m)) \<and> length (answers m) = unat (ancount (header m))
     \<and> length (authorities m) = unat (nscount (header m)) \<and> length (additionals m) = unat (arcount (header m))"

definition normal_rr :: "dns_rr \<Rightarrow> bool" where
  "normal_rr rr \<longleftrightarrow> wf_rdata (rr_type rr) (rr_rdata rr)"

lemma parse_rr_normal: "parse_rr data e p = Inr (rr, q) \<Longrightarrow> normal_rr rr"
  by (auto simp: parse_rr_def exc_simps normal_rr_def dest: parse_rdata_normal split: if_splits)

lemma read_many_all:
  assumes "\<And>p x q. rd p = Inr (x, q) \<Longrightarrow> P x"
  shows "read_many rd n p = Inr (xs, r) \<Longrightarrow> list_all P xs"
  by (induction n arbitrary: p xs) (auto simp: exc_simps dest: assms)

lemma parse_facts:
  assumes "parse data = Inr m"
  shows "counts_match m" "list_all normal_rr (answers m @ authorities m @ additionals m)"
proof -
  obtain h p0 p1 p2 p3 p4 where m:
    "read_many (parse_question data (length data)) (unat (qdcount h)) p0 = Inr (questions m, p1)"
    "read_many (parse_rr data (length data)) (unat (ancount h)) p1 = Inr (answers m, p2)"
    "read_many (parse_rr data (length data)) (unat (nscount h)) p2 = Inr (authorities m, p3)"
    "read_many (parse_rr data (length data)) (unat (arcount h)) p3 = Inr (additionals m, p4)" "header m = h"
    using assms by (auto simp: parse_unfold parse_questions_def parse_answers_def parse_authorities_def
        parse_additionals_def exc_simps split: if_splits)
  show "counts_match m"
    using m question_reader.many_length rr_reader.many_length by (simp add: counts_match_def)
  show "list_all normal_rr (answers m @ authorities m @ additionals m)"
    using read_many_all [OF _ m(2), of normal_rr] read_many_all [OF _ m(3), of normal_rr]
      read_many_all [OF _ m(4), of normal_rr] parse_rr_normal by auto
qed

section \<open>Packing a parsed message\<close>

definition normal_names :: "dns_message \<Rightarrow> dns_message" where
  "normal_names m =
     (let rrs = map (\<lambda>r. r\<lparr>rr_name := normalise (rr_name r)\<rparr>) in
      m\<lparr>questions := map (\<lambda>q. q\<lparr>qname := normalise (qname q)\<rparr>) (questions m), answers := rrs (answers m),
        authorities := rrs (authorities m), additionals := rrs (additionals m)\<rparr>)"

definition rdata_fits :: "dns_message \<Rightarrow> bool" where
  "rdata_fits m \<longleftrightarrow> list_all (\<lambda>r. length (rr_rdata r) < 65536) (answers m @ authorities m @ additionals m)"

lemma encode_normal: "all_sendable m \<Longrightarrow> encode (normal_names m) = encode m"
proof -
  assume s: "all_sendable m"
  have q: "enc_question (q\<lparr>qname := normalise (qname q)\<rparr>) = enc_question q" if "q \<in> set (questions m)" for q
    using s that normalise_facts(2) by (auto simp: all_sendable_def list_all_iff enc_question_def)
  have r: "enc_rr (r\<lparr>rr_name := normalise (rr_name r)\<rparr>) = enc_rr r"
    if "r \<in> set (answers m @ authorities m @ additionals m)" for r
    using s that normalise_facts(2) by (auto simp: all_sendable_def list_all_iff enc_rr_def)
  have "map (\<lambda>q. enc_question (q\<lparr>qname := normalise (qname q)\<rparr>)) (questions m) = map enc_question (questions m)"
    using q by (intro map_cong) simp_all
  moreover have rs: "map (\<lambda>r. enc_rr (r\<lparr>rr_name := normalise (rr_name r)\<rparr>)) rs = map enc_rr rs"
    if "set rs \<subseteq> set (answers m @ authorities m @ additionals m)" for rs
    using r that by (intro map_cong) auto
  moreover have "set (answers m) \<subseteq> set (answers m @ authorities m @ additionals m)"
    "set (authorities m) \<subseteq> set (answers m @ authorities m @ additionals m)"
    "set (additionals m) \<subseteq> set (answers m @ authorities m @ additionals m)" by auto
  note rs [OF this(1)] rs [OF this(2)] rs [OF this(3)]
  ultimately show ?thesis
    by (simp add: encode_def normal_names_def Let_def enc_header_def o_def del: map_eq_conv)
qed

lemma normal_names_wf:
  assumes "parse data = Inr m" "all_sendable m" "rdata_fits m"
  shows "wf_message (normal_names m)" "with_counts (normal_names m) = normal_names m"
proof -
  note c = parse_facts [OF assms(1)]
  have small: "unat (w :: u16) < 65536" for w using unsigned_less [of w] by simp
  have "wf_rr (r\<lparr>rr_name := normalise (rr_name r)\<rparr>)" if "r \<in> set (answers m @ authorities m @ additionals m)" for r
    using that c(2) assms(2,3) normalise_facts(1) [of "rr_name r"]
    by (auto simp: wf_rr_def normal_rr_def all_sendable_def rdata_fits_def list_all_iff)
  moreover have "wf_question (q\<lparr>qname := normalise (qname q)\<rparr>)" if "q \<in> set (questions m)" for q
    using that assms(2) normalise_facts(1) [of "qname q"] by (auto simp: wf_question_def all_sendable_def list_all_iff)
  ultimately show "wf_message (normal_names m)"
    using c(1) small by (auto simp: wf_message_def normal_names_def Let_def counts_match_def list_all_iff)
  show "with_counts (normal_names m) = normal_names m"
    using c(1) by (simp add: with_counts_def normal_names_def Let_def counts_match_def)
qed

lemma repacked:
  assumes "parse data = Inr m" "all_sendable m" "rdata_fits m"
  shows "\<exists>bs. pack m = Inr bs \<and> parse bs = Inr (normal_names m)"
  using parse_encode [OF normal_names_wf(1) [OF assms]] normal_names_wf(2) [OF assms] assms(2)
  by (simp add: pack_eq_encode encode_normal)

end
