(* ===== verification/Name_Equals.thy ===== *)
theory Name_Equals
  imports Prelude
begin

text \<open>
  \<open>dns_helpers::nameEquals\<close> of \<open>src/dns_protocol.hpp\<close>, the case-insensitive comparison of
  names, in its two builds: the scalar loop and the SSE4.2 loop that compares sixteen bytes at a
  time. An SSE register is a list of sixteen byte lanes, each intrinsic the lane-wise operation
  it documents. The two builds agree on every pair of names.
\<close>

section \<open>The scalar comparison\<close>

text \<open>\<open>c |= 0x20\<close> if \<open>c\<close> is one of A to Z.\<close>

definition lower :: "u8 \<Rightarrow> u8" where
  "lower c = (if 65 \<le> c \<and> c \<le> 90 then c OR 0x20 else c)"

definition ciEq :: "u8 \<Rightarrow> u8 \<Rightarrow> bool" where
  "ciEq ca cb \<longleftrightarrow> ca = cb \<or> lower ca = lower cb"

definition nameEquals_scalar :: "bytes \<Rightarrow> bytes \<Rightarrow> bool" where
  "nameEquals_scalar a b \<longleftrightarrow> length a = length b \<and> list_all2 ciEq a b"

section \<open>The SSE4.2 comparison\<close>

definition mm_xor :: "u8 list \<Rightarrow> u8 list \<Rightarrow> u8 list" where "mm_xor = map2 (XOR)"
definition mm_and :: "u8 list \<Rightarrow> u8 list \<Rightarrow> u8 list" where "mm_and = map2 (AND)"
definition mm_or :: "u8 list \<Rightarrow> u8 list \<Rightarrow> u8 list" where "mm_or = map2 (OR)"
definition mm_max :: "u8 list \<Rightarrow> u8 list \<Rightarrow> u8 list" where "mm_max = map2 max"
definition mm_min :: "u8 list \<Rightarrow> u8 list \<Rightarrow> u8 list" where "mm_min = map2 min"
definition mm_cmpeq :: "u8 list \<Rightarrow> u8 list \<Rightarrow> u8 list" where
  "mm_cmpeq = map2 (\<lambda>x y. if x = y then 0xFF else 0)"
definition mm_set1 :: "u8 \<Rightarrow> u8 list" where "mm_set1 c = replicate 16 c"
definition mm_testz :: "u8 list \<Rightarrow> u8 list \<Rightarrow> bool" where
  "mm_testz x y \<longleftrightarrow> list_all (\<lambda>c. c = 0) (mm_and x y)"
definition mm_movemask :: "u8 list \<Rightarrow> nat" where
  "mm_movemask x = horner_sum of_bool 2 (map (\<lambda>c. bit c 7) x)"

text \<open>One iteration over a full chunk: may the loop go on?\<close>

definition simd_chunk :: "u8 list \<Rightarrow> u8 list \<Rightarrow> bool" where
  "simd_chunk va vb =
     (let diff = mm_xor va vb in
      if mm_testz diff diff then True
      else let nonCaseDiff = mm_and diff (mm_set1 (NOT 0x20)) in
        if \<not> mm_testz nonCaseDiff nonCaseDiff then False
        else let lowVa = mm_or va (mm_set1 0x20);
                 ge_a = mm_cmpeq (mm_max lowVa (mm_set1 97)) lowVa;
                 le_z = mm_cmpeq (mm_min lowVa (mm_set1 122)) lowVa;
                 letter = mm_and ge_a le_z;
                 exact = mm_cmpeq diff (mm_set1 0);
                 ok = mm_or exact letter
             in mm_movemask ok = 0xFFFF)"

function simd_loop :: "bytes \<Rightarrow> bytes \<Rightarrow> bool" where
  "simd_loop a b =
     (if 16 \<le> length a then simd_chunk (take 16 a) (take 16 b) \<and> simd_loop (drop 16 a) (drop 16 b)
      else list_all2 ciEq a b)"
  by pat_completeness auto
termination by (relation "measure (\<lambda>(a, b). length a)") auto

declare simd_loop.simps [simp del]

definition nameEquals :: "bytes \<Rightarrow> bytes \<Rightarrow> bool" where
  "nameEquals a b = (if length a \<noteq> length b then False else simd_loop a b)"

section \<open>One lane\<close>

lemma exp5: "(0x20 :: u8) = 2 ^ 5" by simp

lemma bit5_unat: "bit (u :: u8) 5 \<longleftrightarrow> odd (unat u div 32)"
proof -
  have "bit u 5 \<longleftrightarrow> bit (unat u) 5" by (simp add: bit_unsigned_iff)
  also have "\<dots> \<longleftrightarrow> odd (unat u div 2 ^ 5)" by (rule bit_iff_odd)
  finally show ?thesis by simp
qed

lemma or_0x20: "(c :: u8) OR 0x20 = (if bit c 5 then c else c + 0x20)"
proof -
  have "c OR 0x20 = set_bit 5 c" by (simp add: set_bit_eq_or push_bit_eq_mult)
  then show ?thesis by (simp add: set_bit_eq)
qed

lemma case_pair:
  assumes "(a XOR b) AND NOT 0x20 = (0 :: u8)" "a \<noteq> b"
  shows "a = flip_bit 5 b"
proof (rule bit_word_eqI)
  fix n assume n: "n < LENGTH(8)"
  have d: "bit a k = bit b k" if "k \<noteq> 5" "k < 8" for k
  proof -
    have "\<not> bit ((a XOR b) AND NOT 0x20) k" using assms(1) by simp
    then show ?thesis using that unfolding exp5
      by (simp add: bit_and_iff bit_xor_iff bit_not_iff bit_exp_iff del: power_numeral)
  qed
  have "bit a 5 \<noteq> bit b 5"
  proof
    assume "bit a 5 = bit b 5"
    with d have "bit a k = bit b k" if "k < 8" for k using that by (cases "k = 5") auto
    then have "a = b" by (intro bit_word_eqI) simp
    with assms(2) show False by simp
  qed
  with d n show "bit a n = bit (flip_bit 5 b) n"
    by (auto simp: bit_flip_bit_iff)
qed

lemma flip5: "flip_bit 5 (b::u8) = (if bit b 5 then b - 0x20 else b + 0x20)"
  by (simp add: flip_bit_eq_if set_bit_eq unset_bit_eq)

lemma upper_facts:
  assumes "65 \<le> (c :: u8)" "c \<le> 90"
  shows "\<not> bit c 5" "c OR 0x20 = c + 0x20" "unat (c + 0x20) = unat c + 32"
    "97 \<le> c + 0x20" "c + 0x20 \<le> 122"
proof -
  have r: "65 \<le> unat c" "unat c \<le> 90" using assms by (simp_all add: word_le_nat_alt)
  then have "unat c div 32 = 2" by (auto intro: div_nat_eqI)
  then show n: "\<not> bit c 5" by (simp add: bit5_unat)
  then show "c OR 0x20 = c + 0x20" by (simp add: or_0x20)
  show u: "unat (c + 0x20) = unat c + 32" using r by (simp add: unat_word_ariths)
  show "97 \<le> c + 0x20" "c + 0x20 \<le> 122" using r u by (simp_all add: word_le_nat_alt)
qed

lemma lower_letter_facts:
  assumes "97 \<le> (c :: u8)" "c \<le> 122"
  shows "lower c = c" "65 \<le> c - 0x20" "c - 0x20 \<le> 90"
proof -
  have r: "97 \<le> unat c" "unat c \<le> 122" using assms by (simp_all add: word_le_nat_alt)
  then have u: "unat (c - 0x20) = unat c - 32"
    by (simp add: unat_sub word_le_nat_alt)
  show "lower c = c" using r by (simp add: lower_def word_le_nat_alt)
  show "65 \<le> c - 0x20" "c - 0x20 \<le> 90" using r u by (simp_all add: word_le_nat_alt)
qed

lemma or_diff: "(a XOR (a OR m)) AND NOT m = (0::u8)" "((a OR m) XOR a) AND NOT m = (0::u8)"
  by (rule bit_word_eqI; auto simp: bit_simps)+

lemma lane_letter:
  assumes "a \<noteq> b" "(a XOR b) AND NOT 0x20 = (0 :: u8)" "97 \<le> a OR 0x20" "a OR 0x20 \<le> 122"
  shows "lower a = lower b"
proof -
  have f: "a = flip_bit 5 b" using case_pair assms(1,2) by blast
  show ?thesis
  proof (cases "bit b 5")
    case True
    then have a: "a = b - 0x20" using f by (simp add: flip5)
    have "\<not> bit a 5" using f True by (simp add: bit_flip_bit_iff)
    then have b: "97 \<le> b" "b \<le> 122" using assms(3,4) a by (simp_all add: or_0x20)
    show ?thesis
      using lower_letter_facts [OF b] upper_facts [of a] a by (simp add: lower_def)
  next
    case False
    have "bit a 5" using f False by (simp add: bit_flip_bit_iff)
    moreover have a: "a = b + 0x20" using f False by (simp add: flip5)
    ultimately have "97 \<le> a" "a \<le> 122" using assms(3,4) by (simp_all add: or_0x20)
    from lower_letter_facts [OF this] upper_facts [of b] a show ?thesis by (simp add: lower_def)
  qed
qed

lemma lane_lower:
  assumes "a \<noteq> b" "lower a = lower b"
  shows "(a XOR b) AND NOT 0x20 = (0 :: u8) \<and> 97 \<le> a OR 0x20 \<and> a OR 0x20 \<le> 122"
proof -
  let ?up = "\<lambda>c :: u8. 65 \<le> c \<and> c \<le> 90"
  consider "?up a" "?up b" | "?up a" "\<not> ?up b" | "\<not> ?up a" "?up b" | "\<not> ?up a" "\<not> ?up b" by blast
  then show ?thesis
  proof cases
    case 1
    with assms upper_facts [of a] upper_facts [of b] show ?thesis by (simp add: lower_def)
  next
    case 2
    then have "b = a OR 0x20" using assms(2) by (auto simp: lower_def split: if_splits)
    with 2 upper_facts [of a] or_diff(1) [of a "0x20"] show ?thesis by simp
  next
    case 3
    then have a: "a = b OR 0x20" using assms(2) by (auto simp: lower_def split: if_splits)
    moreover have "a OR 0x20 = a" by (simp add: a)
    ultimately show ?thesis using 3 upper_facts [of b] or_diff(2) [of b "0x20"] by simp
  next
    case 4
    with assms show ?thesis by (auto simp: lower_def split: if_splits)
  qed
qed

lemma lane_iff:
  "(a XOR b) AND NOT 0x20 = (0 :: u8) \<and> (a = b \<or> (97 \<le> a OR 0x20 \<and> a OR 0x20 \<le> 122))
    \<longleftrightarrow> lower a = lower b"
  using lane_letter [of a b] lane_lower [of a b] by (cases "a = b") auto

section \<open>One chunk\<close>

lemma horner_all: "horner_sum of_bool (2 :: nat) bs = 2 ^ length bs - 1 \<longleftrightarrow> list_all id bs"
proof (induction bs)
  case Nil
  then show ?case by simp
next
  case (Cons b bs)
  have "horner_sum of_bool (2 :: nat) bs < 2 ^ length bs" by (rule horner_sum_of_bool_2_less)
  then obtain d where d: "2 ^ length bs = horner_sum of_bool (2 :: nat) bs + Suc d"
    by (metis less_iff_Suc_add add_Suc_right)
  with Cons show ?case by (cases b) (simp_all, presburger?)
qed

lemma movemask_all: "length x = 16 \<Longrightarrow> mm_movemask x = 0xFFFF \<longleftrightarrow> list_all (\<lambda>c. bit c 7) x"
  using horner_all [of "map (\<lambda>c. bit c 7) x"] by (simp add: mm_movemask_def list_all_iff)

lemma testz_self: "mm_testz x x \<longleftrightarrow> list_all (\<lambda>c. c = 0) x"
  by (simp add: mm_testz_def mm_and_def list_all_length)

lemma lane_range: "max x (97 :: u8) = x \<longleftrightarrow> 97 \<le> x" "min x (122 :: u8) = x \<longleftrightarrow> x \<le> 122"
  by (auto simp: max_def min_def)

lemma xor_zero: "(a :: u8) XOR b = 0 \<longleftrightarrow> a = b"
  by (simp add: bit_eq_iff bit_xor_iff)

lemma simd_chunk_eq:
  assumes "length va = 16" "length vb = 16"
  shows "simd_chunk va vb \<longleftrightarrow> list_all2 ciEq va vb"
proof -
  define n where "n = (16 :: nat)"
  have len: "length va = n" "length vb = n" using assms by (simp_all add: n_def)
  have exact: "mm_testz (mm_xor va vb) (mm_xor va vb) \<longleftrightarrow> (\<forall>i < n. va ! i = vb ! i)"
    using len by (simp add: testz_self mm_xor_def list_all_length xor_zero)
  have noncase: "mm_testz (mm_and (mm_xor va vb) (mm_set1 (NOT 0x20)))
        (mm_and (mm_xor va vb) (mm_set1 (NOT 0x20)))
      \<longleftrightarrow> (\<forall>i < n. (va ! i XOR vb ! i) AND NOT 0x20 = 0)"
    using len by (simp add: testz_self mm_and_def mm_xor_def mm_set1_def list_all_length n_def)
  let ?ok = "mm_or (mm_cmpeq (mm_xor va vb) (mm_set1 0))
     (mm_and (mm_cmpeq (mm_max (mm_or va (mm_set1 0x20)) (mm_set1 97)) (mm_or va (mm_set1 0x20)))
             (mm_cmpeq (mm_min (mm_or va (mm_set1 0x20)) (mm_set1 122)) (mm_or va (mm_set1 0x20))))"
  have "length ?ok = 16"
    using assms by (simp add: mm_or_def mm_cmpeq_def mm_xor_def mm_and_def mm_max_def mm_min_def mm_set1_def)
  then have ok: "mm_movemask ?ok = 0xFFFF
      \<longleftrightarrow> (\<forall>i < n. va ! i = vb ! i \<or> (97 \<le> va ! i OR 0x20 \<and> va ! i OR 0x20 \<le> 122))"
    using len by (simp add: movemask_all list_all_length mm_or_def mm_cmpeq_def mm_xor_def mm_and_def
        mm_max_def mm_min_def mm_set1_def n_def xor_zero bit_or_iff bit_and_iff lane_range)
      auto
  have "simd_chunk va vb \<longleftrightarrow> (\<forall>i < n. va ! i = vb ! i \<or> lower (va ! i) = lower (vb ! i))"
    unfolding simd_chunk_def Let_def exact noncase ok lane_iff [symmetric] by auto
  then show ?thesis using len by (simp add: list_all2_conv_all_nth ciEq_def)
qed

lemma simd_loop_eq: "length a = length b \<Longrightarrow> simd_loop a b \<longleftrightarrow> list_all2 ciEq a b"
proof (induction a b rule: simd_loop.induct)
  case (1 a b)
  show ?case
  proof (cases "16 \<le> length a")
    case True
    have "list_all2 ciEq a b \<longleftrightarrow> list_all2 ciEq (take 16 a @ drop 16 a) (take 16 b @ drop 16 b)"
      by simp
    also have "\<dots> \<longleftrightarrow> list_all2 ciEq (take 16 a) (take 16 b) \<and> list_all2 ciEq (drop 16 a) (drop 16 b)"
      using "1.prems" by (intro list_all2_append) simp
    finally have split: "list_all2 ciEq a b
        \<longleftrightarrow> list_all2 ciEq (take 16 a) (take 16 b) \<and> list_all2 ciEq (drop 16 a) (drop 16 b)" .
    have "simd_loop (drop 16 a) (drop 16 b) \<longleftrightarrow> list_all2 ciEq (drop 16 a) (drop 16 b)"
      by (rule "1.IH") (use True "1.prems" in simp_all)
    moreover have "simd_chunk (take 16 a) (take 16 b) \<longleftrightarrow> list_all2 ciEq (take 16 a) (take 16 b)"
      by (rule simd_chunk_eq) (use True "1.prems" in simp_all)
    ultimately show ?thesis unfolding simd_loop.simps [of a b] split using True by simp
  next
    case False
    then show ?thesis unfolding simd_loop.simps [of a b] by simp
  qed
qed

lemma nameEquals_eq: "nameEquals a b = nameEquals_scalar a b"
  by (simp add: nameEquals_def nameEquals_scalar_def simd_loop_eq)

lemma nameEquals_scalar_lower: "nameEquals_scalar a b \<longleftrightarrow> map lower a = map lower b"
proof -
  have "list_all2 ciEq a b \<longleftrightarrow> map lower a = map lower b"
    by (auto simp: list_all2_conv_all_nth ciEq_def list_eq_iff_nth_eq)
  moreover have "map lower a = map lower b \<Longrightarrow> length a = length b" by (rule map_eq_imp_length_eq)
  ultimately show ?thesis by (auto simp: nameEquals_scalar_def)
qed

end
