(* ===== verification/Std_Map.thy ===== *)
theory Std_Map
  imports Prelude "HOL-Library.List_Lexorder"
begin

text \<open>
  The key-value stores of the C++ library as the code uses them. \<open>std::map\<close> keeps its keys
  ordered and is iterated in that order: an association list with strictly increasing keys.
  The interface \<open>kv_store\<close> states what a client may assume of a store, and the facts that
  every client derives from it are proved there once.
\<close>

locale kv_store =
  fixes lookup :: "'m \<Rightarrow> 'k \<Rightarrow> 'v option"
    and insert :: "'k \<Rightarrow> 'v \<Rightarrow> 'm \<Rightarrow> 'm"
    and empty :: 'm
    and inv :: "'m \<Rightarrow> bool"
  assumes inv_empty: "inv empty"
    and lookup_empty: "lookup empty k = None"
    and inv_insert: "inv m \<Longrightarrow> inv (insert k v m)"
    and lookup_insert: "inv m \<Longrightarrow> lookup (insert k v m) k' = (if k' = k then Some v else lookup m k')"
begin

lemma lookup_insert_map: "inv m \<Longrightarrow> lookup (insert k v m) = (lookup m)(k \<mapsto> v)"
  by (auto simp: lookup_insert)

lemma inv_insert_all: "inv m \<Longrightarrow> inv (foldl (\<lambda>m (k, v). insert k v m) m kvs)"
  by (induction kvs arbitrary: m) (auto simp: inv_insert)

text \<open>Inserting a list of pairs: the last pair with a key wins.\<close>

lemma lookup_insert_all:
  "inv m \<Longrightarrow> lookup (foldl (\<lambda>m (k, v). insert k v m) m kvs) = lookup m ++ map_of (rev kvs)"
proof (induction kvs arbitrary: m)
  case Nil
  then show ?case by simp
next
  case (Cons kv kvs)
  obtain k v where kv: "kv = (k, v)" by (cases kv)
  with Cons.IH [OF inv_insert [OF Cons.prems]] show ?case
    by (auto simp: lookup_insert_map [OF Cons.prems] map_add_def fun_eq_iff split: option.splits)
qed

end

section \<open>std::map\<close>

fun omap_insert :: "'k::linorder \<Rightarrow> 'v \<Rightarrow> ('k \<times> 'v) list \<Rightarrow> ('k \<times> 'v) list" where
  "omap_insert k v [] = [(k, v)]"
| "omap_insert k v ((k', v') # m) =
     (if k < k' then (k, v) # (k', v') # m
      else if k = k' then (k, v) # m
      else (k', v') # omap_insert k v m)"

definition omap_wf :: "('k::linorder \<times> 'v) list \<Rightarrow> bool" where
  "omap_wf m \<longleftrightarrow> sorted_wrt (<) (map fst m)"

lemma omap_wf_Nil: "omap_wf []"
  by (simp add: omap_wf_def)

lemma keys_omap_insert: "fst ` set (omap_insert k v m) = insert k (fst ` set m)"
  by (induction m rule: omap_insert.induct) auto

lemma omap_wf_insert: "omap_wf m \<Longrightarrow> omap_wf (omap_insert k v m)"
proof (induction k v m rule: omap_insert.induct)
  case (1 k v)
  then show ?case by (simp add: omap_wf_def)
next
  case (2 k v k' v' m)
  have "\<forall>x \<in> fst ` set (omap_insert k v m). k' < x" if "\<not> k < k'" "k \<noteq> k'"
    using 2(2) that by (auto simp: keys_omap_insert omap_wf_def)
  with 2 show ?case by (fastforce simp: omap_wf_def)
qed

lemma map_of_omap_insert:
  "omap_wf m \<Longrightarrow> map_of (omap_insert k v m) x = (if x = k then Some v else map_of m x)"
  by (induction k v m rule: omap_insert.induct) (auto simp: omap_wf_def)

interpretation std_map: kv_store map_of omap_insert "[]" omap_wf
  by unfold_locales (auto simp: omap_wf_insert map_of_omap_insert omap_wf_Nil)

lemma omap_wf_distinct: "omap_wf m \<Longrightarrow> distinct (map fst m)"
  by (simp add: omap_wf_def strict_sorted_iff)

end
