(* ===== verification/Domain_Map.thy ===== *)
theory Domain_Map
  imports Std_Map Dns_Wire "HOL-Library.Sublist"
begin

text \<open>
  \<open>class DomainMap\<close> of \<open>src/domain_map.hpp\<close> and \<open>src/domain_map.cpp\<close>: a map from canonical
  domain names (lower case, with a trailing dot) to upstream addresses, an exact and a most
  specific lookup, and the parser of the \<open>--dns_server_for_domain\<close> option.
\<close>

type_synonym domain_map = "(bytes \<times> bytes) list"

definition canonicalize :: "bytes \<Rightarrow> bytes" where
  "canonicalize domain =
     (if domain = [] then [dot]
      else let d = (if last domain \<noteq> dot then domain @ [dot] else domain) in map tolower d)"

definition dm_set :: "bytes \<Rightarrow> bytes \<Rightarrow> domain_map \<Rightarrow> domain_map" where
  "dm_set domain value m = omap_insert (canonicalize domain) value m"

definition getExact :: "domain_map \<Rightarrow> bytes \<Rightarrow> bytes option" where
  "getExact m domain = map_of m (canonicalize domain)"

definition countLabels :: "bytes \<Rightarrow> nat" where
  "countLabels domain = (if domain = [] then 0 else length (filter (\<lambda>c. c = dot) domain))"

definition isSubDomain :: "bytes \<Rightarrow> bytes \<Rightarrow> bool" where
  "isSubDomain sub domain =
     (if sub = domain then True
      else if length sub \<le> length domain then False
      else if drop (length sub - length domain) sub \<noteq> domain then False
      else sub ! (length sub - length domain - 1) = dot)"

text \<open>The loop over the map, with \<open>bestCount\<close> and, once \<open>found\<close>, \<open>bestVal\<close>.\<close>

fun most_specific_loop :: "bytes \<Rightarrow> domain_map \<Rightarrow> nat \<Rightarrow> bytes option \<Rightarrow> bytes option" where
  "most_specific_loop d [] bestCount best = best"
| "most_specific_loop d ((key, val) # m) bestCount best =
     (if \<not> isSubDomain d key then most_specific_loop d m bestCount best
      else let c = countLabels key in
        if bestCount < c then most_specific_loop d m c (Some val)
        else most_specific_loop d m bestCount best)"

definition getMostSpecific :: "domain_map \<Rightarrow> bytes \<Rightarrow> bytes option" where
  "getMostSpecific m domain = most_specific_loop (canonicalize domain) m 0 None"

definition comma :: u8 where "comma = 44"
definition colon :: u8 where "colon = 58"

text \<open>One comma-separated entry: \<open>None\<close> where the code skips it.\<close>

definition parse_entry :: "bytes \<Rightarrow> (bytes \<times> bytes) option" where
  "parse_entry s =
     (let pair = trim s in
      if pair = [] then None
      else let domain = takeWhile (\<lambda>c. c \<noteq> colon) pair in
        if domain = pair \<or> domain = [] then None
        else Some (trim domain, trim (drop (length domain + 1) pair)))"

definition fromString :: "bytes \<Rightarrow> domain_map" where
  "fromString s =
     foldl (\<lambda>m e. case parse_entry e of None \<Rightarrow> m | Some (domain, addr) \<Rightarrow> dm_set domain addr m)
       [] (getlines comma s)"

section \<open>Canonical names\<close>

definition canonical :: "bytes \<Rightarrow> bool" where
  "canonical d \<longleftrightarrow> d \<noteq> [] \<and> last d = dot \<and> map tolower d = d"

definition dm_inv :: "domain_map \<Rightarrow> bool" where
  "dm_inv m \<longleftrightarrow> omap_wf m \<and> list_all (\<lambda>(k, v). canonical k) m"

lemma tolower_dot [simp]: "tolower dot = dot"
  by (simp add: tolower_def dot_def)

lemma canonical_canonicalize: "canonical (canonicalize d)"
  by (auto simp: canonical_def canonicalize_def Let_def last_map)

lemma canonicalize_id: "canonical d \<Longrightarrow> canonicalize d = d"
  by (simp add: canonical_def canonicalize_def)

lemma dm_inv_empty: "dm_inv []"
  by (simp add: dm_inv_def omap_wf_Nil)

lemma set_omap_insert: "set (omap_insert k v m) \<subseteq> insert (k, v) (set m)"
  by (induction k v m rule: omap_insert.induct) auto

lemma dm_inv_set: "dm_inv m \<Longrightarrow> dm_inv (dm_set d v m)"
  using set_omap_insert [of "canonicalize d" v m] canonical_canonicalize [of d]
  by (fastforce simp: dm_inv_def dm_set_def omap_wf_insert list_all_iff)

section \<open>The subdomain test and the number of labels\<close>

lemma isSubDomain_iff: "isSubDomain d k \<longleftrightarrow> d = k \<or> (\<exists>pre. d = pre @ dot # k)"
proof
  assume sub: "isSubDomain d k"
  show "d = k \<or> (\<exists>pre. d = pre @ dot # k)"
  proof (cases "d = k")
    case False
    let ?n = "length d - length k"
    from sub False have n: "length k < length d" "drop ?n d = k" "d ! (?n - 1) = dot"
      by (auto simp: isSubDomain_def split: if_splits)
    have "Suc (?n - 1) = ?n" "?n - 1 < length d" using n(1) by auto
    then have "take ?n d = take (?n - 1) d @ [d ! (?n - 1)]"
      using take_Suc_conv_app_nth [of "?n - 1" d] by metis
    with n append_take_drop_id [of ?n d] have "d = take (?n - 1) d @ dot # k" by simp
    then show ?thesis by blast
  qed simp
next
  assume "d = k \<or> (\<exists>pre. d = pre @ dot # k)"
  then show "isSubDomain d k" by (auto simp: isSubDomain_def nth_append)
qed

lemma countLabels_append [simp]: "countLabels (a @ b) = countLabels a + countLabels b"
  by (simp add: countLabels_def)

lemma countLabels_dot [simp]: "countLabels (dot # b) = Suc (countLabels b)"
  by (simp add: countLabels_def)

lemma canonical_count: "canonical k \<Longrightarrow> 0 < countLabels k"
proof -
  assume "canonical k"
  then have "k = butlast k @ [dot]" using append_butlast_last_id [of k] by (simp add: canonical_def)
  then have "countLabels k = countLabels (butlast k) + countLabels [dot]"
    by (metis countLabels_append)
  then show ?thesis by simp
qed

text \<open>Of two parents of the same name the longer one has more labels.\<close>

lemma parents_suffix:
  assumes "isSubDomain d k" "isSubDomain d k'" "length k' \<le> length k"
  shows "k' = k \<or> (\<exists>q. k = q @ dot # k')"
proof -
  have suf: "suffix x d" if "isSubDomain d x" for x
    using that unfolding isSubDomain_iff suffix_def
    by (metis append.assoc append_Cons append_Nil)
  have "suffix k d" "suffix k' d" using suf assms(1,2) by auto
  with assms(3) have "suffix k' k" by (metis suffix_length_suffix)
  then obtain q where k: "k = q @ k'" by (auto simp: suffix_def)
  show ?thesis
  proof (cases q rule: rev_cases)
    case Nil
    with k show ?thesis by simp
  next
    case (snoc q' c)
    obtain pre where pre: "d = pre @ k" using \<open>suffix k d\<close> by (auto simp: suffix_def)
    have "length k' < length d" using pre k snoc by simp
    with assms(2) obtain pre' where "d = pre' @ dot # k'" by (auto simp: isSubDomain_iff)
    then have "pre @ q' @ c # k' = pre' @ dot # k'" using pre k snoc by simp
    then have eq: "(pre @ q') @ (c # k') = pre' @ (dot # k')" by simp
    have "length (c # k') = length (dot # k')" by simp
    with eq have "c # k' = dot # k'" by (metis append_eq_append_conv)
    then have "c = dot" by simp
    with k snoc show ?thesis by auto
  qed
qed

lemma parents_labels:
  assumes "isSubDomain d k" "isSubDomain d k'"
  shows "countLabels k' \<le> countLabels k \<longleftrightarrow> length k' \<le> length k"
    and "countLabels k' = countLabels k \<longleftrightarrow> k' = k"
proof -
  have less: "countLabels x < countLabels y"
    if "isSubDomain d x" "isSubDomain d y" "length x \<le> length y" "x \<noteq> y" for x y
    using parents_suffix [OF that(2,1,3)] that(4) by auto
  have lt: "length x < length y \<or> length y < length x \<or> x = y"
    if "isSubDomain d x" "isSubDomain d y" for x y
    using parents_suffix [OF that] parents_suffix [OF that(2,1)] by force
  show "countLabels k' \<le> countLabels k \<longleftrightarrow> length k' \<le> length k"
    using less [OF assms] less [OF assms(2,1)] lt [OF assms] by fastforce
  show "countLabels k' = countLabels k \<longleftrightarrow> k' = k"
    using less [OF assms] less [OF assms(2,1)] lt [OF assms] by fastforce
qed

section \<open>The most specific entry\<close>

lemma most_specific_none:
  "\<forall>(k, v) \<in> set m. isSubDomain d k \<longrightarrow> countLabels k \<le> bc \<Longrightarrow> most_specific_loop d m bc best = best"
  by (induction d m bc best rule: most_specific_loop.induct) (auto simp: Let_def)

lemma most_specific_best:
  "(k, v) \<in> set m \<Longrightarrow> isSubDomain d k \<Longrightarrow> bc < countLabels k \<Longrightarrow>
    \<forall>(k', v') \<in> set m. isSubDomain d k' \<longrightarrow> countLabels k' \<le> countLabels k \<Longrightarrow>
    distinct (map fst m) \<Longrightarrow> most_specific_loop d m bc best = Some v"
proof (induction d m bc best rule: most_specific_loop.induct)
  case (1 d bc best)
  then show ?case by simp
next
  case (2 d k' v' m bc best)
  show ?case
  proof (cases "(k', v') = (k, v)")
    case True
    then show ?thesis using 2(5-8) by (auto simp: Let_def intro!: most_specific_none)
  next
    case False
    then have m: "(k, v) \<in> set m" using 2(4) by auto
    then have "k' \<noteq> k" using 2(8) by force
    then have "countLabels k' < countLabels k" if "isSubDomain d k'"
      using parents_labels(2) [OF 2(5) that] 2(7) that by fastforce
    with 2 m show ?thesis by (auto simp: Let_def)
  qed
qed

lemma most_specific_iff:
  assumes "dm_inv m"
  shows "getMostSpecific m domain = Some v \<longleftrightarrow>
    (\<exists>k. map_of m k = Some v \<and> isSubDomain (canonicalize domain) k \<and>
      (\<forall>k' \<in> dom (map_of m). isSubDomain (canonicalize domain) k' \<longrightarrow> length k' \<le> length k))"
proof -
  let ?d = "canonicalize domain" and ?K = "{k \<in> fst ` set m. isSubDomain (canonicalize domain) k}"
  have dist: "distinct (map fst m)" using assms omap_wf_distinct by (auto simp: dm_inv_def)
  have dom: "dom (map_of m) = fst ` set m" by (rule dom_map_of_conv_image_fst)
  have best: "getMostSpecific m domain = map_of m k"
    if k: "k \<in> ?K" "\<forall>k' \<in> ?K. length k' \<le> length k" for k
  proof -
    from k(1) obtain w where w: "(k, w) \<in> set m" by auto
    have "0 < countLabels k" using w assms canonical_count by (auto simp: dm_inv_def list_all_iff)
    moreover have "\<forall>(k', v') \<in> set m. isSubDomain ?d k' \<longrightarrow> countLabels k' \<le> countLabels k"
      using k parents_labels(1) [of ?d k] by force
    ultimately have "getMostSpecific m domain = Some w"
      unfolding getMostSpecific_def using most_specific_best [OF w] k(1) dist by blast
    then show ?thesis using w dist by simp
  qed
  show ?thesis
  proof (cases "?K = {}")
    case True
    then have "getMostSpecific m domain = None"
      unfolding getMostSpecific_def by (intro most_specific_none) force
    then have "getMostSpecific m domain \<noteq> Some v" by simp
    moreover have "\<not> (\<exists>k. map_of m k = Some v \<and> isSubDomain ?d k)"
      using True dom by (metis (mono_tags, lifting) Collect_empty_eq domI)
    ultimately show ?thesis by blast
  next
    case False
    have fin: "finite (length ` ?K)" by simp
    then have "Max (length ` ?K) \<in> length ` ?K" using False by (intro Max_in) auto
    then obtain k where "k \<in> ?K" "length k = Max (length ` ?K)" by force
    with fin have k: "k \<in> ?K" "\<forall>k' \<in> ?K. length k' \<le> length k" by auto
    show ?thesis
    proof
      assume "getMostSpecific m domain = Some v"
      with best [OF k] k dom show "\<exists>k. map_of m k = Some v \<and> isSubDomain ?d k \<and>
          (\<forall>k' \<in> dom (map_of m). isSubDomain ?d k' \<longrightarrow> length k' \<le> length k)" by auto
    next
      assume "\<exists>k. map_of m k = Some v \<and> isSubDomain ?d k \<and>
          (\<forall>k' \<in> dom (map_of m). isSubDomain ?d k' \<longrightarrow> length k' \<le> length k)"
      then obtain k'' where k'': "map_of m k'' = Some v" "isSubDomain ?d k''"
        and max: "\<forall>k' \<in> dom (map_of m). isSubDomain ?d k' \<longrightarrow> length k' \<le> length k''" by blast
      from k'' dom have K: "k'' \<in> ?K" by (auto intro!: image_eqI [OF _ map_of_SomeD])
      from max have "\<forall>k' \<in> ?K. length k' \<le> length k''" unfolding dom by auto
      with best [OF K] k'' show "getMostSpecific m domain = Some v" by simp
    qed
  qed
qed

section \<open>Exact lookup\<close>

lemma getExact_set:
  "dm_inv m \<Longrightarrow> getExact (dm_set d v m) d' =
    (if canonicalize d' = canonicalize d then Some v else getExact m d')"
  by (simp add: getExact_def dm_set_def dm_inv_def map_of_omap_insert)

section \<open>Parsing the option\<close>

definition entries :: "bytes \<Rightarrow> (bytes \<times> bytes) list" where
  "entries s = List.map_filter parse_entry (getlines comma s)"

definition canonical_entries :: "(bytes \<times> bytes) list \<Rightarrow> (bytes \<times> bytes) list" where
  "canonical_entries es = map (\<lambda>(d, v). (canonicalize d, v)) es"

lemma fold_entries:
  "foldl (\<lambda>m e. case parse_entry e of None \<Rightarrow> m | Some (domain, addr) \<Rightarrow> dm_set domain addr m) m ls =
   foldl (\<lambda>m (k, v). omap_insert k v m) m (canonical_entries (List.map_filter parse_entry ls))"
  by (induction ls arbitrary: m)
    (auto simp: canonical_entries_def List.map_filter_simps dm_set_def split: option.splits)

text \<open>The parsed map holds the entries of the text, the last one of a domain.\<close>

lemma fromString_lookup:
  "map_of (fromString s) = map_of (rev (canonical_entries (entries s)))"
  using std_map.lookup_insert_all [OF omap_wf_Nil, of "canonical_entries (entries s)"]
  by (simp add: fromString_def fold_entries entries_def)

lemma dm_inv_fold:
  "dm_inv m \<Longrightarrow> dm_inv (foldl (\<lambda>m e. case parse_entry e of None \<Rightarrow> m
     | Some (domain, addr) \<Rightarrow> dm_set domain addr m) m ls)"
  by (induction ls arbitrary: m) (auto simp: dm_inv_set split: option.splits)

lemma dm_inv_fromString: "dm_inv (fromString s)"
  unfolding fromString_def by (intro dm_inv_fold dm_inv_empty)

text \<open>The text of a list of entries, in the syntax the option documents.\<close>

fun option_text :: "(bytes \<times> bytes) list \<Rightarrow> bytes" where
  "option_text [] = []"
| "option_text [(d, v)] = d @ colon # v"
| "option_text ((d, v) # e # es) = d @ colon # v @ comma # option_text (e # es)"

definition wf_entry :: "bytes \<times> bytes \<Rightarrow> bool" where
  "wf_entry = (\<lambda>(d, v). d \<noteq> [] \<and> v \<noteq> [] \<and> list_all (\<lambda>c. c \<noteq> comma \<and> c \<noteq> colon \<and> \<not> isspace c) d \<and>
     list_all (\<lambda>c. c \<noteq> comma \<and> \<not> isspace c) v)"

lemma parse_entry_text:
  assumes "wf_entry (d, v)"
  shows "parse_entry (d @ colon # v) = Some (d, v)"
proof -
  from assms have nd: "d \<noteq> []" "v \<noteq> []" and sd: "\<forall>c \<in> set d. \<not> isspace c" "\<forall>c \<in> set v. \<not> isspace c"
    and col: "colon \<notin> set d" by (auto simp: wf_entry_def list_all_iff)
  have "trim d = d" "trim v = v" using nd sd by (auto intro!: trim_id)
  moreover have "trim (d @ colon # v) = d @ colon # v" using nd sd by (auto intro!: trim_id)
  ultimately show ?thesis using nd col by (simp add: parse_entry_def Let_def)
qed

lemma entries_text:
  "list_all wf_entry es \<Longrightarrow> entries (option_text es) = es"
proof (induction es rule: option_text.induct)
  case 1
  then show ?case by (simp add: entries_def List.map_filter_simps)
next
  case (2 d v)
  then have "comma \<notin> set (d @ colon # v)" by (auto simp: wf_entry_def list_all_iff comma_def colon_def)
  then show ?case using 2 by (simp add: entries_def getlines_one parse_entry_text List.map_filter_simps)
next
  case (3 d v e es)
  then have "comma \<notin> set (d @ colon # v)" by (auto simp: wf_entry_def list_all_iff comma_def colon_def)
  from getlines_cons [OF this, of "option_text (e # es)"] 3 show ?case
    by (simp add: entries_def parse_entry_text List.map_filter_simps)
qed

lemma fromString_option_text:
  "list_all wf_entry es \<Longrightarrow>
    getExact (fromString (option_text es)) d = map_of (rev (canonical_entries es)) (canonicalize d)"
  by (simp add: getExact_def fromString_lookup entries_text)

section \<open>The root domain\<close>

text \<open>An entry for the root domain applies to the root name, and to names whose last label is
  empty, but to no other name.\<close>

lemma isSubDomain_root: "isSubDomain d [dot] \<longleftrightarrow> d = [dot] \<or> suffix [dot, dot] d"
  by (auto simp: isSubDomain_iff suffix_def)

lemma root_entry:
  "getMostSpecific (dm_set [dot] v []) d =
    (if canonicalize d = [dot] \<or> suffix [dot, dot] (canonicalize d) then Some v else None)"
  using isSubDomain_root [of "canonicalize d"]
  by (simp add: getMostSpecific_def dm_set_def canonicalize_def countLabels_def Let_def)

end
