(* ===== verification/Dns_Properties.thy ===== *)
theory Dns_Properties
  imports Dns_Normal Name_Equals Domain_Map
begin

text \<open>
  The properties of the wire format, of names, and of the domain map. Each is followed by an
  application at a concrete input where it has hypotheses.
\<close>

section \<open>Concrete messages\<close>

definition sample_name :: bytes where
  "sample_name = [119, 46, 101, 120, 46, 99]"

definition sample_rr :: dns_rr where
  "sample_rr = \<lparr>rr_name = sample_name, rr_type = 1, rr_class = 1, rr_ttl = 300, rr_rdata = [192, 0, 2, 1]\<rparr>"

definition sample_message :: dns_message where
  "sample_message = (createQuery sample_name 1 1)\<lparr>answers := [sample_rr]\<rparr>"

text \<open>One answer record of type SOA whose RDLENGTH is 0 and whose two names, each the root, lie
  behind it.\<close>

definition soa_packet :: bytes where
  "soa_packet = [0, 0, 0x81, 0x80, 0, 0, 0, 1, 0, 0, 0, 0,
     0, 0, 6, 0, 1, 0, 0, 0, 0, 0, 0, 0, 0]"

text \<open>A reply in which the owner of a CNAME record and its target are pointers to the question's name.\<close>

definition compressed_packet :: bytes where
  "compressed_packet = [0, 9, 0x81, 0x80, 0, 1, 0, 1, 0, 0, 0, 0,
     1, 119, 2, 101, 120, 1, 99, 0, 0, 5, 0, 1,
     0xC0, 12, 0, 5, 0, 1, 0, 0, 1, 44, 0, 2, 0xC0, 12]"

definition compressed_message :: dns_message where
  "compressed_message = \<lparr>header = \<lparr>hid = 9, flags = 0x8180, qdcount = 1, ancount = 1, nscount = 0, arcount = 0\<rparr>,
     questions = [\<lparr>qname = sample_name, qtype = 5, qclass = 1\<rparr>],
     answers = [\<lparr>rr_name = sample_name, rr_type = 5, rr_class = 1, rr_ttl = 300, rr_rdata = [1, 119, 2, 101, 120, 1, 99, 0]\<rparr>],
     authorities = [], additionals = []\<rparr>"

lemma parse_compressed: "parse compressed_packet = Inr compressed_message"
  by code_simp

lemma sample_wf: "wf_message sample_message"
  by (simp add: wf_message_def sample_message_def createQuery_def wf_question_def wf_name_def sample_name_def
      dot_def sample_rr_def wf_rr_def wf_rdata_def type_defs)

section \<open>Wire format\<close>

text \<open>C1: Packing a well-formed message succeeds, and parsing the packet gives the message back,
  with the section counts in its header.\<close>

theorem parse_of_pack:
  "wf_message m \<Longrightarrow> bindE (pack m) parse = Inr (with_counts m)"
  by (simp add: pack_eq_encode wf_message_sendable parse_encode)

theorem parse_of_pack_witness:
  "bindE (pack sample_message) parse = Inr (with_counts sample_message)"
  by (rule parse_of_pack [OF sample_wf])

text \<open>C2: Whatever bytes arrive, a message that the parser returns has exactly as many questions and
  records as its header announces, and the RDATA of every record is in the form in which the
  packer sends it: the names of CNAME, NS, PTR, MX and SOA records stand there uncompressed,
  as well-formed names.\<close>

theorem parse_normal_form:
  "parse data = Inr m \<Longrightarrow> counts_match m
      \<and> list_all (\<lambda>r. wf_rdata (rr_type r) (rr_rdata r)) (answers m @ authorities m @ additionals m)"
  using parse_facts [of data m] by (simp add: normal_rr_def [abs_def])

theorem parse_normal_form_witness:
  "counts_match compressed_message \<and> list_all (\<lambda>r. wf_rdata (rr_type r) (rr_rdata r)) (answers compressed_message)"
  using parse_normal_form [OF parse_compressed] by simp

text \<open>C3: A message that was parsed from any packet, in whatever compression, and that can be packed
  and has no RDATA of 64 KiB, comes back from packing and parsing with the same header, counts
  included, and the same questions and records, its names without their empty labels.\<close>

theorem received_message_repacks:
  "parse data = Inr m \<Longrightarrow> pack m = Inr bs \<Longrightarrow> rdata_fits m \<Longrightarrow> parse bs = Inr (normal_names m)"
  using repacked [of data m] by (auto simp: pack_eq_encode split: if_splits)

theorem received_message_repacks_witness:
  "parse (encode compressed_message) = Inr (normal_names compressed_message)"
  proof (rule received_message_repacks [OF parse_compressed])
  show "pack compressed_message = Inr (encode compressed_message)" by code_simp
  show "rdata_fits compressed_message" by (simp add: rdata_fits_def compressed_message_def)
qed

text \<open>C4: The parser reads outside its buffer only in an SOA record whose two names reach past the
  record's data so that fewer than 20 bytes of the packet are left behind them; for every
  other input each access is inside.\<close>

theorem parse_reads_inside:
  "parse data = Inl Bad_Access \<Longrightarrow> \<exists>p \<le> length data. soa_overread data (length data) p"
  by (rule parse_bad)

theorem parse_reads_inside_witness:
  "\<exists>p \<le> length soa_packet. soa_overread soa_packet (length soa_packet) p"
  by (rule parse_reads_inside) code_simp

text \<open>The SOA case does read outside: in a 25-byte packet with an empty SOA record the unsigned
  remaining length wraps around, and the copy of 20 bytes starts at the end of the buffer.\<close>

lemma soa_underflow:
  "length soa_packet = 25 \<and> parse soa_packet = Inl Bad_Access"
  by code_simp

text \<open>The packer computes the size of its buffer exactly: it writes the encoding of the message,
  never outside the buffer, and fails exactly when a question or record name has a label of
  more than 63 bytes.\<close>

lemma pack_fills_buffer:
  "pack m = (if all_sendable m then Inr (encode m) else Inl Label_Too_Long)"
  by (rule pack_eq_encode)

text \<open>Whatever name nameToWire accepts, wireToName reads back at any position of a packet, without
  its empty labels, and continues right behind it.\<close>

lemma name_round_trip:
  "nameToWire n = Inr w \<Longrightarrow> wireToName (pre @ w @ post) (length (pre @ w @ post)) (length pre) =
    Inr (normalise n, length pre + length w)"
  by (rule wireToName_nameToWire) auto

text \<open>On any bytes, hostile pointers included, reading a name ends inside the packet without an
  access outside it, moves forward, and yields at most eleven times as many bytes as the
  packet has.\<close>

lemma name_reader_bounded:
  "e \<le> length data \<Longrightarrow> (case wireToName data e p of
    Inl err \<Rightarrow> err \<noteq> Bad_Access
  | Inr (n, q) \<Rightarrow> p < q \<and> q \<le> e \<and> length n \<le> 11 * e)"
  using wire_to_name_loop_safe [of e data p "[]" None 0] wire_to_name_loop_result [of e data p "[]" None 0]
  by (force simp: wireToName_def split: sum.splits)

text \<open>A compression pointer that points to itself, at any offset it can express, is reported as a
  pointer cycle.\<close>

lemma pointer_loop_rejected:
  "o1 < 64 \<Longrightarrow> length pre = unat (be16 o1 o2) \<Longrightarrow>
    wireToName (pre @ [o1 OR 0xC0, o2] @ post) (length (pre @ [o1 OR 0xC0, o2] @ post)) (length pre) = Inl Pointer_Cycle"
  by (rule self_pointer)

text \<open>A label of 64 to 191 bytes is read as an ordinary label (only the two top bits set together
  make a pointer), but the resulting name cannot be written.\<close>

lemma label_accepted_but_unsendable:
  "64 \<le> length l \<Longrightarrow> length l \<le> 191 \<Longrightarrow> dot \<notin> set l \<Longrightarrow>
    wireToName (pre @ of_nat (length l) # l @ 0 # post) (length pre + length l + 2 + length post) (length pre)
      = Inr (l, length pre + length l + 2)
    \<and> nameToWire l = Inl Label_Too_Long"
  by (intro conjI wide_label)

text \<open>createReply keeps the id and the questions, sets the response and recursion-available bits and
  empties the sections; createError differs from it in the error code only, which is the one
  asked for.\<close>

lemma reply_headers:
  "hid (header (createReply m)) = hid (header m) \<and> questions (createReply m) = questions m
    \<and> hdr_qr (header (createReply m)) \<and> hdr_ra (header (createReply m))
    \<and> hdr_rd (header (createReply m)) = hdr_rd (header m)
    \<and> answers (createReply m) = [] \<and> authorities (createReply m) = [] \<and> additionals (createReply m) = []
    \<and> hdr_rcode (header (createReply m)) = hdr_rcode (header m)
    \<and> createError m r = (createReply m)\<lparr>header := setRcode r (header (createReply m))\<rparr>
    \<and> hdr_rcode (header (createError m r)) = r AND 0xF"
  by (rule reply_facts)

text \<open>C5: The vectorised comparison of names, 16 bytes at a time with a scalar rest, is the byte-
  wise comparison that ignores the case of ASCII letters.\<close>

theorem nameEquals_correct:
  "nameEquals a b = (map lower a = map lower b)"
  by (simp add: nameEquals_eq nameEquals_scalar_lower)

section \<open>Domain map\<close>

text \<open>C6: The most specific lookup returns a value exactly when it belongs to a key that is the name
  or a parent of it, and no other such key is longer.\<close>

theorem most_specific_override:
  "dm_inv m \<Longrightarrow> getMostSpecific m domain = Some v \<longleftrightarrow>
    (\<exists>k. map_of m k = Some v \<and> isSubDomain (canonicalize domain) k \<and>
      (\<forall>k' \<in> dom (map_of m). isSubDomain (canonicalize domain) k' \<longrightarrow> length k' \<le> length k))"
  by (rule most_specific_iff)

theorem most_specific_override_witness:
  "dm_inv (dm_set [99] [1] (dm_set [97, 46, 99] [2] [])) \<and>
    getMostSpecific (dm_set [99] [1] (dm_set [97, 46, 99] [2] [])) [120, 46, 65, 46, 67] = Some [2]"
  proof
  show inv: "dm_inv (dm_set [99] [1] (dm_set [97, 46, 99] [2] []))" by (intro dm_inv_set dm_inv_empty)
  have "\<exists>k. map_of (dm_set [99] [1] (dm_set [97, 46, 99] [2] [])) k = Some [2] \<and>
      isSubDomain (canonicalize [120, 46, 65, 46, 67]) k \<and>
      (\<forall>k' \<in> dom (map_of (dm_set [99] [1] (dm_set [97, 46, 99] [2] []))).
        isSubDomain (canonicalize [120, 46, 65, 46, 67]) k' \<longrightarrow> length k' \<le> length k)"
    unfolding dom_map_of_conv_image_fst by (intro exI [of _ "[97, 46, 99, 46]"]) code_simp
  then show "getMostSpecific (dm_set [99] [1] (dm_set [97, 46, 99] [2] [])) [120, 46, 65, 46, 67] = Some [2]"
    using most_specific_override [OF inv] by blast
qed

text \<open>The option text of a list of entries, as documented, parses to a map in which every name, up
  to case and a trailing dot, has the value of its last entry.\<close>

lemma override_option_parsed:
  "list_all wf_entry es \<Longrightarrow>
    getExact (fromString (option_text es)) d = map_of (rev (canonical_entries es)) (canonicalize d)"
  by (rule fromString_option_text)

text \<open>An override for the root domain applies to the root name and to names with an empty last label
  only, not to every name as the suffix rule suggests.\<close>

lemma root_override_limited:
  "getMostSpecific (dm_set [dot] v []) d =
    (if canonicalize d = [dot] \<or> suffix [dot, dot] (canonicalize d) then Some v else None)"
  by (rule root_entry)

end
