(* ===== verification/Step_Invariant.thy ===== *)
theory Step_Invariant
  imports Prelude
begin

text \<open>
  The interface of a component whose state changes only by its operations: a step function over
  the operations' arguments and a predicate that every step keeps. What holds of every reachable
  state follows once and for all; each component interprets the locale with its own step function.
\<close>

locale step_invariant =
  fixes step :: "'s \<Rightarrow> 'e \<Rightarrow> 's"
    and ok :: "'e \<Rightarrow> bool"
    and inv :: "'s \<Rightarrow> bool"
  assumes inv_step: "inv s \<Longrightarrow> ok e \<Longrightarrow> inv (step s e)"
begin

lemma inv_run: "inv s \<Longrightarrow> list_all ok es \<Longrightarrow> inv (foldl step s es)"
  by (induction es arbitrary: s) (auto simp: inv_step)

text \<open>A quantity that no step decreases.\<close>

lemma mono_run:
  fixes f :: "'s \<Rightarrow> 'a::linorder"
  assumes "\<And>s e. inv s \<Longrightarrow> ok e \<Longrightarrow> f s \<le> f (step s e)"
  shows "inv s \<Longrightarrow> list_all ok es \<Longrightarrow> f s \<le> f (foldl step s es)"
  by (induction es arbitrary: s) (auto intro: order_trans assms inv_step)

end

text \<open>
  Where an event is admissible only in some states, a run is guarded: each event is admissible in
  the state it finds.
\<close>

primrec guarded :: "('s \<Rightarrow> 'e \<Rightarrow> bool) \<Rightarrow> ('s \<Rightarrow> 'e \<Rightarrow> 's) \<Rightarrow> 's \<Rightarrow> 'e list \<Rightarrow> bool" where
  "guarded g step s [] \<longleftrightarrow> True"
| "guarded g step s (e # es) \<longleftrightarrow> g s e \<and> guarded g step (step s e) es"

locale guarded_invariant =
  fixes step :: "'s \<Rightarrow> 'e \<Rightarrow> 's"
    and guard :: "'s \<Rightarrow> 'e \<Rightarrow> bool"
    and inv :: "'s \<Rightarrow> bool"
  assumes guard_step: "inv s \<Longrightarrow> guard s e \<Longrightarrow> inv (step s e)"
begin

lemma guarded_run: "inv s \<Longrightarrow> guarded guard step s es \<Longrightarrow> inv (foldl step s es)"
  by (induction es arbitrary: s) (auto simp: guard_step)

end

sublocale step_invariant \<subseteq> guarded_invariant step "\<lambda>_. ok" inv
  by unfold_locales (rule inv_step)

text \<open>
  The interface of a component that winds down: a step relation, a predicate it keeps, a number
  that every step decreases, and the states in which it has nothing left to do. Threads that end
  after a stop request, and queues that are emptied when nothing is added any more, interpret it.
\<close>

locale winding_down =
  fixes step :: "'s \<Rightarrow> 's \<Rightarrow> bool"
    and inv :: "'s \<Rightarrow> bool"
    and rank :: "'s \<Rightarrow> nat"
    and final :: "'s \<Rightarrow> bool"
  assumes keeps: "inv s \<Longrightarrow> step s s' \<Longrightarrow> inv s'"
    and shrinks: "inv s \<Longrightarrow> step s s' \<Longrightarrow> rank s' < rank s"
    and moves: "inv s \<Longrightarrow> \<not> final s \<Longrightarrow> \<exists>s'. step s s'"
begin

lemma bounded: "inv s \<Longrightarrow> (step ^^ n) s s' \<Longrightarrow> inv s' \<and> rank s' + n \<le> rank s"
proof (induction n arbitrary: s')
  case (Suc n)
  then obtain s'' where "(step ^^ n) s s''" "step s'' s'" by auto
  with Suc.IH [of s''] Suc.prems(1) keeps [of s'' s'] shrinks [of s'' s'] show ?case by fastforce
qed simp

lemma stops: "inv s \<Longrightarrow> (step ^^ n) s s' \<Longrightarrow> \<nexists>s''. step s' s'' \<Longrightarrow> final s'"
  using bounded moves by blast

lemma reaches: "inv s \<Longrightarrow> \<exists>n s'. n \<le> rank s \<and> (step ^^ n) s s' \<and> final s'"
proof (induction "rank s" arbitrary: s rule: less_induct)
  case less
  show ?case
  proof (cases "final s")
    case True
    then show ?thesis by (intro exI [of _ 0] exI [of _ s]) simp
  next
    case False
    then obtain s1 where s1: "step s s1" using moves less.prems by blast
    with less.hyps [of s1] less.prems shrinks keeps obtain n s' where
      "n \<le> rank s1" "(step ^^ n) s1 s'" "final s'" by blast
    moreover from relpowp_Suc_I2 [of step, OF s1 this(2)] have "(step ^^ Suc n) s s'" .
    ultimately show ?thesis using shrinks [OF less.prems s1]
      by (intro exI [of _ "Suc n"] exI [of _ s']) (simp del: relpowp.simps)
  qed
qed

end

text \<open>The strict version of clamping, \<open>std::clamp\<close>, on integers and reals.\<close>

definition clamp :: "'a::linorder \<Rightarrow> 'a \<Rightarrow> 'a \<Rightarrow> 'a" where
  "clamp x lo hi = (if x < lo then lo else if hi < x then hi else x)"

lemma clamp_bounds [simp]: "lo \<le> hi \<Longrightarrow> lo \<le> clamp x lo hi" "lo \<le> hi \<Longrightarrow> clamp x lo hi \<le> hi"
  by (auto simp: clamp_def)

end
