(* ===== verification/Perf_Monitor.thy ===== *)
theory Perf_Monitor
  imports Step_Invariant
begin

text \<open>
  \<open>class PerfMonitor\<close> of \<open>src/perf_monitor.hpp\<close> and \<open>src/perf_monitor.cpp\<close>: a ring of the
  last 256 latencies, event counters, gauges, per-domain averages and the snapshot computed from
  them. A \<open>double\<close> is a real number here: rounding is not modelled. The write index of the
  ring keeps its 64 bits. The thread-local noise filter is the argument \<open>noise\<close> of the
  operations that read it. The supplementary statistics function is a parameter.
\<close>

record perf_snapshot =
  avgLatencyMs :: real
  p95LatencyMs :: real
  cacheHitRate :: real
  turboHitRate :: real
  staleHitRate :: real
  errorRate :: real
  connUtilization :: real
  activeConnections :: int
  threadPoolLoad :: int
  threadPoolWorkers :: int

record domain_latency =
  dl_avg :: real
  dl_p95 :: real
  dl_count :: int

definition WINDOW_SIZE :: nat where "WINDOW_SIZE = 256"

record perf_monitor =
  latencies :: "u64 list"
  writeIdx :: u64
  pm_cacheHits :: int
  pm_cacheMisses :: int
  pm_errors :: int
  pm_queries :: int
  activeConns :: int
  totalConns :: int
  poolPending :: int
  poolWorkers :: int
  domainLatencies :: "bytes \<rightharpoonup> domain_latency"

definition perf_init :: perf_monitor where
  "perf_init = \<lparr>latencies = replicate WINDOW_SIZE 0, writeIdx = 0, pm_cacheHits = 0,
     pm_cacheMisses = 0, pm_errors = 0, pm_queries = 0, activeConns = 0, totalConns = 0,
     poolPending = 0, poolWorkers = 0, domainLatencies = Map.empty\<rparr>"

section \<open>Recording\<close>

definition recordLatency :: "bool \<Rightarrow> int \<Rightarrow> perf_monitor \<Rightarrow> perf_monitor" where
  "recordLatency noise us pm =
     (if noise then pm
      else let idx = writeIdx pm in
        pm\<lparr>writeIdx := idx + 1,
           latencies := (latencies pm)[unat (idx mod of_nat WINDOW_SIZE) := of_int us]\<rparr>)"

definition recordDnsQuery :: "perf_monitor \<Rightarrow> perf_monitor" where
  "recordDnsQuery pm = pm\<lparr>pm_queries := pm_queries pm + 1\<rparr>"

definition recordCacheHit :: "perf_monitor \<Rightarrow> perf_monitor" where
  "recordCacheHit pm = pm\<lparr>pm_cacheHits := pm_cacheHits pm + 1\<rparr>"

definition recordCacheMiss :: "perf_monitor \<Rightarrow> perf_monitor" where
  "recordCacheMiss pm = pm\<lparr>pm_cacheMisses := pm_cacheMisses pm + 1\<rparr>"

definition recordError :: "bool \<Rightarrow> perf_monitor \<Rightarrow> perf_monitor" where
  "recordError noise pm = (if noise then pm else pm\<lparr>pm_errors := pm_errors pm + 1\<rparr>)"

definition decayErrors :: "perf_monitor \<Rightarrow> perf_monitor" where
  "decayErrors pm = (if 0 < pm_errors pm then pm\<lparr>pm_errors := pm_errors pm div 2\<rparr> else pm)"

definition recordConnUse :: "int \<Rightarrow> int \<Rightarrow> perf_monitor \<Rightarrow> perf_monitor" where
  "recordConnUse act tot pm = pm\<lparr>activeConns := act, totalConns := tot\<rparr>"

definition recordThreadPoolLoad :: "int \<Rightarrow> perf_monitor \<Rightarrow> perf_monitor" where
  "recordThreadPoolLoad pending pm = pm\<lparr>poolPending := pending\<rparr>"

definition recordThreadPoolWorkers :: "int \<Rightarrow> perf_monitor \<Rightarrow> perf_monitor" where
  "recordThreadPoolWorkers workers pm = pm\<lparr>poolWorkers := workers\<rparr>"

section \<open>Per-domain averages\<close>

definition perf_dot :: u8 where "perf_dot = 46"

text \<open>\<open>rfind\<close> with a start position: the last index not above \<open>n\<close> that holds the character.\<close>

fun rfind_from :: "u8 \<Rightarrow> bytes \<Rightarrow> nat \<Rightarrow> nat option" where
  "rfind_from c s 0 = (if s \<noteq> [] \<and> s ! 0 = c then Some 0 else None)"
| "rfind_from c s (Suc n) = (if Suc n < length s \<and> s ! Suc n = c then Some (Suc n) else rfind_from c s n)"

definition rfind :: "u8 \<Rightarrow> bytes \<Rightarrow> nat option" where
  "rfind c s = rfind_from c s (length s)"

definition base_domain :: "bytes \<Rightarrow> bytes option" where
  "base_domain domain =
     (case rfind perf_dot domain of None \<Rightarrow> None
      | Some d \<Rightarrow> if d = 0 then None
          else let base = (case rfind_from perf_dot domain (d - 1) of
                 Some prevDot \<Rightarrow> if 0 < prevDot then drop (prevDot + 1) domain else domain
               | None \<Rightarrow> domain);
               base = rev (dropWhile (\<lambda>c. c = perf_dot) (rev base))
             in if base = [] then None else Some base)"

definition update_domain :: "real \<Rightarrow> domain_latency \<Rightarrow> domain_latency" where
  "update_domain ms dl =
     (if dl_count dl = 0 then \<lparr>dl_avg = ms, dl_p95 = ms, dl_count = dl_count dl + 1\<rparr>
      else \<lparr>dl_avg = dl_avg dl * 0.95 + ms * 0.05, dl_p95 = max (dl_p95 dl * 0.9) (ms * 0.1),
            dl_count = dl_count dl + 1\<rparr>)"

definition recordDomainLatency :: "bool \<Rightarrow> bytes \<Rightarrow> int \<Rightarrow> perf_monitor \<Rightarrow> perf_monitor" where
  "recordDomainLatency noise domain us pm =
     (if noise then pm
      else case base_domain domain of None \<Rightarrow> pm
      | Some base \<Rightarrow>
          let dl = (case domainLatencies pm base of Some dl \<Rightarrow> dl
                    | None \<Rightarrow> \<lparr>dl_avg = 0, dl_p95 = 0, dl_count = 0\<rparr>)
          in pm\<lparr>domainLatencies := (domainLatencies pm)(base \<mapsto> update_domain (of_int us / 1000) dl)\<rparr>)"

section \<open>The snapshot\<close>

definition window :: "perf_monitor \<Rightarrow> u64 list" where
  "window pm =
     (let idx = writeIdx pm; count = min (unat idx) WINDOW_SIZE
      in map (\<lambda>i. latencies pm ! unat ((idx - of_nat count + of_nat i) mod of_nat WINDOW_SIZE)) [0..<count])"

definition p95_index :: "nat \<Rightarrow> nat" where
  "p95_index count = nat \<lfloor>real count * 0.95\<rfloor>"

definition rate :: "int \<Rightarrow> int \<Rightarrow> real" where
  "rate part tot = (if 0 < tot then of_int part / of_int tot else 0)"

definition snapshot :: "(perf_snapshot \<Rightarrow> perf_snapshot) \<Rightarrow> perf_monitor \<Rightarrow> perf_snapshot" where
  "snapshot extra pm =
     (let samples = sort (window pm); count = length samples in
      extra \<lparr>avgLatencyMs = (if 0 < count then sum_list (map (\<lambda>w. real (unat w)) samples) / of_nat count / 1000 else 0),
             p95LatencyMs = (if 0 < count then real (unat (samples ! p95_index count)) / 1000 else 0),
             cacheHitRate = rate (pm_cacheHits pm) (pm_cacheHits pm + pm_cacheMisses pm),
             turboHitRate = 0, staleHitRate = 0,
             errorRate = rate (pm_errors pm) (pm_queries pm),
             connUtilization = rate (activeConns pm) (totalConns pm),
             activeConnections = activeConns pm,
             threadPoolLoad = poolPending pm, threadPoolWorkers = poolWorkers pm\<rparr>)"

section \<open>The ring holds the last 256 latencies\<close>

text \<open>The abstract view: the list of all latencies recorded so far.\<close>

definition ring_of :: "int list \<Rightarrow> perf_monitor \<Rightarrow> bool" where
  "ring_of xs pm \<longleftrightarrow> length (latencies pm) = WINDOW_SIZE \<and> writeIdx pm = of_nat (length xs) \<and>
     (\<forall>j < length xs. length xs \<le> j + WINDOW_SIZE \<longrightarrow> latencies pm ! (j mod WINDOW_SIZE) = of_int (xs ! j))"

lemma unat_mod_window: "unat ((of_nat n :: u64) mod of_nat WINDOW_SIZE) = n mod WINDOW_SIZE"
proof -
  have "(2::nat) ^ 64 mod 256 = 0" by simp
  then have "n mod 2 ^ 64 mod 256 = n mod 256" by (simp add: mod_mod_cancel)
  then show ?thesis by (simp add: WINDOW_SIZE_def unat_mod_distrib unat_of_nat)
qed

lemma ring_of_init: "ring_of [] perf_init"
  by (simp add: ring_of_def perf_init_def)

lemma ring_of_record:
  assumes "ring_of xs pm"
  shows "ring_of (xs @ [us]) (recordLatency False us pm)"
proof -
  let ?n = "length xs"
  have "latencies (recordLatency False us pm) ! (j mod WINDOW_SIZE) = of_int ((xs @ [us]) ! j)"
    if j: "j < Suc ?n" "Suc ?n \<le> j + WINDOW_SIZE" for j
  proof (cases "j = ?n")
    case True
    with assms show ?thesis
      by (simp add: ring_of_def recordLatency_def Let_def unat_mod_window) (simp add: WINDOW_SIZE_def)
  next
    case False
    with j have "j < ?n" "?n - j < WINDOW_SIZE" by auto
    then have "j mod WINDOW_SIZE \<noteq> ?n mod WINDOW_SIZE"
      by (metis (no_types, lifting) less_imp_le_nat mod_eq_dvd_iff_nat nat_dvd_not_less zero_less_diff)
    then show ?thesis using assms j False
      by (simp add: ring_of_def recordLatency_def Let_def unat_mod_window nth_append)
  qed
  with assms show ?thesis by (simp add: ring_of_def recordLatency_def Let_def unat_mod_window)
qed

lemma ring_of_run: "ring_of xs (foldl (\<lambda>pm us. recordLatency False us pm) perf_init xs)"
  by (induction xs rule: rev_induct) (simp_all add: ring_of_init ring_of_record)

lemma window_ring:
  assumes "ring_of xs pm" "length xs < 2 ^ 64"
  shows "window pm = map of_int (drop (length xs - WINDOW_SIZE) xs)"
proof -
  let ?n = "length xs" let ?c = "min ?n WINDOW_SIZE"
  have idx: "unat (writeIdx pm) = ?n" using assms by (simp add: ring_of_def unat_of_nat)
  have wi: "writeIdx pm = of_nat ?n" using assms by (simp add: ring_of_def)
  have "window pm ! i = of_int (xs ! (?n - ?c + i))" if "i < ?c" for i
  proof -
    have "(of_nat ?n - of_nat ?c + of_nat i :: u64) = of_nat (?n - ?c + i)" by (simp add: of_nat_diff)
    moreover have "window pm ! i =
        latencies pm ! unat ((of_nat ?n - of_nat ?c + of_nat i :: u64) mod of_nat WINDOW_SIZE)"
      using that idx wi by (simp add: window_def Let_def)
    ultimately have "window pm ! i = latencies pm ! ((?n - ?c + i) mod WINDOW_SIZE)"
      by (simp only: unat_mod_window)
    moreover have "?n - ?c + i < ?n" "?n \<le> ?n - ?c + i + WINDOW_SIZE" using that by auto
    ultimately show ?thesis using assms(1) unfolding ring_of_def by metis
  qed
  moreover have "length (window pm) = ?c" by (simp add: window_def Let_def idx)
  moreover have "?n - ?c = ?n - WINDOW_SIZE" by simp
  moreover have "length (drop (?n - WINDOW_SIZE) xs) = ?c" by simp
  ultimately show ?thesis by (intro nth_equalityI) (simp_all only: length_map nth_map nth_drop diff_le_self)
qed

section \<open>Facts about the snapshot\<close>

lemma p95_index_less: "0 < n \<Longrightarrow> p95_index n < n"
proof -
  assume "0 < n"
  then have "real n * 0.95 < real_of_int (int n)" by simp
  then have "\<lfloor>real n * 0.95\<rfloor> < int n" by (simp only: floor_less_iff)
  with \<open>0 < n\<close> show ?thesis unfolding p95_index_def by linarith
qed

text \<open>In a sorted list, at least \<open>i + 1\<close> of the elements are at most the one at \<open>i\<close>.\<close>

lemma sorted_rank:
  assumes "i < length xs"
  shows "i + 1 \<le> length (filter (\<lambda>x. x \<le> sort xs ! i) xs)"
proof -
  let ?s = "sort xs"
  have "x \<le> ?s ! i" if "x \<in> set (take (Suc i) ?s)" for x
    using that assms by (auto simp: in_set_conv_nth intro!: sorted_nth_mono)
  then have "filter (\<lambda>x. x \<le> ?s ! i) (take (Suc i) ?s) = take (Suc i) ?s" by (simp add: filter_id_conv)
  moreover have "filter (\<lambda>x. x \<le> ?s ! i) ?s =
      filter (\<lambda>x. x \<le> ?s ! i) (take (Suc i) ?s) @ filter (\<lambda>x. x \<le> ?s ! i) (drop (Suc i) ?s)"
    by (metis append_take_drop_id filter_append)
  ultimately have "Suc i \<le> length (filter (\<lambda>x. x \<le> ?s ! i) ?s)" using assms by simp
  also have "\<dots> = length (filter (\<lambda>x. x \<le> ?s ! i) xs)"
    by (metis filter_sort length_sort)
  finally show ?thesis by simp
qed

lemma sorted_below:
  assumes "i < length xs"
  shows "length (filter (\<lambda>x. x < sort xs ! i) xs) \<le> i"
proof -
  let ?s = "sort xs"
  have "\<not> x < ?s ! i" if "x \<in> set (drop i ?s)" for x
    using that by (auto simp: in_set_conv_nth not_less intro!: sorted_nth_mono)
  then have "filter (\<lambda>x. x < ?s ! i) (drop i ?s) = []" by (simp add: filter_empty_conv)
  moreover have "filter (\<lambda>x. x < ?s ! i) ?s = filter (\<lambda>x. x < ?s ! i) (take i ?s) @ filter (\<lambda>x. x < ?s ! i) (drop i ?s)"
    by (metis append_take_drop_id filter_append)
  ultimately have eq: "filter (\<lambda>x. x < ?s ! i) ?s = filter (\<lambda>x. x < ?s ! i) (take i ?s)" by simp
  have "length (filter (\<lambda>x. x < ?s ! i) ?s) \<le> length (take i ?s)" unfolding eq by (rule length_filter_le)
  then have "length (filter (\<lambda>x. x < ?s ! i) ?s) \<le> i" using assms by simp
  moreover have "length (filter (\<lambda>x. x < ?s ! i) ?s) = length (filter (\<lambda>x. x < ?s ! i) xs)"
    by (metis filter_sort length_sort)
  ultimately show ?thesis by simp
qed

lemma snapshot_p95:
  assumes "ring_of xs pm" "length xs < 2 ^ 64" "xs \<noteq> []"
  defines "w \<equiv> map of_int (drop (length xs - WINDOW_SIZE) xs) :: u64 list"
  shows "\<exists>v. p95LatencyMs (snapshot id pm) = real (unat v) / 1000 \<and> v \<in> set w
    \<and> p95_index (length w) + 1 \<le> length (filter (\<lambda>x. x \<le> v) w) \<and> length (filter (\<lambda>x. x < v) w) \<le> p95_index (length w)"
proof (intro exI conjI)
  have win: "window pm = w" using window_ring [OF assms(1,2)] by (simp add: w_def)
  have pos: "0 < length w" using assms(3) by (auto simp: w_def WINDOW_SIZE_def)
  let ?v = "sort w ! p95_index (length w)"
  have "sort w \<noteq> []" using pos by (metis length_sort length_greater_0_conv)
  then show "p95LatencyMs (snapshot id pm) = real (unat ?v) / 1000"
    using pos by (simp add: snapshot_def win Let_def)
  show "p95_index (length w) + 1 \<le> length (filter (\<lambda>x. x \<le> ?v) w)"
    by (rule sorted_rank [OF p95_index_less [OF pos]])
  show "length (filter (\<lambda>x. x < ?v) w) \<le> p95_index (length w)"
    by (rule sorted_below [OF p95_index_less [OF pos]])
  have "?v \<in> set (sort w)" using p95_index_less [OF pos] by (intro nth_mem) simp
  then show "?v \<in> set w" by simp
qed

definition counters_ok :: "perf_monitor \<Rightarrow> bool" where
  "counters_ok pm \<longleftrightarrow> 0 \<le> pm_cacheHits pm \<and> 0 \<le> pm_cacheMisses pm \<and> 0 \<le> pm_errors pm \<and> 0 \<le> pm_queries pm"

lemma counters_ok_ops:
  "counters_ok perf_init"
  "counters_ok (recordLatency noise us pm) = counters_ok pm"
  "counters_ok (recordDomainLatency noise d us pm) = counters_ok pm"
  "counters_ok pm \<Longrightarrow> counters_ok (recordDnsQuery pm)"
  "counters_ok pm \<Longrightarrow> counters_ok (recordCacheHit pm)"
  "counters_ok pm \<Longrightarrow> counters_ok (recordCacheMiss pm)"
  "counters_ok pm \<Longrightarrow> counters_ok (recordError noise pm)"
  "counters_ok pm \<Longrightarrow> counters_ok (decayErrors pm)"
  "counters_ok (recordConnUse a t pm) = counters_ok pm"
  "counters_ok (recordThreadPoolLoad n pm) = counters_ok pm"
  "counters_ok (recordThreadPoolWorkers n pm) = counters_ok pm"
  by (auto simp: counters_ok_def perf_init_def recordLatency_def recordDomainLatency_def
      recordDnsQuery_def recordCacheHit_def recordCacheMiss_def recordError_def decayErrors_def
      recordConnUse_def recordThreadPoolLoad_def recordThreadPoolWorkers_def Let_def split: option.splits)

lemma hit_rate_bounds:
  assumes "counters_ok pm"
  shows "0 \<le> cacheHitRate (snapshot id pm) \<and> cacheHitRate (snapshot id pm) \<le> 1"
  using assms by (auto simp: snapshot_def Let_def rate_def counters_ok_def divide_le_eq_1)

lemma decayErrors_pow: "0 \<le> pm_errors pm \<Longrightarrow> pm_errors ((decayErrors ^^ n) pm) = pm_errors pm div 2 ^ n"
proof (induction n)
  case 0
  then show ?case by simp
next
  case (Suc n)
  then have "0 \<le> pm_errors ((decayErrors ^^ n) pm)" by (simp add: pos_imp_zdiv_nonneg_iff)
  then have "pm_errors ((decayErrors ^^ Suc n) pm) = pm_errors ((decayErrors ^^ n) pm) div 2"
    by (auto simp: decayErrors_def)
  also have "\<dots> = pm_errors pm div 2 ^ Suc n"
    using Suc by (simp add: zdiv_zmult2_eq [of 2, symmetric] mult.commute)
  finally show ?case .
qed

section \<open>Facts about the per-domain averages\<close>

lemma rfind_from_last:
  "c \<notin> set (take (n - length s) t) \<Longrightarrow> length s \<le> n \<Longrightarrow> rfind_from c (s @ c # t) n = Some (length s)"
proof (induction n)
  case 0
  then show ?case by simp
next
  case (Suc n)
  show ?case
  proof (cases "length s = Suc n")
    case True
    then have "(s @ c # t) ! Suc n = c" by (metis nth_append_length)
    with True show ?thesis by simp
  next
    case False
    with Suc.prems have s: "length s \<le> n" by simp
    let ?k = "n - length s"
    have "take ?k t = take ?k (take (Suc ?k) t)" by (simp add: min_def)
    then have "set (take ?k t) \<subseteq> set (take (Suc ?k) t)" by (metis set_take_subset)
    with Suc s have IH: "rfind_from c (s @ c # t) n = Some (length s)" by (auto simp: Suc_diff_le)
    have "(s @ c # t) ! Suc n \<noteq> c" if l: "Suc n < length (s @ c # t)"
    proof -
      have "(s @ c # t) ! Suc n = take (Suc ?k) t ! ?k" using s by (simp add: nth_append Suc_diff_le)
      moreover have "?k < length (take (Suc ?k) t)" using l s by simp
      ultimately show ?thesis using Suc.prems(1) s nth_mem by (metis Suc_diff_le)
    qed
    with IH show ?thesis by (auto simp del: length_append)
  qed
qed

text \<open>The name under which a query's latency is averaged: its last two labels.\<close>

lemma base_domain_two_labels:
  assumes "pre \<noteq> []" "l2 \<noteq> []" "perf_dot \<notin> set l1" "perf_dot \<notin> set l2"
  shows "base_domain (pre @ perf_dot # l1 @ perf_dot # l2) = Some (l1 @ perf_dot # l2)"
proof -
  let ?d = "pre @ perf_dot # l1 @ perf_dot # l2"
  have "rfind perf_dot ?d = Some (length pre + Suc (length l1))"
    using rfind_from_last [of perf_dot "length ?d" "pre @ perf_dot # l1" l2] assms(4)
    by (auto simp: rfind_def dest: in_set_takeD)
  moreover have "rfind_from perf_dot ?d (length pre + length l1) = Some (length pre)"
    using rfind_from_last [of perf_dot "length pre + length l1" pre "l1 @ perf_dot # l2"] assms(3) by simp
  moreover have "dropWhile (\<lambda>c. c = perf_dot) (rev l2 @ perf_dot # rev l1) = rev l2 @ perf_dot # rev l1"
    using assms(2,4) by (cases l2 rule: rev_cases) auto
  moreover have "hd l2 \<in> set l2" using assms(2) by simp
  then have "\<exists>x \<in> set l1 \<union> set l2. x \<noteq> perf_dot" using assms(4) by (intro bexI [of _ "hd l2"]) auto
  ultimately show ?thesis using assms(1) by (simp add: base_domain_def Let_def)
qed

text \<open>A constant stream of latencies drives the tracked p95 down to a tenth of the latency.\<close>

lemma update_domain_constant:
  assumes "0 \<le> x" "dl_count dl = 0"
  shows "(update_domain x ^^ Suc n) dl =
    \<lparr>dl_avg = x, dl_p95 = max (x * 0.9 ^ n) (x * 0.1), dl_count = int (Suc n)\<rparr>"
proof (induction n)
  case 0
  with assms show ?case by (simp add: update_domain_def max_def mult_left_le)
next
  case (Suc n)
  have "max (max (x * 0.9 ^ n) (x * 0.1) * 0.9) (x * 0.1) = max (x * 0.9 ^ Suc n) (x * 0.1)"
    using assms(1) by (simp add: max_def mult_left_mono algebra_simps)
  moreover have "x * 0.95 + x * 0.05 = x" by simp
  ultimately show ?case using Suc.IH by (simp add: update_domain_def)
qed

end
