(* ===== verification/Clock.thy ===== *)
theory Clock
  imports Step_Invariant
begin

text \<open>
  Time and the settings in units of time that several components share. A time point of the
  steady clock is its number of nanoseconds.
\<close>

definition seconds :: "int \<Rightarrow> int" where "seconds n = n * 1000000000"

text \<open>\<open>duration_cast\<close> to a coarser unit, which truncates towards zero.\<close>

definition duration_cast :: "int \<Rightarrow> int \<Rightarrow> int" where
  "duration_cast unit d = (if d < 0 then - (- d div unit) else d div unit)"

text \<open>The static TTL limits of the cache (\<open>src/caching_resolver.cpp\<close>).\<close>

record ttl_config =
  minTTLSecs :: int
  negativeTTLSecs :: int
  staleThresholdSecs :: int

definition ttl_init :: ttl_config where
  "ttl_init = \<lparr>minTTLSecs = 600, negativeTTLSecs = 300, staleThresholdSecs = 300\<rparr>"

end
