(* ===== verification/Caching_Resolver.thy ===== *)
theory Caching_Resolver
  imports Perf_Monitor Clock Dns_Codec Std_Map "HOL-Library.AList"
begin

text \<open>
  \<open>class CachingResolver\<close> of \<open>src/caching_resolver.hpp\<close> and \<open>src/caching_resolver.cpp\<close>: a
  two-level answer cache in front of a resolver. Level 1 is a direct-mapped table of 4096 slots
  found by a hash of the question, level 2 a hash map bounded to 50000 entries. Expired entries
  are served for a while and queued for refresh.

  The state is the record \<open>caching\<close>. A shared message that the code never mutates once it is
  published is a value. The wrapped resolver is a parameter \<open>back\<close>, which throws (\<open>Inl\<close>) or
  returns a message or null (\<open>Inr\<close>). The clock is a function \<open>ts\<close> that gives the
  reading at each place of an operation that calls \<open>steady_clock::now()\<close>, numbered in the order
  of the code. The hash map is a list of pairs with distinct keys, in its iteration order.
\<close>

section \<open>State\<close>

record cache_key =
  ck_name :: bytes
  ck_type :: u16
  ck_class :: u16

record cache_entry =
  ce_msg :: "dns_message option"
  ce_ttl :: int
  ce_expires :: int

record turbo_slot =
  ts_hash :: u64
  ts_msg :: "dns_message option"
  ts_expires :: int

type_synonym cache_map = "(cache_key \<times> cache_entry) list"
type_synonym clock = "nat \<Rightarrow> int"
type_synonym 'e backend = "dns_message \<Rightarrow> bool \<Rightarrow> 'e + dns_message option"

record caching =
  turbo :: "nat \<Rightarrow> turbo_slot"
  turboFreq :: "nat \<Rightarrow> int"
  cache :: cache_map
  staleRefreshQueue :: "(cache_key \<times> dns_question) list"
  totalQueries :: int
  cacheHits :: int
  cacheMisses :: int
  cacheRecorded :: int
  preemptiveRefreshes :: int
  staleHits :: int
  turboHits :: int
  prewarmTracker :: "(bytes \<times> nat) list"
  c_perf :: perf_monitor
  c_ttl :: ttl_config

definition maxCacheSize :: nat where "maxCacheSize = 50000"
definition MAX_STALE_REFRESH_QUEUE :: nat where "MAX_STALE_REFRESH_QUEUE = 64"
definition maxTTL :: int where "maxTTL = 7200"

definition caching_init :: "perf_monitor \<Rightarrow> ttl_config \<Rightarrow> caching" where
  "caching_init pm cfg = \<lparr>turbo = (\<lambda>_. \<lparr>ts_hash = 0, ts_msg = None, ts_expires = 0\<rparr>), turboFreq = (\<lambda>_. 0),
     cache = [], staleRefreshQueue = [], totalQueries = 0, cacheHits = 0, cacheMisses = 0,
     cacheRecorded = 0, preemptiveRefreshes = 0, staleHits = 0, turboHits = 0, prewarmTracker = [],
     c_perf = pm, c_ttl = cfg\<rparr>"

definition key_of :: "dns_question \<Rightarrow> cache_key" where
  "key_of q = \<lparr>ck_name = qname q, ck_type = qtype q, ck_class = qclass q\<rparr>"

definition question_of :: "cache_key \<Rightarrow> dns_question" where
  "question_of k = \<lparr>qname = ck_name k, qtype = ck_type k, qclass = ck_class k\<rparr>"

section \<open>Level 1\<close>

definition fnv_step :: "u64 \<Rightarrow> u8 \<Rightarrow> u64" where
  "fnv_step h c = (h XOR ucast c) * 1099511628211"

definition turboHash :: "cache_key \<Rightarrow> u64" where
  "turboHash k = foldl fnv_step 14695981039346656037 (ck_name k)
     XOR push_bit 16 (ucast (ck_type k)) XOR ucast (ck_class k)"

definition slot_index :: "u64 \<Rightarrow> nat" where
  "slot_index h = unat (h AND 4095)"

definition turboLookup :: "u64 \<Rightarrow> int \<Rightarrow> caching \<Rightarrow> caching \<times> dns_message option" where
  "turboLookup h now s =
     (let idx = slot_index h; slot = turbo s idx in
      if ts_hash slot \<noteq> h then (s, None)
      else case ts_msg slot of None \<Rightarrow> (s, None)
      | Some m \<Rightarrow> if ts_expires slot \<le> now then (s, None)
          else (s\<lparr>turboFreq := (turboFreq s)(idx := turboFreq s idx + 1)\<rparr>, Some m))"

definition turboInsert :: "u64 \<Rightarrow> dns_message option \<Rightarrow> int \<Rightarrow> caching \<Rightarrow> caching" where
  "turboInsert h m expiresAt s =
     (let idx = slot_index h in
      s\<lparr>turbo := (turbo s)(idx := \<lparr>ts_hash = h, ts_msg = m, ts_expires = expiresAt\<rparr>),
        turboFreq := (turboFreq s)(idx := 0)\<rparr>)"

section \<open>Rules on replies\<close>

definition shouldCache :: "dns_question \<Rightarrow> dns_message \<Rightarrow> bool" where
  "shouldCache q reply =
     (let h = header reply in
      if \<not> hdr_qr h then False
      else if hdr_opcode h \<noteq> 0 then False
      else if length (questions reply) \<noteq> 1 then False
      else if hdr_tc h then False
      else if qname (questions reply ! 0) \<noteq> qname q \<or> qtype (questions reply ! 0) \<noteq> qtype q then False
      else let rcode = hdr_rcode h in
        if rcode = rcode_NXDomain then True
        else if rcode = rcode_ServFail then True
        else if rcode = rcode_Refused then True
        else if rcode \<noteq> 0 then False
        else if answers reply \<noteq> [] then True
        else if authorities reply \<noteq> [] then True
        else False)"

fun min_ttl :: "u32 \<Rightarrow> dns_rr list \<Rightarrow> u32" where
  "min_ttl m [] = m"
| "min_ttl m (rr # rrs) = min_ttl (if rr_ttl rr < m then rr_ttl rr else m) rrs"

definition computeCacheTTL :: "ttl_config \<Rightarrow> dns_message \<Rightarrow> int" where
  "computeCacheTTL cfg reply =
     (let rrs = answers reply @ authorities reply @ additionals reply;
          m = min_ttl (of_int maxTTL) rrs;
          curMin = minTTLSecs cfg;
          ttl = (if rrs \<noteq> [] then int (unat m) else curMin);
          ttl = (if ttl < curMin then curMin else ttl)
      in if maxTTL < ttl then maxTTL else ttl)"

definition clobber :: "int \<Rightarrow> dns_rr list \<Rightarrow> dns_rr list" where
  "clobber ttl rrs = map (\<lambda>rr. rr\<lparr>rr_ttl := of_int ttl\<rparr>) rrs"

definition clobberTTL :: "int \<Rightarrow> dns_message \<Rightarrow> dns_message" where
  "clobberTTL ttl m = m\<lparr>answers := clobber ttl (answers m), authorities := clobber ttl (authorities m),
     additionals := clobber ttl (additionals m)\<rparr>"

text \<open>The lifetime of a reply: the negative TTL for the three cached error codes.\<close>

definition reply_ttl :: "ttl_config \<Rightarrow> dns_message \<Rightarrow> int" where
  "reply_ttl cfg reply =
     (let rcode = hdr_rcode (header reply) in
      if rcode = rcode_NXDomain \<or> rcode = rcode_ServFail \<or> rcode = rcode_Refused
      then negativeTTLSecs cfg else computeCacheTTL cfg reply)"

definition buildCachedReply :: "dns_message \<Rightarrow> dns_message \<Rightarrow> dns_message" where
  "buildCachedReply req cached =
     (let reply = createReply req in
      reply\<lparr>answers := answers cached, authorities := authorities cached, additionals := additionals cached,
        header := (header reply)\<lparr>ancount := of_nat (length (answers cached)),
          nscount := of_nat (length (authorities cached)), arcount := of_nat (length (additionals cached))\<rparr>\<rparr>)"

definition isExpired :: "int \<Rightarrow> cache_entry \<Rightarrow> bool" where
  "isExpired now e \<longleftrightarrow> ce_expires e \<le> now"

text \<open>\<open>needsRefresh\<close> reads the clock twice; \<open>threshold\<close> is the tuner's refresh percentage.\<close>

definition needsRefresh :: "int \<Rightarrow> int \<Rightarrow> int \<Rightarrow> cache_entry \<Rightarrow> bool" where
  "needsRefresh threshold now now2 e =
     (if isExpired now e then False
      else let remaining = duration_cast (seconds 1) (ce_expires e - now2) in
        if ce_ttl e \<le> 0 then False
        else duration_cast (ce_ttl e) (remaining * 100) < threshold)"

section \<open>Level 2\<close>

datatype l2_result = L2_Fresh dns_message int | L2_Stale dns_message | L2_Miss

definition l2_lookup :: "cache_key \<Rightarrow> int \<Rightarrow> int \<Rightarrow> caching \<Rightarrow> l2_result" where
  "l2_lookup key now now2 s =
     (case map_of (cache s) key of None \<Rightarrow> L2_Miss
      | Some e \<Rightarrow> (case ce_msg e of None \<Rightarrow> L2_Miss
          | Some m \<Rightarrow>
              if \<not> isExpired now e then L2_Fresh m (ce_expires e)
              else if now2 < ce_expires e + seconds (staleThresholdSecs (c_ttl s)) then L2_Stale m
              else L2_Miss))"

definition enqueue_stale :: "cache_key \<Rightarrow> dns_question \<Rightarrow> caching \<Rightarrow> caching" where
  "enqueue_stale key q s =
     (if length (staleRefreshQueue s) < MAX_STALE_REFRESH_QUEUE
      then s\<lparr>staleRefreshQueue := staleRefreshQueue s @ [(key, q)]\<rparr> else s)"

text \<open>The entry to evict: the shortest positive remaining time in milliseconds, the first in
  iteration order where no entry has one. \<open>minv\<close> starts at \<open>UINT64_MAX\<close>.\<close>

fun evict_scan :: "int \<Rightarrow> cache_map \<Rightarrow> int \<Rightarrow> cache_key \<Rightarrow> cache_key" where
  "evict_scan now [] minv best = best"
| "evict_scan now ((k, e) # m) minv best =
     (let rem = duration_cast 1000000 (ce_expires e - now) in
      if 0 < rem \<and> rem < minv then evict_scan now m rem k else evict_scan now m minv best)"

definition evict :: "int \<Rightarrow> cache_map \<Rightarrow> cache_map" where
  "evict now m = (case m of [] \<Rightarrow> []
     | (k, _) # _ \<Rightarrow> AList.delete (evict_scan now m (2 ^ 64 - 1) k) m)"

text \<open>\<open>cache_[key] = entry\<close>. A new key goes to the end here; the place a new key takes in the
  iteration order of the real map is unspecified.\<close>

definition cache_put :: "cache_key \<Rightarrow> cache_entry \<Rightarrow> cache_map \<Rightarrow> cache_map" where
  "cache_put k e m = AList.update k e m"

interpretation l2_map: kv_store map_of cache_put "[] :: cache_map" "\<lambda>m. distinct (map fst m)"
  by unfold_locales (auto simp: cache_put_def update_conv' distinct_update)

section \<open>query\<close>

definition note_cache_hit :: "caching \<Rightarrow> caching" where
  "note_cache_hit s = s\<lparr>c_perf := recordCacheHit (c_perf s)\<rparr>"

fun track :: "bytes \<Rightarrow> (bytes \<times> nat) list \<Rightarrow> (bytes \<times> nat) list" where
  "track n [] = [(n, 1)]"
| "track n ((n', c) # m) = (if n' = n then (n', c + 1) # m else (n', c) # track n m)"

text \<open>The cache part of \<open>query\<close>: a reply, or nothing where the wrapped resolver is needed.
  Readings: 0 level 1, 1 and 2 level 2, 3 the new expiry of a stale answer.\<close>

definition query_cache :: "clock \<Rightarrow> dns_message \<Rightarrow> dns_question \<Rightarrow> caching \<Rightarrow> caching \<times> dns_message option" where
  "query_cache ts req q s =
     (let key = key_of q; h = turboHash key;
          s = s\<lparr>prewarmTracker := track (qname q) (prewarmTracker s)\<rparr>
      in case turboLookup h (ts 0) s of
        (s, Some m) \<Rightarrow>
          (note_cache_hit (s\<lparr>cacheHits := cacheHits s + 1, turboHits := turboHits s + 1\<rparr>),
           Some (buildCachedReply req m))
      | (s, None) \<Rightarrow>
          (case l2_lookup key (ts 1) (ts 2) s of
             L2_Fresh m expires \<Rightarrow>
               (turboInsert h (Some m) expires (note_cache_hit (s\<lparr>cacheHits := cacheHits s + 1\<rparr>)),
                Some (buildCachedReply req m))
           | L2_Stale m \<Rightarrow>
               let m = copy m;
                   s = note_cache_hit (s\<lparr>staleHits := staleHits s + 1\<rparr>);
                   s = turboInsert h (Some m) (ts 3 + seconds 60) s
               in (enqueue_stale key q s, Some (buildCachedReply req m))
           | L2_Miss \<Rightarrow>
               (s\<lparr>cacheMisses := cacheMisses s + 1, c_perf := recordCacheMiss (c_perf s)\<rparr>, None)))"

text \<open>A failure of the wrapped resolver is cached as SERVFAIL, unless the map is full.\<close>

definition failure_ttl :: "ttl_config \<Rightarrow> int" where
  "failure_ttl cfg = clamp (duration_cast 10 (negativeTTLSecs cfg)) 30 60"

definition store_failure :: "int \<Rightarrow> dns_message \<Rightarrow> dns_question \<Rightarrow> caching \<Rightarrow> caching \<times> dns_message" where
  "store_failure now req q s =
     (let key = key_of q; ttl = failure_ttl (c_ttl s);
          errorReply = clobberTTL ttl (createError req rcode_ServFail);
          expiresAt = now + seconds ttl
      in if maxCacheSize \<le> length (cache s) then (s, errorReply)
         else let s = s\<lparr>cache := cache_put key
                    \<lparr>ce_msg = Some (copy errorReply), ce_ttl = ttl, ce_expires = expiresAt\<rparr> (cache s)\<rparr>;
                  s = turboInsert (turboHash key) (Some (copy errorReply)) expiresAt s
              in (s\<lparr>cacheRecorded := cacheRecorded s + 1\<rparr>, errorReply))"

definition store_reply :: "int \<Rightarrow> int \<Rightarrow> dns_question \<Rightarrow> dns_message \<Rightarrow> caching \<Rightarrow> caching \<times> dns_message" where
  "store_reply now nowEvict q reply s =
     (if shouldCache q reply
      then let key = key_of q; ttl = reply_ttl (c_ttl s) reply;
               reply = clobberTTL ttl reply;
               expiresAt = now + seconds ttl;
               m = (if maxCacheSize \<le> length (cache s) then evict nowEvict (cache s) else cache s);
               s = s\<lparr>cache := cache_put key
                    \<lparr>ce_msg = Some (copy reply), ce_ttl = ttl, ce_expires = expiresAt\<rparr> m,
                  cacheRecorded := cacheRecorded s + 1\<rparr>;
               s = turboInsert (turboHash key) (Some (copy reply)) expiresAt s
           in (s, reply)
      else (s, reply))"

text \<open>Readings 4 and 5: storing the reply, and evicting. \<open>fan\<close> is the tuner's fan-out flag.\<close>

definition query :: "'e backend \<Rightarrow> bool \<Rightarrow> clock \<Rightarrow> dns_message \<Rightarrow> bool \<Rightarrow> caching
    \<Rightarrow> caching \<times> ('e + dns_message option)" where
  "query back fan ts req allowFanOut s =
     (let s = s\<lparr>totalQueries := totalQueries s + 1\<rparr> in
      if length (questions req) \<noteq> 1 then (s, back req allowFanOut)
      else let q = questions req ! 0 in
        case query_cache ts req q s of
          (s, Some reply) \<Rightarrow> (s, Inr (Some reply))
        | (s, None) \<Rightarrow>
            (case back req fan of
               Inl e \<Rightarrow> (s, Inl e)
             | Inr None \<Rightarrow> (case store_failure (ts 4) req q s of (s, r) \<Rightarrow> (s, Inr (Some r)))
             | Inr (Some reply) \<Rightarrow>
                 (case store_reply (ts 4) (ts 5) q reply s of (s, r) \<Rightarrow> (s, Inr (Some r)))))"

section \<open>peekCache and peekCacheRaw\<close>

definition note_peek :: "caching \<Rightarrow> caching" where
  "note_peek s = s\<lparr>totalQueries := totalQueries s + 1, cacheHits := cacheHits s + 1,
     c_perf := recordCacheHit (recordDnsQuery (c_perf s))\<rparr>"

definition peekCache :: "clock \<Rightarrow> dns_message \<Rightarrow> caching \<Rightarrow> caching \<times> dns_message option" where
  "peekCache ts req s =
     (if length (questions req) \<noteq> 1 then (s, None)
      else let key = key_of (questions req ! 0); h = turboHash key in
        case turboLookup h (ts 0) s of
          (s, Some m) \<Rightarrow> ((note_peek s)\<lparr>turboHits := turboHits s + 1\<rparr>, Some (buildCachedReply req m))
        | (s, None) \<Rightarrow>
            (case l2_lookup key (ts 1) (ts 2) s of
               L2_Fresh m expires \<Rightarrow> (note_peek s, Some (buildCachedReply req m))
             | L2_Stale m \<Rightarrow> ((note_peek s)\<lparr>staleHits := staleHits s + 1\<rparr>, Some (buildCachedReply req m))
             | L2_Miss \<Rightarrow> (s, None)))"

text \<open>The question of a raw packet: \<open>None\<close> where the code returns null. A label that starts with
  a compression pointer ends the name, and only one byte of the pointer is skipped.\<close>

function raw_qname :: "bytes \<Rightarrow> nat \<Rightarrow> nat \<Rightarrow> bytes \<Rightarrow> (bytes \<times> nat) option" where
  "raw_qname data e p name =
     (if e \<le> p then Some (name, p)
      else if data ! p = 0 then Some (name, p)
      else if data ! p AND 0xC0 = 0xC0 then Some (name, p)
      else let labelLen = unat (data ! p) in
        if e < p + 1 + labelLen then None
        else raw_qname data e (p + 1 + labelLen)
          ((if name \<noteq> [] then name @ [dot] else name) @ take labelLen (drop (p + 1) data)))"
  by pat_completeness auto
termination by (relation "measure (\<lambda>(data, e, p, name). e - p)") auto

declare raw_qname.simps [simp del]

definition raw_key :: "bytes \<Rightarrow> cache_key option" where
  "raw_key data =
     (if length data < 12 then None
      else if be16 (data ! 4) (data ! 5) = 0 then None
      else let e = length data in
        case raw_qname data e 12 [] of None \<Rightarrow> None
        | Some (name, p) \<Rightarrow>
            if e \<le> p then None
            else let p = p + 1 in
              if e < p + 4 then None
              else Some \<lparr>ck_name = name, ck_type = be16 (data ! p) (data ! (p + 1)),
                     ck_class = be16 (data ! (p + 2)) (data ! (p + 3))\<rparr>)"

text \<open>The reply built from the raw packet: the id of the query, fixed flags. \<open>full\<close> says whether
  the authority and additional sections are copied; they are not for a stale answer.\<close>

definition raw_reply :: "bytes \<Rightarrow> bool \<Rightarrow> dns_message \<Rightarrow> dns_message" where
  "raw_reply data full m =
     \<lparr>header = \<lparr>hid = be16 (data ! 0) (data ! 1), flags = 0x8180, qdcount = 1,
        ancount = of_nat (length (answers m)),
        nscount = (if full then of_nat (length (authorities m)) else 0),
        arcount = (if full then of_nat (length (additionals m)) else 0)\<rparr>,
      questions = questions m, answers = answers m,
      authorities = (if full then authorities m else []),
      additionals = (if full then additionals m else [])\<rparr>"

definition peekCacheRaw :: "clock \<Rightarrow> bytes \<Rightarrow> caching \<Rightarrow> caching \<times> dns_message option" where
  "peekCacheRaw ts data s =
     (case raw_key data of None \<Rightarrow> (s, None)
      | Some key \<Rightarrow> let h = turboHash key in
        case turboLookup h (ts 0) s of
          (s, Some m) \<Rightarrow> ((note_peek s)\<lparr>turboHits := turboHits s + 1\<rparr>, Some (raw_reply data True m))
        | (s, None) \<Rightarrow>
            (case l2_lookup key (ts 1) (ts 2) s of
               L2_Fresh m expires \<Rightarrow> (turboInsert h (Some m) expires (note_peek s), Some (raw_reply data True m))
             | L2_Stale m \<Rightarrow>
                 let m = copy m; s = (note_peek s)\<lparr>staleHits := staleHits s + 1\<rparr>;
                     s = turboInsert h (Some m) (ts 3 + seconds 60) s
                 in (enqueue_stale key (question_of key) s, Some (raw_reply data False m))
             | L2_Miss \<Rightarrow> (s, None)))"

section \<open>Refreshing, collecting, flushing\<close>

definition refresh_query :: "dns_question \<Rightarrow> dns_message" where
  "refresh_query q = \<lparr>header = (setRd True empty_header)\<lparr>qdcount := 1\<rparr>, questions = [q],
     answers = [], authorities = [], additionals = []\<rparr>"

definition update_entry :: "int \<Rightarrow> cache_key \<Rightarrow> dns_question \<Rightarrow> dns_message \<Rightarrow> caching \<Rightarrow> caching" where
  "update_entry now key q reply s =
     (if shouldCache q reply
      then let ttl = reply_ttl (c_ttl s) reply; reply = clobberTTL ttl reply in
        if map_of (cache s) key = None then s
        else s\<lparr>cache := cache_put key \<lparr>ce_msg = Some reply, ce_ttl = ttl, ce_expires = now + seconds ttl\<rparr> (cache s),
               preemptiveRefreshes := preemptiveRefreshes s + 1\<rparr>
      else s)"

text \<open>The result of \<open>refreshEntry\<close> is the state, the thread's noise filter afterwards, and whether
  the wrapped resolver threw: then the filter stays on.\<close>

definition refreshEntry :: "'e backend \<Rightarrow> int \<Rightarrow> cache_key \<Rightarrow> dns_question \<Rightarrow> caching \<Rightarrow> caching \<times> bool \<times> ('e + unit)" where
  "refreshEntry back now key q s =
     (case back (refresh_query q) True of
        Inl e \<Rightarrow> (s, True, Inl e)
      | Inr None \<Rightarrow> (s, False, Inr ())
      | Inr (Some reply) \<Rightarrow> (update_entry now key q reply s, False, Inr ()))"

text \<open>One round of the preemptive refresh thread: the entries near their expiry, collected under
  the lock (two clock readings each), then refreshed one after the other. An exception of one
  refresh is logged and the round goes on.\<close>

fun refresh_candidates :: "int \<Rightarrow> ttl_config \<Rightarrow> clock \<Rightarrow> nat \<Rightarrow> cache_map \<Rightarrow> (cache_key \<times> dns_question) list" where
  "refresh_candidates pct cfg ts i [] = []"
| "refresh_candidates pct cfg ts i ((k, e) # m) =
     (if needsRefresh pct (ts i) (ts (Suc i)) e \<and> minTTLSecs cfg \<le> ce_ttl e
      then (k, question_of k) # refresh_candidates pct cfg ts (i + 2) m
      else refresh_candidates pct cfg ts (i + 2) m)"

fun refresh_all :: "'e backend \<Rightarrow> clock \<Rightarrow> nat \<Rightarrow> (cache_key \<times> dns_question) list \<Rightarrow> caching \<Rightarrow> caching" where
  "refresh_all back ts i [] s = s"
| "refresh_all back ts i ((k, q) # ks) s = refresh_all back ts (Suc i) ks (fst (refreshEntry back (ts i) k q s))"

definition refresh_round :: "'e backend \<Rightarrow> int \<Rightarrow> clock \<Rightarrow> caching \<Rightarrow> caching" where
  "refresh_round back pct ts s =
     refresh_all back ts (2 * length (cache s)) (refresh_candidates pct (c_ttl s) ts 0 (cache s)) s"

text \<open>One work item of the stale refresh worker.\<close>

definition refresh_stale :: "'e backend \<Rightarrow> int \<Rightarrow> caching \<Rightarrow> caching \<times> ('e + unit)" where
  "refresh_stale back now s =
     (case staleRefreshQueue s of [] \<Rightarrow> (s, Inr ())
      | (k, q) # rest \<Rightarrow>
          (case refreshEntry back now k q (s\<lparr>staleRefreshQueue := rest\<rparr>) of (s, _, r) \<Rightarrow> (s, r)))"

text \<open>The clock is read once for every entry.\<close>

fun gc_loop :: "clock \<Rightarrow> nat \<Rightarrow> cache_map \<Rightarrow> cache_map" where
  "gc_loop ts i [] = []"
| "gc_loop ts i ((k, e) # m) =
     (if isExpired (ts i) e then gc_loop ts (Suc i) m else (k, e) # gc_loop ts (Suc i) m)"

definition gcCache :: "clock \<Rightarrow> caching \<Rightarrow> caching" where
  "gcCache ts s = s\<lparr>cache := gc_loop ts 0 (cache s)\<rparr>"

definition flushCache :: "caching \<Rightarrow> caching" where
  "flushCache s = s\<lparr>cache := []\<rparr>"

section \<open>Warming up\<close>

definition warmup_names :: "bytes list" where
  "warmup_names = map lit [
     ''google.com'', ''youtube.com'', ''facebook.com'', ''amazon.com'', ''wikipedia.org'',
     ''twitter.com'', ''instagram.com'', ''reddit.com'', ''linkedin.com'', ''whatsapp.com'',
     ''zoom.us'', ''netflix.com'', ''microsoft.com'', ''apple.com'', ''cloudflare.com'',
     ''github.com'', ''stackoverflow.com'', ''yahoo.com'', ''bing.com'', ''pop-os.org'']"

definition warmup_queries :: "dns_message list" where
  "warmup_queries = concat (map (\<lambda>n. [createQuery n type_A 1, createQuery n type_AAAA 1]) warmup_names)"

text \<open>The queries run until one throws; each has its own clock.\<close>

fun query_all :: "'e backend \<Rightarrow> bool \<Rightarrow> (nat \<Rightarrow> clock) \<Rightarrow> nat \<Rightarrow> dns_message list \<Rightarrow> caching \<Rightarrow> caching \<times> ('e + nat)" where
  "query_all back fan tss i [] s = (s, Inr 0)"
| "query_all back fan tss i (m # ms) s =
     (case query back fan (tss i) m False s of
        (s, Inl e) \<Rightarrow> (s, Inl e)
      | (s, Inr r) \<Rightarrow>
          (case query_all back fan tss (Suc i) ms s of
             (s, Inl e) \<Rightarrow> (s, Inl e)
           | (s, Inr n) \<Rightarrow> (s, Inr (n + (if r = None then 0 else 1)))))"

definition warmupCache :: "'e backend \<Rightarrow> bool \<Rightarrow> (nat \<Rightarrow> clock) \<Rightarrow> caching \<Rightarrow> caching \<times> ('e + nat)" where
  "warmupCache back fan tss s = query_all back fan tss 0 warmup_queries s"

text \<open>The ten most queried names since the last round (the order of names with equal counts is
  unspecified in the code). A name whose A answer is not in level 1 is sent to the wrapped
  resolver; its reply is only counted.\<close>

definition popular :: "(bytes \<times> nat) list \<Rightarrow> bytes list" where
  "popular tracked = map fst (take 10 (sort_key (\<lambda>(n, c). - int c) (filter (\<lambda>(n, c). 0 < c) tracked)))"

fun prewarm :: "'e backend \<Rightarrow> clock \<Rightarrow> nat \<Rightarrow> bytes list \<Rightarrow> caching \<Rightarrow> caching \<times> ('e + nat)" where
  "prewarm back ts i [] s = (s, Inr 0)"
| "prewarm back ts i (n # ns) s =
     (case turboLookup (turboHash \<lparr>ck_name = n, ck_type = type_A, ck_class = 1\<rparr>) (ts i) s of
        (s, Some _) \<Rightarrow> prewarm back ts (Suc i) ns s
      | (s, None) \<Rightarrow>
          (case back (createQuery n type_A 1) False of
             Inl e \<Rightarrow> (s, Inl e)
           | Inr r \<Rightarrow> (case prewarm back ts (Suc i) ns s of
                 (s, Inl e) \<Rightarrow> (s, Inl e)
               | (s, Inr n) \<Rightarrow> (s, Inr (n + (if r = None then 0 else 1))))))"

definition doAdaptivePrewarm :: "'e backend \<Rightarrow> clock \<Rightarrow> caching \<Rightarrow> caching \<times> ('e + nat)" where
  "doAdaptivePrewarm back ts s =
     prewarm back ts 0 (popular (prewarmTracker s)) (s\<lparr>prewarmTracker := []\<rparr>)"

end
