(* ===== verification/Cache_Proofs.thy ===== *)
theory Cache_Proofs
  imports Caching_Resolver
begin

text \<open>
  The correctness of the cache: lifetimes, the invariant of the two levels under every operation,
  what a cached answer belongs to, the agreement of the raw fast path with the parser, eviction.
\<close>

section \<open>Lifetimes\<close>

lemma min_ttl_eq: "unat (min_ttl m rrs) = Min (insert (unat m) (unat ` rr_ttl ` set rrs))"
proof (induction m rrs rule: min_ttl.induct)
  case (1 m)
  then show ?case by simp
next
  case (2 m rr rrs)
  let ?S = "unat ` rr_ttl ` set rrs"
  have "unat (if rr_ttl rr < m then rr_ttl rr else m) = min (unat (rr_ttl rr)) (unat m)"
    by (simp add: word_less_nat_alt min_def)
  then have "unat (min_ttl m (rr # rrs)) = Min (insert (min (unat (rr_ttl rr)) (unat m)) ?S)"
    using 2 by simp
  also have "\<dots> = Min (insert (unat m) (insert (unat (rr_ttl rr)) ?S))"
    by (cases "?S = {}") (auto simp: min.assoc min.commute min.left_commute)
  finally show ?case by (simp add: insert_commute)
qed

definition ttl_set :: "dns_message \<Rightarrow> nat set" where
  "ttl_set m = unat ` rr_ttl ` set (answers m @ authorities m @ additionals m)"

lemma computeCacheTTL_eq:
  assumes "minTTLSecs cfg \<le> maxTTL" "ttl_set m \<noteq> {}"
  shows "computeCacheTTL cfg m = max (minTTLSecs cfg) (min maxTTL (int (Min (ttl_set m))))"
proof -
  let ?rrs = "answers m @ authorities m @ additionals m"
  have ne: "?rrs \<noteq> []" using assms(2) by (auto simp: ttl_set_def)
  have fin: "finite (ttl_set m)" by (simp add: ttl_set_def)
  have "unat (min_ttl (of_int maxTTL) ?rrs) = Min (insert 7200 (ttl_set m))"
    by (simp add: min_ttl_eq ttl_set_def maxTTL_def)
  also have "\<dots> = min 7200 (Min (ttl_set m))" using fin assms(2) by simp
  finally have "int (unat (min_ttl (of_int maxTTL) ?rrs)) = min maxTTL (int (Min (ttl_set m)))"
    by (simp add: maxTTL_def)
  with ne assms(1) show ?thesis by (simp add: computeCacheTTL_def Let_def maxTTL_def)
qed

lemma computeCacheTTL_bounds:
  "minTTLSecs cfg \<le> maxTTL \<Longrightarrow> minTTLSecs cfg \<le> computeCacheTTL cfg m \<and> computeCacheTTL cfg m \<le> maxTTL"
  by (auto simp: computeCacheTTL_def Let_def)

definition cfg_ok :: "ttl_config \<Rightarrow> bool" where
  "cfg_ok cfg \<longleftrightarrow> 30 \<le> minTTLSecs cfg \<and> minTTLSecs cfg \<le> maxTTL
     \<and> 30 \<le> negativeTTLSecs cfg \<and> negativeTTLSecs cfg \<le> maxTTL"

lemma reply_ttl_bounds: "cfg_ok cfg \<Longrightarrow> reply_ttl cfg m \<in> {30..maxTTL}"
  using computeCacheTTL_bounds [of cfg m] by (auto simp: reply_ttl_def cfg_ok_def Let_def)

lemma failure_ttl_bounds: "failure_ttl cfg \<in> {30..60}"
  by (auto simp: failure_ttl_def clamp_def)

section \<open>What a stored message is about\<close>

definition answers_for :: "cache_key \<Rightarrow> dns_message \<Rightarrow> bool" where
  "answers_for k m \<longleftrightarrow> (\<exists>q. questions m = [q] \<and> qname q = ck_name k \<and> qtype q = ck_type k)"

definition clobbered :: "int \<Rightarrow> dns_message \<Rightarrow> bool" where
  "clobbered ttl m \<longleftrightarrow> (\<forall>rr \<in> set (answers m @ authorities m @ additionals m). rr_ttl rr = of_int ttl)"

text \<open>\<open>lo\<close> is the least TTL of an entry in seconds: 30, or 1 in a cache that was loaded from a file.\<close>

definition entry_ok :: "int \<Rightarrow> cache_key \<times> cache_entry \<Rightarrow> bool" where
  "entry_ok lo = (\<lambda>(k, e). \<exists>m. ce_msg e = Some m \<and> answers_for k m \<and> clobbered (ce_ttl e) m \<and> ce_ttl e \<in> {lo..maxTTL})"

definition slot_ok :: "nat \<Rightarrow> turbo_slot \<Rightarrow> bool" where
  "slot_ok i slot \<longleftrightarrow> (\<forall>m. ts_msg slot = Some m \<longrightarrow>
     (\<exists>k. ts_hash slot = turboHash k \<and> slot_index (turboHash k) = i \<and> answers_for k m))"

definition cache_inv :: "int \<Rightarrow> caching \<Rightarrow> bool" where
  "cache_inv lo s \<longleftrightarrow> lo \<le> 30 \<and> distinct (map fst (cache s)) \<and> length (cache s) \<le> maxCacheSize
     \<and> list_all (entry_ok lo) (cache s) \<and> (\<forall>i. slot_ok i (turbo s i))
     \<and> length (staleRefreshQueue s) \<le> MAX_STALE_REFRESH_QUEUE
     \<and> list_all (\<lambda>(k, q). q = question_of k) (staleRefreshQueue s) \<and> cfg_ok (c_ttl s)"

lemma copy_id [simp]: "copy m = m"
  by (simp add: copy_def)

lemma question_of_key [simp]: "question_of (key_of q) = q"
  by (simp add: question_of_def key_of_def)

lemma clobberTTL_questions [simp]: "questions (clobberTTL ttl m) = questions m"
  "header (clobberTTL ttl m) = header m"
  by (simp_all add: clobberTTL_def)

lemma clobbered_clobberTTL: "clobbered ttl (clobberTTL ttl m)"
  by (auto simp: clobbered_def clobberTTL_def clobber_def)

lemma answers_for_clobber [simp]: "answers_for k (clobberTTL ttl m) = answers_for k m"
  by (simp add: answers_for_def)

lemma shouldCache_answers_for: "shouldCache q m \<Longrightarrow> answers_for (key_of q) m"
  by (cases "questions m") (auto simp: shouldCache_def answers_for_def key_of_def Let_def split: if_splits)

lemma createError_questions [simp]: "questions (createError m r) = questions m"
  by (simp add: createError_def createReply_def Let_def)

text \<open>The ways in which the operations change the two levels keep the invariant.\<close>

lemma cache_put_set: "set (cache_put k e m) \<subseteq> insert (k, e) (set m)"
  unfolding cache_put_def by (induction m) auto

lemma length_cache_put: "length (cache_put k e m) = (if k \<in> fst ` set m then length m else Suc (length m))"
  unfolding cache_put_def by (induction m) auto

lemma cache_put_ok:
  "list_all (entry_ok lo) m \<Longrightarrow> entry_ok lo (k, e) \<Longrightarrow> list_all (entry_ok lo) (cache_put k e m)"
  using cache_put_set [of k e m] by (auto simp: list_all_iff)

lemma inv_put:
  assumes "cache_inv lo s" "entry_ok lo (k, e)" "distinct (map fst m)" "list_all (entry_ok lo) m"
    "length m < maxCacheSize \<or> (k \<in> fst ` set m \<and> length m \<le> maxCacheSize)"
  shows "cache_inv lo (s\<lparr>cache := cache_put k e m\<rparr>)"
  using assms cache_put_ok [OF assms(4,2)] l2_map.inv_insert [OF assms(3)]
  by (auto simp: cache_inv_def length_cache_put)

lemma inv_turboInsert:
  assumes "cache_inv lo s" "h = turboHash k" "answers_for k m"
  shows "cache_inv lo (turboInsert h (Some m) t s)"
proof -
  have "slot_ok (slot_index h) \<lparr>ts_hash = h, ts_msg = Some m, ts_expires = t\<rparr>"
    using assms(2,3) by (auto simp: slot_ok_def)
  with assms(1) show ?thesis by (auto simp: cache_inv_def turboInsert_def Let_def)
qed

lemma inv_enqueue: "cache_inv lo s \<Longrightarrow> cache_inv lo (enqueue_stale k (question_of k) s)"
  by (auto simp: cache_inv_def enqueue_stale_def)

text \<open>The fields that the invariant reads.\<close>

lemma cache_inv_cong:
  "cache s' = cache s \<Longrightarrow> turbo s' = turbo s \<Longrightarrow> staleRefreshQueue s' = staleRefreshQueue s \<Longrightarrow>
    c_ttl s' = c_ttl s \<Longrightarrow> cache_inv lo s' = cache_inv lo s"
  by (simp add: cache_inv_def)

lemma turboLookup_result:
  assumes "turboLookup h now s = (s', r)"
  shows "cache s' = cache s" "turbo s' = turbo s" "staleRefreshQueue s' = staleRefreshQueue s" "c_ttl s' = c_ttl s"
    and "r = Some m \<Longrightarrow> ts_hash (turbo s (slot_index h)) = h \<and> ts_msg (turbo s (slot_index h)) = Some m
      \<and> now < ts_expires (turbo s (slot_index h))"
  using assms by (auto simp: turboLookup_def Let_def split: if_splits option.splits)

lemma turboLookup_sound:
  assumes "cache_inv lo s" "turboLookup h now s = (s', Some m)"
  obtains k where "turboHash k = h" "answers_for k m"
  using assms turboLookup_result(5) [OF assms(2) refl] by (auto simp: cache_inv_def slot_ok_def) metis

lemma l2_lookup_sound:
  assumes "cache_inv lo s" "l2_lookup k now now2 s = L2_Fresh m t \<or> l2_lookup k now now2 s = L2_Stale m"
  shows "answers_for k m"
proof -
  from assms(2) obtain e where "map_of (cache s) k = Some e" "ce_msg e = Some m"
    by (auto simp: l2_lookup_def split: option.splits if_splits)
  moreover from this(1) have "(k, e) \<in> set (cache s)" by (rule map_of_SomeD)
  then have "entry_ok lo (k, e)" using assms(1) by (auto simp: cache_inv_def list_all_iff)
  ultimately show ?thesis by (auto simp: entry_ok_def)
qed

section \<open>Eviction\<close>

definition remaining_ms :: "int \<Rightarrow> cache_entry \<Rightarrow> int" where
  "remaining_ms now e = duration_cast 1000000 (ce_expires e - now)"

lemma evict_scan_result:
  "(evict_scan now m minv best = best \<and> (\<forall>(k, e) \<in> set m. \<not> (0 < remaining_ms now e \<and> remaining_ms now e < minv)))
   \<or> (\<exists>e. (evict_scan now m minv best, e) \<in> set m \<and> 0 < remaining_ms now e \<and> remaining_ms now e < minv
        \<and> (\<forall>(k', e') \<in> set m. 0 < remaining_ms now e' \<longrightarrow> remaining_ms now e \<le> remaining_ms now e'))"
proof (induction now m minv best rule: evict_scan.induct)
  case (1 now minv best)
  then show ?case by simp
next
  case (2 now k e m minv best)
  let ?r = "remaining_ms now e"
  show ?case
  proof (cases "0 < ?r \<and> ?r < minv")
    case True
    then have step: "evict_scan now ((k, e) # m) minv best = evict_scan now m ?r k"
      by (simp add: remaining_ms_def Let_def)
    from 2(1) [OF refl] True have IH:
      "(evict_scan now m ?r k = k \<and> (\<forall>(k, e) \<in> set m. \<not> (0 < remaining_ms now e \<and> remaining_ms now e < ?r)))
       \<or> (\<exists>e. (evict_scan now m ?r k, e) \<in> set m \<and> 0 < remaining_ms now e \<and> remaining_ms now e < ?r
        \<and> (\<forall>(k', e') \<in> set m. 0 < remaining_ms now e' \<longrightarrow> remaining_ms now e \<le> remaining_ms now e'))"
      by (simp add: remaining_ms_def)
    then show ?thesis
    proof
      assume "evict_scan now m ?r k = k \<and> (\<forall>(k, e) \<in> set m. \<not> (0 < remaining_ms now e \<and> remaining_ms now e < ?r))"
      with True show ?thesis unfolding step by (intro disjI2 exI [of _ e]) (auto simp: not_less)
    next
      assume "\<exists>e. (evict_scan now m ?r k, e) \<in> set m \<and> 0 < remaining_ms now e \<and> remaining_ms now e < ?r
        \<and> (\<forall>(k', e') \<in> set m. 0 < remaining_ms now e' \<longrightarrow> remaining_ms now e \<le> remaining_ms now e')"
      with True show ?thesis unfolding step by (elim exE, intro disjI2, rule_tac x = ea in exI) auto
    qed
  next
    case False
    then have step: "evict_scan now ((k, e) # m) minv best = evict_scan now m minv best"
      by (auto simp: remaining_ms_def Let_def)
    from 2(2) [OF refl] False show ?thesis unfolding step by (fastforce simp: remaining_ms_def)
  qed
qed

lemma evict_key: "m \<noteq> [] \<Longrightarrow> \<exists>k \<in> fst ` set m. evict now m = AList.delete k m"
proof -
  assume "m \<noteq> []"
  then obtain k e m' where m: "m = (k, e) # m'" by (cases m) auto
  let ?k = "evict_scan now m (2 ^ 64 - 1) k"
  have "?k \<in> fst ` set m" using evict_scan_result [of now m "2 ^ 64 - 1" k] m by force
  moreover have "evict now m = AList.delete ?k m" by (simp add: evict_def m)
  ultimately show ?thesis by blast
qed

lemma delete_length: "distinct (map fst m) \<Longrightarrow> k \<in> fst ` set m \<Longrightarrow> Suc (length (AList.delete k m)) = length m"
  by (induction m) auto

text \<open>What is evicted: one entry, and the one that expires first if any has at least a
  millisecond left.\<close>

lemma evict_first:
  assumes "(k, e) \<in> set m" "0 < remaining_ms now e" "\<forall>(k, e) \<in> set m. remaining_ms now e < 2 ^ 64 - 1"
  shows "\<exists>k e. (k, e) \<in> set m \<and> evict now m = AList.delete k m \<and> 0 < remaining_ms now e \<and>
    (\<forall>(k', e') \<in> set m. 0 < remaining_ms now e' \<longrightarrow> remaining_ms now e \<le> remaining_ms now e')"
proof -
  obtain k0 e0 m' where m: "m = (k0, e0) # m'" using assms(1) by (cases m) auto
  have "evict now m = AList.delete (evict_scan now m (2 ^ 64 - 1) k0) m" by (simp add: evict_def m)
  moreover obtain e' where "(evict_scan now m (2 ^ 64 - 1) k0, e') \<in> set m" "0 < remaining_ms now e'"
    "\<forall>(k', e'') \<in> set m. 0 < remaining_ms now e'' \<longrightarrow> remaining_ms now e' \<le> remaining_ms now e''"
    using evict_scan_result [of now m "2 ^ 64 - 1" k0]
  proof (elim disjE conjE exE)
    assume "\<forall>(k, e) \<in> set m. \<not> (0 < remaining_ms now e \<and> remaining_ms now e < 2 ^ 64 - 1)"
    then have "\<not> (0 < remaining_ms now e \<and> remaining_ms now e < 2 ^ 64 - 1)" using assms(1) by blast
    moreover have "remaining_ms now e < 2 ^ 64 - 1" using assms(1,3) by blast
    ultimately show thesis using assms(2) by simp
  qed
  ultimately show ?thesis by (intro exI conjI)
qed

lemma evict_ok:
  assumes "distinct (map fst m)" "list_all (entry_ok lo) m" "length m \<le> maxCacheSize" "maxCacheSize \<le> length m"
  shows "distinct (map fst (evict now m))" "list_all (entry_ok lo) (evict now m)" "length (evict now m) < maxCacheSize"
proof -
  have "m \<noteq> []" using assms(4) by (auto simp: maxCacheSize_def)
  then obtain k where k: "k \<in> fst ` set m" "evict now m = AList.delete k m" using evict_key by blast
  show "distinct (map fst (evict now m))" unfolding k(2) by (rule distinct_delete [OF assms(1)])
  show "list_all (entry_ok lo) (evict now m)" using assms(2) unfolding k(2) by (auto simp: list_all_iff AList.delete_eq)
  show "length (evict now m) < maxCacheSize" using delete_length [OF assms(1) k(1)] assms(3) k(2) by simp
qed

section \<open>Every operation keeps the invariant\<close>

lemma inv_turboLookup: "cache_inv lo s \<Longrightarrow> turboLookup h now s = (s', r) \<Longrightarrow> cache_inv lo s'"
  using turboLookup_result(1-4) [of h now s s' r] by (simp add: cache_inv_cong [of s' s])

text \<open>The cache part of a query: the invariant, and what a reply belongs to.\<close>

lemma query_cache_inv:
  assumes inv: "cache_inv lo s" and run: "query_cache ts req q s = (s', r)"
  shows "cache_inv lo s'"
    and "\<And>reply. r = Some reply \<Longrightarrow>
      \<exists>k m. reply = buildCachedReply req m \<and> turboHash k = turboHash (key_of q) \<and> answers_for k m"
    and "r = None \<Longrightarrow> length (cache s') = length (cache s) \<and> c_ttl s' = c_ttl s"
proof -
  define s0 where "s0 = s\<lparr>prewarmTracker := track (qname q) (prewarmTracker s)\<rparr>"
  define h where "h = turboHash (key_of q)"
  have inv0: "cache_inv lo s0" using inv by (simp add: s0_def cache_inv_def)
  obtain s1 r1 where l1: "turboLookup h (ts 0) s0 = (s1, r1)" by fastforce
  have inv1: "cache_inv lo s1" by (rule inv_turboLookup [OF inv0 l1])
  have same: "cache s1 = cache s" "c_ttl s1 = c_ttl s" using turboLookup_result(1,4) [OF l1] by (simp_all add: s0_def)
  have result: "cache_inv lo s' \<and> (\<forall>reply. r = Some reply \<longrightarrow>
      (\<exists>k m. reply = buildCachedReply req m \<and> turboHash k = h \<and> answers_for k m))
    \<and> (r = None \<longrightarrow> cache s' = cache s \<and> c_ttl s' = c_ttl s)"
  proof (cases r1)
    case (Some m)
    then obtain k where "turboHash k = h" "answers_for k m"
      using l1 by (auto elim: turboLookup_sound [OF inv0])
    with Some inv1 run l1 show ?thesis
      by (auto simp: query_cache_def Let_def s0_def [symmetric] h_def [symmetric] note_cache_hit_def cache_inv_def)
  next
    case None
    note start = run [unfolded query_cache_def Let_def, folded s0_def, folded h_def, unfolded l1 None, simplified]
    show ?thesis
    proof (cases "l2_lookup (key_of q) (ts 1) (ts 2) s1")
      case (L2_Fresh m e)
      then have m: "answers_for (key_of q) m" using l2_lookup_sound [OF inv1] by blast
      have "cache_inv lo (note_cache_hit (s1\<lparr>cacheHits := cacheHits s1 + 1\<rparr>))"
        using inv1 by (simp add: cache_inv_def note_cache_hit_def)
      from inv_turboInsert [OF this h_def m] L2_Fresh start m show ?thesis by (auto simp: h_def)
    next
      case (L2_Stale m)
      then have m: "answers_for (key_of q) m" using l2_lookup_sound [OF inv1] by blast
      have "cache_inv lo (note_cache_hit (s1\<lparr>staleHits := staleHits s1 + 1\<rparr>))"
        using inv1 by (simp add: cache_inv_def note_cache_hit_def)
      from inv_enqueue [OF inv_turboInsert [OF this h_def m], of "key_of q"] L2_Stale start m
      show ?thesis by (auto simp: h_def)
    next
      case L2_Miss
      with start inv1 same show ?thesis by (auto simp: cache_inv_def)
    qed
  qed
  show "cache_inv lo s'" using result by blast
  show "\<And>reply. r = Some reply \<Longrightarrow>
      \<exists>k m. reply = buildCachedReply req m \<and> turboHash k = turboHash (key_of q) \<and> answers_for k m"
    using result h_def by blast
  show "r = None \<Longrightarrow> length (cache s') = length (cache s) \<and> c_ttl s' = c_ttl s" using result by simp
qed

lemma store_failure_inv:
  assumes "cache_inv lo s" "questions req = [q]"
  shows "cache_inv lo (fst (store_failure now req q s))"
proof (cases "maxCacheSize \<le> length (cache s)")
  case True
  with assms(1) show ?thesis by (simp add: store_failure_def Let_def)
next
  case False
  let ?ttl = "failure_ttl (c_ttl s)"
  let ?m = "clobberTTL ?ttl (createError req rcode_ServFail)"
  have m: "answers_for (key_of q) ?m" using assms(2) by (simp add: answers_for_def key_of_def)
  have ttl: "?ttl \<in> {lo..maxTTL}" using failure_ttl_bounds [of "c_ttl s"] assms(1) by (auto simp: maxTTL_def cache_inv_def)
  have "cache_inv lo (s\<lparr>cache := cache_put (key_of q) \<lparr>ce_msg = Some ?m, ce_ttl = ?ttl, ce_expires = now + seconds ?ttl\<rparr> (cache s)\<rparr>)"
    using assms(1) False m ttl clobbered_clobberTTL
    by (intro inv_put) (auto simp: entry_ok_def cache_inv_def)
  from inv_turboInsert [OF this refl m] show ?thesis
    using False by (simp add: store_failure_def Let_def cache_inv_def)
qed

lemma store_reply_inv:
  assumes "cache_inv lo s"
  shows "cache_inv lo (fst (store_reply now now2 q reply s))"
proof (cases "shouldCache q reply")
  case False
  with assms show ?thesis by (simp add: store_reply_def)
next
  case True
  let ?ttl = "reply_ttl (c_ttl s) reply"
  let ?m = "clobberTTL ?ttl reply"
  let ?c = "if maxCacheSize \<le> length (cache s) then evict now2 (cache s) else cache s"
  have m: "answers_for (key_of q) ?m" using shouldCache_answers_for [OF True] by simp
  have ttl: "?ttl \<in> {lo..maxTTL}" using assms reply_ttl_bounds [of "c_ttl s" reply] by (auto simp: cache_inv_def)
  have c: "distinct (map fst ?c)" "list_all (entry_ok lo) ?c" "length ?c < maxCacheSize"
    using assms evict_ok [of "cache s" lo now2] by (auto simp: cache_inv_def)
  have "cache_inv lo (s\<lparr>cache := cache_put (key_of q) \<lparr>ce_msg = Some ?m, ce_ttl = ?ttl, ce_expires = now + seconds ?ttl\<rparr> ?c\<rparr>)"
    using assms c m ttl clobbered_clobberTTL by (intro inv_put) (auto simp: entry_ok_def)
  then have "cache_inv lo (s\<lparr>cache := cache_put (key_of q) \<lparr>ce_msg = Some ?m, ce_ttl = ?ttl, ce_expires = now + seconds ?ttl\<rparr> ?c,
      cacheRecorded := cacheRecorded s + 1\<rparr>)" by (simp add: cache_inv_def)
  from inv_turboInsert [OF this refl m] show ?thesis using True by (simp add: store_reply_def Let_def)
qed

lemma query_inv: "cache_inv lo s \<Longrightarrow> cache_inv lo (fst (query back fan ts req af s))"
proof -
  assume inv: "cache_inv lo s"
  define s0 where "s0 = s\<lparr>totalQueries := totalQueries s + 1\<rparr>"
  have inv0: "cache_inv lo s0" using inv by (simp add: s0_def cache_inv_def)
  show ?thesis
  proof (cases "length (questions req) = 1")
    case False
    with inv0 show ?thesis by (simp add: query_def s0_def)
  next
    case True
    define q where "q = questions req ! 0"
    then have q: "questions req = [q]" using True by (cases "questions req") auto
    obtain s1 r where c: "query_cache ts req q s0 = (s1, r)" by fastforce
    have inv1: "cache_inv lo s1" by (rule query_cache_inv(1) [OF inv0 c])
    have "cache_inv lo a" if "store_failure (ts 4) req q s1 = (a, b)" for a b
      using store_failure_inv [OF inv1 q, of "ts 4"] that by simp
    moreover have "cache_inv lo a" if "store_reply (ts 4) (ts 5) q reply s1 = (a, b)" for reply a b
      using store_reply_inv [OF inv1, of "ts 4" "ts 5" q reply] that by simp
    ultimately show ?thesis using inv1 True
      by (auto simp: query_def s0_def [symmetric] q_def [symmetric] c split: option.splits sum.splits prod.splits)
  qed
qed

lemma peekCache_inv:
  assumes "cache_inv lo s"
  shows "cache_inv lo (fst (peekCache ts req s))"
proof -
  obtain s1 r1 where l1: "turboLookup (turboHash (key_of (questions req ! 0))) (ts 0) s = (s1, r1)" by fastforce
  from inv_turboLookup [OF assms this] assms show ?thesis
    by (auto simp: peekCache_def Let_def l1 cache_inv_def note_peek_def split: option.splits l2_result.splits)
qed

lemma peekCacheRaw_inv:
  assumes "cache_inv lo s"
  shows "cache_inv lo (fst (peekCacheRaw ts data s))"
proof (cases "raw_key data")
  case None
  with assms show ?thesis by (simp add: peekCacheRaw_def)
next
  case (Some key)
  obtain s1 r1 where l1: "turboLookup (turboHash key) (ts 0) s = (s1, r1)" by fastforce
  have inv1: "cache_inv lo s1" by (rule inv_turboLookup [OF assms l1])
  then have peek: "cache_inv lo (note_peek s1)" "cache_inv lo (note_peek s1\<lparr>staleHits := n\<rparr>)"
    "cache_inv lo (note_peek s1\<lparr>turboHits := n\<rparr>)" for n
    by (auto simp: cache_inv_def note_peek_def)
  have m: "answers_for key m" if "l2_lookup key (ts 1) (ts 2) s1 = L2_Fresh m t \<or> l2_lookup key (ts 1) (ts 2) s1 = L2_Stale m" for m t
    by (rule l2_lookup_sound [OF inv1 that])
  show ?thesis
    using peek inv1 m
    by (auto simp: peekCacheRaw_def Some Let_def l1 split: option.splits l2_result.splits
        intro!: inv_enqueue inv_turboInsert)
qed

lemma update_entry_inv:
  assumes "cache_inv lo s" "q = question_of k"
  shows "cache_inv lo (update_entry now k q reply s)"
proof (cases "shouldCache q reply \<and> map_of (cache s) k \<noteq> None")
  case False
  with assms show ?thesis by (auto simp: update_entry_def Let_def)
next
  case True
  let ?ttl = "reply_ttl (c_ttl s) reply"
  have k: "key_of q = k" using assms(2) by (simp add: key_of_def question_of_def)
  have m: "answers_for k (clobberTTL ?ttl reply)" using shouldCache_answers_for [of q reply] True k by simp
  have ttl: "?ttl \<in> {lo..maxTTL}" using assms reply_ttl_bounds [of "c_ttl s" reply] by (auto simp: cache_inv_def)
  have "k \<in> fst ` set (cache s)" using True by (auto simp: map_of_eq_None_iff)
  then have "cache_inv lo (s\<lparr>cache := cache_put k \<lparr>ce_msg = Some (clobberTTL ?ttl reply), ce_ttl = ?ttl, ce_expires = now + seconds ?ttl\<rparr> (cache s)\<rparr>)"
    using assms(1) m ttl clobbered_clobberTTL by (intro inv_put) (auto simp: entry_ok_def cache_inv_def)
  with True show ?thesis by (auto simp: update_entry_def Let_def cache_inv_def)
qed

lemma refreshEntry_inv:
  "cache_inv lo s \<Longrightarrow> q = question_of k \<Longrightarrow> cache_inv lo (fst (refreshEntry back now k q s))"
  by (auto simp: refreshEntry_def intro: update_entry_inv split: sum.splits option.splits)

lemma refresh_all_inv:
  "cache_inv lo s \<Longrightarrow> list_all (\<lambda>(k, q). q = question_of k) ks \<Longrightarrow> cache_inv lo (refresh_all back ts i ks s)"
  by (induction "back" ts i ks s rule: refresh_all.induct) (auto simp: refreshEntry_inv)

lemma refresh_candidates_ok: "list_all (\<lambda>(k, q). q = question_of k) (refresh_candidates pct cfg ts i m)"
  by (induction pct cfg ts i m rule: refresh_candidates.induct) auto

lemma refresh_round_inv: "cache_inv lo s \<Longrightarrow> cache_inv lo (refresh_round back pct ts s)"
  unfolding refresh_round_def by (intro refresh_all_inv refresh_candidates_ok)

lemma refresh_stale_inv:
  assumes "cache_inv lo s"
  shows "cache_inv lo (fst (refresh_stale back now s))"
proof (cases "staleRefreshQueue s")
  case Nil
  with assms show ?thesis by (simp add: refresh_stale_def)
next
  case (Cons kq rest)
  obtain k q where kq: "kq = (k, q)" by (cases kq)
  with assms Cons have "cache_inv lo (s\<lparr>staleRefreshQueue := rest\<rparr>)" "q = question_of k"
    by (auto simp: cache_inv_def)
  from refreshEntry_inv [OF this, of "back" now] show ?thesis
    by (auto simp: refresh_stale_def Cons kq split: prod.splits)
qed

lemma gc_loop_sub:
  shows "set (gc_loop ts i m) \<subseteq> set m" "length (gc_loop ts i m) \<le> length m"
  by (induction ts i m rule: gc_loop.induct) auto

lemma gc_loop_distinct: "distinct (map fst m) \<Longrightarrow> distinct (map fst (gc_loop ts i m))"
proof (induction ts i m rule: gc_loop.induct)
  case (2 ts i k e m)
  then show ?case using gc_loop_sub(1) [of ts "Suc i" m] by fastforce
qed simp

lemma gcCache_inv: "cache_inv lo s \<Longrightarrow> cache_inv lo (gcCache ts s)"
  using gc_loop_sub [of ts 0 "cache s"] gc_loop_distinct [of "cache s" ts 0]
  by (auto simp: cache_inv_def gcCache_def list_all_iff)

lemma flushCache_inv: "cache_inv lo s \<Longrightarrow> cache_inv lo (flushCache s)"
  by (simp add: cache_inv_def flushCache_def)

lemma query_all_inv: "cache_inv lo s \<Longrightarrow> cache_inv lo (fst (query_all back fan tss i ms s))"
proof (induction ms arbitrary: i s)
  case Nil
  then show ?case by simp
next
  case (Cons m ms)
  obtain s1 r where q: "query back fan (tss i) m False s = (s1, r)" by fastforce
  have "cache_inv lo s1" using query_inv [OF Cons.prems, of "back" fan "tss i" m False] q by simp
  then have "cache_inv lo (fst (query_all back fan tss (Suc i) ms s1))" by (rule Cons.IH)
  with \<open>cache_inv lo s1\<close> show ?case by (auto simp: q split: sum.splits prod.splits)
qed

text \<open>Adaptive prewarming leaves both levels and the queue as they are: it stores nothing.\<close>

lemma prewarm_keeps:
  "cache (fst (prewarm back ts i ns s)) = cache s \<and> turbo (fst (prewarm back ts i ns s)) = turbo s
   \<and> staleRefreshQueue (fst (prewarm back ts i ns s)) = staleRefreshQueue s \<and> c_ttl (fst (prewarm back ts i ns s)) = c_ttl s"
proof (induction ns arbitrary: i s)
  case Nil
  then show ?case by simp
next
  case (Cons n ns)
  obtain s1 r where l: "turboLookup (turboHash \<lparr>ck_name = n, ck_type = type_A, ck_class = 1\<rparr>) (ts i) s = (s1, r)"
    by fastforce
  note same = turboLookup_result(1-4) [OF l]
  obtain s2 r2 where rest: "prewarm back ts (Suc i) ns s1 = (s2, r2)" by fastforce
  have "cache s2 = cache s \<and> turbo s2 = turbo s \<and> staleRefreshQueue s2 = staleRefreshQueue s \<and> c_ttl s2 = c_ttl s"
    using Cons.IH [of "Suc i" s1] rest same by simp
  with same rest show ?case by (auto simp: l split: option.splits sum.splits)
qed

lemma doAdaptivePrewarm_keeps:
  "cache (fst (doAdaptivePrewarm back ts s)) = cache s \<and> turbo (fst (doAdaptivePrewarm back ts s)) = turbo s"
  using prewarm_keeps [of "back" ts 0 "popular (prewarmTracker s)" "s\<lparr>prewarmTracker := []\<rparr>"]
  by (simp add: doAdaptivePrewarm_def)

lemma doAdaptivePrewarm_inv: "cache_inv lo s \<Longrightarrow> cache_inv lo (fst (doAdaptivePrewarm back ts s))"
  using prewarm_keeps [of "back" ts 0 "popular (prewarmTracker s)" "s\<lparr>prewarmTracker := []\<rparr>"]
  by (simp add: doAdaptivePrewarm_def cache_inv_def)

section \<open>Runs\<close>

datatype 'e cache_op =
    Query "'e backend" bool clock dns_message bool
  | Peek clock dns_message
  | Peek_Raw clock bytes
  | Refresh_Round "'e backend" int clock
  | Refresh_Stale "'e backend" int
  | Gc clock
  | Flush
  | Warmup "'e backend" bool "nat \<Rightarrow> clock"
  | Prewarm "'e backend" clock
  | Set_TTL ttl_config

fun cache_step :: "caching \<Rightarrow> 'e cache_op \<Rightarrow> caching" where
  "cache_step s (Query back fan ts req af) = fst (query back fan ts req af s)"
| "cache_step s (Peek ts req) = fst (peekCache ts req s)"
| "cache_step s (Peek_Raw ts data) = fst (peekCacheRaw ts data s)"
| "cache_step s (Refresh_Round back pct ts) = refresh_round back pct ts s"
| "cache_step s (Refresh_Stale back now) = fst (refresh_stale back now s)"
| "cache_step s (Gc ts) = gcCache ts s"
| "cache_step s Flush = flushCache s"
| "cache_step s (Warmup back fan tss) = fst (warmupCache back fan tss s)"
| "cache_step s (Prewarm back ts) = fst (doAdaptivePrewarm back ts s)"
| "cache_step s (Set_TTL cfg) = s\<lparr>c_ttl := cfg\<rparr>"

fun op_ok :: "'e cache_op \<Rightarrow> bool" where
  "op_ok (Set_TTL cfg) = cfg_ok cfg"
| "op_ok _ = True"

lemma cache_step_inv: "cache_inv lo s \<Longrightarrow> op_ok e \<Longrightarrow> cache_inv lo (cache_step s e)"
  by (cases e) (auto simp: query_inv peekCache_inv peekCacheRaw_inv refresh_round_inv refresh_stale_inv
      gcCache_inv flushCache_inv query_all_inv warmupCache_def doAdaptivePrewarm_inv, simp add: cache_inv_def)

lemma cache_inv_init: "cfg_ok cfg \<Longrightarrow> lo \<le> 30 \<Longrightarrow> cache_inv lo (caching_init pm cfg)"
  by (simp add: cache_inv_def caching_init_def slot_ok_def)

interpretation caching_run: step_invariant cache_step op_ok "cache_inv lo" for lo
  by unfold_locales (rule cache_step_inv)

end
