(* ===== verification/Cache_Answers.thy ===== *)
theory Cache_Answers
  imports Cache_Proofs
begin

text \<open>
  What a client of the cache gets: a stored reply comes back until its lifetime is over, the fast
  path on raw packets asks for the same key as the parser, collection and flushing remove what
  they should, and the counters are consistent.
\<close>

section \<open>A stored reply is served again\<close>

lemma turbo_after_insert:
  "turboLookup h now (turboInsert h (Some m) t s) =
    (if t \<le> now then (turboInsert h (Some m) t s, None)
     else ((turboInsert h (Some m) t s)\<lparr>turboFreq := (turboFreq s)(slot_index h := 1)\<rparr>, Some m))"
  by (simp add: turboLookup_def turboInsert_def Let_def)

text \<open>Level 1 hides level 2 and the wrapped resolver.\<close>

lemma query_turbo_hit:
  assumes "questions req = [q]" "ts_hash (turbo s (slot_index (turboHash (key_of q)))) = turboHash (key_of q)"
    "ts_msg (turbo s (slot_index (turboHash (key_of q)))) = Some m"
    "ts 0 < ts_expires (turbo s (slot_index (turboHash (key_of q))))"
  shows "snd (query back fan ts req af s) = Inr (Some (buildCachedReply req m))"
  using assms by (simp add: query_def query_cache_def turboLookup_def Let_def)

lemma store_reply_turbo:
  assumes "shouldCache q reply" "store_reply now now2 q reply s = (s', r)"
  shows "r = clobberTTL (reply_ttl (c_ttl s) reply) reply"
    "turbo s' (slot_index (turboHash (key_of q))) =
      \<lparr>ts_hash = turboHash (key_of q), ts_msg = Some r, ts_expires = now + seconds (reply_ttl (c_ttl s) reply)\<rparr>"
  using assms by (auto simp: store_reply_def turboInsert_def Let_def)

lemma query_miss:
  assumes "questions req = [q]" "query_cache ts req q (s\<lparr>totalQueries := totalQueries s + 1\<rparr>) = (s0, None)"
    "back req fan = Inr (Some reply)"
  shows "query back fan ts req af s = (case store_reply (ts 4) (ts 5) q reply s0 of (s, r) \<Rightarrow> (s, Inr (Some r)))"
  using assms by (simp add: query_def Let_def)

lemma query_cache_ttl:
  assumes "query_cache ts req q s = (s', None)"
  shows "c_ttl s' = c_ttl s"
proof -
  define s0 where "s0 = s\<lparr>prewarmTracker := track (qname q) (prewarmTracker s)\<rparr>"
  obtain s1 r1 where l1: "turboLookup (turboHash (key_of q)) (ts 0) s0 = (s1, r1)" by fastforce
  have "c_ttl s1 = c_ttl s" using turboLookup_result(4) [OF l1] by (simp add: s0_def)
  with assms show ?thesis
    by (auto simp: query_cache_def Let_def s0_def [symmetric] l1 split: option.splits l2_result.splits)
qed

lemma served_again:
  assumes "questions req = [q]" "query_cache ts req q (s\<lparr>totalQueries := totalQueries s + 1\<rparr>) = (s0, None)"
    and "back req fan = Inr (Some reply)" "shouldCache q reply"
    and "questions req2 = [q2]" "key_of q2 = key_of q"
    and "ts2 0 < ts 4 + seconds (reply_ttl (c_ttl s) reply)"
  shows "snd (query back2 fan2 ts2 req2 af2 (fst (query back fan ts req af s))) =
    Inr (Some (buildCachedReply req2 (clobberTTL (reply_ttl (c_ttl s) reply) reply)))"
proof -
  obtain s' r where st: "store_reply (ts 4) (ts 5) q reply s0 = (s', r)" by fastforce
  have ttl: "c_ttl s0 = c_ttl s" using query_cache_ttl [OF assms(2)] by simp
  note r = store_reply_turbo [OF assms(4) st, unfolded ttl]
  have "fst (query back fan ts req af s) = s'" using query_miss [of req q ts s s0 "back" fan reply af, OF assms(1-3)] st by simp
  then show ?thesis using query_turbo_hit [OF assms(5), of s' r ts2 back2 fan2 af2] assms(6,7) r by simp
qed

lemma query_stores_turbo:
  assumes "questions req = [q]" "query_cache ts req q (s\<lparr>totalQueries := totalQueries s + 1\<rparr>) = (s0, None)"
    and "bk req fan = Inr (Some reply)" "shouldCache q reply"
  shows "turbo (fst (query bk fan ts req af s)) (slot_index (turboHash (key_of q))) =
    \<lparr>ts_hash = turboHash (key_of q), ts_msg = Some (clobberTTL (reply_ttl (c_ttl s) reply) reply),
     ts_expires = ts 4 + seconds (reply_ttl (c_ttl s) reply)\<rparr>"
proof -
  obtain s' r where st: "store_reply (ts 4) (ts 5) q reply s0 = (s', r)" by fastforce
  show ?thesis
    using query_miss [of req q ts s s0 bk fan reply af, OF assms(1-3)] st store_reply_turbo [OF assms(4) st]
      query_cache_ttl [OF assms(2)] by simp
qed

lemma query_cache_turbo_hit:
  assumes "turbo s (slot_index (turboHash (key_of q))) = \<lparr>ts_hash = turboHash (key_of q), ts_msg = Some m, ts_expires = t\<rparr>"
    "ts 0 < t"
  shows "snd (query_cache ts req q s) = Some (buildCachedReply req m)"
  using assms by (simp add: query_cache_def turboLookup_def Let_def)

text \<open>A slot of level 1 keeps its content through an operation that asks for no key of the slot, or
  asks for the stored key while it has not expired. Only queries and raw peeks write level 1:
  refreshes, collection, flushing and prewarming do not.\<close>

definition spares :: "64 word \<Rightarrow> int \<Rightarrow> int \<Rightarrow> cache_key \<Rightarrow> bool" where
  "spares h t now k \<longleftrightarrow> slot_index (turboHash k) \<noteq> slot_index h \<or> (turboHash k = h \<and> now < t)"

definition spares_query :: "64 word \<Rightarrow> int \<Rightarrow> int \<Rightarrow> dns_message \<Rightarrow> bool" where
  "spares_query h t now req \<longleftrightarrow> length (questions req) \<noteq> 1 \<or> spares h t now (key_of (questions req ! 0))"

fun spares_op :: "64 word \<Rightarrow> int \<Rightarrow> 'e cache_op \<Rightarrow> bool" where
  "spares_op h t (Query back fan ts req af) \<longleftrightarrow> spares_query h t (ts 0) req"
| "spares_op h t (Peek_Raw ts data) \<longleftrightarrow> (case raw_key data of None \<Rightarrow> True | Some k \<Rightarrow> spares h t (ts 0) k)"
| "spares_op h t (Warmup back fan tss) \<longleftrightarrow>
     list_all (\<lambda>i. spares_query h t (tss i 0) (warmup_queries ! i)) [0..<length warmup_queries]"
| "spares_op h t _ \<longleftrightarrow> True"

definition holds_slot :: "64 word \<Rightarrow> dns_message \<Rightarrow> int \<Rightarrow> caching \<Rightarrow> bool" where
  "holds_slot h m t s \<longleftrightarrow> turbo s (slot_index h) = \<lparr>ts_hash = h, ts_msg = Some m, ts_expires = t\<rparr>"

lemma holds_slot_cong: "turbo s' = turbo s \<Longrightarrow> holds_slot h m t s' = holds_slot h m t s"
  by (simp add: holds_slot_def)

lemma turboInsert_elsewhere:
  "slot_index h' \<noteq> slot_index h \<Longrightarrow> turbo (turboInsert h' m t s) (slot_index h) = turbo s (slot_index h)"
  by (simp add: turboInsert_def Let_def)

lemma turboLookup_holds: "holds_slot h m t s \<Longrightarrow> now < t \<Longrightarrow> snd (turboLookup h now s) = Some m"
  by (simp add: holds_slot_def turboLookup_def Let_def)

lemma query_cache_spares:
  assumes "holds_slot h m t s" "spares h t (ts 0) (key_of q)" "query_cache ts req q s = (s', r)"
  shows "holds_slot h m t s' \<and> (r = None \<longrightarrow> slot_index (turboHash (key_of q)) \<noteq> slot_index h)"
proof -
  define s0 where "s0 = s\<lparr>prewarmTracker := track (qname q) (prewarmTracker s)\<rparr>"
  obtain s1 r1 where l1: "turboLookup (turboHash (key_of q)) (ts 0) s0 = (s1, r1)" by fastforce
  have h: "holds_slot h m t s0" "holds_slot h m t s1"
    using assms(1) turboLookup_result(2) [OF l1] by (simp_all add: holds_slot_def s0_def)
  note start = assms(3) [unfolded query_cache_def Let_def, folded s0_def, unfolded l1]
  show ?thesis
  proof (cases "slot_index (turboHash (key_of q)) = slot_index h")
    case True
    with assms(2) have "turboHash (key_of q) = h" "ts 0 < t" by (simp_all add: spares_def)
    with turboLookup_holds [OF h(1), of "ts 0"] l1 have "r1 = Some m" by simp
    with start h(2) show ?thesis by (auto simp: holds_slot_def note_cache_hit_def)
  next
    case False
    with start h(2) show ?thesis
      by (auto simp: holds_slot_def note_cache_hit_def enqueue_stale_def turboInsert_elsewhere
          split: option.splits l2_result.splits)
  qed
qed

lemma query_spares:
  assumes "holds_slot h m t s" "spares_query h t (ts 0) req"
  shows "holds_slot h m t (fst (query back fan ts req af s))"
proof (cases "length (questions req) = 1")
  case True
  define s0 where "s0 = s\<lparr>totalQueries := totalQueries s + 1\<rparr>"
  obtain s1 r where c: "query_cache ts req (questions req ! 0) s0 = (s1, r)" by fastforce
  have "holds_slot h m t s0" "spares h t (ts 0) (key_of (questions req ! 0))"
    using assms True by (simp_all add: s0_def holds_slot_def spares_query_def)
  note q = query_cache_spares [OF this c]
  have "turbo (fst (store_failure now req (questions req ! 0) s1)) (slot_index h) = turbo s1 (slot_index h)"
    "turbo (fst (store_reply now now2 (questions req ! 0) reply s1)) (slot_index h) = turbo s1 (slot_index h)"
    if "r = None" for now now2 reply
    using q that by (simp_all add: store_failure_def store_reply_def Let_def turboInsert_elsewhere)
  with q True c show ?thesis
    by (cases r) (simp_all add: query_def Let_def s0_def [symmetric] holds_slot_def case_prod_beta split: sum.split option.split)
qed (use assms(1) in \<open>simp add: query_def holds_slot_def\<close>)

lemma peekCacheRaw_spares:
  assumes "holds_slot h m t s" "spares_op h t (Peek_Raw ts data)"
  shows "holds_slot h m t (fst (peekCacheRaw ts data s))"
proof (cases "raw_key data")
  case (Some key)
  obtain s1 r1 where l1: "turboLookup (turboHash key) (ts 0) s = (s1, r1)" by fastforce
  have h: "holds_slot h m t s1" using assms(1) turboLookup_result(2) [OF l1] by (simp add: holds_slot_def)
  show ?thesis
  proof (cases "slot_index (turboHash key) = slot_index h")
    case True
    with assms(2) Some have "turboHash key = h" "ts 0 < t" by (simp_all add: spares_def)
    with turboLookup_holds [OF assms(1), of "ts 0"] l1 have "r1 = Some m" by simp
    with Some h show ?thesis by (simp add: peekCacheRaw_def l1 Let_def holds_slot_def note_peek_def)
  next
    case False
    with Some h show ?thesis
      by (auto simp: peekCacheRaw_def l1 Let_def holds_slot_def note_peek_def enqueue_stale_def turboInsert_elsewhere
          split: option.split l2_result.split)
  qed
qed (use assms(1) in \<open>simp add: peekCacheRaw_def\<close>)

lemma query_all_spares:
  "holds_slot h m t s \<Longrightarrow> \<forall>j < length ms. spares_query h t (tss (i + j) 0) (ms ! j) \<Longrightarrow>
    holds_slot h m t (fst (query_all back fan tss i ms s))"
proof (induction ms arbitrary: i s)
  case (Cons m' ms)
  obtain s1 r where q: "query back fan (tss i) m' False s = (s1, r)" by fastforce
  have "spares_query h t (tss i 0) m'" using Cons.prems(2) [rule_format, of 0] by simp
  then have s1: "holds_slot h m t s1"
    using query_spares [OF Cons.prems(1), of "tss i" m' "back" fan False] q by simp
  have "\<forall>j < length ms. spares_query h t (tss (Suc i + j) 0) (ms ! j)"
    using Cons.prems(2) by (metis Suc_less_eq add_Suc_shift length_Cons nth_Cons_Suc)
  from Cons.IH [OF s1 this] s1 show ?case by (auto simp: q split: sum.splits prod.splits)
qed simp

lemma turbo_refreshEntry [simp]: "turbo (fst (refreshEntry back now k q s)) = turbo s"
  by (simp add: refreshEntry_def update_entry_def Let_def split: sum.split option.split)

lemma turbo_refresh_all [simp]: "turbo (refresh_all back ts i ks s) = turbo s"
  by (induction "back" ts i ks s rule: refresh_all.induct) simp_all

lemma turbo_others:
  "turbo (fst (peekCache ts req s)) = turbo s" "turbo (refresh_round back pct ts s) = turbo s"
  "turbo (fst (refresh_stale back now s)) = turbo s" "turbo (gcCache ts s) = turbo s" "turbo (flushCache s) = turbo s"
  "turbo (fst (doAdaptivePrewarm back ts s)) = turbo s"
proof -
  show "turbo (fst (peekCache ts req s)) = turbo s"
    by (auto simp: peekCache_def note_peek_def Let_def turboLookup_result(2) split: option.split prod.split l2_result.split)
  have "turbo (fst (refreshEntry back now k q s')) = turbo s'" for k q s' by simp
  then show "turbo (fst (refresh_stale back now s)) = turbo s"
    by (simp add: refresh_stale_def case_prod_beta split: list.split)
qed (simp_all add: refresh_round_def gcCache_def flushCache_def doAdaptivePrewarm_keeps)

lemma cache_step_spares:
  assumes "holds_slot h m t s" "spares_op h t e"
  shows "holds_slot h m t (cache_step s e)"
proof (cases e)
  case (Query bk fan ts req af)
  with assms query_spares show ?thesis by simp
next
  case (Peek_Raw ts data)
  with assms peekCacheRaw_spares show ?thesis by simp
next
  case (Warmup bk fan tss)
  with assms query_all_spares [of h m t s warmup_queries tss 0 bk fan] show ?thesis
    by (simp add: warmupCache_def list_all_iff)
qed (use assms(1) in \<open>simp_all add: holds_slot_def turbo_others\<close>)

lemma cache_run_spares:
  "holds_slot h m t s \<Longrightarrow> list_all (spares_op h t) es \<Longrightarrow> holds_slot h m t (foldl cache_step s es)"
  by (induction es arbitrary: s) (simp_all add: cache_step_spares)

lemma served_for_lifetime:
  assumes "questions req = [q]" "query_cache ts req q (s\<lparr>totalQueries := totalQueries s + 1\<rparr>) = (s0, None)"
    and "bk req fan = Inr (Some reply)" "shouldCache q reply" "t = ts 4 + seconds (reply_ttl (c_ttl s) reply)"
    and "list_all (spares_op (turboHash (key_of q)) t) es"
    and "questions req2 = [q2]" "key_of q2 = key_of q" "ts2 0 < t"
  shows "snd (query bk2 fan2 ts2 req2 af2 (foldl cache_step (fst (query bk fan ts req af s)) es)) =
    Inr (Some (buildCachedReply req2 (clobberTTL (reply_ttl (c_ttl s) reply) reply)))"
proof -
  have "holds_slot (turboHash (key_of q)) (clobberTTL (reply_ttl (c_ttl s) reply) reply) t (fst (query bk fan ts req af s))"
    using query_stores_turbo [of req q ts s s0 bk fan reply af, OF assms(1-4)] assms(5) by (simp add: holds_slot_def)
  from cache_run_spares [OF this assms(6)]
  have slot: "turbo (foldl cache_step (fst (query bk fan ts req af s)) es) (slot_index (turboHash (key_of q2))) =
      \<lparr>ts_hash = turboHash (key_of q2), ts_msg = Some (clobberTTL (reply_ttl (c_ttl s) reply) reply), ts_expires = t\<rparr>"
    by (simp only: holds_slot_def assms(8))
  show ?thesis by (rule query_turbo_hit [OF assms(7)]) (use assms(9) in \<open>simp_all only: slot turbo_slot.simps\<close>)
qed

text \<open>Where a cached reply comes from: the slot of the question's hash or the entry of its key.\<close>

definition from_level1 :: "caching \<Rightarrow> int \<Rightarrow> cache_key \<Rightarrow> dns_message \<Rightarrow> bool" where
  "from_level1 s now k m \<longleftrightarrow> (let slot = turbo s (slot_index (turboHash k)) in
     ts_hash slot = turboHash k \<and> ts_msg slot = Some m \<and> now < ts_expires slot)"

definition from_level2 :: "caching \<Rightarrow> int \<Rightarrow> int \<Rightarrow> cache_key \<Rightarrow> dns_message \<Rightarrow> bool" where
  "from_level2 s now now2 k m \<longleftrightarrow> (\<exists>e. map_of (cache s) k = Some e \<and> ce_msg e = Some m
     \<and> (now < ce_expires e \<or> now2 < ce_expires e + seconds (staleThresholdSecs (c_ttl s))))"

lemma query_cache_source:
  assumes "query_cache ts req q s = (s', Some reply)"
  shows "\<exists>m. reply = buildCachedReply req m \<and> (from_level1 s (ts 0) (key_of q) m \<or> from_level2 s (ts 1) (ts 2) (key_of q) m)"
proof -
  define s0 where "s0 = s\<lparr>prewarmTracker := track (qname q) (prewarmTracker s)\<rparr>"
  obtain s1 r1 where l1: "turboLookup (turboHash (key_of q)) (ts 0) s0 = (s1, r1)" by fastforce
  note start = assms [unfolded query_cache_def Let_def, folded s0_def, unfolded l1]
  have same: "cache s1 = cache s" "c_ttl s1 = c_ttl s" "turbo s0 = turbo s"
    using turboLookup_result(1,4) [OF l1] by (simp_all add: s0_def)
  show ?thesis
  proof (cases r1)
    case (Some m)
    then have "from_level1 s (ts 0) (key_of q) m"
      using turboLookup_result(5) [OF l1] same(3) by (simp add: from_level1_def)
    with Some start show ?thesis by auto
  next
    case None
    have "from_level2 s (ts 1) (ts 2) (key_of q) m"
      if "l2_lookup (key_of q) (ts 1) (ts 2) s1 = L2_Fresh m t \<or> l2_lookup (key_of q) (ts 1) (ts 2) s1 = L2_Stale m" for m t
      using that same by (auto simp: l2_lookup_def from_level2_def isExpired_def split: option.splits if_splits)
    with None start show ?thesis by (auto split: l2_result.splits)
  qed
qed

lemma level1_belongs:
  "cache_inv lo s \<Longrightarrow> from_level1 s now k m \<Longrightarrow> \<exists>k'. turboHash k' = turboHash k \<and> answers_for k' m"
  by (auto simp: cache_inv_def slot_ok_def from_level1_def Let_def) metis

lemma level2_belongs:
  assumes "cache_inv lo s" "from_level2 s now now2 k m"
  shows "answers_for k m"
proof -
  from assms(2) obtain e where e: "map_of (cache s) k = Some e" "ce_msg e = Some m" by (auto simp: from_level2_def)
  then have "(k, e) \<in> set (cache s)" by (simp add: map_of_SomeD)
  with assms(1) e(2) show ?thesis by (auto simp: cache_inv_def list_all_iff entry_ok_def)
qed

text \<open>The header of a cached reply is the one of the query: its error code is not the one of the
  stored message.\<close>

lemma rcode_buildCachedReply: "hdr_rcode (header (buildCachedReply req m)) = hdr_rcode (header req)"
proof -
  have "hdr_rcode h = hdr_rcode (h\<lparr>ancount := a, nscount := b, arcount := c\<rparr>)" for h a b c
    by (simp add: hdr_rcode_def)
  moreover have "header (buildCachedReply req m) =
      (setRa True (setQr True (header req)))\<lparr>ancount := of_nat (length (answers m)),
        nscount := of_nat (length (authorities m)), arcount := of_nat (length (additionals m))\<rparr>"
    by (simp add: buildCachedReply_def createReply_def Let_def)
  ultimately show ?thesis by (metis rcode_setQr_setRa)
qed

section \<open>A fresh entry of level 2\<close>

lemma query_l2_fresh:
  assumes "questions req = [q]" "map_of (cache s) (key_of q) = Some e" "ce_msg e = Some m" "ts 1 < ce_expires e"
    and "ts_hash (turbo s (slot_index (turboHash (key_of q)))) \<noteq> turboHash (key_of q)"
  shows "snd (query back fan ts req af s) = Inr (Some (buildCachedReply req m))"
  using assms by (simp add: query_def query_cache_def turboLookup_def l2_lookup_def isExpired_def Let_def)

section \<open>The fast path asks for the same key\<close>

lemma raw_qname_label:
  assumes "0 < length l" "length l \<le> 63" "data = pre @ of_nat (length l) # l @ post" "length pre + 1 + length l \<le> e"
  shows "raw_qname data e (length pre) name = raw_qname data e (length pre + 1 + length l) (add_label name l)"
proof -
  have nth: "data ! length pre = of_nat (length l)" using assms(3) by simp
  have "take (length l) (drop (Suc (length pre)) data) = l" using assms(3) by simp
  then show ?thesis using len_byte [OF assms(1,2)] nth assms(4)
    by (subst raw_qname.simps) (simp add: add_label_def)
qed

lemma raw_qname_enc:
  "\<forall>l \<in> set ls. 0 < length l \<and> length l \<le> 63 \<Longrightarrow> data = pre @ enc_labels ls @ 0 # post \<Longrightarrow>
    length pre + length (enc_labels ls) + 1 \<le> e \<Longrightarrow>
    raw_qname data e (length pre) name = Some (foldl add_label name ls, length pre + length (enc_labels ls))"
proof (induction ls arbitrary: pre name)
  case Nil
  then have "data ! length pre = 0" by simp
  with Nil show ?case by (subst raw_qname.simps) simp
next
  case (Cons l ls)
  let ?pre = "pre @ of_nat (length l) # l"
  have "raw_qname data e (length pre) name = raw_qname data e (length pre + 1 + length l) (add_label name l)"
    using Cons.prems by (intro raw_qname_label) auto
  also have "\<dots> = raw_qname data e (length ?pre) (add_label name l)" by simp
  also have "\<dots> = Some (foldl add_label (add_label name l) ls, length ?pre + length (enc_labels ls))"
    using Cons.prems by (intro Cons.IH) auto
  finally show ?case by simp
qed

lemma readU16_nth: "readU16 data p = Inr v \<Longrightarrow> be16 (data ! p) (data ! (p + 1)) = v"
  by (auto simp: readU16_def byte_at_def split: if_splits)

lemma raw_key_encode:
  assumes "wf_message m" "questions m = [q]"
  shows "raw_key (encode m) = Some (key_of q)"
proof -
  let ?d = "encode m" and ?w = "name_wire (qname q)" and ?ls = "labels (qname q)"
  define rest where "rest = concat (map enc_rr (answers m)) @ concat (map enc_rr (authorities m)) @ concat (map enc_rr (additionals m))"
  have d: "?d = enc_header m @ ?w @ writeU16 (qtype q) @ writeU16 (qclass q) @ rest"
    using assms(2) by (simp add: encode_def enc_question_def rest_def)
  have qd: "readU16 ?d 4 = Inr 1"
    using assms(2) by (intro read_at(1) [where pre = "writeU16 (hid (header m)) @ writeU16 (flags (header m))"])
      (auto simp: d enc_header_def)
  have qn: "wf_name (qname q)" using assms by (simp add: wf_message_def wf_question_def)
  have ls: "\<forall>l \<in> set ?ls. 0 < length l \<and> length l \<le> 63"
    using wf_name_wire [OF qn] labels_nonempty [of _ "qname q"]
    by (auto simp: nameToWire_eq not_less split: if_splits)
  let ?n = "length (enc_labels ?ls)"
  have len: "length ?w = ?n + 1" by (simp add: name_wire_def)
  have "raw_qname ?d (length ?d) (length (enc_header m)) [] = Some (foldl add_label [] ?ls, length (enc_header m) + ?n)"
    by (rule raw_qname_enc [OF ls]) (auto simp: d name_wire_def)
  then have name: "raw_qname ?d (length ?d) 12 [] = Some (qname q, 12 + ?n)"
    using normalise_wf [OF qn] by (simp add: normalise_def join_labels_def)
  have t: "readU16 ?d (12 + ?n + 1) = Inr (qtype q)"
    by (rule read_at(1) [where pre = "enc_header m @ ?w"]) (auto simp: d len)
  have c: "readU16 ?d (12 + ?n + 1 + 2) = Inr (qclass q)"
    by (rule read_at(1) [where pre = "enc_header m @ ?w @ writeU16 (qtype q)"]) (auto simp: d len)
  have l: "12 + ?n + 5 \<le> length ?d" by (simp add: d len)
  show ?thesis
    using readU16_nth [OF qd] readU16_nth [OF t] readU16_nth [OF c] l name
    by (simp add: raw_key_def Let_def key_of_def)
qed

section \<open>Collection and flushing\<close>

lemma gc_loop_const: "gc_loop (\<lambda>_. now) i m = filter (\<lambda>(k, e). now < ce_expires e) m"
  by (induction "\<lambda>_ :: nat. now" i m rule: gc_loop.induct) (auto simp: isExpired_def)

lemma gcCache_lookup:
  assumes "cache_inv lo s"
  shows "map_of (cache (gcCache (\<lambda>_. now) s)) k =
    (case map_of (cache s) k of Some e \<Rightarrow> if now < ce_expires e then Some e else None | None \<Rightarrow> None)"
proof -
  have "distinct (map fst m) \<Longrightarrow> map_of (filter (\<lambda>(k, e). P e) m) k =
    (case map_of m k of Some e \<Rightarrow> if P e then Some e else None | None \<Rightarrow> None)" for m :: cache_map and P
    by (induction m) (auto simp: map_of_eq_None_iff split: option.splits dest: map_of_SomeD)
  from this [of "cache s" "\<lambda>e. now < ce_expires e"] assms show ?thesis
    by (simp add: gcCache_def gc_loop_const cache_inv_def)
qed

text \<open>After a collection nothing stale is left to serve.\<close>

lemma gc_no_stale:
  assumes "cache_inv lo s" "now' \<le> now"
  shows "l2_lookup k now' now2 (gcCache (\<lambda>_. now) s) \<noteq> L2_Stale m"
  using gcCache_lookup [OF assms(1), of now k] assms(2)
  by (auto simp: l2_lookup_def isExpired_def split: option.splits if_splits)

section \<open>The counters\<close>

definition counts_inv :: "caching \<Rightarrow> bool" where
  "counts_inv s \<longleftrightarrow> 0 \<le> cacheMisses s \<and> 0 \<le> staleHits s \<and> 0 \<le> turboHits s \<and> turboHits s \<le> cacheHits s
     \<and> cacheHits s + cacheMisses s \<le> totalQueries s \<and> staleHits s + cacheMisses s \<le> totalQueries s"

definition counts_eq :: "caching \<Rightarrow> caching \<Rightarrow> bool" where
  "counts_eq s s' \<longleftrightarrow> totalQueries s' = totalQueries s \<and> cacheHits s' = cacheHits s
     \<and> cacheMisses s' = cacheMisses s \<and> staleHits s' = staleHits s \<and> turboHits s' = turboHits s"

lemma counts_eq_inv: "counts_eq s s' \<Longrightarrow> counts_inv s' = counts_inv s"
  by (simp add: counts_eq_def counts_inv_def)

lemma counts_eq_refl: "counts_eq s s"
  by (simp add: counts_eq_def)

lemma counts_eq_trans: "counts_eq s s' \<Longrightarrow> counts_eq s' s'' \<Longrightarrow> counts_eq s s''"
  by (simp add: counts_eq_def)

lemma counts_eq_parts:
  "turboLookup h now s = (s', r) \<Longrightarrow> counts_eq s s'"
  "store_failure now req q s = (s', m) \<Longrightarrow> counts_eq s s'"
  "store_reply now now2 q reply s = (s', m) \<Longrightarrow> counts_eq s s'"
  "counts_eq s (update_entry now k q reply s)"
  by (auto simp: counts_eq_def turboLookup_def store_failure_def store_reply_def turboInsert_def
      update_entry_def Let_def split: if_splits option.splits)

lemma query_counts: "counts_inv s \<Longrightarrow> counts_inv (fst (query back fan ts req af s))"
proof -
  assume inv: "counts_inv s"
  define s0 where "s0 = s\<lparr>totalQueries := totalQueries s + 1\<rparr>"
  show ?thesis
  proof (cases "length (questions req) = 1")
    case False
    with inv show ?thesis by (simp add: query_def counts_inv_def)
  next
    case True
    define q where "q = questions req ! 0"
    obtain s1 r where c: "query_cache ts req q s0 = (s1, r)" by fastforce
    define s00 where "s00 = s0\<lparr>prewarmTracker := track (qname q) (prewarmTracker s0)\<rparr>"
    obtain s2 r2 where l: "turboLookup (turboHash (key_of q)) (ts 0) s00 = (s2, r2)" by fastforce
    have eq: "totalQueries s2 = totalQueries s + 1" "cacheHits s2 = cacheHits s" "cacheMisses s2 = cacheMisses s"
      "staleHits s2 = staleHits s" "turboHits s2 = turboHits s"
      using counts_eq_parts(1) [OF l] by (simp_all add: counts_eq_def s00_def s0_def)
    have "counts_inv s1"
      using c inv eq by (auto simp: query_cache_def Let_def s00_def [symmetric] l note_cache_hit_def
          turboInsert_def enqueue_stale_def counts_inv_def split: option.splits l2_result.splits)
    then have "counts_eq s1 s' \<Longrightarrow> counts_inv s'" for s' by (simp add: counts_eq_inv)
    then show ?thesis using True \<open>counts_inv s1\<close>
      by (auto simp: query_def s0_def [symmetric] q_def [symmetric] c
          split: option.splits sum.splits prod.splits dest: counts_eq_parts(2,3))
  qed
qed

lemma peek_counts:
  assumes "counts_inv s"
  shows "counts_inv (fst (peekCache ts req s))" "counts_inv (fst (peekCacheRaw ts data s))"
proof -
  obtain s1 r1 where l: "turboLookup (turboHash (key_of (questions req ! 0))) (ts 0) s = (s1, r1)" by fastforce
  have "counts_inv s1" using assms counts_eq_parts(1) [OF l] by (simp add: counts_eq_inv)
  with assms show "counts_inv (fst (peekCache ts req s))"
    by (auto simp: peekCache_def Let_def l note_peek_def counts_inv_def split: option.splits l2_result.splits)
  show "counts_inv (fst (peekCacheRaw ts data s))"
  proof (cases "raw_key data")
    case None
    with assms show ?thesis by (simp add: peekCacheRaw_def)
  next
    case (Some key)
    obtain s1 r1 where l: "turboLookup (turboHash key) (ts 0) s = (s1, r1)" by fastforce
    have "counts_inv s1" using assms counts_eq_parts(1) [OF l] by (simp add: counts_eq_inv)
    with assms Some show ?thesis
      by (auto simp: peekCacheRaw_def Let_def l note_peek_def turboInsert_def enqueue_stale_def counts_inv_def
          split: option.splits l2_result.splits)
  qed
qed

lemma refresh_counts:
  "counts_eq s (fst (refreshEntry back now k q s))"
  "counts_eq s (refresh_all back ts i ks s)"
  "counts_eq s (fst (refresh_stale back now s))"
proof -
  show e: "counts_eq s (fst (refreshEntry back now k q s))" for now k q s
    by (auto simp: refreshEntry_def counts_eq_parts(4) counts_eq_refl split: sum.splits option.splits)
  show "counts_eq s (refresh_all back ts i ks s)"
  proof (induction ks arbitrary: i s)
    case (Cons kq ks)
    obtain k q where kq: "kq = (k, q)" by (cases kq)
    show ?case unfolding kq refresh_all.simps by (rule counts_eq_trans [OF e Cons.IH])
  qed (simp add: counts_eq_refl)
  show "counts_eq s (fst (refresh_stale back now s))"
  proof (cases "staleRefreshQueue s")
    case Nil
    then show ?thesis by (simp add: refresh_stale_def counts_eq_refl)
  next
    case (Cons kq rest)
    obtain k q where kq: "kq = (k, q)" by (cases kq)
    have "counts_eq s (fst (refreshEntry back now k q (s\<lparr>staleRefreshQueue := rest\<rparr>)))"
      using e [of "s\<lparr>staleRefreshQueue := rest\<rparr>" now k q] by (simp add: counts_eq_def)
    then show ?thesis by (auto simp: refresh_stale_def Cons kq split: prod.splits)
  qed
qed

lemma query_all_counts: "counts_inv s \<Longrightarrow> counts_inv (fst (query_all back fan tss i ms s))"
proof (induction ms arbitrary: i s)
  case Nil
  then show ?case by simp
next
  case (Cons m ms)
  obtain s1 r where q: "query back fan (tss i) m False s = (s1, r)" by fastforce
  have "counts_inv s1" using query_counts [OF Cons.prems, of "back" fan "tss i" m False] q by simp
  then have "counts_inv (fst (query_all back fan tss (Suc i) ms s1))" by (rule Cons.IH)
  with \<open>counts_inv s1\<close> show ?case by (auto simp: q split: sum.splits prod.splits)
qed

lemma prewarm_counts: "counts_eq s (fst (prewarm back ts i ns s))"
proof (induction ns arbitrary: i s)
  case Nil
  then show ?case by (simp add: counts_eq_refl)
next
  case (Cons n ns)
  obtain s1 r where l: "turboLookup (turboHash \<lparr>ck_name = n, ck_type = type_A, ck_class = 1\<rparr>) (ts i) s = (s1, r)"
    by fastforce
  obtain s2 r2 where rest: "prewarm back ts (Suc i) ns s1 = (s2, r2)" by fastforce
  have "counts_eq s s1" by (rule counts_eq_parts(1) [OF l])
  moreover have "counts_eq s s2" using Cons.IH [of s1 "Suc i"] rest calculation by (auto intro: counts_eq_trans)
  ultimately show ?case using rest by (auto simp: l split: option.splits sum.splits)
qed

lemma cache_step_counts: "counts_inv s \<Longrightarrow> counts_inv (cache_step s e)"
proof (cases e)
  case (Prewarm b ts)
  assume inv: "counts_inv s"
  have "counts_eq s (fst (prewarm b ts 0 (popular (prewarmTracker s)) (s\<lparr>prewarmTracker := []\<rparr>)))"
    using prewarm_counts [of "s\<lparr>prewarmTracker := []\<rparr>" b ts 0 "popular (prewarmTracker s)"] by (simp add: counts_eq_def)
  with inv Prewarm show ?thesis by (simp add: doAdaptivePrewarm_def counts_eq_inv)
qed (auto simp: query_counts peek_counts refresh_round_def query_all_counts warmupCache_def counts_eq_inv
    [OF refresh_counts(2)] counts_eq_inv [OF refresh_counts(3)] gcCache_def flushCache_def, auto simp: counts_inv_def)

interpretation counting: step_invariant cache_step op_ok counts_inv
  by unfold_locales (rule cache_step_counts)

lemma counts_inv_init: "counts_inv (caching_init pm cfg)"
  by (simp add: counts_inv_def caching_init_def)

end
