(* ===== verification/Periodic.thy ===== *)
theory Periodic
  imports Step_Invariant
begin

text \<open>
  The background threads: \<open>while (running_) { sleep; if (!running_) break; work(); }\<close>. They differ in
  how long they sleep, whether the sleep is cut into slices before each of which the flag is read,
  and whether the flag is read once more before the work. A \<open>beat\<close> is the place of such a thread in
  its loop; one step of the thread reads the flag, sleeps through one slice or does its work. What
  the work does is the business of the component that owns the thread.
\<close>

record rhythm =
  slices :: nat
  slice_ms :: nat
  polled :: bool
  checked :: bool

datatype beat = At_Test | Nap nat | At_Check | At_Work | Beat_Over

datatype did = Nothing | Slept nat | Worked

fun beat_step :: "rhythm \<Rightarrow> bool \<Rightarrow> beat \<Rightarrow> did \<times> beat" where
  "beat_step c run At_Test = (Nothing, if run then Nap (slices c) else Beat_Over)"
| "beat_step c run (Nap 0) = (Nothing, if checked c then At_Check else At_Work)"
| "beat_step c run (Nap (Suc k)) =
     (if polled c \<and> \<not> run then (Nothing, if checked c then At_Check else At_Work) else (Slept (slice_ms c), Nap k))"
| "beat_step c run At_Check = (Nothing, if run then At_Work else Beat_Over)"
| "beat_step c run At_Work = (Worked, At_Test)"
| "beat_step c run Beat_Over = (Nothing, Beat_Over)"

section \<open>The threads of the program\<close>

text \<open>\<open>AutoTuner::start\<close>: thirty naps of 100 ms, the flag read before each.\<close>

definition tune_rhythm :: rhythm where
  "tune_rhythm = \<lparr>slices = 30, slice_ms = 100, polled = True, checked = True\<rparr>"

definition perf_rhythm :: rhythm where
  "perf_rhythm = \<lparr>slices = 1, slice_ms = 2000, polled = False, checked = False\<rparr>"

definition gc_rhythm :: rhythm where
  "gc_rhythm = \<lparr>slices = 1, slice_ms = 30000, polled = False, checked = True\<rparr>"

definition refresh_rhythm :: rhythm where
  "refresh_rhythm = \<lparr>slices = 1, slice_ms = 10000, polled = False, checked = True\<rparr>"

definition prewarm_rhythm :: rhythm where
  "prewarm_rhythm = \<lparr>slices = 1, slice_ms = 60000, polled = False, checked = True\<rparr>"

definition probe_rhythm :: rhythm where
  "probe_rhythm = \<lparr>slices = 1, slice_ms = 60000, polled = False, checked = True\<rparr>"

text \<open>\<open>ConnectionController::run\<close>: the flag is not read between the sleep and the work.\<close>

definition maintain_rhythm :: rhythm where
  "maintain_rhythm = \<lparr>slices = 1, slice_ms = 6000, polled = False, checked = False\<rparr>"

section \<open>After the stop\<close>

fun beat_rank :: "beat \<Rightarrow> nat" where
  "beat_rank Beat_Over = 0"
| "beat_rank At_Check = 1"
| "beat_rank At_Test = 1"
| "beat_rank At_Work = 3"
| "beat_rank (Nap k) = k + 4"

lemma beat_shrinks: "b \<noteq> Beat_Over \<Longrightarrow> beat_rank (snd (beat_step c False b)) < beat_rank b"
  by (cases "(c, False, b)" rule: beat_step.cases) auto

definition after_stop :: "rhythm \<Rightarrow> beat \<Rightarrow> beat \<Rightarrow> bool" where
  "after_stop c b b' \<longleftrightarrow> b \<noteq> Beat_Over \<and> b' = snd (beat_step c False b)"

interpretation beat: winding_down "after_stop c" "\<lambda>_. True" beat_rank "\<lambda>b. b = Beat_Over" for c
  by unfold_locales (auto simp: after_stop_def beat_shrinks)

text \<open>What the thread does in its next \<open>n\<close> steps, with the flag off.\<close>

fun trace :: "rhythm \<Rightarrow> nat \<Rightarrow> beat \<Rightarrow> did list \<times> beat" where
  "trace c 0 b = ([], b)"
| "trace c (Suc n) b =
     (case beat_step c False b of (d, b') \<Rightarrow> (case trace c n b' of (ds, e) \<Rightarrow> (d # ds, e)))"

fun sleeping :: "did list \<Rightarrow> nat" where
  "sleeping [] = 0"
| "sleeping (Slept k # ds) = k + sleeping ds"
| "sleeping (_ # ds) = sleeping ds"

definition jobs :: "did list \<Rightarrow> nat" where
  "jobs ds = length (filter (\<lambda>d. d = Worked) ds)"

text \<open>What is left: the sleep still ahead, and whether the work may still be done once.\<close>

fun nap_left :: "rhythm \<Rightarrow> beat \<Rightarrow> nat" where
  "nap_left c (Nap k) = (if polled c then 0 else k * slice_ms c)"
| "nap_left c _ = 0"

fun work_left :: "rhythm \<Rightarrow> beat \<Rightarrow> nat" where
  "work_left c (Nap k) = (if checked c then 0 else 1)"
| "work_left c At_Work = 1"
| "work_left c _ = 0"

lemma beat_accounts:
  assumes "beat_step c False b = (d, b')"
  shows "sleeping [d] + nap_left c b' = nap_left c b" "jobs [d] + work_left c b' = work_left c b"
  using assms by (cases "(c, False, b)" rule: beat_step.cases; auto simp: jobs_def split: if_splits)+

lemma sleeping_Cons: "sleeping (d # ds) = sleeping [d] + sleeping ds"
  by (cases d) simp_all

lemma jobs_Cons: "jobs (d # ds) = jobs [d] + jobs ds"
  by (simp add: jobs_def)

lemma trace_accounts:
  "trace c n b = (ds, e) \<Longrightarrow> sleeping ds + nap_left c e = nap_left c b \<and> jobs ds + work_left c e = work_left c b"
proof (induction n arbitrary: b ds)
  case 0
  then show ?case by (simp add: jobs_def)
next
  case (Suc n)
  obtain d b' where d: "beat_step c False b = (d, b')" by fastforce
  obtain ds' where "trace c n b' = (ds', e)" "ds = d # ds'"
    using Suc.prems d by (auto split: prod.splits)
  with Suc.IH [of b' ds'] beat_accounts [OF d] show ?case
    by (simp add: sleeping_Cons [of d ds'] jobs_Cons [of d ds'])
qed

lemma trace_ends: "beat_rank b \<le> n \<Longrightarrow> snd (trace c n b) = Beat_Over"
proof (induction n arbitrary: b)
  case 0
  then show ?case by (cases b) simp_all
next
  case (Suc n)
  have "beat_rank (snd (beat_step c False b)) \<le> n"
    using Suc.prems beat_shrinks [of b c] by (cases "b = Beat_Over") auto
  with Suc.IH show ?case by (auto split: prod.splits) (metis snd_conv)+
qed

lemma wound_down:
  assumes "beat_rank b \<le> n"
  shows "trace c n b = (fst (trace c n b), Beat_Over)"
    "sleeping (fst (trace c n b)) = nap_left c b" "jobs (fst (trace c n b)) = work_left c b"
proof -
  show end_of: "trace c n b = (fst (trace c n b), Beat_Over)"
    using trace_ends [OF assms, of c] by (metis prod.collapse)
  from trace_accounts [OF end_of]
  show "sleeping (fst (trace c n b)) = nap_left c b" "jobs (fst (trace c n b)) = work_left c b" by simp_all
qed

text \<open>After a stop every thread of the program is done within a minute of sleep and at most one more
  round of work; the tuner, which polls the flag, sleeps no further slice.\<close>

definition program_rhythms :: "rhythm list" where
  "program_rhythms = [tune_rhythm, perf_rhythm, gc_rhythm, refresh_rhythm, prewarm_rhythm, probe_rhythm, maintain_rhythm]"

lemmas rhythm_defs = tune_rhythm_def perf_rhythm_def gc_rhythm_def refresh_rhythm_def prewarm_rhythm_def probe_rhythm_def
  maintain_rhythm_def

lemma stopped_thread_ends:
  assumes "c \<in> set program_rhythms" "\<And>k. b = Nap k \<Longrightarrow> k \<le> slices c" "beat_rank b \<le> n"
  shows "snd (trace c n b) = Beat_Over" "sleeping (fst (trace c n b)) \<le> 60000" "jobs (fst (trace c n b)) \<le> 1"
    "polled c \<Longrightarrow> sleeping (fst (trace c n b)) = 0"
proof -
  note w = wound_down [OF assms(3), of c]
  show "snd (trace c n b) = Beat_Over" using w(1) by (metis snd_conv)
  have c: "polled c \<or> slices c = 1 \<and> slice_ms c \<le> 60000" using assms(1) by (auto simp: program_rhythms_def rhythm_defs)
  show "polled c \<Longrightarrow> sleeping (fst (trace c n b)) = 0" using w(2) by (cases b) simp_all
  show "jobs (fst (trace c n b)) \<le> 1" using w(3) by (cases b) simp_all
  show "sleeping (fst (trace c n b)) \<le> 60000"
  proof (cases b)
    case (Nap k)
    then consider "k = 0" | "k = 1" "slices c = 1" | "polled c" using c assms(2) [OF Nap] by fastforce
    then show ?thesis using w(2) Nap c by cases auto
  qed (use w(2) in simp_all)
qed

end
