(* ===== verification/Cache_File.thy ===== *)
theory Cache_File
  imports Cache_Proofs
begin

text \<open>
  \<open>CachingResolver::saveCache\<close> and \<open>loadCache\<close>: the cache on disk. Integers are written in
  the memory order of the machine, little-endian here. \<open>save_bytes\<close> is the contents of the file
  (\<open>pack\<close> may throw), \<open>load_bytes\<close> what the loader makes of a file's contents. An input stream
  that has failed is \<open>None\<close>: every later read fails, and the loop over the entries ends at its
  next test. A header that cannot be read in full leaves the stream failed, so that no entry is
  read whatever the uninitialised variables hold.
\<close>

section \<open>Little-endian integers\<close>

definition le16 :: "u16 \<Rightarrow> bytes" where
  "le16 v = [ucast v, ucast (drop_bit 8 v)]"

definition le32 :: "u32 \<Rightarrow> bytes" where
  "le32 v = [ucast v, ucast (drop_bit 8 v), ucast (drop_bit 16 v), ucast (drop_bit 24 v)]"

definition of_le16 :: "bytes \<Rightarrow> u16" where
  "of_le16 bs = be16 (bs ! 1) (bs ! 0)"

definition of_le32 :: "bytes \<Rightarrow> u32" where
  "of_le32 bs = be32 (bs ! 3) (bs ! 2) (bs ! 1) (bs ! 0)"

definition CACHE_MAGIC :: u32 where "CACHE_MAGIC = 0x4C594E58"
definition CACHE_VERSION :: u32 where "CACHE_VERSION = 1"

section \<open>Saving\<close>

definition remaining_secs :: "int \<Rightarrow> cache_entry \<Rightarrow> int" where
  "remaining_secs now e = duration_cast (seconds 1) (ce_expires e - now)"

definition save_entry :: "int \<Rightarrow> cache_key \<times> cache_entry \<Rightarrow> bytes dns_result" where
  "save_entry now = (\<lambda>(key, e).
     if ce_expires e \<le> now then Inr []
     else let remaining = remaining_secs now e in
       if remaining < 1 then Inr []
       else if 255 < length (ck_name key) then Inr []
       else case ce_msg e of None \<Rightarrow> Inr []
         | Some m \<Rightarrow> bindE (pack m) (\<lambda>wire.
             if 65535 < length wire then Inr []
             else Inr (of_nat (length (ck_name key)) # ck_name key @ le16 (ck_type key) @ le16 (ck_class key)
                    @ le32 (of_int remaining) @ le16 (of_nat (length wire)) @ wire)))"

fun save_entries :: "int \<Rightarrow> cache_map \<Rightarrow> bytes dns_result" where
  "save_entries now [] = Inr []"
| "save_entries now (e # m) =
     bindE (save_entry now e) (\<lambda>bs. bindE (save_entries now m) (\<lambda>rest. Inr (bs @ rest)))"

definition saved_count :: "int \<Rightarrow> cache_map \<Rightarrow> u32" where
  "saved_count now m = of_nat (length (filter (\<lambda>(k, e). now < ce_expires e) m))"

definition save_bytes :: "int \<Rightarrow> cache_map \<Rightarrow> bytes dns_result" where
  "save_bytes now m =
     bindE (save_entries now m)
       (\<lambda>bs. Inr (le32 CACHE_MAGIC @ le32 CACHE_VERSION @ le32 (saved_count now m) @ bs))"

section \<open>Loading\<close>

definition get :: "nat \<Rightarrow> bytes \<Rightarrow> (bytes \<times> bytes) option" where
  "get n rest = (if n \<le> length rest then Some (take n rest, drop n rest) else None)"

text \<open>The fixed fields of an entry: its key, TTL and wire length.\<close>

definition get_fields :: "bytes \<Rightarrow> (cache_key \<times> u32 \<times> u16 \<times> bytes) option" where
  "get_fields s =
     Option.bind (get 1 s) (\<lambda>(b, s). Option.bind (get (unat (hd b)) s) (\<lambda>(name, s).
     Option.bind (get 2 s) (\<lambda>(t, s). Option.bind (get 2 s) (\<lambda>(c, s).
     Option.bind (get 4 s) (\<lambda>(ttl, s). Option.bind (get 2 s) (\<lambda>(w, s).
       Some (\<lparr>ck_name = name, ck_type = of_le16 t, ck_class = of_le16 c\<rparr>, of_le32 ttl, of_le16 w, s)))))))"

definition loaded_entry :: "int \<Rightarrow> u32 \<Rightarrow> dns_message \<Rightarrow> cache_entry" where
  "loaded_entry now ttl m =
     \<lparr>ce_msg = Some (clobberTTL (int (unat ttl)) m), ce_ttl = int (unat ttl),
      ce_expires = now + seconds (int (unat ttl))\<rparr>"

fun load_entries :: "int \<Rightarrow> nat \<Rightarrow> bytes \<Rightarrow> cache_map \<Rightarrow> cache_map dns_result" where
  "load_entries now 0 s m = Inr m"
| "load_entries now (Suc n) s m =
     (case get_fields s of None \<Rightarrow> Inr m
      | Some (key, ttl, wireLen, s) \<Rightarrow>
          if wireLen < 12 \<or> 4096 < wireLen then load_entries now n s m
          else case get (unat wireLen) s of None \<Rightarrow> Inr m
            | Some (wire, s) \<Rightarrow> bindE (parse wire) (\<lambda>msg.
                if questions msg = [] then load_entries now n s m
                else load_entries now n s (cache_put key (loaded_entry now ttl msg) m)))"

definition load_bytes :: "int \<Rightarrow> bytes \<Rightarrow> cache_map \<Rightarrow> cache_map dns_result" where
  "load_bytes now s m =
     (case get 4 s of None \<Rightarrow> Inr m
      | Some (magic, s) \<Rightarrow>
          if of_le32 magic \<noteq> CACHE_MAGIC then Inr m
          else case get 4 s of None \<Rightarrow> Inr m
            | Some (ver, s) \<Rightarrow>
                if of_le32 ver \<noteq> CACHE_VERSION then Inr m
                else case get 4 s of None \<Rightarrow> Inr m
                  | Some (count, s) \<Rightarrow>
                      if 100000 < of_le32 count then Inr m
                      else load_entries now (unat (of_le32 count)) s m)"

section \<open>Round trip of the file\<close>

lemma of_le16_le16 [simp]: "of_le16 (le16 v) = v"
  by (simp add: of_le16_def le16_def be16_writeU16)

lemma of_le32_le32 [simp]: "of_le32 (le32 v) = v"
  by (simp add: of_le32_def le32_def be32_writeU32)

lemma length_le [simp]: "length (le16 v) = 2" "length (le32 w) = 4"
  by (simp_all add: le16_def le32_def)

lemma get_append [simp]: "length bs = n \<Longrightarrow> get n (bs @ s) = Some (bs, s)"
  by (auto simp: get_def)

lemma get_fields_append:
  assumes "length name \<le> 255"
  shows "get_fields (of_nat (length name) # name @ le16 t @ le16 c @ le32 ttl @ le16 w @ s)
    = Some (\<lparr>ck_name = name, ck_type = t, ck_class = c\<rparr>, ttl, w, s)"
proof -
  have "unat (of_nat (length name) :: u8) = length name" using assms by (simp add: unat_of_nat)
  moreover have "get 1 (x # r) = Some ([x], r)" for x :: u8 and r by (simp add: get_def)
  ultimately show ?thesis by (simp add: get_fields_def)
qed

text \<open>The entries that are written, and what becomes of them.\<close>

definition writes :: "int \<Rightarrow> cache_key \<times> cache_entry \<Rightarrow> bool" where
  "writes now = (\<lambda>(k, e). 1 \<le> remaining_secs now e \<and> length (ck_name k) \<le> 255 \<and> ce_msg e \<noteq> None)"

definition reloaded :: "int \<Rightarrow> int \<Rightarrow> cache_key \<times> cache_entry \<Rightarrow> cache_key \<times> cache_entry" where
  "reloaded now now' = (\<lambda>(k, e). (k, loaded_entry now' (of_int (remaining_secs now e)) (with_counts (the (ce_msg e)))))"

definition file_ok :: "int \<Rightarrow> cache_key \<times> cache_entry \<Rightarrow> bool" where
  "file_ok now = (\<lambda>(k, e). remaining_secs now e < 2 ^ 32 \<and>
     (case ce_msg e of None \<Rightarrow> True
      | Some m \<Rightarrow> wf_message m \<and> questions m \<noteq> [] \<and> length (encode m) \<le> 4096))"

lemma remaining_pos: "1 \<le> remaining_secs now e \<Longrightarrow> now < ce_expires e"
proof (rule ccontr)
  assume a: "1 \<le> remaining_secs now e" "\<not> now < ce_expires e"
  then have "ce_expires e - now \<le> 0" by simp
  then have "remaining_secs now e \<le> 0"
    by (cases "ce_expires e = now") (auto simp: remaining_secs_def duration_cast_def seconds_def pos_imp_zdiv_nonneg_iff)
  with a(1) show False by simp
qed

lemma save_entry_eq:
  assumes "file_ok now (k, e)"
  shows "save_entry now (k, e) = Inr (if writes now (k, e)
    then of_nat (length (ck_name k)) # ck_name k @ le16 (ck_type k) @ le16 (ck_class k)
      @ le32 (of_int (remaining_secs now e)) @ le16 (of_nat (length (encode (the (ce_msg e))))) @ encode (the (ce_msg e))
    else [])"
proof (cases "ce_msg e")
  case None
  then show ?thesis by (simp add: save_entry_def writes_def Let_def)
next
  case (Some m)
  with assms have "pack m = Inr (encode m)" "length (encode m) \<le> 4096"
    by (simp_all add: file_ok_def pack_eq_encode wf_message_sendable)
  with Some show ?thesis
    using remaining_pos [of now e] by (auto simp: save_entry_def writes_def Let_def)
qed

lemma length_encode_ge: "12 \<le> length (encode m)"
  by (simp add: encode_def)

lemma load_saved_entry:
  assumes "file_ok now (k, e)" "writes now (k, e)" "save_entry now (k, e) = Inr bs"
  shows "load_entries now' (Suc n) (bs @ s) m =
    load_entries now' n s (cache_put k (snd (reloaded now now' (k, e))) m)"
proof -
  obtain msg where msg: "ce_msg e = Some msg" using assms(2) by (auto simp: writes_def)
  let ?w = "encode msg"
  have len: "length ?w \<le> 4096" and wf: "wf_message msg" "questions msg \<noteq> []" using assms(1) msg by (auto simp: file_ok_def)
  then have wl: "unat (of_nat (length ?w) :: u16) = length ?w" by (simp add: unat_of_nat)
  then have range: "\<not> (of_nat (length ?w) < (12 :: u16) \<or> 4096 < (of_nat (length ?w) :: u16))"
    using len length_encode_ge [of msg] by (simp add: word_less_nat_alt)
  have k: "\<lparr>ck_name = ck_name k, ck_type = ck_type k, ck_class = ck_class k\<rparr> = k" by simp
  have name: "length (ck_name k) \<le> 255" using assms(2) by (simp add: writes_def)
  have bs: "bs @ s = of_nat (length (ck_name k)) # ck_name k @ le16 (ck_type k) @ le16 (ck_class k)
      @ le32 (of_int (remaining_secs now e)) @ le16 (of_nat (length ?w)) @ ?w @ s"
    using save_entry_eq [OF assms(1)] assms(2,3) msg by auto
  have "questions (with_counts msg) \<noteq> []" using wf(2) by (simp add: with_counts_def)
  then show ?thesis
    using range wl parse_encode [OF wf(1)]
    by (simp add: bs get_fields_append [OF name] k reloaded_def msg)
qed

lemma get_fields_Nil: "get_fields [] = None"
  by (simp add: get_fields_def get_def)

lemma load_entries_end: "load_entries now n [] m = Inr m"
  by (cases n) (simp_all add: get_fields_Nil)

lemma load_saved:
  assumes "\<forall>e \<in> set C. file_ok now e" "length (filter (writes now) C) \<le> n" "save_entries now C = Inr bs"
  shows "load_entries now' n bs m = Inr (foldl (\<lambda>m (k, e). cache_put k e m) m (map (reloaded now now') (filter (writes now) C)))"
  using assms
proof (induction C arbitrary: n bs m)
  case Nil
  then show ?case by (simp add: load_entries_end)
next
  case (Cons ke C)
  obtain k e where ke: "ke = (k, e)" by (cases ke)
  from Cons.prems(3) obtain b rest where b: "save_entry now (k, e) = Inr b" "save_entries now C = Inr rest" "bs = b @ rest"
    by (auto simp: ke exc_simps)
  show ?case
  proof (cases "writes now (k, e)")
    case True
    then obtain n' where n: "n = Suc n'" "length (filter (writes now) C) \<le> n'"
      using Cons.prems(2) by (cases n) (auto simp: ke)
    have "load_entries now' n bs m = load_entries now' n' rest (cache_put k (snd (reloaded now now' (k, e))) m)"
      unfolding b(3) n(1) using Cons.prems(1) ke by (intro load_saved_entry [OF _ True b(1)]) simp
    also have "\<dots> = Inr (foldl (\<lambda>m (k, e). cache_put k e m) (cache_put k (snd (reloaded now now' (k, e))) m)
        (map (reloaded now now') (filter (writes now) C)))"
      using Cons.prems(1) n(2) b(2) by (intro Cons.IH) auto
    finally show ?thesis using True by (simp add: ke reloaded_def)
  next
    case False
    then have "bs = rest" using save_entry_eq [of now k e] Cons.prems(1) b ke by simp
    with False Cons.IH [of n rest m] Cons.prems(1,2) b(2) show ?thesis by (simp add: ke)
  qed
qed

text \<open>Putting entries with new, distinct keys into the map appends them.\<close>

lemma cache_put_new: "k \<notin> fst ` set m \<Longrightarrow> cache_put k e m = m @ [(k, e)]"
  unfolding cache_put_def by (induction m) auto

lemma foldl_cache_put_new:
  "distinct (map fst (m @ es)) \<Longrightarrow> foldl (\<lambda>m (k, e). cache_put k e m) m es = m @ es"
proof (induction es arbitrary: m)
  case (Cons ke es)
  obtain k e where ke: "ke = (k, e)" by (cases ke)
  with Cons.prems have "k \<notin> fst ` set m" "distinct (map fst ((m @ [(k, e)]) @ es))" by auto
  with Cons.IH [of "m @ [(k, e)]"] show ?case by (simp add: ke cache_put_new)
qed simp

lemma saved_count_ge:
  assumes "length C \<le> 100000"
  shows "length (filter (writes now) C) \<le> unat (saved_count now C)" "\<not> 100000 < saved_count now C"
proof -
  let ?n = "length (filter (\<lambda>(k, e). now < ce_expires e) C)"
  have "?n \<le> length C" by (rule length_filter_le)
  with assms have "?n < 4294967296" by linarith
  then have u: "unat (saved_count now C) = ?n" by (simp add: saved_count_def unat_of_nat)
  have "filter (writes now) C = filter (writes now) (filter (\<lambda>(k, e). now < ce_expires e) C)"
    using remaining_pos by (auto simp: writes_def intro!: filter_cong)
  then show "length (filter (writes now) C) \<le> unat (saved_count now C)" unfolding u by (metis length_filter_le)
  show "\<not> 100000 < saved_count now C" 
  proof -
    have "\<not> 100000 < ?n" using \<open>?n \<le> length C\<close> assms by linarith
    then show ?thesis using u by (simp add: word_less_nat_alt)
  qed
qed

lemma load_save:
  assumes "\<forall>e \<in> set C. file_ok now e" "distinct (map fst C)" "length C \<le> 100000" "save_bytes now C = Inr bs"
  shows "load_bytes now' bs [] = Inr (map (reloaded now now') (filter (writes now) C))"
proof -
  from assms(4) obtain es where es: "save_entries now C = Inr es"
    "bs = le32 CACHE_MAGIC @ le32 CACHE_VERSION @ le32 (saved_count now C) @ es"
    by (auto simp: save_bytes_def exc_simps)
  have "load_bytes now' bs [] = load_entries now' (unat (saved_count now C)) es []"
    using saved_count_ge(2) [OF assms(3)] by (simp add: load_bytes_def es(2))
  also have "\<dots> = Inr (foldl (\<lambda>m (k, e). cache_put k e m) [] (map (reloaded now now') (filter (writes now) C)))"
    by (rule load_saved [OF assms(1) saved_count_ge(1) [OF assms(3)] es(1)])
  also have "foldl (\<lambda>m (k, e). cache_put k e m) [] (map (reloaded now now') (filter (writes now) C))
      = map (reloaded now now') (filter (writes now) C)"
  proof -
    have "map fst (map (reloaded now now') L) = map fst L" for L by (induction L) (auto simp: reloaded_def)
    then have "distinct (map fst ([] @ map (reloaded now now') (filter (writes now) C)))"
      using distinct_map_filter [OF assms(2), of "writes now"] by (simp del: map_map)
    from foldl_cache_put_new [OF this] show ?thesis by simp
  qed
  finally show ?thesis .
qed

text \<open>A file never extends a lifetime: what was left of it, in whole seconds, starts again at the load.\<close>

lemma reloaded_lifetime:
  assumes "writes now (k, e)" "file_ok now (k, e)"
  shows "ce_expires (snd (reloaded now now' (k, e))) - now' \<le> ce_expires e - now"
proof -
  have r: "1 \<le> remaining_secs now e" "remaining_secs now e < 2 ^ 32" using assms by (auto simp: writes_def file_ok_def)
  then have "int (unat (of_int (remaining_secs now e) :: u32)) = remaining_secs now e"
    by (simp add: unsigned_of_int take_bit_int_eq_self)
  moreover have "seconds (remaining_secs now e) \<le> ce_expires e - now"
  proof -
    define d where "d = ce_expires e - now"
    have "0 < d" using remaining_pos [OF r(1)] by (simp add: d_def)
    then have "d div 1000000000 * 1000000000 \<le> d" by linarith
    with \<open>0 < d\<close> show ?thesis by (simp add: remaining_secs_def duration_cast_def seconds_def d_def [symmetric])
  qed
  ultimately show ?thesis by (simp add: reloaded_def loaded_entry_def)
qed

lemma save_bytes_ok:
  "\<forall>e \<in> set C. file_ok now e \<Longrightarrow> \<exists>bs. save_bytes now C = Inr bs"
proof -
  assume "\<forall>e \<in> set C. file_ok now e"
  then have "\<exists>bs. save_entries now C = Inr bs"
  proof (induction C)
    case (Cons ke C)
    obtain k e where ke: "ke = (k, e)" by (cases ke)
    with Cons save_entry_eq [of now k e] show ?case by auto
  qed simp
  then show ?thesis by (auto simp: save_bytes_def)
qed

section \<open>A restart\<close>

text \<open>What a cache that keeps its invariant saves is, when it is loaded, a cache that keeps it again; an
  entry may then have any lifetime from one second on. The clock at the time of saving is not behind
  that of the storing, so that no entry has more left than its TTL.\<close>

lemma reloaded_ok:
  assumes "entry_ok lo (k, e)" "file_ok now (k, e)" "writes now (k, e)" "remaining_secs now e \<le> ce_ttl e"
  shows "entry_ok 1 (reloaded now now' (k, e))"
proof -
  obtain m where m: "ce_msg e = Some m" "answers_for k m" "ce_ttl e \<le> maxTTL" using assms(1) by (auto simp: entry_ok_def)
  have r: "1 \<le> remaining_secs now e" "remaining_secs now e < 2 ^ 32" using assms(2,3) by (auto simp: writes_def file_ok_def)
  then have "int (unat (of_int (remaining_secs now e) :: u32)) = remaining_secs now e"
    by (simp add: unsigned_of_int take_bit_int_eq_self)
  moreover have "answers_for k (with_counts m)" using m(2) by (simp add: answers_for_def with_counts_def)
  ultimately show ?thesis
    using m r(1) assms(4) clobbered_clobberTTL by (auto simp: entry_ok_def reloaded_def loaded_entry_def)
qed

lemma restart_inv:
  assumes inv: "cache_inv lo s" and cfg: "cfg_ok cfg" and saved: "save_bytes now (cache s) = Inr bs"
    and ok: "\<forall>e \<in> set (cache s). file_ok now e \<and> remaining_secs now (snd e) \<le> ce_ttl (snd e)"
  shows "\<exists>C. load_bytes now' bs [] = Inr C \<and> cache_inv 1 ((caching_init pm cfg)\<lparr>cache := C\<rparr>)"
proof -
  let ?C = "map (reloaded now now') (filter (writes now) (cache s))"
  have s: "distinct (map fst (cache s))" "length (cache s) \<le> maxCacheSize" "list_all (entry_ok lo) (cache s)"
    using inv by (simp_all add: cache_inv_def)
  have "length (cache s) \<le> 100000" using s(2) by (simp add: maxCacheSize_def)
  then have "load_bytes now' bs [] = Inr ?C" using load_save [OF _ s(1) _ saved] ok by blast
  moreover have "list_all (entry_ok 1) ?C"
  proof -
    have "entry_ok 1 (reloaded now now' x)" if "x \<in> set (cache s)" "writes now x" for x
      using reloaded_ok [of lo "fst x" "snd x" now now'] that ok s(3) by (simp add: list_all_iff)
    then show ?thesis by (auto simp: list_all_iff)
  qed
  moreover have "distinct (map fst ?C)"
  proof -
    have "map fst (map (reloaded now now') L) = map fst L" for L by (induction L) (auto simp: reloaded_def)
    then show ?thesis using distinct_map_filter [OF s(1), of "writes now"] by (simp del: map_map)
  qed
  moreover have "length ?C \<le> maxCacheSize" using order_trans [OF length_filter_le s(2)] by simp
  ultimately show ?thesis
    using cache_inv_init [OF cfg, of 1 pm] by (auto simp: cache_inv_def caching_init_def)
qed

lemma cache_runs:
  assumes cfg: "cfg_ok cfg" and ops: "list_all op_ok ops" and s: "s = foldl cache_step (caching_init pm cfg) ops"
  shows "cache_inv 30 s \<and>
    (list_all op_ok ops2 \<and> (\<forall>e \<in> set (cache s). file_ok now e \<and> remaining_secs now (snd e) \<le> ce_ttl (snd e)) \<longrightarrow>
      (\<exists>C. bindE (save_bytes now (cache s)) (\<lambda>bs. load_bytes now' bs []) = Inr C
        \<and> cache_inv 1 (foldl cache_step ((caching_init pm cfg)\<lparr>cache := C\<rparr>) ops2)))"
proof (intro conjI impI)
  show inv: "cache_inv 30 s" unfolding s by (rule caching_run.inv_run [OF cache_inv_init [OF cfg order_refl] ops])
  assume a: "list_all op_ok ops2 \<and> (\<forall>e \<in> set (cache s). file_ok now e \<and> remaining_secs now (snd e) \<le> ce_ttl (snd e))"
  then obtain bs where saved: "save_bytes now (cache s) = Inr bs" using save_bytes_ok [of "cache s" now] by blast
  from restart_inv [OF inv cfg saved conjunct2 [OF a]]
  obtain C where C: "load_bytes now' bs [] = Inr C" "cache_inv 1 ((caching_init pm cfg)\<lparr>cache := C\<rparr>)" by blast
  with caching_run.inv_run [OF C(2) conjunct1 [OF a]] saved
  show "\<exists>C. bindE (save_bytes now (cache s)) (\<lambda>bs. load_bytes now' bs []) = Inr C
      \<and> cache_inv 1 (foldl cache_step ((caching_init pm cfg)\<lparr>cache := C\<rparr>) ops2)" by simp
qed

end
