(* ===== verification/Cache_Threads.thy ===== *)
theory Cache_Threads
  imports Periodic Cache_File
begin

text \<open>
  The life of a \<open>CachingResolver\<close>: the thread that owns it (constructor, \<open>init\<close>, \<open>maintain\<close>,
  destructor), the worker that refreshes stale entries, the warm-up thread, and the three periodic
  threads, which share \<open>running_\<close>, the cache and the queue of stale entries. Every place of a
  thread between two accesses to what is shared is a state; the operations on the cache itself
  (\<open>query\<close>, \<open>gcCache\<close>, a refresh, a prewarm round) are one step each. A condition variable wakes
  only who sleeps on it: the worker evaluates its predicate and goes to sleep in two steps, with the
  queue's mutex held in between. An exception that leaves a thread or the destructor ends the
  program. \<open>to_file\<close> says that a cache file is set and can be opened for writing; without it
  \<open>saveCache\<close> writes nothing.
\<close>

type_synonym thrown = string

datatype stale_place =
    No_Worker | Testing | Locking | Going_To_Sleep | Asleep | Taking | Refreshing cache_key dns_question | Worker_Ended

datatype refresh_place = Beating beat | Items "(cache_key \<times> dns_question) list"

datatype owner_place =
    Constructed | Initialised | Maintaining nat | Serving | Notifying | Joining nat | Destroyed

record life =
  cr :: caching
  to_file :: bool
  saved_file :: "bytes option"
  is_running :: bool
  stale_thread :: stale_place
  warm_thread :: "dns_message list option"
  gc_thread :: "beat option"
  refresh_thread :: "refresh_place option"
  prewarm_thread :: "beat option"
  owner :: owner_place
  terminated :: bool

definition life_init :: "bool \<Rightarrow> caching \<Rightarrow> life" where
  "life_init file_set c = \<lparr>cr = c, to_file = file_set, saved_file = None, is_running = False, stale_thread = No_Worker,
     warm_thread = None, gc_thread = None, refresh_thread = None, prewarm_thread = None, owner = Constructed,
     terminated = False\<rparr>"

section \<open>The queue's mutex and condition variable\<close>

definition mutex_free :: "life \<Rightarrow> bool" where
  "mutex_free s \<longleftrightarrow> stale_thread s \<noteq> Going_To_Sleep \<and> stale_thread s \<noteq> Taking"

definition woken :: "stale_place \<Rightarrow> stale_place" where
  "woken p = (if p = Asleep then Locking else p)"

text \<open>The cache after an operation of a thread that may have queued a stale entry and notified the
  worker; such an operation waits for the mutex.\<close>

definition with_cache :: "caching \<Rightarrow> life \<Rightarrow> life option" where
  "with_cache c s =
     (if length (staleRefreshQueue (cr s)) < length (staleRefreshQueue c)
      then if mutex_free s then Some (s\<lparr>cr := c, stale_thread := woken (stale_thread s)\<rparr>) else None
      else Some (s\<lparr>cr := c\<rparr>))"

section \<open>The threads\<close>

text \<open>The stale refresh worker.\<close>

definition stale_step :: "thrown backend \<Rightarrow> int \<Rightarrow> life \<Rightarrow> life option" where
  "stale_step back now s =
     (case stale_thread s of
        Testing \<Rightarrow> Some (s\<lparr>stale_thread := if is_running s then Locking else Worker_Ended\<rparr>)
      | Locking \<Rightarrow> Some (s\<lparr>stale_thread := if \<not> is_running s \<or> staleRefreshQueue (cr s) \<noteq> [] then Taking else Going_To_Sleep\<rparr>)
      | Going_To_Sleep \<Rightarrow> Some (s\<lparr>stale_thread := Asleep\<rparr>)
      | Taking \<Rightarrow>
          (case staleRefreshQueue (cr s) of
             [] \<Rightarrow> Some (s\<lparr>stale_thread := if is_running s then Testing else Worker_Ended\<rparr>)
           | (k, q) # rest \<Rightarrow> Some (s\<lparr>cr := (cr s)\<lparr>staleRefreshQueue := rest\<rparr>, stale_thread := Refreshing k q\<rparr>))
      | Refreshing k q \<Rightarrow>
          (case refreshEntry back now k q (cr s) of
             (c, _, Inl e) \<Rightarrow> Some (s\<lparr>cr := c, terminated := True\<rparr>)
           | (c, _, Inr _) \<Rightarrow> Some (s\<lparr>cr := c, stale_thread := Testing\<rparr>))
      | _ \<Rightarrow> None)"

text \<open>One query of the warm-up thread.\<close>

definition warm_step :: "thrown backend \<Rightarrow> bool \<Rightarrow> clock \<Rightarrow> life \<Rightarrow> life option" where
  "warm_step back fan ts s =
     (case warm_thread s of
        Some (m # ms) \<Rightarrow>
          (case query back fan ts m False (cr s) of
             (c, Inl e) \<Rightarrow> Some (s\<lparr>cr := c, terminated := True\<rparr>)
           | (c, Inr _) \<Rightarrow> with_cache c (s\<lparr>warm_thread := Some ms\<rparr>))
      | _ \<Rightarrow> None)"

definition gc_step :: "clock \<Rightarrow> life \<Rightarrow> life option" where
  "gc_step ts s =
     (case gc_thread s of
        None \<Rightarrow> None
      | Some b \<Rightarrow>
          if b = Beat_Over then None
          else case beat_step gc_rhythm (is_running s) b of (d, b') \<Rightarrow>
            Some (s\<lparr>gc_thread := Some b', cr := if d = Worked then gcCache ts (cr s) else cr s\<rparr>))"

text \<open>An exception of a prewarm round is logged and ends the thread.\<close>

definition prewarm_step :: "thrown backend \<Rightarrow> clock \<Rightarrow> life \<Rightarrow> life option" where
  "prewarm_step back ts s =
     (case prewarm_thread s of
        None \<Rightarrow> None
      | Some b \<Rightarrow>
          if b = Beat_Over then None
          else case beat_step prewarm_rhythm (is_running s) b of (d, b') \<Rightarrow>
            if d = Worked then
              (case doAdaptivePrewarm back ts (cr s) of
                 (c, Inl e) \<Rightarrow> Some (s\<lparr>prewarm_thread := Some Beat_Over, cr := c\<rparr>)
               | (c, Inr _) \<Rightarrow> Some (s\<lparr>prewarm_thread := Some b', cr := c\<rparr>))
            else Some (s\<lparr>prewarm_thread := Some b'\<rparr>))"

text \<open>The preemptive refresh collects the entries near their expiry under the lock, reading the
  flag for each (\<open>n\<close> entries are collected before it goes off), then refreshes one at a time.\<close>

definition refresh_step :: "thrown backend \<Rightarrow> int \<Rightarrow> clock \<Rightarrow> nat \<Rightarrow> life \<Rightarrow> life option" where
  "refresh_step back pct ts n s =
     (case refresh_thread s of
        None \<Rightarrow> None
      | Some (Beating b) \<Rightarrow>
          if b = Beat_Over then None
          else if b = At_Work then
            let found = refresh_candidates pct (c_ttl (cr s)) ts 0 (cache (cr s)) in
            Some (s\<lparr>refresh_thread := Some (Items (if is_running s then found else take n found))\<rparr>)
          else Some (s\<lparr>refresh_thread := Some (Beating (snd (beat_step refresh_rhythm (is_running s) b)))\<rparr>)
      | Some (Items []) \<Rightarrow> Some (s\<lparr>refresh_thread := Some (Beating At_Test)\<rparr>)
      | Some (Items ((k, q) # rest)) \<Rightarrow>
          if is_running s
          then Some (s\<lparr>refresh_thread := Some (Items rest), cr := fst (refreshEntry back (ts 0) k q (cr s))\<rparr>)
          else Some (s\<lparr>refresh_thread := Some (Beating At_Test)\<rparr>))"

section \<open>The owner\<close>

text \<open>\<open>init\<close> starts the worker and the warm-up; \<open>maintain\<close> sets the flag and then starts the periodic
  threads, one after the other.\<close>

definition init_threads :: "life \<Rightarrow> life" where
  "init_threads s = s\<lparr>stale_thread := Testing, warm_thread := Some warmup_queries, owner := Initialised\<rparr>"

definition maintain_threads :: "nat \<Rightarrow> life \<Rightarrow> life" where
  "maintain_threads n s =
     (if n = 0 then s\<lparr>is_running := True, owner := Maintaining 0\<rparr>
      else if n = 1 then s\<lparr>gc_thread := Some At_Test, owner := Maintaining 1\<rparr>
      else if n = 2 then s\<lparr>refresh_thread := Some (Beating At_Test), owner := Maintaining 2\<rparr>
      else s\<lparr>prewarm_thread := Some At_Test, owner := Serving\<rparr>)"

declare init_threads_def [simp] maintain_threads_def [simp]

definition starts :: "life \<Rightarrow> life option" where
  "starts s =
     (case owner s of
        Constructed \<Rightarrow> Some (init_threads s)
      | Initialised \<Rightarrow> Some (maintain_threads 0 s)
      | Maintaining n \<Rightarrow> Some (maintain_threads (Suc n) s)
      | _ \<Rightarrow> None)"

text \<open>The destructor: the flag goes off, then the worker is notified, without the mutex, then the
  threads are joined in turn, those that were never started excepted; last the file is written. A
  destructor may not throw: a message that \<open>pack\<close> refuses ends the program in the middle of the file.\<close>

fun in_use :: "owner_place \<Rightarrow> bool" where
  "in_use Notifying = False"
| "in_use (Joining _) = False"
| "in_use Destroyed = False"
| "in_use _ = True"

definition joinable_ended :: "nat \<Rightarrow> life \<Rightarrow> bool" where
  "joinable_ended k s =
     (if k = 0 then stale_thread s = No_Worker \<or> stale_thread s = Worker_Ended
      else if k = 1 then warm_thread s = None \<or> warm_thread s = Some []
      else if k = 2 then gc_thread s = None \<or> gc_thread s = Some Beat_Over
      else if k = 3 then refresh_thread s = None \<or> refresh_thread s = Some (Beating Beat_Over)
      else prewarm_thread s = None \<or> prewarm_thread s = Some Beat_Over)"

definition destroy_step :: "int \<Rightarrow> life \<Rightarrow> life option" where
  "destroy_step now s =
     (case owner s of
        Notifying \<Rightarrow> Some (s\<lparr>stale_thread := woken (stale_thread s), owner := Joining 0\<rparr>)
      | Joining k \<Rightarrow>
          if k < 5 then (if joinable_ended k s then Some (s\<lparr>owner := Joining (Suc k)\<rparr>) else None)
          else if \<not> to_file s then Some (s\<lparr>owner := Destroyed\<rparr>)
          else (case save_bytes now (cache (cr s)) of
             Inl e \<Rightarrow> Some (s\<lparr>terminated := True\<rparr>)
           | Inr bs \<Rightarrow> Some (s\<lparr>saved_file := Some bs, owner := Destroyed\<rparr>))
      | Destroyed \<Rightarrow> None
      | Maintaining n \<Rightarrow> None
      | _ \<Rightarrow> Some (s\<lparr>is_running := False, owner := Notifying\<rparr>))"

section \<open>The interleavings\<close>

text \<open>What the holders of the resolver may do with it: the other operations are its own threads'.\<close>

fun by_client :: "thrown cache_op \<Rightarrow> bool" where
  "by_client (Query _ _ _ _ _) = True"
| "by_client (Peek _ _) = True"
| "by_client (Peek_Raw _ _) = True"
| "by_client Flush = True"
| "by_client (Set_TTL cfg) = cfg_ok cfg"
| "by_client _ = False"

datatype life_act =
    Start
  | Client "thrown cache_op"
  | Destroy int
  | Stale "thrown backend" int
  | Warm "thrown backend" bool clock
  | Collect clock
  | Preempt "thrown backend" int clock nat
  | Adapt "thrown backend" clock
  | Spurious

fun life_exec :: "life_act \<Rightarrow> life \<Rightarrow> life option" where
  "life_exec act s =
     (if terminated s then None
      else case act of
        Start \<Rightarrow> starts s
      | Client e \<Rightarrow> if by_client e \<and> in_use (owner s) then with_cache (cache_step (cr s) e) s else None
      | Destroy now \<Rightarrow> destroy_step now s
      | Stale back now \<Rightarrow> stale_step back now s
      | Warm back fan ts \<Rightarrow> warm_step back fan ts s
      | Collect ts \<Rightarrow> gc_step ts s
      | Preempt back pct ts n \<Rightarrow> refresh_step back pct ts n s
      | Adapt back ts \<Rightarrow> prewarm_step back ts s
      | Spurious \<Rightarrow> if stale_thread s = Asleep then Some (s\<lparr>stale_thread := Locking\<rparr>) else None)"

declare life_exec.simps [simp del]

fun life_run :: "life_act list \<Rightarrow> life \<Rightarrow> life option" where
  "life_run [] s = Some s"
| "life_run (a # as) s = Option.bind (life_exec a s) (life_run as)"

lemma life_run_append: "life_run (as @ bs) s = Option.bind (life_run as s) (life_run bs)"
  by (induction as arbitrary: s) (auto split: Option.bind_split)

text \<open>The steps that need no luck: all but a spurious wakeup.\<close>

definition moves_to :: "life \<Rightarrow> life \<Rightarrow> bool" where
  "moves_to s s' \<longleftrightarrow> (\<exists>a. a \<noteq> Spurious \<and> life_exec a s = Some s')"

end
