(* ===== verification/Cache_Life.thy ===== *)
theory Cache_Life
  imports Cache_Threads
begin

text \<open>
  What holds through the life of a caching resolver: its invariant, that the file is written when no
  thread of its own is left, how long the destructor can take, that it may wait for ever, and that
  a worker that has ended serves nothing.
\<close>

section \<open>The queue of stale entries\<close>

definition queued :: "caching \<Rightarrow> caching \<Rightarrow> bool" where
  "queued s s' \<longleftrightarrow> (\<exists>zs. length zs \<le> 1 \<and> staleRefreshQueue s' = staleRefreshQueue s @ zs)"

lemma queuedI: "staleRefreshQueue s' = staleRefreshQueue s \<Longrightarrow> queued s s'"
  by (simp add: queued_def)

lemma queue_turboInsert [simp]: "staleRefreshQueue (turboInsert h m t s) = staleRefreshQueue s"
  by (simp add: turboInsert_def Let_def)

lemma queue_store [simp]:
  "staleRefreshQueue (fst (store_failure now req q s)) = staleRefreshQueue s"
  "staleRefreshQueue (fst (store_reply now now2 q reply s)) = staleRefreshQueue s"
  by (simp_all add: store_failure_def store_reply_def Let_def)

lemma queue_refreshEntry [simp]: "staleRefreshQueue (fst (refreshEntry back now k q s)) = staleRefreshQueue s"
  by (simp add: refreshEntry_def update_entry_def Let_def split: sum.split option.split)

lemma queue_prewarm [simp]: "staleRefreshQueue (fst (doAdaptivePrewarm back ts s)) = staleRefreshQueue s"
  using prewarm_keeps [of "back" ts 0 "popular (prewarmTracker s)" "s\<lparr>prewarmTracker := []\<rparr>"]
  by (simp add: doAdaptivePrewarm_def)

lemma queue_gcCache [simp]: "staleRefreshQueue (gcCache ts s) = staleRefreshQueue s"
  by (simp add: gcCache_def)

lemma queued_enqueue: "staleRefreshQueue s' = staleRefreshQueue s \<Longrightarrow> queued s (enqueue_stale k q s')"
  by (simp add: queued_def enqueue_stale_def)

lemma queued_query_cache:
  assumes "query_cache ts req q s = (s', r)"
  shows "queued s s'" "r = None \<Longrightarrow> staleRefreshQueue s' = staleRefreshQueue s"
proof -
  define s0 where "s0 = s\<lparr>prewarmTracker := track (qname q) (prewarmTracker s)\<rparr>"
  obtain s1 r1 where l1: "turboLookup (turboHash (key_of q)) (ts 0) s0 = (s1, r1)" by fastforce
  have s1: "staleRefreshQueue s1 = staleRefreshQueue s" using turboLookup_result(3) [OF l1] by (simp add: s0_def)
  note start = assms [unfolded query_cache_def Let_def, folded s0_def, unfolded l1]
  show "queued s s'" using start s1
    by (auto simp: note_cache_hit_def split: option.splits l2_result.splits intro: queued_enqueue queuedI)
  show "r = None \<Longrightarrow> staleRefreshQueue s' = staleRefreshQueue s" using start s1
    by (auto split: option.splits l2_result.splits)
qed

lemma queued_query: "queued s (fst (query back fan ts req af s))"
proof (cases "length (questions req) = 1")
  case True
  define s0 where "s0 = s\<lparr>totalQueries := totalQueries s + 1\<rparr>"
  have s0: "staleRefreshQueue s0 = staleRefreshQueue s" by (simp add: s0_def)
  obtain s1 r where c: "query_cache ts req (questions req ! 0) s0 = (s1, r)" by fastforce
  note q = queued_query_cache [OF c, unfolded queued_def s0]
  have step: "query back fan ts req af s =
      (case r of Some reply \<Rightarrow> (s1, Inr (Some reply))
       | None \<Rightarrow> (case back req fan of Inl e \<Rightarrow> (s1, Inl e)
           | Inr None \<Rightarrow> (case store_failure (ts 4) req (questions req ! 0) s1 of (s, r) \<Rightarrow> (s, Inr (Some r)))
           | Inr (Some reply) \<Rightarrow> (case store_reply (ts 4) (ts 5) (questions req ! 0) reply s1 of (s, r) \<Rightarrow> (s, Inr (Some r)))))"
    using True c by (simp add: query_def Let_def s0_def [symmetric])
  show ?thesis
  proof (cases r)
    case (Some reply)
    with q(1) show ?thesis by (simp add: step queued_def)
  next
    case None
    with q(2) show ?thesis
      by (simp add: step case_prod_beta split: sum.split option.split) (simp add: queuedI)
  qed
qed (simp add: query_def queued_def)

lemma queued_peek: "queued s (fst (peekCache ts req s))" "queued s (fst (peekCacheRaw ts data s))"
  by (auto simp: peekCache_def peekCacheRaw_def note_peek_def Let_def turboLookup_result(3)
      split: option.split prod.split l2_result.split intro: queued_enqueue queuedI)

lemma queued_client: "by_client e \<Longrightarrow> queued s (cache_step s e)"
  by (cases e) (auto simp: queued_query queued_peek flushCache_def intro: queuedI)

section \<open>The invariant of a life\<close>

fun stale_ok :: "stale_place \<Rightarrow> bool" where
  "stale_ok (Refreshing k q) \<longleftrightarrow> q = question_of k"
| "stale_ok _ \<longleftrightarrow> True"

fun refresh_ok :: "refresh_place option \<Rightarrow> bool" where
  "refresh_ok (Some (Items ks)) \<longleftrightarrow> list_all (\<lambda>(k, q). q = question_of k) ks"
| "refresh_ok _ \<longleftrightarrow> True"

fun joined :: "owner_place \<Rightarrow> nat" where
  "joined (Joining k) = k"
| "joined Destroyed = 5"
| "joined _ = 0"

definition written :: "life \<Rightarrow> bool" where
  "written s \<longleftrightarrow> (if to_file s then (\<exists>now bs. saved_file s = Some bs \<and> save_bytes now (cache (cr s)) = Inr bs) else saved_file s = None)"

definition life_inv :: "int \<Rightarrow> life \<Rightarrow> bool" where
  "life_inv lo s \<longleftrightarrow> cache_inv lo (cr s) \<and> stale_ok (stale_thread s) \<and> refresh_ok (refresh_thread s)
     \<and> (is_running s \<longrightarrow> in_use (owner s)) \<and> (\<forall>j < joined (owner s). joinable_ended j s)
     \<and> joined (owner s) \<le> 5 \<and> (if owner s = Destroyed then written s else saved_file s = None)"

definition threads_ended :: "life \<Rightarrow> bool" where
  "threads_ended s \<longleftrightarrow> (\<forall>j < 5. joinable_ended j s)"

lemma less_5: "(j::nat) < 5 \<longleftrightarrow> j = 0 \<or> j = 1 \<or> j = 2 \<or> j = 3 \<or> j = 4"
  by auto

lemma all_less_5: "(\<forall>j < 5. P j) \<longleftrightarrow> P 0 \<and> P 1 \<and> P 2 \<and> P 3 \<and> P (4::nat)"
  by (auto simp: less_5)

lemma woken_ended [simp]: "woken p = No_Worker \<longleftrightarrow> p = No_Worker" "woken p = Worker_Ended \<longleftrightarrow> p = Worker_Ended"
  "stale_ok (woken p) = stale_ok p"
  by (auto simp: woken_def)

text \<open>What a step of one of the resolver's own threads leaves alone.\<close>

lemma with_cache_result:
  assumes "with_cache c s = Some s'"
  shows "s' = s\<lparr>cr := c, stale_thread := stale_thread s'\<rparr>" "stale_thread s' = stale_thread s \<or> stale_thread s' = woken (stale_thread s)"
  using assms by (auto simp: with_cache_def split: if_splits)

lemma stale_result:
  assumes "stale_step back now s = Some s'"
  shows "s' = s\<lparr>cr := cr s', stale_thread := stale_thread s', terminated := terminated s'\<rparr>"
    "stale_thread s \<notin> {No_Worker, Worker_Ended, Asleep}" "cache_inv lo (cr s) \<Longrightarrow> stale_ok (stale_thread s) \<Longrightarrow> cache_inv lo (cr s') \<and> stale_ok (stale_thread s')"
proof -
  show "s' = s\<lparr>cr := cr s', stale_thread := stale_thread s', terminated := terminated s'\<rparr>"
    "stale_thread s \<notin> {No_Worker, Worker_Ended, Asleep}"
    using assms by (auto simp: stale_step_def split: stale_place.splits list.splits prod.splits sum.splits)
  assume inv: "cache_inv lo (cr s)" "stale_ok (stale_thread s)"
  show "cache_inv lo (cr s') \<and> stale_ok (stale_thread s')"
  proof (cases "stale_thread s")
    case (Refreshing k q)
    with inv refreshEntry_inv [of lo "cr s" q k "back" now] assms show ?thesis
      by (auto simp: stale_step_def split: prod.splits sum.splits)
  next
    case Taking
    with inv assms show ?thesis by (auto simp: stale_step_def cache_inv_def split: list.splits)
  qed (use inv assms in \<open>auto simp: stale_step_def\<close>)
qed

lemma warm_result:
  assumes "warm_step back fan ts s = Some s'"
  obtains m ms c where "warm_thread s = Some (m # ms)" "c = fst (query back fan ts m False (cr s))"
    "s' = s\<lparr>cr := c, terminated := True\<rparr> \<or> with_cache c (s\<lparr>warm_thread := Some ms\<rparr>) = Some s'"
proof -
  obtain m ms where w: "warm_thread s = Some (m # ms)"
    using assms by (auto simp: warm_step_def split: option.splits list.splits)
  obtain c r where "query back fan ts m False (cr s) = (c, r)" by fastforce
  with assms w that [of m ms c] show ?thesis by (cases r) (simp_all add: warm_step_def)
qed

lemma gc_result:
  assumes "gc_step ts s = Some s'"
  obtains b where "gc_thread s = Some b" "b \<noteq> Beat_Over"
    "s' = s\<lparr>gc_thread := Some (snd (beat_step gc_rhythm (is_running s) b)), cr := cr s'\<rparr>" "cr s' = cr s \<or> cr s' = gcCache ts (cr s)"
proof (cases "gc_thread s")
  case (Some b)
  with assms that [of b] show ?thesis by (auto simp: gc_step_def split: if_splits prod.splits)
qed (use assms in \<open>simp add: gc_step_def\<close>)

lemma prewarm_result:
  assumes "prewarm_step back ts s = Some s'"
  obtains b b' where "prewarm_thread s = Some b" "b \<noteq> Beat_Over" "b' = Beat_Over \<or> b' = snd (beat_step prewarm_rhythm (is_running s) b)"
    "s' = s\<lparr>prewarm_thread := Some b', cr := cr s'\<rparr>" "cr s' = cr s \<or> cr s' = fst (doAdaptivePrewarm back ts (cr s))"
proof (cases "prewarm_thread s")
  case (Some b)
  obtain d b' where b': "beat_step prewarm_rhythm (is_running s) b = (d, b')" by fastforce
  obtain c r where c: "doAdaptivePrewarm back ts (cr s) = (c, r)" by fastforce
  have "prewarm_step back ts s = (if b = Beat_Over then None else if d = Worked
      then Some (s\<lparr>prewarm_thread := Some (case r of Inl _ \<Rightarrow> Beat_Over | Inr _ \<Rightarrow> b'), cr := c\<rparr>)
      else Some (s\<lparr>prewarm_thread := Some b'\<rparr>))"
    using Some b' c by (cases r) (simp_all add: prewarm_step_def)
  note eq = this [unfolded assms]
  show ?thesis
  proof (cases "d = Worked")
    case True
    with eq b' c Some that [of b "case r of Inl _ \<Rightarrow> Beat_Over | Inr _ \<Rightarrow> b'"] show ?thesis
      by (cases r) (simp_all split: if_splits)
  next
    case False
    with eq b' Some that [of b b'] show ?thesis by (simp split: if_splits)
  qed
qed (use assms in \<open>simp add: prewarm_step_def\<close>)

lemma refresh_result:
  assumes "refresh_step back pct ts n s = Some s'"
  shows "s' = s\<lparr>refresh_thread := refresh_thread s', cr := cr s'\<rparr>" "refresh_thread s \<noteq> None"
    "refresh_thread s \<noteq> Some (Beating Beat_Over)"
    "cr s' = cr s \<or> (\<exists>k q rest. refresh_thread s = Some (Items ((k, q) # rest)) \<and> cr s' = fst (refreshEntry back (ts 0) k q (cr s)))"
    "refresh_ok (refresh_thread s) \<Longrightarrow> refresh_ok (refresh_thread s')"
proof -
  let ?found = "refresh_candidates pct (c_ttl (cr s)) ts 0 (cache (cr s))"
  have found: "list_all (\<lambda>(k, q). q = question_of k) ?found" by (rule refresh_candidates_ok)
  then have "list_all (\<lambda>(k, q). q = question_of k) (take n ?found)"
    by (metis append_take_drop_id list_all_append)
  with found assms show "refresh_ok (refresh_thread s) \<Longrightarrow> refresh_ok (refresh_thread s')"
    by (auto simp: refresh_step_def Let_def split: option.splits refresh_place.splits if_splits list.splits prod.splits)
qed (use assms in \<open>auto simp: refresh_step_def Let_def split: option.splits refresh_place.splits if_splits list.splits prod.splits\<close>)


section \<open>One step\<close>

text \<open>How many steps are left to each thread once the flag is off.\<close>

fun stale_rank :: "stale_place \<Rightarrow> nat" where
  "stale_rank No_Worker = 0"
| "stale_rank Worker_Ended = 0"
| "stale_rank Testing = 1"
| "stale_rank (Refreshing k q) = 2"
| "stale_rank Taking = 3"
| "stale_rank Locking = 4"
| "stale_rank Asleep = 5"
| "stale_rank Going_To_Sleep = 6"

fun refresh_rank :: "refresh_place option \<Rightarrow> nat" where
  "refresh_rank None = 0"
| "refresh_rank (Some (Beating b)) = beat_rank b"
| "refresh_rank (Some (Items ks)) = 2"

lemma stale_shrinks:
  assumes "stale_step back now s = Some s'" "\<not> is_running s"
  shows "terminated s' \<or> stale_rank (stale_thread s') < stale_rank (stale_thread s)"
    "stale_thread s' = Asleep \<Longrightarrow> stale_thread s = Going_To_Sleep" "stale_thread s' \<noteq> Going_To_Sleep"
  using assms by (cases "stale_thread s"; auto simp: stale_step_def split: list.splits prod.splits sum.splits)+

lemma refresh_shrinks:
  assumes "refresh_step back pct ts n s = Some s'" "\<not> is_running s"
  shows "refresh_rank (refresh_thread s') < refresh_rank (refresh_thread s)"
proof (cases "refresh_thread s")
  case (Some p)
  show ?thesis
  proof (cases p)
    case (Beating b)
    with Some assms beat_shrinks [of b refresh_rhythm] show ?thesis
      by (auto simp: refresh_step_def Let_def split: if_splits)
  next
    case (Items ks)
    with Some assms show ?thesis by (auto simp: refresh_step_def split: list.splits)
  qed
qed (use assms in \<open>simp add: refresh_step_def\<close>)

lemma beat_small: "beat_rank b \<le> 5 \<Longrightarrow> slices c \<le> 1 \<Longrightarrow> beat_rank (snd (beat_step c r b)) \<le> 5"
  by (cases "(c, r, b)" rule: beat_step.cases) auto

lemma refresh_small:
  assumes "refresh_step back pct ts n s = Some s'" "refresh_rank (refresh_thread s) \<le> 5"
  shows "refresh_rank (refresh_thread s') \<le> 5"
proof (cases "refresh_thread s")
  case (Some p)
  show ?thesis
  proof (cases p)
    case (Beating b)
    with Some assms beat_small [of b refresh_rhythm "is_running s"] show ?thesis
      by (auto simp: refresh_step_def Let_def refresh_rhythm_def split: if_splits)
  next
    case (Items ks)
    with Some assms show ?thesis by (auto simp: refresh_step_def split: list.splits if_splits)
  qed
qed (use assms in \<open>simp add: refresh_step_def\<close>)

lemma life_exec_cases:
  assumes "life_exec a s = Some s'"
  obtains
    (start) "a = Start" "starts s = Some s'" "\<not> terminated s"
  | (client) e where "a = Client e" "by_client e" "in_use (owner s)" "with_cache (cache_step (cr s) e) s = Some s'" "\<not> terminated s"
  | (destroy) now where "a = Destroy now" "destroy_step now s = Some s'" "\<not> terminated s"
  | (stale) c p t where "s' = s\<lparr>cr := c, stale_thread := p, terminated := t\<rparr>" "stale_thread s \<notin> {No_Worker, Worker_Ended, Asleep}"
      "\<forall>lo. cache_inv lo (cr s) \<and> stale_ok (stale_thread s) \<longrightarrow> cache_inv lo c \<and> stale_ok p"
      "\<not> is_running s \<Longrightarrow> (t \<or> stale_rank p < stale_rank (stale_thread s)) \<and> p \<noteq> Going_To_Sleep \<and> (p = Asleep \<longrightarrow> stale_thread s = Going_To_Sleep)"
      "\<not> terminated s"
  | (warm_dies) m ms c where "warm_thread s = Some (m # ms)" "s' = s\<lparr>cr := c, terminated := True\<rparr>" "\<forall>lo. cache_inv lo (cr s) \<longrightarrow> cache_inv lo c"
      "queued (cr s) c" "\<not> terminated s"
  | (warm) m ms c p where "warm_thread s = Some (m # ms)" "s' = s\<lparr>warm_thread := Some ms, cr := c, stale_thread := p\<rparr>"
      "p = stale_thread s \<or> p = woken (stale_thread s)" "\<forall>lo. cache_inv lo (cr s) \<longrightarrow> cache_inv lo c"
      "queued (cr s) c" "\<not> terminated s"
  | (collect) b c where "gc_thread s = Some b" "b \<noteq> Beat_Over" "s' = s\<lparr>gc_thread := Some (snd (beat_step gc_rhythm (is_running s) b)), cr := c\<rparr>"
      "\<forall>lo. cache_inv lo (cr s) \<longrightarrow> cache_inv lo c" "queued (cr s) c" "\<not> terminated s"
  | (preempt) r c where "s' = s\<lparr>refresh_thread := r, cr := c\<rparr>" "refresh_thread s \<noteq> None" "refresh_thread s \<noteq> Some (Beating Beat_Over)"
      "\<forall>lo. cache_inv lo (cr s) \<and> refresh_ok (refresh_thread s) \<longrightarrow> cache_inv lo c \<and> refresh_ok r"
      "\<not> is_running s \<Longrightarrow> refresh_rank r < refresh_rank (refresh_thread s)"
      "refresh_rank (refresh_thread s) \<le> 5 \<Longrightarrow> refresh_rank r \<le> 5" "queued (cr s) c" "\<not> terminated s"
  | (adapt) b b' c where "prewarm_thread s = Some b" "b \<noteq> Beat_Over" "b' = Beat_Over \<or> b' = snd (beat_step prewarm_rhythm (is_running s) b)"
      "s' = s\<lparr>prewarm_thread := Some b', cr := c\<rparr>" "\<forall>lo. cache_inv lo (cr s) \<longrightarrow> cache_inv lo c"
      "queued (cr s) c" "\<not> terminated s"
  | (spurious) "a = Spurious" "stale_thread s = Asleep" "s' = s\<lparr>stale_thread := Locking\<rparr>" "\<not> terminated s"
proof -
  have t: "\<not> terminated s" using assms by (auto simp: life_exec.simps)
  show thesis
  proof (cases a)
    case Start
    with assms t start show thesis by (simp add: life_exec.simps)
  next
    case (Client e)
    with assms t client show thesis by (simp add: life_exec.simps split: if_splits)
  next
    case (Destroy now)
    with assms t destroy show thesis by (simp add: life_exec.simps)
  next
    case (Stale bk now)
    with assms t have st: "stale_step bk now s = Some s'" by (simp add: life_exec.simps)
    show thesis
      by (rule stale [OF stale_result(1) [OF st]]) (use stale_result(2,3) [OF st] stale_shrinks [OF st] t in auto)
  next
    case (Warm bk fan ts)
    with assms t have w: "warm_step bk fan ts s = Some s'" by (simp add: life_exec.simps)
    then show thesis
    proof (cases rule: warm_result)
      case (1 m ms c)
      have inv: "\<forall>lo. cache_inv lo (cr s) \<longrightarrow> cache_inv lo c" "queued (cr s) c" using 1(2) query_inv queued_query by blast+
      from 1(3) show thesis
      proof
        assume "s' = s\<lparr>cr := c, terminated := True\<rparr>"
        with warm_dies 1(1) inv t show thesis by blast
      next
        assume "with_cache c (s\<lparr>warm_thread := Some ms\<rparr>) = Some s'"
        from with_cache_result [OF this] 1(1) inv t show thesis by (intro warm [where m = m and ms = ms and c = c and p = "stale_thread s'"]) simp_all
      qed
    qed
  next
    case (Collect ts)
    with assms t have "gc_step ts s = Some s'" by (simp add: life_exec.simps)
    then show thesis
    proof (cases rule: gc_result)
      case (1 b)
      then have "queued (cr s) (cr s')" by (auto intro: queuedI)
      with 1 t gcCache_inv show thesis by (intro collect [where b = b and c = "cr s'"]) auto
    qed
  next
    case (Preempt bk pct ts n)
    with assms t have r: "refresh_step bk pct ts n s = Some s'" by (simp add: life_exec.simps)
    have "cache_inv lo (cr s')" if "cache_inv lo (cr s)" "refresh_ok (refresh_thread s)" for lo
      using refresh_result(4) [OF r] that refreshEntry_inv [of lo "cr s", OF that(1) refl] by auto
    moreover have "queued (cr s) (cr s')" using refresh_result(4) [OF r] by (auto intro: queuedI)
    ultimately show thesis using t refresh_result(2,3,5) [OF r] refresh_shrinks [OF r] refresh_small [OF r]
      by (intro preempt [OF refresh_result(1) [OF r]]) auto
  next
    case (Adapt bk ts)
    with assms t have "prewarm_step bk ts s = Some s'" by (simp add: life_exec.simps)
    then show thesis
    proof (cases rule: prewarm_result)
      case (1 b b')
      then have "queued (cr s) (cr s')" by (auto intro: queuedI)
      with 1 t doAdaptivePrewarm_inv show thesis by (intro adapt [where b = b and b' = b' and c = "cr s'"]) auto
    qed
  next
    case Spurious
    with assms t spurious show thesis by (simp add: life_exec.simps split: if_splits)
  qed
qed


section \<open>The invariant is kept\<close>

lemma destroy_result:
  assumes "destroy_step now s = Some s'"
  obtains (off) "in_use (owner s)" "s' = s\<lparr>is_running := False, owner := Notifying\<rparr>"
  | (notify) "owner s = Notifying" "s' = s\<lparr>stale_thread := woken (stale_thread s), owner := Joining 0\<rparr>"
  | (join) k where "owner s = Joining k" "k < 5" "joinable_ended k s" "s' = s\<lparr>owner := Joining (Suc k)\<rparr>"
  | (save) k f where "owner s = Joining k" "5 \<le> k"
      "s' = s\<lparr>saved_file := f, owner := Destroyed\<rparr>"
      "if to_file s then \<exists>bs. f = Some bs \<and> save_bytes now (cache (cr s)) = Inr bs else f = saved_file s"
  | (thrown) k e where "owner s = Joining k" "5 \<le> k" "to_file s" "save_bytes now (cache (cr s)) = Inl e" "s' = s\<lparr>terminated := True\<rparr>"
proof (cases "\<exists>k. owner s = Joining k \<and> 5 \<le> k")
  case True
  then obtain k where k: "owner s = Joining k" "5 \<le> k" by blast
  show thesis
  proof (cases "to_file s")
    case False
    with k assms have "s' = s\<lparr>owner := Destroyed\<rparr>" by (simp add: destroy_step_def)
    then have "s' = s\<lparr>saved_file := saved_file s, owner := Destroyed\<rparr>" by simp
    from save [OF k this] False show thesis by simp
  next
    case True
    show thesis
    proof (cases "save_bytes now (cache (cr s))")
      case (Inl e)
      with True k assms have "s' = s\<lparr>terminated := True\<rparr>" by (simp add: destroy_step_def)
      from thrown [OF k True Inl this] show thesis .
    next
      case (Inr bs)
      with True k assms have "s' = s\<lparr>saved_file := Some bs, owner := Destroyed\<rparr>" by (simp add: destroy_step_def)
      from save [OF k this] True Inr show thesis by simp
    qed
  qed
next
  case False
  with assms off notify join show thesis by (cases "owner s") (auto simp: destroy_step_def split: if_splits)
qed

lemma starts_result:
  assumes "starts s = Some s'"
  shows "in_use (owner s)" "in_use (owner s')" "cr s' = cr s" "stale_ok (stale_thread s) \<Longrightarrow> stale_ok (stale_thread s')"
    "refresh_ok (refresh_thread s) \<Longrightarrow> refresh_ok (refresh_thread s')" "saved_file s' = saved_file s"
  using assms by (cases "owner s"; auto simp: starts_def split: if_splits)+

lemma in_use_joined [simp]: "in_use p \<Longrightarrow> joined p = 0" "in_use p \<Longrightarrow> p \<noteq> Destroyed"
  by (cases p; simp)+

lemma life_inv_in_use:
  "in_use (owner s) \<Longrightarrow> life_inv lo s \<longleftrightarrow> cache_inv lo (cr s) \<and> stale_ok (stale_thread s) \<and> refresh_ok (refresh_thread s) \<and> saved_file s = None"
  by (auto simp: life_inv_def)

text \<open>A thread that has ended, or was never started, stays so; once all have, nothing changes the cache.\<close>

lemma ended_stays:
  assumes "life_exec a s = Some s'" "\<not> in_use (owner s)" "joinable_ended j s"
  shows "joinable_ended j s'"
  using assms(1)
proof (cases rule: life_exec_cases)
  case start
  with assms(2) starts_result show ?thesis by blast
next
  case (destroy now)
  from destroy(2) show ?thesis
    by (cases rule: destroy_result) (use assms(2,3) in \<open>auto simp: joinable_ended_def\<close>)
qed (use assms(2,3) in \<open>auto simp: joinable_ended_def split: if_splits\<close>)

lemma all_ended_stays:
  assumes "life_exec a s = Some s'" "\<not> in_use (owner s)" "threads_ended s"
  shows "cr s' = cr s \<and> (\<exists>now. destroy_step now s = Some s')"
  using assms(1)
proof (cases rule: life_exec_cases)
  case start
  with assms(2) starts_result show ?thesis by blast
next
  case (destroy now)
  from destroy(2) have "cr s' = cr s" by (cases rule: destroy_result) auto
  with destroy(2) show ?thesis by blast
qed (use assms(2,3) in \<open>auto simp: threads_ended_def all_less_5 joinable_ended_def\<close>)

text \<open>A step of one of the resolver's own threads.\<close>

definition own_step :: "life \<Rightarrow> life \<Rightarrow> bool" where
  "own_step s s' \<longleftrightarrow> owner s' = owner s \<and> is_running s' = is_running s \<and> to_file s' = to_file s \<and> saved_file s' = saved_file s
     \<and> (\<forall>lo. cache_inv lo (cr s) \<and> stale_ok (stale_thread s) \<and> refresh_ok (refresh_thread s) \<longrightarrow>
          cache_inv lo (cr s') \<and> stale_ok (stale_thread s') \<and> refresh_ok (refresh_thread s'))"

lemma client_ok: "by_client e \<Longrightarrow> op_ok e"
  by (cases e) simp_all

lemma life_exec_kinds:
  assumes "life_exec a s = Some s'"
  shows "starts s = Some s' \<or> (\<exists>now. destroy_step now s = Some s') \<or> own_step s s'"
  using assms
proof (cases rule: life_exec_cases)
  case (client e)
  from with_cache_result [OF client(4)]
  have s': "s' = s\<lparr>cr := cache_step (cr s) e, stale_thread := stale_thread s'\<rparr>" "stale_ok (stale_thread s') = stale_ok (stale_thread s)"
    by auto
  have "own_step s (s\<lparr>cr := cache_step (cr s) e, stale_thread := stale_thread s'\<rparr>)"
    using cache_step_inv [of _ "cr s" e] client_ok [OF client(2)] s'(2) by (auto simp: own_step_def)
  with s'(1) show ?thesis by simp
qed (auto simp: own_step_def)

lemma destroy_inv:
  assumes "destroy_step now s = Some s'" "life_inv lo s"
  shows "life_inv lo s'"
  using assms(1)
proof (cases rule: destroy_result)
  case off
  with assms(2) show ?thesis by (simp add: life_inv_def)
next
  case notify
  with assms(2) show ?thesis by (simp add: life_inv_def)
next
  case (join k)
  have "joinable_ended j (s\<lparr>owner := Joining (Suc k)\<rparr>) = joinable_ended j s" for j by (simp add: joinable_ended_def)
  with join assms(2) show ?thesis by (auto simp: life_inv_def less_Suc_eq)
next
  case (save k f)
  have "joinable_ended j (s\<lparr>saved_file := x, owner := Destroyed\<rparr>) = joinable_ended j s" for j x by (simp add: joinable_ended_def)
  with save assms(2) show ?thesis by (auto simp: life_inv_def written_def split: if_splits)
next
  case (thrown k e)
  have "joinable_ended j (s\<lparr>terminated := True\<rparr>) = joinable_ended j s" for j by (simp add: joinable_ended_def)
  with thrown assms(2) show ?thesis by (simp add: life_inv_def)
qed

lemma life_inv_step:
  assumes "life_exec a s = Some s'" "life_inv lo s"
  shows "life_inv lo s'"
  using life_exec_kinds [OF assms(1)]
proof (elim disjE exE)
  assume "starts s = Some s'"
  from starts_result [OF this] assms(2) show ?thesis by (auto simp: life_inv_in_use)
next
  fix now assume "destroy_step now s = Some s'"
  then show ?thesis using assms(2) by (rule destroy_inv)
next
  assume own: "own_step s s'"
  show ?thesis
  proof (cases "in_use (owner s)")
    case True
    with own assms(2) show ?thesis by (auto simp: life_inv_in_use own_step_def)
  next
    case False
    have "owner s \<noteq> Destroyed"
    proof
      assume d: "owner s = Destroyed"
      with assms(2) have "threads_ended s" by (simp add: life_inv_def threads_ended_def)
      with all_ended_stays [OF assms(1) False] d show False by (simp add: destroy_step_def)
    qed
    with own assms(2) False ended_stays [OF assms(1) False] show ?thesis by (auto simp: life_inv_def own_step_def)
  qed
qed

lemma life_inv_run: "life_inv lo s \<Longrightarrow> life_run as s = Some s' \<Longrightarrow> life_inv lo s'"
  by (induction as arbitrary: s) (auto split: bind_splits intro: life_inv_step)

lemma life_inv_init: "cache_inv lo c \<Longrightarrow> life_inv lo (life_init f c)"
  by (simp add: life_inv_def life_init_def)


section \<open>The destructor\<close>

fun owner_rank :: "owner_place \<Rightarrow> nat" where
  "owner_rank Destroyed = 0"
| "owner_rank (Joining k) = 6 - k"
| "owner_rank _ = 7"

fun opt_rank :: "beat option \<Rightarrow> nat" where
  "opt_rank None = 0"
| "opt_rank (Some b) = beat_rank b"

fun warm_rank :: "dns_message list option \<Rightarrow> nat" where
  "warm_rank None = 0"
| "warm_rank (Some ms) = length ms"

definition shutdown_rank :: "life \<Rightarrow> nat" where
  "shutdown_rank s = (if terminated s then 0
     else Suc (owner_rank (owner s) + stale_rank (stale_thread s) + warm_rank (warm_thread s) + opt_rank (gc_thread s)
       + refresh_rank (refresh_thread s) + opt_rank (prewarm_thread s)))"

definition down :: "life \<Rightarrow> bool" where
  "down s \<longleftrightarrow> \<not> in_use (owner s) \<and> \<not> is_running s \<and> joined (owner s) \<le> 5"

definition hung :: "life \<Rightarrow> bool" where
  "hung s \<longleftrightarrow> owner s = Joining 0 \<and> stale_thread s = Asleep"

definition at_rest :: "life \<Rightarrow> bool" where
  "at_rest s \<longleftrightarrow> terminated s \<or> owner s = Destroyed \<or> hung s"

lemma woken_rank: "stale_rank (woken p) \<le> stale_rank p"
  by (simp add: woken_def)

lemma down_keeps:
  assumes "down s" "life_exec a s = Some s'"
  shows "down s'"
  using assms(2)
proof (cases rule: life_exec_cases)
  case start
  with assms(1) starts_result show ?thesis by (auto simp: down_def)
next
  case (client e)
  with assms(1) show ?thesis by (simp add: down_def)
next
  case (destroy now)
  from destroy(2) show ?thesis by (cases rule: destroy_result) (use assms(1) in \<open>auto simp: down_def\<close>)
qed (use assms(1) in \<open>auto simp: down_def\<close>)

lemma down_shrinks:
  assumes "down s" "life_exec a s = Some s'" "a \<noteq> Spurious"
  shows "shutdown_rank s' < shutdown_rank s"
  using assms(2)
proof (cases rule: life_exec_cases)
  case start
  with assms(1) starts_result show ?thesis by (auto simp: down_def)
next
  case (client e)
  with assms(1) show ?thesis by (simp add: down_def)
next
  case (destroy now)
  from destroy(2) show ?thesis
  proof (cases rule: destroy_result)
    case notify
    with destroy(3) woken_rank [of "stale_thread s"] show ?thesis by (simp add: shutdown_rank_def)
  qed (use assms(1) destroy(3) in \<open>auto simp: down_def shutdown_rank_def\<close>)
next
  case (stale c p t)
  with assms(1) show ?thesis by (cases t) (auto simp: down_def shutdown_rank_def)
next
  case (warm m ms c p)
  then have "stale_rank p \<le> stale_rank (stale_thread s)" using woken_rank by auto
  with warm show ?thesis by (simp add: shutdown_rank_def)
next
  case (collect b c)
  with assms(1) beat_shrinks [of b gc_rhythm] show ?thesis by (simp add: down_def shutdown_rank_def)
next
  case (preempt r c)
  with assms(1) show ?thesis by (simp add: down_def shutdown_rank_def)
next
  case (adapt b b' c)
  then have "beat_rank b' < beat_rank b"
    using assms(1) beat_shrinks [of b prewarm_rhythm] by (cases b) (auto simp: down_def)
  with adapt show ?thesis by (simp add: shutdown_rank_def)
next
  case spurious
  with assms(3) show ?thesis by simp
qed (simp_all add: shutdown_rank_def)

text \<open>While something is left to do, some thread can do it.\<close>

lemma stale_enabled:
  assumes "\<not> terminated s" "stale_thread s \<notin> {No_Worker, Worker_Ended, Asleep}"
  shows "\<exists>s'. moves_to s s'"
proof -
  have "stale_step (\<lambda>_ _. Inr None) 0 s \<noteq> None"
    using assms(2) by (cases "stale_thread s") (auto simp: stale_step_def refreshEntry_def split: list.split)
  with assms(1) have "life_exec (Stale (\<lambda>_ _. Inr None) 0) s \<noteq> None" by (simp add: life_exec.simps)
  then show ?thesis by (auto simp: moves_to_def)
qed

lemma with_cache_enabled: "mutex_free s \<Longrightarrow> with_cache c s \<noteq> None"
  by (simp add: with_cache_def)

lemma warm_enabled:
  assumes "\<not> terminated s" "warm_thread s = Some (m # ms)"
  shows "\<exists>s'. moves_to s s'"
proof (cases "mutex_free s")
  case True
  let ?b = "(\<lambda>_ _. Inr None) :: thrown backend" and ?ts = "\<lambda>_. 0"
  have "warm_step ?b True ?ts s \<noteq> None"
    using assms(2) with_cache_enabled [of "s\<lparr>warm_thread := Some ms\<rparr>"] True
    by (simp add: warm_step_def mutex_free_def split: prod.split sum.split)
  with assms(1) have "life_exec (Warm ?b True ?ts) s \<noteq> None" by (simp add: life_exec.simps)
  then show ?thesis by (auto simp: moves_to_def)
next
  case False
  with stale_enabled [OF assms(1)] show ?thesis by (auto simp: mutex_free_def)
qed

lemma down_enabled:
  assumes "down s" "\<not> at_rest s"
  shows "\<exists>s'. moves_to s s'"
proof -
  have t: "\<not> terminated s" using assms(2) by (simp add: at_rest_def)
  have moves: "\<exists>s'. moves_to s s'" if "life_exec a s \<noteq> None" "a \<noteq> Spurious" for a
    using that by (auto simp: moves_to_def)
  have own: "\<exists>s'. moves_to s s'" if "destroy_step 0 s \<noteq> None"
    using that t moves [of "Destroy 0"] by (simp add: life_exec.simps)
  show ?thesis
  proof (cases "owner s")
    case Notifying
    with own show ?thesis by (simp add: destroy_step_def)
  next
    case (Joining k)
    show ?thesis
    proof (cases "k < 5 \<and> \<not> joinable_ended k s")
      case False
      with Joining own show ?thesis by (auto simp: destroy_step_def split: sum.splits)
    next
      case True
      then consider "k = 0" | "k = 1" | "k = 2" | "k = 3" | "k = 4" by (auto simp: less_5)
      then show ?thesis
      proof cases
        case 1
        with True Joining assms(2) stale_enabled [OF t] show ?thesis by (auto simp: joinable_ended_def at_rest_def hung_def)
      next
        case 2
        with True obtain m ms where "warm_thread s = Some (m # ms)"
          by (cases "warm_thread s") (auto simp: joinable_ended_def neq_Nil_conv)
        with warm_enabled [OF t] show ?thesis by blast
      next
        case 3
        with True have "gc_step (\<lambda>_. 0) s \<noteq> None" by (auto simp: joinable_ended_def gc_step_def split: prod.split)
        with t moves [of "Collect (\<lambda>_. 0)"] show ?thesis by (simp add: life_exec.simps)
      next
        case 4
        with True have "refresh_step (\<lambda>_ _. Inr None) 0 (\<lambda>_. 0) 0 s \<noteq> None"
          by (auto simp: joinable_ended_def refresh_step_def Let_def split: refresh_place.split list.split)
        with t moves [of "Preempt (\<lambda>_ _. Inr None) 0 (\<lambda>_. 0) 0"] show ?thesis by (simp add: life_exec.simps)
      next
        case 5
        with True have "prewarm_step (\<lambda>_ _. Inr None) (\<lambda>_. 0) s \<noteq> None"
          by (auto simp: joinable_ended_def prewarm_step_def split: prod.split sum.split)
        with t moves [of "Adapt (\<lambda>_ _. Inr None) (\<lambda>_. 0)"] show ?thesis by (simp add: life_exec.simps)
      qed
    qed
  qed (use assms in \<open>auto simp: down_def at_rest_def\<close>)
qed

interpretation shutdown: winding_down moves_to down shutdown_rank at_rest
  by unfold_locales (auto simp: moves_to_def intro: down_keeps down_shrinks dest: down_enabled [unfolded moves_to_def])


text \<open>A bound that does not depend on the state: nothing is longer than the warm-up's forty queries.\<close>

definition small :: "life \<Rightarrow> bool" where
  "small s \<longleftrightarrow> warm_rank (warm_thread s) \<le> 40 \<and> opt_rank (gc_thread s) \<le> 5 \<and> refresh_rank (refresh_thread s) \<le> 5
     \<and> opt_rank (prewarm_thread s) \<le> 5"

lemma length_warmup: "length warmup_queries = 40"
  by (simp add: warmup_queries_def warmup_names_def)

lemma starts_small: "starts s = Some s' \<Longrightarrow> small s \<Longrightarrow> small s'"
  by (cases "owner s") (auto simp: starts_def small_def length_warmup split: if_splits)

lemma small_step:
  assumes "life_exec a s = Some s'" "small s"
  shows "small s'"
  using assms(1)
proof (cases rule: life_exec_cases)
  case start
  with assms(2) starts_small show ?thesis by blast
next
  case (client e)
  obtain p where "s' = s\<lparr>cr := cache_step (cr s) e, stale_thread := p\<rparr>" using with_cache_result(1) [OF client(4)] by blast
  with assms(2) show ?thesis by (simp add: small_def)
next
  case (destroy now)
  from destroy(2) show ?thesis by (cases rule: destroy_result) (use assms(2) in \<open>simp_all add: small_def\<close>)
next
  case (collect b c)
  with assms(2) beat_small [of b gc_rhythm "is_running s"] show ?thesis by (simp add: small_def gc_rhythm_def)
next
  case (adapt b b' c)
  with assms(2) beat_small [of b prewarm_rhythm "is_running s"] show ?thesis by (auto simp: small_def prewarm_rhythm_def)
qed (use assms(2) in \<open>auto simp: small_def\<close>)

lemma small_run: "small s \<Longrightarrow> life_run as s = Some s' \<Longrightarrow> small s'"
  by (induction as arbitrary: s) (auto split: bind_splits intro: small_step)

lemma small_init: "small (life_init f c)"
  by (simp add: small_def life_init_def)

lemma small_rank:
  assumes "small s"
  shows "shutdown_rank s \<le> 69"
proof -
  have "stale_rank (stale_thread s) \<le> 6" by (cases "stale_thread s") simp_all
  moreover have "owner_rank (owner s) \<le> 7" by (cases "owner s") simp_all
  ultimately show ?thesis using assms by (simp add: shutdown_rank_def small_def)
qed

lemma reached_down:
  assumes "cache_inv lo c" "life_run as (life_init f c) = Some s" "\<not> in_use (owner s)"
  shows "down s"
  using life_inv_run [OF life_inv_init [OF assms(1)] assms(2)] assms(3) by (auto simp: life_inv_def down_def)

lemma never_asleep:
  assumes "down s" "stale_thread s \<noteq> Going_To_Sleep" "stale_thread s \<noteq> Asleep" "moves_to s s'"
  shows "stale_thread s' \<noteq> Going_To_Sleep \<and> stale_thread s' \<noteq> Asleep"
proof -
  from assms(4) obtain a where "a \<noteq> Spurious" "life_exec a s = Some s'" by (auto simp: moves_to_def)
  from this(2) show ?thesis
  proof (cases rule: life_exec_cases)
    case start
    with assms(1) starts_result show ?thesis by (auto simp: down_def)
  next
    case (client e)
    with assms(1) show ?thesis by (simp add: down_def)
  next
    case (destroy now)
    from destroy(2) show ?thesis by (cases rule: destroy_result) (use assms(2,3) in \<open>auto simp: woken_def\<close>)
  qed (use assms(1-3) in \<open>auto simp: down_def woken_def\<close>)
qed

lemma never_hung:
  assumes "down s" "stale_thread s \<noteq> Going_To_Sleep" "stale_thread s \<noteq> Asleep" "(moves_to ^^ n) s s'"
  shows "\<not> hung s'"
proof -
  have "down s' \<and> stale_thread s' \<noteq> Going_To_Sleep \<and> stale_thread s' \<noteq> Asleep"
    using assms(4)
  proof (induction n arbitrary: s')
    case (Suc n)
    then obtain s1 where s1: "(moves_to ^^ n) s s1" "moves_to s1 s'" by auto
    with Suc.IH [OF s1(1)] never_asleep [of s1 s'] shutdown.keeps [of s1 s'] show ?case by blast
  qed (use assms(1-3) in simp)
  then show ?thesis by (simp add: hung_def)
qed

lemma destructor_outcomes:
  assumes "cache_inv lo c" "life_run as (life_init f c) = Some s" "\<not> in_use (owner s)" "(moves_to ^^ n) s s'"
  shows "n \<le> 69" "\<nexists>s''. moves_to s' s'' \<Longrightarrow> terminated s' \<or> owner s' = Destroyed \<or> hung s'"
    "stale_thread s \<noteq> Going_To_Sleep \<Longrightarrow> stale_thread s \<noteq> Asleep \<Longrightarrow> \<not> hung s'"
proof -
  have d: "down s" by (rule reached_down [OF assms(1-3)])
  show "n \<le> 69" using shutdown.bounded [OF d assms(4)] small_rank [OF small_run [OF small_init assms(2)]] by linarith
  show "\<nexists>s''. moves_to s' s'' \<Longrightarrow> terminated s' \<or> owner s' = Destroyed \<or> hung s'"
    using shutdown.stops [OF d assms(4)] by (simp add: at_rest_def)
  show "stale_thread s \<noteq> Going_To_Sleep \<Longrightarrow> stale_thread s \<noteq> Asleep \<Longrightarrow> \<not> hung s'"
    by (rule never_hung [OF d _ _ assms(4)])
qed

lemma destroyed_facts:
  assumes "cache_inv lo c" "life_run as (life_init f c) = Some s" "(moves_to ^^ n) s s'" "owner s' = Destroyed"
  shows "threads_ended s' \<and> cache_inv lo (cr s') \<and> written s'"
proof -
  have "life_inv lo s'"
    using assms(3)
  proof (induction n arbitrary: s')
    case 0
    then show ?case using life_inv_run [OF life_inv_init [OF assms(1)] assms(2)] by simp
  next
    case (Suc n)
    then obtain s1 where s1: "(moves_to ^^ n) s s1" "moves_to s1 s'" by auto
    from s1(2) obtain a where "life_exec a s1 = Some s'" by (auto simp: moves_to_def)
    then show ?case using Suc.IH [OF s1(1)] by (rule life_inv_step)
  qed
  with assms(4) show ?thesis by (simp add: life_inv_def threads_ended_def)
qed

section \<open>A wakeup that is lost\<close>

lemma hung_for_ever:
  assumes "hung s" "warm_rank (warm_thread s) = 0" "(moves_to ^^ n) s s'"
  shows "hung s' \<and> warm_rank (warm_thread s') = 0"
  using assms(3)
proof (induction n arbitrary: s')
  case (Suc n)
  then obtain s1 where s1: "(moves_to ^^ n) s s1" "moves_to s1 s'" by auto
  with Suc.IH have h: "hung s1" "warm_rank (warm_thread s1) = 0" by blast+
  from s1(2) obtain a where "a \<noteq> Spurious" "life_exec a s1 = Some s'" by (auto simp: moves_to_def)
  from this(2) show ?case
  proof (cases rule: life_exec_cases)
    case start
    with h starts_result(1) [OF start(2)] show ?thesis by (simp add: hung_def)
  next
    case (destroy now)
    from destroy(2) show ?thesis by (cases rule: destroy_result) (use h in \<open>auto simp: hung_def joinable_ended_def\<close>)
  qed (use h \<open>a \<noteq> Spurious\<close> in \<open>auto simp: hung_def\<close>)
qed (use assms(1,2) in simp)


text \<open>Against an upstream that never answers, the warm-up ends and the worker empties its queue.\<close>

definition silent :: "thrown backend" where
  "silent = (\<lambda>_ _. Inr None)"

lemma query_silent: "snd (query silent fan ts m af s) \<noteq> Inl e"
  by (simp add: query_def silent_def Let_def split: prod.split option.split)

lemma life_run_two: "life_run as s = Some s1 \<Longrightarrow> life_run bs s1 = Some s2 \<Longrightarrow> life_run (as @ bs) s = Some s2"
  by (simp add: life_run_append)

definition like :: "life \<Rightarrow> life \<Rightarrow> bool" where
  "like s s' \<longleftrightarrow> owner s' = owner s \<and> is_running s' = is_running s \<and> \<not> terminated s' \<and> stale_thread s' = Testing"

lemma warm_run:
  "\<not> terminated s \<Longrightarrow> stale_thread s = Testing \<Longrightarrow> warm_thread s = Some ms \<Longrightarrow>
    \<exists>as s'. life_run as s = Some s' \<and> like s s' \<and> warm_thread s' = Some []"
proof (induction ms arbitrary: s)
  case Nil
  then show ?case by (intro exI [of _ "[]"] exI [of _ s]) (simp add: like_def)
next
  case (Cons m ms)
  obtain c r where q: "query silent True (\<lambda>_. 0) m False (cr s) = (c, Inr r)"
    using query_silent [of True "\<lambda>_. 0" m False "cr s"] by (metis prod.collapse sum.exhaust)
  let ?s = "s\<lparr>warm_thread := Some ms, cr := c\<rparr>"
  have step: "life_exec (Warm silent True (\<lambda>_. 0)) s = Some ?s"
    using Cons.prems q by (simp add: life_exec.simps warm_step_def with_cache_def mutex_free_def woken_def)
  from Cons.IH [of ?s] Cons.prems obtain as s' where
    "life_run as ?s = Some s'" "like ?s s'" "warm_thread s' = Some []" by auto
  with step show ?case
    by (intro exI [of _ "Warm silent True (\<lambda>_. 0) # as"] exI [of _ s']) (simp add: like_def)
qed

lemma drain_run:
  "\<not> terminated s \<Longrightarrow> stale_thread s = Testing \<Longrightarrow> is_running s \<Longrightarrow> staleRefreshQueue (cr s) = ks \<Longrightarrow>
    \<exists>as s'. life_run as s = Some s' \<and> like s s' \<and> warm_thread s' = warm_thread s \<and> staleRefreshQueue (cr s') = []"
proof (induction ks arbitrary: s)
  case Nil
  then show ?case by (intro exI [of _ "[]"] exI [of _ s]) (simp add: like_def)
next
  case (Cons x ks)
  obtain k q where x: "x = (k, q)" by fastforce
  let ?s = "s\<lparr>cr := (cr s)\<lparr>staleRefreshQueue := ks\<rparr>\<rparr>" and ?a = "Stale silent 0"
  have "life_run [?a, ?a, ?a, ?a] s = Some (?s\<lparr>stale_thread := Testing\<rparr>)"
    using Cons.prems x by (simp add: life_exec.simps stale_step_def refreshEntry_def silent_def)
  moreover have "?s\<lparr>stale_thread := Testing\<rparr> = ?s" using Cons.prems(2) by simp
  ultimately have step: "life_run [?a, ?a, ?a, ?a] s = Some ?s" by simp
  from Cons.IH [of ?s] Cons.prems obtain as s' where
    "life_run as ?s = Some s'" "like ?s s'" "warm_thread s' = warm_thread s" "staleRefreshQueue (cr s') = []" by auto
  with life_run_two [OF step, of as s'] show ?case by (auto simp: like_def simp del: life_run.simps)
qed

text \<open>The worker finds the queue empty and the flag on; the flag goes off and the notification is
  sent; then the worker goes to sleep.\<close>

lemma lost_wakeup:
  "\<exists>as s. life_run as (life_init f c) = Some s \<and> hung s \<and> warm_rank (warm_thread s) = 0"
proof -
  let ?i = "life_init f c" and ?a = "Stale silent 0"
  obtain s1 where s1: "life_run [Start] ?i = Some s1" "\<not> terminated s1" "stale_thread s1 = Testing"
    "warm_thread s1 = Some warmup_queries" "owner s1 = Initialised"
    by (simp add: life_exec.simps life_init_def starts_def)
  from warm_run [OF s1(2-4)] obtain as s2 where s2: "life_run as s1 = Some s2" "like s1 s2" "warm_thread s2 = Some []" by blast
  obtain s3 where s3: "life_run [Start] s2 = Some s3" "\<not> terminated s3" "stale_thread s3 = Testing" "is_running s3"
    "owner s3 = Maintaining 0" "warm_thread s3 = Some []"
    using s2(2,3) s1(5) by (simp add: life_exec.simps starts_def like_def)
  from drain_run [OF s3(2-4) refl] obtain bs s4 where
    s4: "life_run bs s3 = Some s4" "like s3 s4" "warm_thread s4 = Some []" "staleRefreshQueue (cr s4) = []" using s3(6) by auto
  obtain s5 where s5: "life_run [Start, Start, Start, ?a, ?a, Destroy 0, Destroy 0, ?a] s4 = Some s5" "hung s5" "warm_thread s5 = Some []"
    using s4(2-4) s3(4,5)
    by (simp add: life_exec.simps starts_def like_def stale_step_def destroy_step_def hung_def woken_def)
  have "warm_rank (warm_thread s5) = 0" using s5(3) by simp
  with life_run_two [OF life_run_two [OF life_run_two [OF life_run_two [OF s1(1) s2(1)] s3(1)] s4(1)] s5(1)] s5(2)
  show ?thesis by blast
qed

section \<open>A worker that has ended\<close>

lemma ended_worker_step:
  assumes "life_exec a s = Some s'" "stale_thread s = Worker_Ended" "owner s \<noteq> Constructed"
  shows "stale_thread s' = Worker_Ended \<and> owner s' \<noteq> Constructed \<and> (\<exists>zs. staleRefreshQueue (cr s') = staleRefreshQueue (cr s) @ zs)"
  using assms(1)
proof (cases rule: life_exec_cases)
  case start
  with assms(2,3) starts_result(3) [OF start(2)] show ?thesis
    by (cases "owner s") (auto simp: starts_def split: if_splits)
next
  case (client e)
  obtain p where "s' = s\<lparr>cr := cache_step (cr s) e, stale_thread := p\<rparr>" "p = Worker_Ended"
    using with_cache_result [OF client(4)] assms(2) by (auto simp: woken_def)
  with queued_client [OF client(2), of "cr s"] assms(3) show ?thesis by (auto simp: queued_def)
next
  case (destroy now)
  from destroy(2) show ?thesis by (cases rule: destroy_result) (use assms(2,3) in \<open>auto simp: woken_def\<close>)
qed (use assms(2,3) in \<open>auto simp: woken_def queued_def\<close>)

lemma ended_worker_run:
  "life_run as s = Some s' \<Longrightarrow> stale_thread s = Worker_Ended \<Longrightarrow> owner s \<noteq> Constructed \<Longrightarrow>
    stale_thread s' = Worker_Ended \<and> (\<exists>zs. staleRefreshQueue (cr s') = staleRefreshQueue (cr s) @ zs)"
proof (induction as arbitrary: s)
  case (Cons a as)
  then obtain s1 where s1: "life_exec a s = Some s1" "life_run as s1 = Some s'" by (auto split: bind_splits)
  from ended_worker_step [OF s1(1) Cons.prems(2,3)] Cons.IH [OF s1(2)] show ?case by auto
qed simp

text \<open>Before \<open>init\<close> there is no worker.\<close>

definition unborn :: "life \<Rightarrow> bool" where
  "unborn s \<longleftrightarrow> (owner s = Constructed \<longrightarrow> stale_thread s = No_Worker)"

lemma unborn_step: "life_exec a s = Some s' \<Longrightarrow> unborn s \<Longrightarrow> unborn s'"
proof (erule life_exec_cases, goal_cases)
  case 1
  then show ?case by (cases "owner s") (auto simp: unborn_def starts_def split: if_splits)
next
  case (2 e)
  obtain p where "s' = s\<lparr>cr := cache_step (cr s) e, stale_thread := p\<rparr>" "p = stale_thread s \<or> p = woken (stale_thread s)"
    using with_cache_result [OF 2(5)] by blast
  with 2(1) show ?case by (auto simp: unborn_def woken_def)
next
  case (3 now)
  from 3(3) show ?case by (cases rule: destroy_result) (use 3(1) in \<open>auto simp: unborn_def\<close>)
qed (auto simp: unborn_def woken_def)

lemma unborn_run: "life_run as s = Some s' \<Longrightarrow> unborn s \<Longrightarrow> unborn s'"
  by (induction as arbitrary: s) (auto split: bind_splits intro: unborn_step)

text \<open>The worker looks at the flag while it is off, for instance before \<open>maintain\<close> has set it.\<close>

lemma worker_ends_early:
  assumes "life_run as (life_init f c) = Some s1" "stale_thread s1 = Testing" "\<not> is_running s1"
    and "life_run (Stale bk now # bs) s1 = Some s"
  shows "stale_thread s = Worker_Ended \<and> (\<exists>zs. staleRefreshQueue (cr s) = staleRefreshQueue (cr s1) @ zs)"
proof -
  have "unborn s1" by (rule unborn_run [OF assms(1)]) (simp add: unborn_def life_init_def)
  with assms(2) have o: "owner s1 \<noteq> Constructed" by (auto simp: unborn_def)
  obtain s2 where s2: "life_exec (Stale bk now) s1 = Some s2" "life_run bs s2 = Some s"
    using assms(4) by (auto split: bind_splits)
  then have "s2 = s1\<lparr>stale_thread := Worker_Ended\<rparr>"
    using assms(2,3) by (auto simp: life_exec.simps stale_step_def split: if_splits)
  with ended_worker_run [OF s2(2)] o show ?thesis by simp
qed

end
