(* ===== verification/Cache_Properties.thy ===== *)
theory Cache_Properties
  imports Cache_Answers Cache_Life
begin

text \<open>
  The properties of the caching resolver. The witnesses run it on a small world: a wrapped
  resolver that answers every query with the same record, or with an error.
\<close>

section \<open>A concrete world\<close>

definition w_question :: dns_question where
  "w_question = \<lparr>qname = [97, 46, 98], qtype = 1, qclass = 1\<rparr>"

definition w_request :: "u16 \<Rightarrow> dns_message" where
  "w_request i = \<lparr>header = \<lparr>hid = i, flags = 0x100, qdcount = 1, ancount = 0, nscount = 0, arcount = 0\<rparr>,
     questions = [w_question], answers = [], authorities = [], additionals = []\<rparr>"

definition w_rr :: "u32 \<Rightarrow> dns_rr" where
  "w_rr ttl = \<lparr>rr_name = [97, 46, 98], rr_type = 1, rr_class = 1, rr_ttl = ttl, rr_rdata = [192, 0, 2, 1]\<rparr>"

definition w_answer :: "u16 \<Rightarrow> dns_message" where
  "w_answer fl = \<lparr>header = \<lparr>hid = 7, flags = fl, qdcount = 1, ancount = 1, nscount = 0, arcount = 0\<rparr>,
     questions = [w_question], answers = [w_rr 900], authorities = [], additionals = []\<rparr>"

definition w_backend :: "u16 \<Rightarrow> unit backend" where
  "w_backend fl = (\<lambda>_ _. Inr (Some (w_answer fl)))"

definition w_clock :: clock where
  "w_clock = (\<lambda>n. 1000 + int n)"

abbreviation w_init :: caching where
  "w_init \<equiv> caching_init perf_init ttl_init"

lemma w_cfg_ok: "cfg_ok ttl_init"
  by (simp add: cfg_ok_def ttl_init_def maxTTL_def)

lemma w_key_hash: "turboHash (key_of w_question) \<noteq> 0"
  by code_simp

lemma w_question_of: "questions (w_request i) = [w_question]"
  by (simp add: w_request_def)

lemma w_backend_answer: "w_backend fl req fan = Inr (Some (w_answer fl))"
  by (simp add: w_backend_def)

definition w_missed :: caching where
  "w_missed = fst (query_cache w_clock (w_request 1) w_question (w_init\<lparr>totalQueries := totalQueries w_init + 1\<rparr>))"

lemma w_miss:
  "query_cache w_clock (w_request 1) w_question (w_init\<lparr>totalQueries := totalQueries w_init + 1\<rparr>) = (w_missed, None)"
  by (simp add: w_missed_def prod_eq_iff)
    (simp add: query_cache_def turboLookup_def caching_init_def l2_lookup_def Let_def)

definition w_stored :: caching where
  "w_stored = fst (query (w_backend 0x8180) True w_clock (w_request 1) True w_init)"

lemma w_stored_inv: "lo \<le> 30 \<Longrightarrow> cache_inv lo w_stored"
  unfolding w_stored_def by (intro query_inv cache_inv_init w_cfg_ok)

lemma w_should: "shouldCache w_question (w_answer 0x8180)" "shouldCache w_question (w_answer 0x8183)"
  by code_simp+

lemma w_ttl: "reply_ttl ttl_init (w_answer 0x8180) = 900" "negativeTTLSecs ttl_init = 300"
  by code_simp+

lemma w_init_ttl: "c_ttl w_init = ttl_init"
  by (simp add: caching_init_def)



lemma w_request_wf: "wf_message (w_request i)"
  by (simp add: wf_message_def w_request_def wf_question_def w_question_def wf_name_def dot_def)

section \<open>The invariant\<close>

lemma w_stored_cache:
  "cache w_stored = [(key_of w_question, \<lparr>ce_msg = Some (clobberTTL 900 (w_answer 0x8180)), ce_ttl = 900, ce_expires = w_clock 4 + seconds 900\<rparr>)]"
proof -
  have "cache_inv 30 (w_init\<lparr>totalQueries := totalQueries w_init + 1\<rparr>)"
    using cache_inv_init [OF w_cfg_ok order_refl, of perf_init] by (simp add: cache_inv_def)
  from query_cache_inv(3) [OF this w_miss refl] have m: "cache w_missed = []" "c_ttl w_missed = ttl_init"
    by (simp_all add: caching_init_def)
  have "cache w_stored = cache (fst (store_reply (w_clock 4) (w_clock 5) w_question (w_answer 0x8180) w_missed))"
    unfolding w_stored_def query_miss [of "w_request 1" w_question, OF w_question_of w_miss w_backend_answer] by (simp add: case_prod_beta)
  also have "\<dots> = [(key_of w_question, \<lparr>ce_msg = Some (clobberTTL 900 (w_answer 0x8180)), ce_ttl = 900, ce_expires = w_clock 4 + seconds 900\<rparr>)]"
    using w_should(1) by (simp add: store_reply_def Let_def turboInsert_def m w_ttl cache_put_def maxCacheSize_def)
  finally show ?thesis .
qed

lemma w_stored_file_ok:
  "file_ok (w_clock 4) (key_of w_question, \<lparr>ce_msg = Some (clobberTTL 900 (w_answer 0x8180)), ce_ttl = 900, ce_expires = w_clock 4 + seconds 900\<rparr>)"
  "remaining_secs (w_clock 4) \<lparr>ce_msg = Some (clobberTTL 900 (w_answer 0x8180)), ce_ttl = 900, ce_expires = w_clock 4 + seconds 900\<rparr> \<le> 900"
proof -
  have "wf_message (clobberTTL 900 (w_answer 0x8180))"
    by (simp add: clobberTTL_def clobber_def wf_message_def w_answer_def wf_question_def w_question_def wf_name_def dot_def w_rr_def
        wf_rr_def wf_rdata_def type_defs)
  moreover have "length (encode (clobberTTL 900 (w_answer 0x8180))) \<le> 4096"
    by (simp add: clobberTTL_def clobber_def encode_def enc_question_def enc_rr_def name_wire_def w_answer_def w_question_def w_rr_def
        labels_def dot_def writeU16_def writeU32_def)
  ultimately show "file_ok (w_clock 4) (key_of w_question, \<lparr>ce_msg = Some (clobberTTL 900 (w_answer 0x8180)), ce_ttl = 900, ce_expires = w_clock 4 + seconds 900\<rparr>)"
    "remaining_secs (w_clock 4) \<lparr>ce_msg = Some (clobberTTL 900 (w_answer 0x8180)), ce_ttl = 900, ce_expires = w_clock 4 + seconds 900\<rparr> \<le> 900"
    by (simp_all add: file_ok_def remaining_secs_def duration_cast_def seconds_def w_answer_def)
qed

text \<open>C7: After any sequence of queries, cache peeks, refreshes, collections, flushes, warm-ups and
  TTL changes: the map has distinct keys and at most 50000 entries, every entry holds a
  message for its own name and type whose records all carry the entry's TTL (30 to 7200 s),
  every occupied slot of level 1 holds a message for a key with the slot's hash, and at most
  64 refreshes are queued. A cache that starts with the file such a cache has saved, whatever
  is done with it then, is in the same order, with TTLs from 1 s; saved are only well-formed
  messages of at most 4096 bytes, by a clock that is not behind.\<close>

theorem cache_invariant:
  "cfg_ok cfg \<Longrightarrow> list_all op_ok ops \<Longrightarrow> s = foldl cache_step (caching_init pm cfg) ops \<Longrightarrow>
    cache_inv 30 s \<and>
    (list_all op_ok ops2 \<and> (\<forall>e \<in> set (cache s). file_ok now e \<and> remaining_secs now (snd e) \<le> ce_ttl (snd e)) \<longrightarrow>
      (\<exists>C. bindE (save_bytes now (cache s)) (\<lambda>bs. load_bytes now' bs []) = Inr C
        \<and> cache_inv 1 (foldl cache_step ((caching_init pm cfg)\<lparr>cache := C\<rparr>) ops2)))"
  by (rule cache_runs)

theorem cache_invariant_witness:
  "\<exists>C. bindE (save_bytes (w_clock 4) (cache w_stored)) (\<lambda>bs. load_bytes 7 bs []) = Inr C
    \<and> cache_inv 1 (foldl cache_step (w_init\<lparr>cache := C\<rparr>) [Query (w_backend 0x8180) True w_clock (w_request 1) True, Gc w_clock, Flush])"
  proof -
  have s: "w_stored = foldl cache_step w_init [Query (w_backend 0x8180) True w_clock (w_request 1) True]" by (simp add: w_stored_def)
  have ops: "list_all op_ok [Query (w_backend 0x8180) True w_clock (w_request 1) True]"
    "list_all op_ok [Query (w_backend 0x8180) True w_clock (w_request 1) True, Gc w_clock, Flush]" by simp_all
  have "\<forall>e \<in> set (cache w_stored). file_ok (w_clock 4) e \<and> remaining_secs (w_clock 4) (snd e) \<le> ce_ttl (snd e)"
    using w_stored_file_ok by (simp add: w_stored_cache)
  with ops(2) show ?thesis by (intro mp [OF conjunct2 [OF cache_invariant [OF w_cfg_ok ops(1) s]]] conjI)
qed

text \<open>C8: A cacheable reply that a query fetched is served to a later query for the same name, type
  and class until its lifetime is over, with the later query's id and the TTL clobbered, and
  without asking the wrapped resolver again, whatever that one would say. In between, any
  sequence of operations may run (refreshes, collection, flushing, prewarming, new TTL
  settings, peeks, queries) as long as every query and raw peek among them either asks for a
  key of another slot of level 1 or for a key with the same hash before the lifetime is over:
  one for another key of the same slot overwrites it.\<close>

theorem stored_reply_served:
  "questions req = [q] \<Longrightarrow> query_cache ts req q (s\<lparr>totalQueries := totalQueries s + 1\<rparr>) = (s0, None) \<Longrightarrow>
    bk req fan = Inr (Some reply) \<Longrightarrow> shouldCache q reply \<Longrightarrow> t = ts 4 + seconds (reply_ttl (c_ttl s) reply) \<Longrightarrow>
    list_all (spares_op (turboHash (key_of q)) t) es \<Longrightarrow>
    questions req2 = [q2] \<Longrightarrow> key_of q2 = key_of q \<Longrightarrow> ts2 0 < t \<Longrightarrow>
    snd (query bk2 fan2 ts2 req2 af2 (foldl cache_step (fst (query bk fan ts req af s)) es)) =
      Inr (Some (buildCachedReply req2 (clobberTTL (reply_ttl (c_ttl s) reply) reply)))"
  by (rule served_for_lifetime)

theorem stored_reply_served_witness:
  "snd (query (\<lambda>_ _. Inl ()) False w_clock (w_request 2) False
      (foldl cache_step (fst (query (w_backend 0x8180) True w_clock (w_request 1) True w_init))
        [Query (\<lambda>_ _. Inr None) False w_clock (w_request 3) False, Gc (\<lambda>_. seconds 7200), Flush, Refresh_Stale (\<lambda>_ _. Inl ()) 0])) =
    Inr (Some (buildCachedReply (w_request 2) (clobberTTL (reply_ttl (c_ttl w_init) (w_answer 0x8180)) (w_answer 0x8180))))"
  by (rule stored_reply_served [OF w_question_of w_miss w_backend_answer w_should(1) refl _ w_question_of refl])
  (simp_all add: w_init_ttl w_ttl w_clock_def seconds_def spares_query_def spares_def w_question_of)



text \<open>The error code of a cached reply is lost: a stored NXDOMAIN, SERVFAIL or REFUSED is served
  again with the code of the query's own header, NOERROR for an ordinary query.\<close>

lemma cached_error_becomes_noerror:
  "questions req = [q] \<Longrightarrow> query_cache ts req q (s\<lparr>totalQueries := totalQueries s + 1\<rparr>) = (s0, None) \<Longrightarrow>
    bk req fan = Inr (Some reply) \<Longrightarrow> shouldCache q reply \<Longrightarrow> hdr_rcode (header reply) = rcode_NXDomain \<Longrightarrow>
    questions req2 = [q] \<Longrightarrow> hdr_rcode (header req2) = 0 \<Longrightarrow>
    ts2 0 < ts 4 + seconds (negativeTTLSecs (c_ttl s)) \<Longrightarrow>
    \<exists>r. snd (query bk2 fan2 ts2 req2 af2 (fst (query bk fan ts req af s))) = Inr (Some r) \<and> hdr_rcode (header r) = 0"
  using served_again [of req q ts s s0 bk fan reply req2 q ts2 bk2 fan2 af2 af]
  by (simp add: rcode_buildCachedReply reply_ttl_def)

text \<open>The lifetime of a positive reply is the smallest TTL of all its records, raised to the
  configured minimum and cut at 7200 s.\<close>

lemma cache_ttl_value:
  "minTTLSecs cfg \<le> maxTTL \<Longrightarrow> ttl_set m \<noteq> {} \<Longrightarrow>
    computeCacheTTL cfg m = max (minTTLSecs cfg) (min maxTTL (int (Min (ttl_set m))))"
  by (rule computeCacheTTL_eq)

text \<open>C10: On the packet of any well-formed message with one question, the parser of the fast path
  finds the cache key that the full parser and query use.\<close>

theorem fast_path_same_key:
  "wf_message m \<Longrightarrow> questions m = [q] \<Longrightarrow>
    raw_key (encode m) = Some (key_of q) \<and> parse (encode m) = Inr (with_counts m) \<and> questions (with_counts m) = [q]"
  by (simp add: raw_key_encode parse_encode with_counts_def)

theorem fast_path_same_key_witness:
  "raw_key (encode (w_request 5)) = Some (key_of w_question) \<and> parse (encode (w_request 5)) = Inr (with_counts (w_request 5))
    \<and> questions (with_counts (w_request 5)) = [w_question]"
  by (rule fast_path_same_key [OF w_request_wf w_question_of])

definition w_entry :: "int \<Rightarrow> cache_entry" where
  "w_entry t = \<lparr>ce_msg = Some (w_answer 0), ce_ttl = 600, ce_expires = t\<rparr>"

definition w_map :: cache_map where
  "w_map = [(key_of w_question, w_entry 5000000), ((key_of w_question)\<lparr>ck_type := 28\<rparr>, w_entry 3000000)]"

text \<open>Of a map in which some entry has at least a millisecond left, eviction removes one entry, and
  one that expires first among those with time left.\<close>

lemma eviction_victim:
  "(k, e) \<in> set m \<Longrightarrow> 0 < remaining_ms now e \<Longrightarrow> \<forall>(k, e) \<in> set m. remaining_ms now e < 2 ^ 64 - 1 \<Longrightarrow>
    \<exists>k e. (k, e) \<in> set m \<and> evict now m = AList.delete k m \<and> 0 < remaining_ms now e \<and>
      (\<forall>(k', e') \<in> set m. 0 < remaining_ms now e' \<longrightarrow> remaining_ms now e \<le> remaining_ms now e')"
  by (rule evict_first)

text \<open>A collection keeps exactly the entries that have not expired, and so leaves nothing for the
  stale window to serve.\<close>

lemma collection_removes_stale:
  "cache_inv lo s \<Longrightarrow>
    map_of (cache (gcCache (\<lambda>_. now) s)) k =
      (case map_of (cache s) k of Some e \<Rightarrow> if now < ce_expires e then Some e else None | None \<Rightarrow> None)
    \<and> (\<forall>now2 m. l2_lookup k now now2 (gcCache (\<lambda>_. now) s) \<noteq> L2_Stale m)"
  using gcCache_lookup gc_no_stale by blast

text \<open>In every run the counters stay consistent: hits and misses together never exceed the queries,
  level 1 hits never the hits, and stale hits with misses never the queries, so that the rates
  shown are between 0 and 1.\<close>

lemma cache_counters:
  "list_all op_ok ops \<Longrightarrow> counts_inv (foldl cache_step (caching_init pm cfg) ops)"
  by (rule counting.inv_run [OF counts_inv_init])

section \<open>The cache file\<close>

lemma w_entry_file_ok: "file_ok 0 (key_of w_question, w_entry 5000000000)"
proof -
  have "wf_message (w_answer 0)"
    by (simp add: wf_message_def w_answer_def wf_question_def w_question_def wf_name_def dot_def w_rr_def
        wf_rr_def wf_rdata_def type_defs)
  moreover have "length (encode (w_answer 0)) \<le> 4096"
    by (simp add: encode_def enc_question_def enc_rr_def name_wire_def w_answer_def w_question_def w_rr_def
        labels_def dot_def writeU16_def writeU32_def)
  moreover have "questions (w_answer 0) \<noteq> []" by (simp add: w_answer_def)
  ultimately show ?thesis
    by (simp add: file_ok_def w_entry_def remaining_secs_def duration_cast_def seconds_def)
qed

text \<open>C11: Saving and loading brings back exactly the entries with at least a whole second left (and
  a name of at most 255 bytes), each with its message, and with the remaining whole seconds as
  its new lifetime, provided that the packed messages are well formed and have at most 4096
  bytes.\<close>

theorem cache_file_round_trip:
  "\<forall>e \<in> set C. file_ok now e \<Longrightarrow> distinct (map fst C) \<Longrightarrow> length C \<le> 100000 \<Longrightarrow>
    bindE (save_bytes now C) (\<lambda>bs. load_bytes now' bs []) = Inr (map (reloaded now now') (filter (writes now) C))"
  using load_save save_bytes_ok by (metis bindE.simps(2))

theorem cache_file_round_trip_witness:
  "bindE (save_bytes 0 [(key_of w_question, w_entry 5000000000)]) (\<lambda>bs. load_bytes 9 bs []) =
    Inr (map (reloaded 0 9) (filter (writes 0) [(key_of w_question, w_entry 5000000000)]))"
  by (rule cache_file_round_trip)
  (simp_all add: w_entry_file_ok)

section \<open>Background work\<close>

text \<open>Adaptive prewarming sends the popular names to the wrapped resolver but changes neither level
  of the cache: no answer is stored.\<close>

lemma prewarm_stores_nothing:
  "cache (fst (doAdaptivePrewarm bk ts s)) = cache s \<and> turbo (fst (doAdaptivePrewarm bk ts s)) = turbo s"
  by (rule doAdaptivePrewarm_keeps)

section \<open>The life of the resolver\<close>

definition w_stopped :: life where
  "w_stopped = (life_init True w_stored)\<lparr>stale_thread := Testing, warm_thread := Some warmup_queries, gc_thread := Some At_Test,
     refresh_thread := Some (Beating At_Test), prewarm_thread := Some At_Test, owner := Notifying\<rparr>"

lemma w_stopped_run: "life_run [Start, Start, Start, Start, Start, Destroy 0] (life_init True w_stored) = Some w_stopped"
  by (simp add: life_exec.simps starts_def destroy_step_def life_init_def w_stopped_def)

text \<open>C12: Once the destructor has cleared running_, all threads together take at most 69 more
  steps, spurious wakeups aside. Where no step is possible any more, an exception has ended
  the program (of a thread, or of pack while the destructor writes the file), or the
  destructor waits for ever for the stale refresh worker, which sleeps, or it has finished:
  then every thread had ended before the file was written, and the file, if one is set and can
  be opened, holds the cache as it is left, which keeps its invariant. The second cannot
  happen if at that moment the worker neither sleeps nor has decided to.\<close>

theorem destructor_outcome:
  "cache_inv lo c \<Longrightarrow> life_run as (life_init f c) = Some s \<Longrightarrow> \<not> in_use (owner s) \<Longrightarrow> (moves_to ^^ n) s s' \<Longrightarrow>
      n \<le> 69 \<and> (terminated s' \<or> hung s' \<or> owner s' = Destroyed \<or> (\<exists>s''. moves_to s' s''))
      \<and> (owner s' = Destroyed \<longrightarrow> threads_ended s' \<and> cache_inv lo (cr s') \<and> written s')
      \<and> (stale_thread s \<noteq> Going_To_Sleep \<and> stale_thread s \<noteq> Asleep \<longrightarrow> \<not> hung s')"
  using destructor_outcomes [of lo c as f s n s'] destroyed_facts [of lo c as f s n s'] by blast

theorem destructor_outcome_witness:
  "\<nexists>s'. (moves_to ^^ 70) w_stopped s'"
  using destructor_outcome [OF w_stored_inv [of 30] w_stopped_run] by (force simp: w_stopped_def)

text \<open>C13: The second outcome is possible for every resolver: the worker finds its queue empty and
  running_ set, the destructor clears running_ and notifies without taking the worker's mutex,
  and only then does the worker go to sleep. From there no step but a spurious wakeup gets the
  destructor past its first join.\<close>

theorem destructor_may_hang:
  "\<exists>as s. life_run as (life_init f c) = Some s \<and> hung s \<and> (\<forall>n s'. (moves_to ^^ n) s s' \<longrightarrow> hung s')"
  using lost_wakeup [of f c] hung_for_ever by blast

theorem destructor_may_hang_witness:
  "\<exists>as s. life_run as (life_init True w_stored) = Some s \<and> hung s"
  using destructor_may_hang [of True w_stored] by blast

definition w_early :: life where
  "w_early = (life_init True (flushCache w_stored))\<lparr>stale_thread := Testing, warm_thread := Some warmup_queries, owner := Initialised\<rparr>"

definition w_late :: life where
  "w_late = (life_init True (flushCache w_stored))\<lparr>stale_thread := Worker_Ended, warm_thread := Some warmup_queries, is_running := True,
     gc_thread := Some At_Test, refresh_thread := Some (Beating At_Test), prewarm_thread := Some At_Test, owner := Serving\<rparr>"

lemma w_early_run: "life_run [Start, Client Flush] (life_init True w_stored) = Some w_early"
  by (simp add: life_exec.simps starts_def life_init_def w_early_def with_cache_def flushCache_def)

lemma w_late_run: "life_run (Stale silent 0 # [Start, Start, Start, Start]) w_early = Some w_late"
  by (simp add: life_exec.simps starts_def stale_step_def life_init_def w_late_def w_early_def)

text \<open>C14: If in any run the stale refresh worker tests running_ while it is off, for instance
  before maintain has set it, the worker ends, and whatever happens afterwards, the destructor
  included, no entry ever leaves the queue of stale entries again: a stale answer is served
  again and again without being refreshed by it.\<close>

theorem ended_worker_drains_nothing:
  "life_run as (life_init f c) = Some s1 \<Longrightarrow> stale_thread s1 = Testing \<Longrightarrow> \<not> is_running s1 \<Longrightarrow>
      life_run (Stale bk now # bs) s1 = Some s \<Longrightarrow>
      stale_thread s = Worker_Ended \<and> (\<exists>zs. staleRefreshQueue (cr s) = staleRefreshQueue (cr s1) @ zs)"
  by (rule worker_ends_early)

theorem ended_worker_drains_nothing_witness:
  "stale_thread w_late = Worker_Ended \<and> owner w_late = Serving"
  using ended_worker_drains_nothing [OF w_early_run _ _ w_late_run] by (simp add: w_late_def w_early_def)

end
