(* ===== verification/Rate_Limiter.thy ===== *)
theory Rate_Limiter
  imports Clock
begin

text \<open>
  \<open>class RateLimiter\<close> of \<open>src/dns_server.cpp\<close>: a counter per client address, kept in 16 shards
  chosen by a hash of the address, and reset when more than a second has passed since the start
  of the address's window. Times are nanoseconds; a new entry starts at the clock's epoch. The
  counter is an integer: it would have to be incremented \<open>2 ^ 31\<close> times in a second to overflow.
\<close>

record rl_entry =
  rl_last :: int
  rl_count :: int

type_synonym limiter = "nat \<Rightarrow> bytes \<rightharpoonup> rl_entry"

definition limiter_init :: limiter where
  "limiter_init = (\<lambda>_. Map.empty)"

definition fnv1a :: "bytes \<Rightarrow> u64" where
  "fnv1a s = foldl (\<lambda>h c. (h XOR ucast c) * 1099511628211) 14695981039346656037 s"

definition shard_of :: "bytes \<Rightarrow> nat" where
  "shard_of ip = unat (fnv1a ip AND 15)"

text \<open>\<open>clients[ip]\<close> creates a default entry.\<close>

definition entry_of :: "(bytes \<rightharpoonup> rl_entry) \<Rightarrow> bytes \<Rightarrow> rl_entry" where
  "entry_of clients ip = (case clients ip of Some e \<Rightarrow> e | None \<Rightarrow> \<lparr>rl_last = 0, rl_count = 0\<rparr>)"

definition count_request :: "int \<Rightarrow> rl_entry \<Rightarrow> rl_entry \<times> bool" where
  "count_request now e =
     (let e = (if seconds 1 < now - rl_last e then \<lparr>rl_last = now, rl_count = 0\<rparr> else e);
          e = e\<lparr>rl_count := rl_count e + 1\<rparr>
      in (e, rl_count e \<le> 100))"

definition loopback :: "bytes \<Rightarrow> bool" where
  "loopback ip \<longleftrightarrow> ip = lit ''127.0.0.1'' \<or> ip = lit ''::1''"

definition allow :: "bytes \<Rightarrow> int \<Rightarrow> limiter \<Rightarrow> limiter \<times> bool" where
  "allow ip now st =
     (if loopback ip then (st, True)
      else let shard = shard_of ip; (e, ok) = count_request now (entry_of (st shard) ip)
        in (st(shard := (st shard)(ip \<mapsto> e)), ok))"

section \<open>The shards are one table\<close>

text \<open>The abstract limiter has one entry per address; the shards implement it.\<close>

definition abs_limiter :: "limiter \<Rightarrow> bytes \<Rightarrow> rl_entry" where
  "abs_limiter st ip = entry_of (st (shard_of ip)) ip"

definition abs_allow :: "bytes \<Rightarrow> int \<Rightarrow> (bytes \<Rightarrow> rl_entry) \<Rightarrow> (bytes \<Rightarrow> rl_entry) \<times> bool" where
  "abs_allow ip now f =
     (if loopback ip then (f, True)
      else let (e, ok) = count_request now (f ip) in (f(ip := e), ok))"

lemma allow_refines:
  "abs_allow ip now (abs_limiter st) = (abs_limiter (fst (allow ip now st)), snd (allow ip now st))"
  by (auto simp: abs_allow_def allow_def abs_limiter_def entry_of_def fun_eq_iff Let_def split: prod.splits)

section \<open>How many requests are allowed\<close>

type_synonym request = "bytes \<times> int"

text \<open>The decisions along a sequence of requests.\<close>

fun decisions :: "limiter \<Rightarrow> request list \<Rightarrow> bool list" where
  "decisions st [] = []"
| "decisions st ((ip, now) # rs) = snd (allow ip now st) # decisions (fst (allow ip now st)) rs"

text \<open>The number of requests of an address in \<open>[a, a + 1 s]\<close> that are let through.\<close>

fun passed :: "bytes \<Rightarrow> int \<Rightarrow> limiter \<Rightarrow> request list \<Rightarrow> nat" where
  "passed ip a st [] = 0"
| "passed ip a st ((ip', now) # rs) =
     (if ip' = ip \<and> a \<le> now \<and> now \<le> a + seconds 1 \<and> snd (allow ip' now st) then 1 else 0)
     + passed ip a (fst (allow ip' now st)) rs"

lemma passed_decisions:
  "passed ip a st rs = length (filter (\<lambda>((ip', now), ok). ip' = ip \<and> a \<le> now \<and> now \<le> a + seconds 1 \<and> ok)
     (zip rs (decisions st rs)))"
  by (induction st rs rule: decisions.induct) auto

text \<open>The entry of one address along the sequence: only its own requests count.\<close>

lemma abs_allow_other: "ip' \<noteq> ip \<Longrightarrow> abs_limiter (fst (allow ip' now st)) ip = abs_limiter st ip"
  by (auto simp: allow_def abs_limiter_def entry_of_def Let_def split: prod.splits)

lemma abs_allow_own:
  "\<not> loopback ip \<Longrightarrow> abs_limiter (fst (allow ip now st)) ip = fst (count_request now (abs_limiter st ip))"
  "\<not> loopback ip \<Longrightarrow> snd (allow ip now st) = snd (count_request now (abs_limiter st ip))"
  by (auto simp: allow_def abs_limiter_def entry_of_def Let_def split: prod.splits)

definition room :: "rl_entry \<Rightarrow> nat" where
  "room e = nat (100 - rl_count e)"

lemma count_request_cases:
  assumes "0 \<le> rl_count e"
  obtains "seconds 1 < now - rl_last e" "count_request now e = (\<lparr>rl_last = now, rl_count = 1\<rparr>, True)"
    | "now - rl_last e \<le> seconds 1" "count_request now e = (e\<lparr>rl_count := rl_count e + 1\<rparr>, 0 < room e)"
proof (cases "seconds 1 < now - rl_last e")
  case False
  have "rl_count e + 1 \<le> 100 \<longleftrightarrow> 0 < room e" by (auto simp: room_def)
  with False show ?thesis by (intro that(2)) (simp_all add: count_request_def Let_def)
qed (auto intro: that(1) simp: count_request_def Let_def)

lemma count_nonneg: "0 \<le> rl_count e \<Longrightarrow> 0 \<le> rl_count (fst (count_request now e))"
  by (simp add: count_request_def Let_def)

lemma allow_nonneg:
  assumes "\<not> loopback ip" "0 \<le> rl_count (abs_limiter st ip)"
  shows "0 \<le> rl_count (abs_limiter (fst (allow ip' now st)) ip)"
  using assms count_nonneg abs_allow_own(1) [OF assms(1)] by (cases "ip' = ip") (auto simp: abs_allow_other)

lemma passed_late: "\<forall>r \<in> set rs. a + seconds 1 < snd r \<Longrightarrow> passed ip a st rs = 0"
  by (induction ip a st rs rule: passed.induct) auto

text \<open>Once the window has started inside the second, only its own room is left.\<close>

lemma passed_same_window:
  assumes "\<not> loopback ip" "a \<le> rl_last (abs_limiter st ip)" "0 \<le> rl_count (abs_limiter st ip)" "sorted (map snd rs)"
  shows "passed ip a st rs \<le> room (abs_limiter st ip)"
  using assms(2-4)
proof (induction rs arbitrary: st)
  case Nil
  then show ?case by simp
next
  case (Cons r rs)
  obtain ip' now where r: "r = (ip', now)" by (cases r)
  let ?e = "abs_limiter st ip" and ?st = "fst (allow ip' now st)"
  show ?case
  proof (cases "ip' = ip")
    case False
    with Cons.IH [of ?st] Cons.prems show ?thesis by (simp add: r abs_allow_other [OF False])
  next
    case True
    note own = abs_allow_own [OF assms(1), of now st]
    show ?thesis
    proof (cases rule: count_request_cases [OF Cons.prems(2), of now])
      case 1
      with Cons.prems r have "\<forall>r' \<in> set (r # rs). a + seconds 1 < snd r'" by fastforce
      then show ?thesis using passed_late by (metis le0)
    next
      case 2
      then have "passed ip a ?st rs \<le> room (?e\<lparr>rl_count := rl_count ?e + 1\<rparr>)"
        using Cons.IH [of ?st] Cons.prems own True r by simp
      with 2 show ?thesis by (auto simp: r True own room_def)
    qed
  qed
qed

lemma passed_two_windows:
  assumes "\<not> loopback ip" "0 \<le> rl_count (abs_limiter st ip)" "sorted (map snd rs)" "\<forall>r \<in> set rs. a \<le> snd r"
  shows "passed ip a st rs \<le> room (abs_limiter st ip) + 100"
  using assms(2-4)
proof (induction rs arbitrary: st)
  case Nil
  then show ?case by simp
next
  case (Cons r rs)
  obtain ip' now where r: "r = (ip', now)" by (cases r)
  let ?e = "abs_limiter st ip" and ?st = "fst (allow ip' now st)"
  show ?case
  proof (cases "ip' = ip")
    case False
    with Cons.IH [of ?st] Cons.prems show ?thesis by (simp add: r abs_allow_other [OF False])
  next
    case True
    note own = abs_allow_own [OF assms(1), of now st]
    show ?thesis
    proof (cases rule: count_request_cases [OF Cons.prems(1), of now])
      case 1
      then have "passed ip a ?st rs \<le> 99"
        using passed_same_window [OF assms(1), of a ?st rs] Cons.prems own True r by (simp add: room_def)
      then show ?thesis by (simp add: r True)
    next
      case 2
      then have "passed ip a ?st rs \<le> room (?e\<lparr>rl_count := rl_count ?e + 1\<rparr>) + 100"
        using Cons.IH [of ?st] Cons.prems own True r by simp
      with 2 show ?thesis by (auto simp: r True own room_def)
    qed
  qed
qed

lemma passed_bound:
  assumes "\<not> loopback ip" "0 \<le> rl_count (abs_limiter st ip)" "sorted (map snd rs)"
  shows "passed ip a st rs \<le> 200"
  using assms(2,3)
proof (induction rs arbitrary: st)
  case Nil
  then show ?case by simp
next
  case (Cons r rs)
  obtain ip' now where r: "r = (ip', now)" by (cases r)
  show ?case
  proof (cases "a \<le> now")
    case True
    then have "\<forall>r' \<in> set (r # rs). a \<le> snd r'" using Cons.prems(2) r by auto
    then have "passed ip a st (r # rs) \<le> room (abs_limiter st ip) + 100"
      by (rule passed_two_windows [OF assms(1) Cons.prems])
    also have "room (abs_limiter st ip) \<le> 100" using Cons.prems(1) by (simp add: room_def)
    finally show ?thesis by simp
  next
    case False
    with Cons.IH [of "fst (allow ip' now st)"] Cons.prems allow_nonneg [OF assms(1) Cons.prems(1)] show ?thesis
      by (simp add: r)
  qed
qed

lemma limiter_init_count: "0 \<le> rl_count (abs_limiter limiter_init ip)"
  by (simp add: abs_limiter_def entry_of_def limiter_init_def)

section \<open>Whom the limiter never refuses\<close>

lemma loopback_allowed: "loopback ip \<Longrightarrow> allow ip now st = (st, True)"
  by (simp add: allow_def)

text \<open>An address is not refused before it has used up its room, whatever the others do.\<close>

lemma not_refused:
  assumes "\<not> loopback ip" "0 \<le> rl_count (abs_limiter st ip)"
    and "length (filter (\<lambda>r. fst r = ip) rs) \<le> room (abs_limiter st ip)"
  shows "\<forall>(r, ok) \<in> set (zip rs (decisions st rs)). fst r = ip \<longrightarrow> ok"
  using assms(2,3)
proof (induction rs arbitrary: st)
  case Nil
  then show ?case by simp
next
  case (Cons r rs)
  obtain ip' now where r: "r = (ip', now)" by (cases r)
  let ?e = "abs_limiter st ip" and ?st = "fst (allow ip' now st)"
  note nonneg = allow_nonneg [OF assms(1) Cons.prems(1), of ip' now]
  show ?case
  proof (cases "ip' = ip")
    case False
    with Cons.IH [OF nonneg] Cons.prems show ?thesis by (simp add: r abs_allow_other [OF False])
  next
    case True
    note own = abs_allow_own [OF assms(1), of now st]
    have room: "0 < room ?e" "length (filter (\<lambda>r. fst r = ip) rs) \<le> room ?e - 1" using Cons.prems(2) r True by auto
    show ?thesis
    proof (cases rule: count_request_cases [OF Cons.prems(1), of now])
      case 1
      have "room ?e \<le> 100" using Cons.prems(1) by (simp add: room_def)
      with room 1 own True have "length (filter (\<lambda>r. fst r = ip) rs) \<le> room (abs_limiter ?st ip)"
        by (simp add: room_def)
      from Cons.IH [OF nonneg this] 1 own True show ?thesis by (simp add: r)
    next
      case 2
      with room own True have "length (filter (\<lambda>r. fst r = ip) rs) \<le> room (abs_limiter ?st ip)"
        by (simp add: room_def)
      from Cons.IH [OF nonneg this] 2 own True room show ?thesis by (simp add: r)
    qed
  qed
qed

interpretation limiting: step_invariant "\<lambda>st (ip, now). fst (allow ip now st)" "\<lambda>_. True"
  "\<lambda>st. \<forall>ip. 0 \<le> rl_count (abs_limiter st ip)"
proof
  fix st :: limiter and e :: request
  assume inv: "\<forall>ip. 0 \<le> rl_count (abs_limiter st ip)"
  obtain ip' now where e: "e = (ip', now)" by (cases e)
  have "0 \<le> rl_count (abs_limiter (fst (allow ip' now st)) ip)" for ip
    using inv allow_nonneg [of ip st ip' now] loopback_allowed [of ip' now st] abs_allow_other [of ip' ip now st]
    by (cases "ip' = ip"; cases "loopback ip") auto
  then show "\<forall>ip. 0 \<le> rl_count (abs_limiter (case e of (ip, now) \<Rightarrow> fst (allow ip now st)) ip)"
    by (simp add: e)
qed

end
