(* ===== verification/Dns_Server.thy ===== *)
theory Dns_Server
  imports Rate_Limiter Domain_Map Cache_Answers
begin

text \<open>
  The request handlers of \<open>class DnsServer\<close> (\<open>src/dns_server.cpp\<close>): \<open>handleQuery\<close>, the loop
  body of a UDP worker, the receive handler of the main socket, and the handling of a TCP query.
  The resolver behind them is the record of its operations (the virtual methods of
  \<open>src/resolver.hpp\<close> that the server calls, and access to the performance monitor), the UDP
  exchange with an override upstream is the parameter \<open>udp\<close>, which maps host, port and request
  to the bytes received, if any. Sockets and threads are not modelled; the result of a handler
  says what is sent.
\<close>

section \<open>The resolver interface\<close>

record ('s, 'e) resolver_ops =
  ro_query :: "dns_message \<Rightarrow> bool \<Rightarrow> 's \<Rightarrow> 's \<times> ('e + dns_message option)"
  ro_peekRaw :: "bytes \<Rightarrow> 's \<Rightarrow> 's \<times> dns_message option"
  ro_perf :: "(perf_monitor \<Rightarrow> perf_monitor) \<Rightarrow> 's \<Rightarrow> 's"

type_synonym upstream = "bytes \<Rightarrow> bytes \<Rightarrow> bytes \<Rightarrow> bytes option"

section \<open>handleQuery\<close>

definition udpQueryRaw :: "upstream \<Rightarrow> bytes \<Rightarrow> bytes \<Rightarrow> bytes \<Rightarrow> u16 \<Rightarrow> dns_message option dns_result" where
  "udpQueryRaw udp host port wire origId =
     (case udp host port wire of None \<Rightarrow> Inr None
      | Some resp \<Rightarrow>
          if length resp < 12 then Inr None
          else bindE (parse resp) (\<lambda>m. Inr (Some (m\<lparr>header := (header m)\<lparr>hid := origId\<rparr>\<rparr>))))"

text \<open>Host and port of an upstream address: split at the first colon, port 53 without one.\<close>

definition split_upstream :: "bytes \<Rightarrow> bytes \<times> bytes" where
  "split_upstream addr =
     (let host = takeWhile (\<lambda>c. c \<noteq> colon) addr in
      if host = addr then (addr, lit ''53'') else (host, drop (length host + 1) addr))"

text \<open>Asking a fixed upstream; SERVFAIL on any failure, which also counts as an error.\<close>

definition ask_upstream :: "upstream \<Rightarrow> bytes \<Rightarrow> dns_message \<Rightarrow> dns_message \<times> bool" where
  "ask_upstream udp addr req =
     (let (host, port) = split_upstream addr in
      case bindE (pack req) (\<lambda>wire. udpQueryRaw udp host port wire (hid (header req))) of
        Inr (Some reply) \<Rightarrow> (reply, False)
      | Inr None \<Rightarrow> (createError req rcode_ServFail, True)
      | Inl _ \<Rightarrow> (createError req rcode_ServFail, True))"

definition localSuffix :: bytes where "localSuffix = lit ''.local''"

definition is_local :: "bytes \<Rightarrow> bool" where
  "is_local n \<longleftrightarrow> length localSuffix \<le> length n \<and> drop (length n - length localSuffix) n = localSuffix"

text \<open>A name counts as unqualified when it has no second dot after its first.\<close>

definition isUnq :: "bytes \<Rightarrow> bool" where
  "isUnq n = (let first = takeWhile (\<lambda>c. c \<noteq> dot) n; rest = drop (length first + 1) n in
     first = n \<or> dot \<notin> set rest \<or> length first = length n - 1)"

definition count_error :: "('s, 'e) resolver_ops \<Rightarrow> bool \<Rightarrow> 's \<Rightarrow> 's" where
  "count_error ops b s = (if b then ro_perf ops (recordError False) s else s)"

text \<open>The reply to a parsed request, before the default SERVFAIL.\<close>

definition choose_reply :: "('s, 'e) resolver_ops \<Rightarrow> upstream \<Rightarrow> domain_map \<Rightarrow> bytes \<Rightarrow> dns_message \<Rightarrow> 's
    \<Rightarrow> 's \<times> ('e + dns_message option)" where
  "choose_reply ops udp overrides unqUpstream req s =
     (let q = questions req ! 0 in
      if is_local (qname q) then (s, Inr (Some (createError req rcode_NXDomain)))
      else case getMostSpecific overrides (qname q) of
        Some addr \<Rightarrow>
          let (reply, err) = ask_upstream udp addr req in (count_error ops err s, Inr (Some reply))
      | None \<Rightarrow>
          if unqUpstream \<noteq> [] \<and> isUnq (qname q)
          then let (reply, err) = ask_upstream udp unqUpstream req in (count_error ops err s, Inr (Some reply))
          else ro_query ops req True s)"

definition or_servfail :: "dns_message \<Rightarrow> dns_message option \<Rightarrow> dns_message" where
  "or_servfail req r = (case r of None \<Rightarrow> createError req rcode_ServFail | Some m \<Rightarrow> m)"

text \<open>The packet sent, if any: every exception is logged and ends the handler.\<close>

definition handleQuery :: "('s, 'e) resolver_ops \<Rightarrow> upstream \<Rightarrow> domain_map \<Rightarrow> bytes \<Rightarrow> bytes \<Rightarrow> 's \<Rightarrow> 's \<times> bytes option" where
  "handleQuery ops udp overrides unqUpstream data s =
     (case parse data of Inl _ \<Rightarrow> (s, None)
      | Inr req \<Rightarrow>
          if questions req = [] then (s, None)
          else case choose_reply ops udp overrides unqUpstream req s of
            (s, Inl _) \<Rightarrow> (s, None)
          | (s, Inr r) \<Rightarrow>
              (case pack (or_servfail req r) of Inl _ \<Rightarrow> (s, None) | Inr wire \<Rightarrow> (s, Some wire)))"

section \<open>Receiving over UDP\<close>

text \<open>What becomes of a packet: dropped, answered at once, handed to the pool; \<open>Died\<close> when an
  exception leaves the receive loop and ends the thread.\<close>

datatype udp_result = Dropped | Replied bytes | Enqueued | Died

text \<open>The last resort when the pool is full.\<close>

definition inline_reply :: "('s, 'e) resolver_ops \<Rightarrow> dns_message \<Rightarrow> 's \<Rightarrow> 's \<times> dns_message" where
  "inline_reply ops req s =
     (case ro_query ops req False s of
        (s, Inl _) \<Rightarrow> (s, or_servfail req None)
      | (s, Inr r) \<Rightarrow> (s, or_servfail req r))"

text \<open>The loop body of \<open>udpWorker\<close>, from a received packet on; \<open>full\<close> says that the pool refuses
  a task. The whole loop is inside one \<open>try\<close>.\<close>

definition udpWorker_packet :: "('s, 'e) resolver_ops \<Rightarrow> bool \<Rightarrow> bytes \<Rightarrow> bytes \<Rightarrow> int \<Rightarrow> limiter \<times> 's
    \<Rightarrow> (limiter \<times> 's) \<times> udp_result" where
  "udpWorker_packet ops full data ip now = (\<lambda>(lm, s).
     if length data < 12 then ((lm, s), Dropped)
     else case allow ip now lm of
       (lm, False) \<Rightarrow> ((lm, s), Dropped)
     | (lm, True) \<Rightarrow>
         (case ro_peekRaw ops data s of
            (s, Some cached) \<Rightarrow>
              (case pack cached of Inl _ \<Rightarrow> ((lm, s), Died) | Inr wire \<Rightarrow> ((lm, s), Replied wire))
          | (s, None) \<Rightarrow>
              let s = ro_perf ops recordDnsQuery s in
              if \<not> full then ((lm, s), Enqueued)
              else case parse data of Inl _ \<Rightarrow> ((lm, s), Died)
                | Inr req \<Rightarrow>
                    case inline_reply ops req s of (s, reply) \<Rightarrow>
                      (case pack reply of Inl _ \<Rightarrow> ((lm, s), Died)
                       | Inr wire \<Rightarrow> ((lm, count_error ops (hdr_rcode (header reply) \<noteq> 0) s), Replied wire))))"

text \<open>The handler of the main socket does not test the length, counts the query before the cache
  check, and catches exceptions of the inline path only.\<close>

definition onUdpReceive :: "('s, 'e) resolver_ops \<Rightarrow> bool \<Rightarrow> bytes \<Rightarrow> bytes \<Rightarrow> int \<Rightarrow> limiter \<times> 's
    \<Rightarrow> (limiter \<times> 's) \<times> udp_result" where
  "onUdpReceive ops full data ip now = (\<lambda>(lm, s).
     case allow ip now lm of
       (lm, False) \<Rightarrow> ((lm, s), Dropped)
     | (lm, True) \<Rightarrow>
         (case ro_peekRaw ops data (ro_perf ops recordDnsQuery s) of
            (s, Some cached) \<Rightarrow>
              (case pack cached of Inl _ \<Rightarrow> ((lm, s), Died) | Inr wire \<Rightarrow> ((lm, s), Replied wire))
          | (s, None) \<Rightarrow>
              if \<not> full then ((lm, s), Enqueued)
              else case parse data of Inl _ \<Rightarrow> ((lm, s), Dropped)
                | Inr req \<Rightarrow>
                    case inline_reply ops req s of (s, reply) \<Rightarrow>
                      (case pack reply of Inl _ \<Rightarrow> ((lm, s), Dropped)
                       | Inr wire \<Rightarrow> ((lm, count_error ops (hdr_rcode (header reply) \<noteq> 0) s), Replied wire))))"

section \<open>TCP\<close>

text \<open>A message on a TCP stream is preceded by its length in two bytes; \<open>htons\<close> keeps the low 16
  bits of the size.\<close>

definition tcp_frame :: "bytes \<Rightarrow> bytes" where
  "tcp_frame wire = writeU16 (of_nat (length wire)) @ wire"

definition tcp_servfail :: "dns_message \<Rightarrow> bytes option" where
  "tcp_servfail req = (case pack (createError req rcode_ServFail) of Inl _ \<Rightarrow> None | Inr wire \<Rightarrow> Some (tcp_frame wire))"

text \<open>The task of a TCP query: an exception is answered with SERVFAIL, a second one with nothing.\<close>

definition tcp_task :: "('s, 'e) resolver_ops \<Rightarrow> bytes \<Rightarrow> dns_message \<Rightarrow> 's \<Rightarrow> 's \<times> bytes option" where
  "tcp_task ops data req s =
     (case ro_peekRaw ops data s of
        (s, Some cached) \<Rightarrow>
          (case pack cached of Inl _ \<Rightarrow> (s, tcp_servfail req) | Inr wire \<Rightarrow> (s, Some (tcp_frame wire)))
      | (s, None) \<Rightarrow>
          (case ro_query ops req True s of
             (s, Inl _) \<Rightarrow> (s, tcp_servfail req)
           | (s, Inr r) \<Rightarrow>
               (case pack (or_servfail req r) of Inl _ \<Rightarrow> (s, tcp_servfail req)
                | Inr wire \<Rightarrow> (s, Some (tcp_frame wire)))))"

definition tcp_query :: "('s, 'e) resolver_ops \<Rightarrow> bool \<Rightarrow> bytes \<Rightarrow> 's \<Rightarrow> 's \<times> bytes option" where
  "tcp_query ops full stream s =
     (case readU16 stream 0 of Inl _ \<Rightarrow> (s, None)
      | Inr len \<Rightarrow>
          if len < 12 then (s, None)
          else if length stream < 2 + unat len then (s, None)
          else let data = take (unat len) (drop 2 stream) in
            case parse data of Inl _ \<Rightarrow> (s, None)
            | Inr req \<Rightarrow>
                if questions req = [] then (s, None)
                else if full then (s, tcp_servfail req)
                else tcp_task ops data req s)"

text \<open>The accept loop: in every round the flag, then what \<open>accept\<close> returned: \<open>None\<close> for an error, which
  ends the loop, or whether the pool is full and what the client sends. The tasks run in the order
  of their connections.\<close>

fun tcpAcceptLoop :: "('s, 'e) resolver_ops \<Rightarrow> (bool \<times> (bool \<times> bytes) option) list \<Rightarrow> 's \<Rightarrow> 's \<times> bytes option list" where
  "tcpAcceptLoop ops [] s = (s, [])"
| "tcpAcceptLoop ops ((run, r) # rs) s =
     (if \<not> run then (s, [])
      else case r of None \<Rightarrow> (s, [])
        | Some (full, stream) \<Rightarrow>
            (case tcp_query ops full stream s of
               (s, reply) \<Rightarrow> (case tcpAcceptLoop ops rs s of (s, replies) \<Rightarrow> (s, reply # replies))))"

text \<open>One failed call ends the service over TCP, also one that concerns a single connection.\<close>

lemma tcp_accept_error:
  "tcpAcceptLoop ops (rs @ (True, None) # rest) s = tcpAcceptLoop ops rs s"
  by (induction ops rs s rule: tcpAcceptLoop.induct) (auto split: option.split prod.split)

end
