(* ===== verification/Server_Proofs.thy ===== *)
theory Server_Proofs
  imports Dns_Server
begin

text \<open>
  What the server's handlers guarantee: replies carry the id of their query, given a resolver that
  keeps it (the interface \<open>id_resolver\<close>, implemented by the caching resolver); which packets are
  answered with what; and exactly when an exception ends a receive thread.
\<close>

section \<open>Ids of replies\<close>

lemma hid_setters [simp]:
  "hid (setQr v h) = hid h" "hid (setRa v h) = hid h" "hid (setRcode r h) = hid h" "hid (setRd v h) = hid h"
  by (simp_all add: setQr_def setRa_def setRcode_def setRd_def)

lemma hid_createError [simp]: "hid (header (createError m r)) = hid (header m)"
  by (simp add: createError_def createReply_def Let_def)

lemma hid_buildCachedReply [simp]: "hid (header (buildCachedReply req m)) = hid (header req)"
  by (simp add: buildCachedReply_def createReply_def Let_def)

lemma hid_raw_reply [simp]: "hid (header (raw_reply data full m)) = be16 (data ! 0) (data ! 1)"
  by (simp add: raw_reply_def)

lemma hid_clobberTTL [simp]: "hid (header (clobberTTL ttl m)) = hid (header m)"
  by simp

lemma ask_upstream_id: "hid (header (fst (ask_upstream udp addr req))) = hid (header req)"
  by (auto simp: ask_upstream_def udpQueryRaw_def exc_simps split: prod.splits sum.splits option.splits if_splits)

text \<open>The id in a packet: its first two bytes.\<close>

definition packet_id :: "bytes \<Rightarrow> u16" where
  "packet_id data = be16 (data ! 0) (data ! 1)"

lemma packet_id_pack: "pack m = Inr w \<Longrightarrow> packet_id w = hid (header m)"
proof -
  assume "pack m = Inr w"
  then have w: "w = encode m" by (simp add: pack_eq_encode split: if_splits)
  have "readU16 (encode m) 0 = Inr (hid (header m))"
    by (rule read_at(1) [where pre = "[]"]) (auto simp: encode_def enc_header_def)
  then show ?thesis using readU16_nth by (simp add: w packet_id_def)
qed

lemma packet_id_parse: "parse data = Inr m \<Longrightarrow> packet_id data = hid (header m)"
  by (auto simp: parse_unfold parse_header_def Let_def exc_simps packet_id_def dest!: readU16_nth split: if_splits)

section \<open>The interface of a resolver that keeps ids\<close>

locale id_resolver =
  fixes ops :: "('s, 'e) resolver_ops"
    and rinv :: "'s \<Rightarrow> bool"
  assumes query_inv: "rinv s \<Longrightarrow> ro_query ops req f s = (s', r) \<Longrightarrow> rinv s'"
    and query_id: "rinv s \<Longrightarrow> ro_query ops req f s = (s', Inr (Some m)) \<Longrightarrow> hid (header m) = hid (header req)"
    and peek_inv: "rinv s \<Longrightarrow> ro_peekRaw ops data s = (s', p) \<Longrightarrow> rinv s'"
    and peek_id: "rinv s \<Longrightarrow> ro_peekRaw ops data s = (s', Some m) \<Longrightarrow> hid (header m) = packet_id data"
    and perf_inv: "rinv s \<Longrightarrow> rinv (ro_perf ops g s)"
begin

lemma count_error_inv: "rinv s \<Longrightarrow> rinv (count_error ops b s)"
  by (simp add: count_error_def perf_inv)

lemma choose_reply_id:
  assumes "rinv s" "choose_reply ops udp ov unq req s = (s', r)"
  shows "rinv s'" and "\<And>m. r = Inr (Some m) \<Longrightarrow> hid (header m) = hid (header req)"
proof -
  have ask: "hid (header m) = hid (header req)" if "ask_upstream udp addr req = (m, b)" for addr m b
    using ask_upstream_id [of udp addr req] that by simp
  let ?n = "qname (questions req ! 0)"
  have forwarded: "rinv s' \<and> (\<forall>m. r = Inr (Some m) \<longrightarrow> hid (header m) = hid (header req))"
    if "choose_reply ops udp ov unq req s = (let (reply, err) = ask_upstream udp addr req in (count_error ops err s, Inr (Some reply)))" for addr
    using that assms ask [of addr] count_error_inv by (cases "ask_upstream udp addr req") auto
  have "rinv s' \<and> (\<forall>m. r = Inr (Some m) \<longrightarrow> hid (header m) = hid (header req))"
  proof (cases "is_local ?n")
    case True
    with assms show ?thesis by (auto simp: choose_reply_def)
  next
    case False
    show ?thesis
    proof (cases "getMostSpecific ov ?n")
      case None
      show ?thesis
      proof (cases "unq \<noteq> [] \<and> isUnq ?n")
        case True
        with False None show ?thesis by (intro forwarded [of unq]) (simp add: choose_reply_def)
      next
        case plain: False
        then have "ro_query ops req True s = (s', r)" using False None assms(2) by (auto simp: choose_reply_def)
        with query_inv [OF assms(1)] query_id [OF assms(1)] show ?thesis by blast
      qed
    next
      case (Some addr)
      with False show ?thesis by (intro forwarded [of addr]) (simp add: choose_reply_def)
    qed
  qed
  then show "rinv s'" "\<And>m. r = Inr (Some m) \<Longrightarrow> hid (header m) = hid (header req)" by blast+
qed

lemma or_servfail_id:
  assumes "\<And>m. r = Some m \<Longrightarrow> hid (header m) = hid (header req)"
  shows "hid (header (or_servfail req r)) = hid (header req)"
proof (cases r)
  case None
  then show ?thesis by (simp add: or_servfail_def hid_createError)
next
  case (Some m)
  from assms [OF this] Some show ?thesis by (simp add: or_servfail_def)
qed

lemma handleQuery_id:
  assumes "rinv s" "handleQuery ops udp ov unq data s = (s', Some wire)"
  shows "packet_id wire = packet_id data"
proof -
  from assms(2) obtain req s1 r where run: "parse data = Inr req" "choose_reply ops udp ov unq req s = (s1, Inr r)"
    "pack (or_servfail req r) = Inr wire"
    by (auto simp: handleQuery_def split: sum.splits if_splits prod.splits)
  have "hid (header (or_servfail req r)) = hid (header req)"
    using choose_reply_id(2) [OF assms(1) run(2)] by (intro or_servfail_id) auto
  then show ?thesis using packet_id_pack [OF run(3)] packet_id_parse [OF run(1)] by simp
qed

lemma handleQuery_inv: "rinv s \<Longrightarrow> handleQuery ops udp ov unq data s = (s', r) \<Longrightarrow> rinv s'"
  using choose_reply_id(1) by (auto simp: handleQuery_def split: sum.splits if_splits prod.splits)

lemma inline_reply_id:
  assumes "rinv s" "inline_reply ops req s = (s', m)"
  shows "rinv s'" "hid (header m) = hid (header req)"
proof -
  obtain s1 r where q: "ro_query ops req False s = (s1, r)" by fastforce
  from assms(2) q query_inv [OF assms(1) q] show "rinv s'"
    by (auto simp: inline_reply_def split: sum.splits)
  from assms(2) q query_id [OF assms(1)] show "hid (header m) = hid (header req)"
    by (auto simp: inline_reply_def or_servfail_def split: sum.splits option.splits)
qed

lemma udpWorker_id:
  assumes "rinv s" "udpWorker_packet ops full data ip now (lm, s) = ((lm', s'), Replied wire)"
  shows "packet_id wire = packet_id data"
proof -
  obtain s1 p where pk: "ro_peekRaw ops data s = (s1, p)" by fastforce
  show ?thesis
  proof (cases p)
    case (Some m)
    with assms(2) pk have "pack m = Inr wire"
      by (auto simp: udpWorker_packet_def split: if_splits prod.splits bool.splits sum.splits)
    then show ?thesis using packet_id_pack peek_id [OF assms(1)] pk Some by simp
  next
    case None
    obtain req where req: "parse data = Inr req"
      using assms(2) pk None by (auto simp: udpWorker_packet_def Let_def split: if_splits prod.splits bool.splits sum.splits)
    obtain s2 m where m: "inline_reply ops req (ro_perf ops recordDnsQuery s1) = (s2, m)" by fastforce
    have "pack m = Inr wire"
      using assms(2) pk None req m
      by (auto simp: udpWorker_packet_def Let_def split: if_splits prod.splits bool.splits sum.splits)
    moreover have "rinv (ro_perf ops recordDnsQuery s1)" using peek_inv [OF assms(1) pk] perf_inv by blast
    ultimately show ?thesis
      using packet_id_pack packet_id_parse [OF req] inline_reply_id(2) [OF _ m] by simp
  qed
qed

lemma tcp_servfail_frame:
  "tcp_servfail req = Some f \<Longrightarrow> \<exists>wire. f = tcp_frame wire \<and> packet_id wire = hid (header req)"
  by (auto simp: tcp_servfail_def packet_id_pack split: sum.splits)

lemma tcp_task_id:
  assumes "rinv s" "parse data = Inr req" "tcp_task ops data req s = (s', Some f)"
  shows "\<exists>wire. f = tcp_frame wire \<and> packet_id wire = packet_id data"
proof -
  note sf = tcp_servfail_frame [of req f]
  obtain s1 p where pk: "ro_peekRaw ops data s = (s1, p)" by fastforce
  have inv1: "rinv s1" by (rule peek_inv [OF assms(1) pk])
  show ?thesis
  proof (cases p)
    case (Some m)
    with assms(3) pk sf peek_id [OF assms(1)] packet_id_parse [OF assms(2)] show ?thesis
      by (auto simp: tcp_task_def packet_id_pack split: sum.splits)
  next
    case None
    obtain s2 r where q: "ro_query ops req True s1 = (s2, r)" by fastforce
    have "hid (header (or_servfail req x)) = hid (header req)" if "r = Inr x" for x
      using query_id [OF inv1] q that by (intro or_servfail_id) auto
    with assms(3) pk None q sf packet_id_parse [OF assms(2)] show ?thesis
      by (auto simp: tcp_task_def packet_id_pack split: sum.splits)
  qed
qed

end

section \<open>The caching resolver keeps ids\<close>

text \<open>A caching resolver with its surroundings: the wrapped resolver, the tuner's flag, and the
  clock readings of each call.\<close>

record 'e caching_world =
  w_back :: "'e backend"
  w_fan :: bool
  w_clocks :: "nat \<Rightarrow> clock"
  w_calls :: nat
  w_cache :: caching

definition tick :: "caching \<Rightarrow> 'e caching_world \<Rightarrow> 'e caching_world" where
  "tick s w = w\<lparr>w_cache := s, w_calls := w_calls w + 1\<rparr>"

definition caching_ops :: "('e caching_world, 'e) resolver_ops" where
  "caching_ops = \<lparr>
     ro_query = (\<lambda>req f w. let (s, r) = query (w_back w) (w_fan w) (w_clocks w (w_calls w)) req f (w_cache w) in (tick s w, r)),
     ro_peekRaw = (\<lambda>data w. let (s, p) = peekCacheRaw (w_clocks w (w_calls w)) data (w_cache w) in (tick s w, p)),
     ro_perf = (\<lambda>g w. w\<lparr>w_cache := (w_cache w)\<lparr>c_perf := g (c_perf (w_cache w))\<rparr>\<rparr>)\<rparr>"

definition back_keeps_id :: "'e backend \<Rightarrow> bool" where
  "back_keeps_id bk \<longleftrightarrow> (\<forall>req f m. bk req f = Inr (Some m) \<longrightarrow> hid (header m) = hid (header req))"

definition world_ok :: "'e caching_world \<Rightarrow> bool" where
  "world_ok w \<longleftrightarrow> back_keeps_id (w_back w) \<and> cache_inv 1 (w_cache w)"

lemma query_keeps_id:
  assumes "back_keeps_id bk" "query bk fan ts req af s = (s', Inr (Some m))"
  shows "hid (header m) = hid (header req)"
proof (cases "length (questions req) = 1")
  case False
  with assms show ?thesis by (auto simp: query_def back_keeps_id_def)
next
  case True
  define q where "q = questions req ! 0"
  obtain s1 r where c: "query_cache ts req q (s\<lparr>totalQueries := totalQueries s + 1\<rparr>) = (s1, r)" by fastforce
  show ?thesis
  proof (cases r)
    case (Some m')
    have "hid (header m') = hid (header req)"
      using c Some by (auto simp: query_cache_def Let_def split: prod.splits option.splits l2_result.splits)
    with assms(2) True c Some show ?thesis by (simp add: query_def q_def Let_def)
  next
    case None
    have "hid (header m') = hid (header req)" if "store_failure t req q s1 = (s2, m')" for t s2 m'
      using that by (auto simp: store_failure_def Let_def split: if_splits)
    moreover have "hid (header m') = hid (header reply)" if "store_reply t t' q reply s1 = (s2, m')" for t t' reply s2 m'
      using that by (auto simp: store_reply_def Let_def split: if_splits)
    ultimately show ?thesis using assms True c None
      by (auto simp: query_def q_def [symmetric] Let_def back_keeps_id_def split: sum.splits option.splits prod.splits)
  qed
qed

lemma peekRaw_keeps_id:
  "peekCacheRaw ts data s = (s', Some m) \<Longrightarrow> hid (header m) = packet_id data"
  by (auto simp: peekCacheRaw_def Let_def packet_id_def split: option.splits prod.splits l2_result.splits)

interpretation cr: id_resolver caching_ops world_ok
proof (unfold_locales, goal_cases)
  case (1 s req f s' r)
  then show ?case using query_inv [of 1 "w_cache s" "w_back s" "w_fan s" "w_clocks s (w_calls s)" req f]
    by (auto simp: caching_ops_def world_ok_def tick_def split: prod.splits)
next
  case (2 s req f s' m)
  then show ?case using query_keeps_id [of "w_back s" "w_fan s" "w_clocks s (w_calls s)" req f "w_cache s"]
    by (auto simp: caching_ops_def world_ok_def tick_def split: prod.splits)
next
  case (3 s data s' p)
  then show ?case using peekCacheRaw_inv [of 1 "w_cache s" "w_clocks s (w_calls s)" data]
    by (auto simp: caching_ops_def world_ok_def tick_def split: prod.splits)
next
  case (4 s data s' m)
  then show ?case using peekRaw_keeps_id [of "w_clocks s (w_calls s)" data "w_cache s"]
    by (auto simp: caching_ops_def split: prod.splits)
next
  case (5 s g)
  then show ?case by (simp add: caching_ops_def world_ok_def cache_inv_def)
qed

section \<open>Which reply is sent\<close>

lemma sendable_createError: "all_sendable req \<Longrightarrow> pack (createError req r) = Inr (encode (createError req r))"
  by (simp add: pack_eq_encode all_sendable_def createError_def createReply_def Let_def)

lemma unsendable_createError:
  "\<exists>q \<in> set (questions req). \<not> sendable (qname q) \<Longrightarrow> pack (createError req r) = Inl Label_Too_Long"
  by (auto simp: pack_eq_encode all_sendable_def list_all_iff)

text \<open>Names under .local are refused without asking anybody.\<close>

lemma handleQuery_local:
  assumes "parse data = Inr req" "questions req = q # qs" "is_local (qname q)" "all_sendable req"
  shows "handleQuery ops udp ov unq data s = (s, Some (encode (createError req rcode_NXDomain)))"
  using assms sendable_createError [OF assms(4)]
  by (simp add: handleQuery_def choose_reply_def or_servfail_def Let_def)

lemma rcode_createError: "hdr_rcode (header (createError req r)) = r AND 0xF"
  by (simp add: createError_def Let_def rcode_setRcode)

text \<open>An override decides alone: the resolver is not asked.\<close>

lemma choose_reply_override:
  assumes "\<not> is_local (qname (questions req ! 0))" "getMostSpecific ov (qname (questions req ! 0)) = Some addr"
  shows "choose_reply ops udp ov unq req s =
    (count_error ops (snd (ask_upstream udp addr req)) s, Inr (Some (fst (ask_upstream udp addr req))))"
  using assms by (simp add: choose_reply_def Let_def split: prod.splits)

text \<open>Unless the resolver throws, a request that can be answered is answered.\<close>

lemma ask_upstream_cases:
  "fst (ask_upstream udp addr req) = createError req rcode_ServFail \<or>
   (\<exists>resp m. fst (ask_upstream udp addr req) = m\<lparr>header := (header m)\<lparr>hid := hid (header req)\<rparr>\<rparr> \<and> parse resp = Inr m)"
  by (auto simp: ask_upstream_def udpQueryRaw_def exc_simps split: prod.splits sum.splits option.splits if_splits)

lemma handleQuery_answers:
  assumes "parse data = Inr req" "questions req \<noteq> []"
    and "choose_reply ops udp ov unq req s = (s', Inr r)" "all_sendable (or_servfail req r)"
  shows "handleQuery ops udp ov unq data s = (s', Some (encode (or_servfail req r)))"
  using assms by (simp add: handleQuery_def pack_eq_encode)

section \<open>When a receive thread dies\<close>

lemma udpWorker_dies_iff:
  assumes "ro_peekRaw ops data s = (s1, p)"
  shows "snd (udpWorker_packet ops full data ip now (lm, s)) = Died \<longleftrightarrow>
    12 \<le> length data \<and> snd (allow ip now lm) \<and>
    (case p of Some m \<Rightarrow> \<not> all_sendable m
     | None \<Rightarrow> full \<and> (case parse data of Inl _ \<Rightarrow> True
         | Inr req \<Rightarrow> \<not> all_sendable (snd (inline_reply ops req (ro_perf ops recordDnsQuery s1)))))"
proof -
  obtain lm' ok where a: "allow ip now lm = (lm', ok)" by fastforce
  show ?thesis
    by (cases ok; cases p; cases "parse data")
      (auto simp: udpWorker_packet_def a assms pack_eq_encode Let_def split: prod.splits)
qed

lemma onUdpReceive_dies_iff:
  assumes "ro_peekRaw ops data (ro_perf ops recordDnsQuery s) = (s1, p)"
  shows "snd (onUdpReceive ops full data ip now (lm, s)) = Died \<longleftrightarrow>
    snd (allow ip now lm) \<and> (case p of Some m \<Rightarrow> \<not> all_sendable m | None \<Rightarrow> False)"
proof -
  obtain lm' ok where a: "allow ip now lm = (lm', ok)" by fastforce
  show ?thesis
    by (cases ok; cases p; cases "parse data")
      (auto simp: onUdpReceive_def a assms pack_eq_encode Let_def split: prod.splits)
qed

text \<open>A packet that announces a question and stops after the header: no cache lookup, and a parse
  error. With the pool full it ends the worker that receives it.\<close>

definition bare_header :: bytes where
  "bare_header = [0, 0, 1, 0, 0, 1, 0, 0, 0, 0, 0, 0]"

lemma raw_key_bare: "raw_key bare_header = None"
  by (simp add: raw_key_def bare_header_def raw_qname.simps be16_def)

lemma parse_bare: "\<exists>e. parse bare_header = Inl e"
  by (simp add: parse_unfold parse_header_def parse_questions_def parse_question_def readU16_def byte_at_def
      be16_def bare_header_def Let_def wireToName_def wire_to_name_loop.simps)

lemma worker_killed:
  "snd (udpWorker_packet caching_ops True bare_header (lit ''127.0.0.1'') now (lm, w)) = Died"
proof -
  obtain s1 p where peek: "ro_peekRaw caching_ops bare_header w = (s1, p)" by fastforce
  then have "p = None" by (auto simp: caching_ops_def peekCacheRaw_def raw_key_bare)
  then show ?thesis using peek udpWorker_dies_iff [OF peek, of True "lit ''127.0.0.1''" now lm] parse_bare
    by (auto simp: bare_header_def allow_def loopback_def split: sum.splits)
qed

section \<open>TCP framing\<close>

definition tcp_deframe :: "bytes \<Rightarrow> (bytes \<times> bytes) option" where
  "tcp_deframe st = (case readU16 st 0 of Inl _ \<Rightarrow> None
     | Inr len \<Rightarrow> if length st < 2 + unat len then None else Some (take (unat len) (drop 2 st), drop (2 + unat len) st))"

lemma tcp_deframe_frame: "length wire < 65536 \<Longrightarrow> tcp_deframe (tcp_frame wire @ rest) = Some (wire, rest)"
proof -
  assume l: "length wire < 65536"
  have "readU16 (tcp_frame wire @ rest) 0 = Inr (of_nat (length wire))"
    by (rule read_at(1) [where pre = "[]"]) (auto simp: tcp_frame_def)
  moreover have "unat (of_nat (length wire) :: u16) = length wire" using l by (simp add: unat_of_nat)
  moreover have "length (writeU16 x) = 2" for x by (simp add: writeU16_def)
  ultimately show ?thesis by (simp add: tcp_deframe_def tcp_frame_def)
qed

end
