(* ===== verification/Thread_Pool.thy ===== *)
theory Thread_Pool
  imports Step_Invariant "HOL-Library.Multiset"
begin

text \<open>
  \<open>class ThreadPool\<close> of \<open>src/dns_server.cpp\<close> as a step relation. A worker's phase says where its
  thread is in \<open>workerLoop\<close>; each critical section and each access to an atomic counter outside
  one is a step of its own, so that the steps of \<open>maybeShrink\<close> (load, compare with the target,
  compare-and-swap) of several workers and a \<open>resize\<close> interleave freely. Fields \<open>accepted\<close>,
  \<open>taken\<close> and \<open>completed\<close> only record the history. The limits are the pool's own; each of the
  server's two pools has 24 workers and a queue limit of 300 or 512.
\<close>

datatype 't worker =
    Waiting
  | Running 't
  | Finished
  | Shrink_Check nat
  | Shrink_Cas nat
  | Leaving
  | Exited

record 't pool =
  workers :: "'t worker list"
  tasks :: "'t list"
  stop :: bool
  target :: nat
  liveCount :: nat
  resizing :: "nat option"
  accepted :: "'t list"
  taken :: "'t list"
  completed :: "'t list"

definition MIN_WORKERS :: nat where "MIN_WORKERS = 4"
definition MAX_WORKERS :: nat where "MAX_WORKERS = 64"

definition pool_init :: "nat \<Rightarrow> 't pool" where
  "pool_init n = \<lparr>workers = replicate n Waiting, tasks = [], stop = False, target = n, liveCount = n,
     resizing = None, accepted = [], taken = [], completed = []\<rparr>"

section \<open>The operations of the clients\<close>

definition tryEnqueue :: "nat \<Rightarrow> 't \<Rightarrow> 't pool \<Rightarrow> 't pool \<times> bool" where
  "tryEnqueue limit t p =
     (if limit \<le> length (tasks p) then (p, False)
      else (p\<lparr>tasks := tasks p @ [t], accepted := accepted p @ [t]\<rparr>, True))"

definition shutdown :: "'t pool \<Rightarrow> 't pool" where
  "shutdown p = p\<lparr>stop := True\<rparr>"

definition clamp_workers :: "nat \<Rightarrow> nat" where
  "clamp_workers n =
     (let n = (if MAX_WORKERS < n then MAX_WORKERS else n) in if n < MIN_WORKERS then MIN_WORKERS else n)"

text \<open>\<open>resize\<close> stores the target and then, under the lock, spawns workers until enough are live.\<close>

definition resize_begin :: "nat \<Rightarrow> 't pool \<Rightarrow> 't pool" where
  "resize_begin n p = p\<lparr>target := clamp_workers n, resizing := Some (clamp_workers n)\<rparr>"

definition spawnWorker :: "'t pool \<Rightarrow> 't pool" where
  "spawnWorker p = p\<lparr>workers := workers p @ [Waiting], liveCount := liveCount p + 1\<rparr>"

section \<open>The steps of a worker\<close>

text \<open>What worker \<open>i\<close> does next; \<open>None\<close> when it waits on the condition variable or has ended.\<close>

definition to_phase :: "nat \<Rightarrow> 't worker \<Rightarrow> 't pool \<Rightarrow> 't pool" where
  "to_phase i w p = p\<lparr>workers := (workers p)[i := w]\<rparr>"

definition worker_step :: "nat \<Rightarrow> 't pool \<Rightarrow> 't pool option" where
  "worker_step i p =
     (case workers p ! i of
        Waiting \<Rightarrow>
          (case tasks p of
             t # ts \<Rightarrow> Some (to_phase i (Running t) (p\<lparr>tasks := ts, taken := taken p @ [t]\<rparr>))
           | [] \<Rightarrow>
               if stop p then Some (to_phase i Leaving p)
               else if target p < liveCount p then Some (to_phase i (Shrink_Check (liveCount p)) p)
               else None)
      | Running t \<Rightarrow> Some (to_phase i Finished (p\<lparr>completed := completed p @ [t]\<rparr>))
      | Finished \<Rightarrow>
          if \<not> stop p then Some (to_phase i (Shrink_Check (liveCount p)) p) else Some (to_phase i Waiting p)
      | Shrink_Check cur \<Rightarrow>
          if target p < cur then Some (to_phase i (Shrink_Cas cur) p) else Some (to_phase i Waiting p)
      | Shrink_Cas cur \<Rightarrow>
          if liveCount p = cur then Some (to_phase i Exited (p\<lparr>liveCount := cur - 1\<rparr>))
          else Some (to_phase i (Shrink_Check (liveCount p)) p)
      | Leaving \<Rightarrow> Some (to_phase i Exited (p\<lparr>liveCount := liveCount p - 1\<rparr>))
      | Exited \<Rightarrow> None)"

section \<open>The interleavings\<close>

inductive pool_step :: "nat \<Rightarrow> 't pool \<Rightarrow> 't pool \<Rightarrow> bool" for limit :: nat where
  enqueue: "pool_step limit p (fst (tryEnqueue limit t p))"
| work: "i < length (workers p) \<Longrightarrow> worker_step i p = Some p' \<Longrightarrow> pool_step limit p p'"
| shut: "pool_step limit p (shutdown p)"
| resize: "resizing p = None \<Longrightarrow> pool_step limit p (resize_begin n p)"
| spawn: "resizing p = Some n \<Longrightarrow> liveCount p < n \<Longrightarrow> pool_step limit p (spawnWorker p)"
| resized: "resizing p = Some n \<Longrightarrow> \<not> liveCount p < n \<Longrightarrow> pool_step limit p (p\<lparr>resizing := None\<rparr>)"

inductive_cases pool_stepE: "pool_step limit p p'"

definition reachable :: "nat \<Rightarrow> nat \<Rightarrow> 't pool \<Rightarrow> bool" where
  "reachable limit n p \<longleftrightarrow> (pool_step limit)\<^sup>*\<^sup>* (pool_init n) p"

section \<open>Invariant\<close>

fun running :: "'t worker \<Rightarrow> 't list" where
  "running (Running t) = [t]"
| "running _ = []"

definition busy :: "'t pool \<Rightarrow> 't multiset" where
  "busy p = mset (concat (map running (workers p)))"

definition alive :: "'t worker list \<Rightarrow> nat" where
  "alive ws = length (filter (\<lambda>w. w \<noteq> Exited) ws)"

definition phase_ok :: "bool \<Rightarrow> 't worker \<Rightarrow> bool" where
  "phase_ok stopped w \<longleftrightarrow> (\<forall>c. w = Shrink_Cas c \<longrightarrow> MIN_WORKERS < c) \<and> (w = Leaving \<longrightarrow> stopped)"

definition pool_inv :: "nat \<Rightarrow> 't pool \<Rightarrow> bool" where
  "pool_inv limit p \<longleftrightarrow> length (tasks p) \<le> limit \<and> liveCount p = alive (workers p)
     \<and> accepted p = taken p @ tasks p \<and> mset (taken p) = busy p + mset (completed p)
     \<and> target p \<in> {MIN_WORKERS..MAX_WORKERS} \<and> liveCount p \<le> MAX_WORKERS
     \<and> (\<forall>n. resizing p = Some n \<longrightarrow> n \<in> {MIN_WORKERS..MAX_WORKERS})
     \<and> (\<forall>w \<in> set (workers p). phase_ok (stop p) w) \<and> (\<not> stop p \<longrightarrow> MIN_WORKERS \<le> liveCount p)"

lemma alive_update:
  "i < length ws \<Longrightarrow> alive (ws[i := w]) + (if ws ! i \<noteq> Exited then 1 else 0) = alive ws + (if w \<noteq> Exited then 1 else 0)"
  unfolding alive_def by (subst (3) id_take_nth_drop [of i ws]) (auto simp: upd_conv_take_nth_drop)

lemma running_update:
  assumes "i < length ws"
  shows "mset (concat (map running (ws[i := w]))) + mset (running (ws ! i)) = mset (concat (map running ws)) + mset (running w)"
proof -
  have "ws = take i ws @ ws ! i # drop (Suc i) ws" by (rule id_take_nth_drop [OF assms])
  then have "concat (map running ws) = concat (map running (take i ws @ ws ! i # drop (Suc i) ws))" by simp
  then show ?thesis using assms by (simp add: upd_conv_take_nth_drop)
qed

lemma pool_inv_init: "n \<in> {MIN_WORKERS..MAX_WORKERS} \<Longrightarrow> pool_inv limit (pool_init n)"
  by (auto simp: pool_inv_def pool_init_def busy_def phase_ok_def alive_def filter_replicate)

text \<open>Moving worker \<open>i\<close> to another phase.\<close>

lemma pool_inv_move:
  assumes "pool_inv limit p" "i < length (workers p)"
    and "tasks q = ts" "length ts \<le> limit" "workers q = (workers p)[i := w]" "stop q = stop p" "target q = target p"
    and "resizing q = resizing p" "accepted q = accepted p" "accepted p = taken q @ ts"
    and "mset (taken q) = busy q + mset (completed q)"
    and "liveCount q + (if workers p ! i \<noteq> Exited then 1 else 0) = liveCount p + (if w \<noteq> Exited then 1 else 0)"
    and "phase_ok (stop p) w" "liveCount q \<le> MAX_WORKERS" "\<not> stop p \<Longrightarrow> MIN_WORKERS \<le> liveCount q"
  shows "pool_inv limit q"
proof -
  have "liveCount q = alive (workers q)"
    using alive_update [OF assms(2), of w] assms(1,5,12) by (simp add: pool_inv_def)
  moreover have "\<forall>w' \<in> set (workers q). phase_ok (stop q) w'"
    using assms(1,5,6,13) set_update_subset_insert [of "workers p" i w] by (auto simp: pool_inv_def)
  ultimately show ?thesis using assms by (auto simp: pool_inv_def)
qed

lemma busy_move:
  assumes "i < length (workers p)" "workers q = (workers p)[i := w]"
  shows "busy q + mset (running (workers p ! i)) = busy p + mset (running w)"
  unfolding busy_def assms(2) by (rule running_update [OF assms(1)])

lemma worker_step_inv:
  assumes inv: "pool_inv limit p" and i: "i < length (workers p)" and step: "worker_step i p = Some q"
  shows "pool_inv limit q"
proof -
  note move = pool_inv_move [OF inv i]
  have ok: "phase_ok (stop p) (workers p ! i)" using inv i by (auto simp: pool_inv_def)
  note facts = inv [unfolded pool_inv_def] ok
  have bm: "busy q + mset (running (workers p ! i)) = busy p + mset (running w)" if "workers q = (workers p)[i := w]" for w
    by (rule busy_move [OF i that])
  show ?thesis
  proof (cases "workers p ! i")
    case Waiting
    show ?thesis
    proof (cases "tasks p")
      case Nil
      with step Waiting bm facts show ?thesis
        by (auto simp: worker_step_def to_phase_def phase_ok_def split: if_splits intro!: move)
    next
      case (Cons t ts)
      with step Waiting have q: "q = to_phase i (Running t) (p\<lparr>tasks := ts, taken := taken p @ [t]\<rparr>)"
        by (simp add: worker_step_def)
      then have "workers q = (workers p)[i := Running t]" by (simp add: to_phase_def)
      from bm [OF this] q facts Waiting Cons show ?thesis
        by (intro move [where ts = ts and w = "Running t"]) (auto simp: to_phase_def phase_ok_def)
    qed
  next
    case (Running t)
    with step have q: "q = to_phase i Finished (p\<lparr>completed := completed p @ [t]\<rparr>)" by (simp add: worker_step_def)
    then have "workers q = (workers p)[i := Finished]" by (simp add: to_phase_def)
    from bm [OF this] q facts Running show ?thesis
      by (intro move [where ts = "tasks p" and w = Finished]) (auto simp: to_phase_def phase_ok_def)
  next
    case Finished
    with step bm facts show ?thesis
      by (auto simp: worker_step_def to_phase_def phase_ok_def split: if_splits intro!: move)
  next
    case (Shrink_Check cur)
    with step bm facts show ?thesis
      by (auto simp: worker_step_def to_phase_def phase_ok_def split: if_splits intro!: move)
  next
    case (Shrink_Cas cur)
    with step bm facts show ?thesis
      by (auto simp: worker_step_def to_phase_def phase_ok_def MIN_WORKERS_def split: if_splits intro!: move)
  next
    case Leaving
    have "0 < alive (workers p)"
      using nth_mem [OF i] Leaving by (auto simp: alive_def filter_empty_conv intro!: bexI [of _ Leaving])
    with step bm facts Leaving show ?thesis
      by (auto simp: worker_step_def to_phase_def phase_ok_def split: if_splits intro!: move)
  next
    case Exited
    with step show ?thesis by (simp add: worker_step_def)
  qed
qed

lemma clamp_workers_range: "clamp_workers n \<in> {MIN_WORKERS..MAX_WORKERS}"
  by (simp add: clamp_workers_def Let_def MIN_WORKERS_def MAX_WORKERS_def)

lemma pool_step_inv: "pool_step limit p q \<Longrightarrow> pool_inv limit p \<Longrightarrow> pool_inv limit q"
proof (induction rule: pool_step.induct)
  case (enqueue p t)
  then show ?case by (auto simp: tryEnqueue_def pool_inv_def busy_def)
next
  case (work i p p')
  then show ?case by (rule worker_step_inv [rotated])
next
  case (shut p)
  then show ?case by (auto simp: shutdown_def pool_inv_def busy_def phase_ok_def)
next
  case (resize p n)
  then show ?case using clamp_workers_range [of n] by (auto simp: resize_begin_def pool_inv_def busy_def)
next
  case (spawn p n)
  then show ?case by (auto simp: spawnWorker_def pool_inv_def busy_def alive_def phase_ok_def)
next
  case (resized p n)
  then show ?case by (auto simp: pool_inv_def busy_def)
qed

lemma reachable_inv:
  assumes "reachable limit n p" "n \<in> {MIN_WORKERS..MAX_WORKERS}"
  shows "pool_inv limit p"
  using assms(1) unfolding reachable_def
  by (induction rule: rtranclp_induct) (auto intro: pool_inv_init [OF assms(2)] pool_step_inv)

section \<open>Progress\<close>

text \<open>While a task is queued and a worker is left, some worker can take a step.\<close>

lemma worker_progress:
  assumes "pool_inv limit p" "tasks p \<noteq> []" "0 < liveCount p"
  shows "\<exists>i < length (workers p). worker_step i p \<noteq> None"
proof -
  have "filter (\<lambda>w. w \<noteq> Exited) (workers p) \<noteq> []" using assms(1,3) by (auto simp: pool_inv_def alive_def)
  then obtain w where "w \<in> set (workers p)" "w \<noteq> Exited" by (auto simp: filter_empty_conv)
  then obtain i where "i < length (workers p)" "workers p ! i \<noteq> Exited" by (metis in_set_conv_nth)
  moreover from this have "worker_step i p \<noteq> None"
    using assms(2) by (auto simp: worker_step_def neq_Nil_conv split: worker.splits)
  ultimately show ?thesis by blast
qed

text \<open>When nothing is queued or running, every accepted task has been run exactly once.\<close>

lemma all_done:
  assumes "pool_inv limit p" "tasks p = []" "busy p = {#}"
  shows "mset (completed p) = mset (accepted p)"
  using assms by (simp add: pool_inv_def)

text \<open>The first task that a new pool accepts is taken by any of its workers.\<close>

lemma first_task:
  assumes "i < n" "0 < limit"
  shows "reachable limit n (to_phase i (Running t) ((pool_init n)\<lparr>accepted := [t], taken := [t]\<rparr>))"
proof -
  let ?p = "fst (tryEnqueue limit t (pool_init n))"
  have "worker_step i ?p = Some (to_phase i (Running t) ((pool_init n)\<lparr>accepted := [t], taken := [t]\<rparr>))"
    using assms by (simp add: worker_step_def tryEnqueue_def pool_init_def to_phase_def)
  moreover have "i < length (workers ?p)" using assms by (simp add: tryEnqueue_def pool_init_def)
  ultimately have "pool_step limit ?p (to_phase i (Running t) ((pool_init n)\<lparr>accepted := [t], taken := [t]\<rparr>))"
    by (rule pool_step.work [rotated])
  moreover have "pool_step limit (pool_init n) ?p" by (rule pool_step.enqueue)
  ultimately show ?thesis unfolding reachable_def by (blast intro: converse_rtranclp_into_rtranclp)
qed

text \<open>\<open>scrubWorkers\<close> looks for threads that are not joinable, which a thread that has ended still is
  until it is joined: no step ever shortens the list of workers.\<close>

lemma worker_step_length: "worker_step i p = Some p' \<Longrightarrow> length (workers p') = length (workers p)"
  by (auto simp: worker_step_def to_phase_def split: worker.splits list.splits if_splits)

lemma workers_never_removed: "pool_step limit p p' \<Longrightarrow> length (workers p) \<le> length (workers p')"
  by (induction rule: pool_step.induct)
    (auto simp: tryEnqueue_def shutdown_def resize_begin_def spawnWorker_def dest: worker_step_length)

end
