(* ===== verification/Std_String.thy ===== *)
theory Std_String
  imports Prelude
begin

text \<open>
  The operations of \<open>std::string\<close> that several components use: searching, and the conversions
  between numbers and decimal digits. A position \<open>npos\<close> is \<open>None\<close>.
\<close>

section \<open>Searching\<close>

text \<open>\<open>s.find(pat)\<close> and \<open>s.find(pat, pos)\<close>.\<close>

fun find_sub :: "bytes \<Rightarrow> bytes \<Rightarrow> nat option" where
  "find_sub pat [] = (if pat = [] then Some 0 else None)"
| "find_sub pat (c # s) =
     (if take (length pat) (c # s) = pat then Some 0 else map_option Suc (find_sub pat s))"

definition find_at :: "bytes \<Rightarrow> bytes \<Rightarrow> nat \<Rightarrow> nat option" where
  "find_at pat s pos = (if length s < pos then None else map_option (\<lambda>i. pos + i) (find_sub pat (drop pos s)))"

definition contains :: "bytes \<Rightarrow> bytes \<Rightarrow> bool" where
  "contains pat s \<longleftrightarrow> find_sub pat s \<noteq> None"

lemma find_sub_Some: "find_sub pat s = Some i \<Longrightarrow> take (length pat) (drop i s) = pat \<and> i + length pat \<le> length s"
proof (induction pat s arbitrary: i rule: find_sub.induct)
  case (1 pat)
  then show ?case by (simp split: if_splits)
next
  case (2 pat c s)
  show ?case
  proof (cases "take (length pat) (c # s) = pat")
    case True
    with "2.prems" have "i = 0" "length pat \<le> length (c # s)"
      by (simp, metis length_take min.absorb_iff1 min.commute)
    with True show ?thesis by simp
  next
    case False
    with "2.prems" obtain j where "find_sub pat s = Some j" "i = Suc j" by auto
    with "2.IH" [OF False] show ?thesis by simp
  qed
qed

lemma find_sub_split: "find_sub pat s = Some i \<Longrightarrow> s = take i s @ pat @ drop (i + length pat) s"
  using find_sub_Some [of pat s i] append_take_drop_id [of i s] append_take_drop_id [of "length pat" "drop i s"]
  by (simp add: add.commute)

text \<open>Text behind a match does not change it.\<close>

lemma find_sub_append: "find_sub pat s = Some i \<Longrightarrow> find_sub pat (s @ t) = Some i"
proof (induction pat s arbitrary: i rule: find_sub.induct)
  case (1 pat)
  then show ?case by (cases t) (auto split: if_splits)
next
  case (2 pat c s)
  show ?case
  proof (cases "take (length pat) (c # s) = pat")
    case True
    then have "length pat \<le> length (c # s)" by (metis length_take min.absorb_iff1 min.commute)
    with True have "take (length pat) (c # s @ t) = pat"
      by (metis append_Cons append_Nil2 diff_is_0_eq take0 take_append)
    with True "2.prems" show ?thesis by simp
  next
    case False
    with "2.prems" obtain j where j: "find_sub pat s = Some j" "i = Suc j" by auto
    from find_sub_Some [OF j(1)] have "length pat \<le> length (c # s)" by simp
    then have "take (length pat) (c # s @ t) = take (length pat) (c # s)"
      by (metis append_Cons append_Nil2 diff_is_0_eq take0 take_append)
    with False "2.IH" [OF False j(1)] j show ?thesis by simp
  qed
qed

text \<open>A match in a part that is long enough is a match in it alone.\<close>

lemma find_sub_prefix: "find_sub pat (s @ t) = Some i \<Longrightarrow> i + length pat \<le> length s \<Longrightarrow> find_sub pat s = Some i"
proof (induction s arbitrary: i)
  case Nil
  then show ?case by simp
next
  case (Cons c s)
  show ?case
  proof (cases "length pat \<le> length (c # s)")
    case True
    then have t: "take (length pat) (c # s @ t) = take (length pat) (c # s)"
      by (metis append_Cons append_Nil2 diff_is_0_eq take0 take_append)
    show ?thesis
    proof (cases "take (length pat) (c # s) = pat")
      case True
      with Cons.prems t show ?thesis by simp
    next
      case False
      with Cons.prems t obtain j where "find_sub pat (s @ t) = Some j" "i = Suc j" by auto
      with Cons False show ?thesis by simp
    qed
  next
    case False
    with Cons.prems show ?thesis by simp
  qed
qed

lemma find_sub_None_prefix: "find_sub pat (s @ t) = None \<Longrightarrow> find_sub pat s = None"
  using find_sub_append by (metis not_None_eq)

lemma find_sub_here: "pat \<noteq> [] \<Longrightarrow> find_sub pat (pat @ s) = Some 0"
  by (cases pat) simp_all

lemma find_sub_inside: "pat \<noteq> [] \<Longrightarrow> find_sub pat (a @ pat @ b) \<noteq> None"
  by (induction a) (auto simp: find_sub_here)

text \<open>Text that lacks the first character of the pattern is skipped.\<close>

lemma find_sub_skip: "c \<notin> set a \<Longrightarrow> find_sub (c # pat) (a @ s) = map_option (\<lambda>i. length a + i) (find_sub (c # pat) s)"
proof (induction a)
  case Nil
  then show ?case by (simp add: option.map_ident)
next
  case (Cons x a)
  then show ?case by (cases "find_sub (c # pat) s") auto
qed

text \<open>The first occurrence of a single character.\<close>

lemma find_char: "find_sub [c] s = (if c \<in> set s then Some (length (takeWhile (\<lambda>x. x \<noteq> c) s)) else None)"
  by (induction s) auto

text \<open>\<open>stream >> word\<close>: the next word and what follows it.\<close>

definition next_word :: "bytes \<Rightarrow> bytes \<times> bytes" where
  "next_word s = (let t = dropWhile isspace s in (takeWhile (\<lambda>c. \<not> isspace c) t, dropWhile (\<lambda>c. \<not> isspace c) t))"

section \<open>Numbers\<close>

datatype std_error = Invalid_Argument | Out_Of_Range

definition isdigit :: "u8 \<Rightarrow> bool" where
  "isdigit c \<longleftrightarrow> 48 \<le> c \<and> c \<le> 57"

definition digits_value :: "bytes \<Rightarrow> nat" where
  "digits_value ds = foldl (\<lambda>n d. 10 * n + unat (d - 48)) 0 ds"

text \<open>\<open>std::stoi\<close>: white space, a sign, digits; the rest is ignored. \<open>std::stoul\<close> also takes a
  sign and then negates the unsigned value.\<close>

definition sign_split :: "bytes \<Rightarrow> bool \<times> bytes" where
  "sign_split s = (case dropWhile isspace s of
     c # t \<Rightarrow> if c = 45 then (True, t) else if c = 43 then (False, t) else (False, c # t)
   | [] \<Rightarrow> (False, []))"

definition stoi :: "bytes \<Rightarrow> std_error + int" where
  "stoi s = (let (neg, t) = sign_split s; ds = takeWhile isdigit t; v = int (digits_value ds); v = (if neg then - v else v) in
     if ds = [] then Inl Invalid_Argument
     else if v < - 2147483648 \<or> 2147483647 < v then Inl Out_Of_Range else Inr v)"

definition stoul :: "bytes \<Rightarrow> std_error + nat" where
  "stoul s = (let (neg, t) = sign_split s; ds = takeWhile isdigit t; v = digits_value ds in
     if ds = [] then Inl Invalid_Argument
     else if 2 ^ 64 \<le> int v then Inl Out_Of_Range
     else Inr (if neg then nat ((2 ^ 64 - int v) mod 2 ^ 64) else v))"

text \<open>\<open>std::to_string\<close>, and \<open>%zu\<close> of \<open>snprintf\<close>.\<close>

fun to_string :: "nat \<Rightarrow> bytes" where
  "to_string n = (if n < 10 then [48 + of_nat n] else to_string (n div 10) @ [48 + of_nat (n mod 10)])"

declare to_string.simps [simp del]

lemma digit_of_nat:
  assumes "d < 10"
  shows "isdigit (48 + of_nat d)" "unat (48 + of_nat d - 48 :: u8) = d"
proof -
  have u: "unat (of_nat d :: u8) = d" using assms by (simp add: unat_of_nat)
  then have "unat (48 + of_nat d :: u8) = 48 + d" using assms by (simp add: unat_word_ariths)
  with assms show "isdigit (48 + of_nat d)" by (simp add: isdigit_def word_le_nat_alt)
  show "unat (48 + of_nat d - 48 :: u8) = d" using u by simp
qed

lemma to_string_digits: "to_string n \<noteq> []" "list_all isdigit (to_string n)"
  by (induction n rule: to_string.induct) (subst to_string.simps, simp add: digit_of_nat list_all_append)+

lemma digits_value_to_string [simp]: "digits_value (to_string n) = n"
proof (induction n rule: to_string.induct)
  case (1 n)
  show ?case
  proof (cases "n < 10")
    case True
    then show ?thesis using digit_of_nat(2) [of n] by (subst to_string.simps) (simp add: digits_value_def)
  next
    case False
    with "1.IH" have ih: "digits_value (to_string (n div 10)) = n div 10" by simp
    have "unat (48 + of_nat (n mod 10) - 48 :: u8) = n mod 10" by (rule digit_of_nat(2)) simp
    then have "digits_value (to_string (n div 10) @ [48 + of_nat (n mod 10)]) = 10 * (n div 10) + n mod 10"
      using ih by (simp add: digits_value_def)
    with False show ?thesis by (subst to_string.simps) simp
  qed
qed

lemma digit_not_sign: "isdigit c \<Longrightarrow> \<not> isspace c \<and> c \<noteq> 45 \<and> c \<noteq> 43"
  by (auto simp: isdigit_def isspace_def word_le_nat_alt)

lemma sign_split_digits: "ds \<noteq> [] \<Longrightarrow> list_all isdigit ds \<Longrightarrow> sign_split (ds @ t) = (False, ds @ t)"
  by (cases ds) (auto simp: sign_split_def dest: digit_not_sign)

text \<open>Reading a printed number back.\<close>

lemma takeWhile_digits: "list_all isdigit ds \<Longrightarrow> t = [] \<or> \<not> isdigit (hd t) \<Longrightarrow> takeWhile isdigit (ds @ t) = ds"
  by (induction ds) (auto simp: takeWhile_eq_Nil_iff)

lemma stoul_to_string:
  assumes "n < 2 ^ 64" "t = [] \<or> \<not> isdigit (hd t)"
  shows "stoul (to_string n @ t) = Inr n"
  using assms takeWhile_digits [OF to_string_digits(2) assms(2)]
  by (simp add: stoul_def sign_split_digits to_string_digits Let_def)

lemma stoi_to_string:
  assumes "n < 2 ^ 31" "t = [] \<or> \<not> isdigit (hd t)"
  shows "stoi (to_string n @ t) = Inr (int n)"
  using assms takeWhile_digits [OF to_string_digits(2) assms(2)]
  by (simp add: stoi_def sign_split_digits to_string_digits Let_def)

end
