(* ===== verification/Http_Url.thy ===== *)
theory Http_Url
  imports Std_String
begin

text \<open>
  Addresses of the HTTP resolver (\<open>src/http_resolver.cpp\<close>): upstream URLs, the proxy and where its
  setting comes from, the built-in addresses, and which way a connection is opened.
\<close>

section \<open>Upstream URLs\<close>

record url =
  u_host :: bytes
  u_port :: bytes
  u_target :: bytes

text \<open>Splitting at the first occurrence of a character: \<open>find\<close> with two \<open>substr\<close>.\<close>

definition split_first :: "u8 \<Rightarrow> bytes \<Rightarrow> (bytes \<times> bytes) option" where
  "split_first c s = (if c \<in> set s then Some (takeWhile (\<lambda>x. x \<noteq> c) s, drop (Suc (length (takeWhile (\<lambda>x. x \<noteq> c) s))) s) else None)"

definition scheme_end :: "bytes \<Rightarrow> nat" where
  "scheme_end s = (case find_sub (lit ''://'') s of None \<Rightarrow> 0 | Some i \<Rightarrow> i + 3)"

definition parseUrl :: "bytes \<Rightarrow> url" where
  "parseUrl s =
     (let rest = drop (scheme_end s) s; host = takeWhile (\<lambda>c. c \<noteq> 47) rest;
          target = (if 47 \<in> set rest then drop (length host) rest else lit ''/dns-query'')
      in case split_first 58 host of
           Some (h, p) \<Rightarrow> \<lparr>u_host = h, u_port = p, u_target = target\<rparr>
         | None \<Rightarrow> \<lparr>u_host = host, u_port = lit ''443'', u_target = target\<rparr>)"

lemma split_first_append: "c \<notin> set a \<Longrightarrow> split_first c (a @ c # b) = Some (a, b)"
  by (simp add: split_first_def)

lemma split_first_None: "c \<notin> set a \<Longrightarrow> split_first c a = None"
  by (simp add: split_first_def)

lemma find_scheme: "58 \<notin> set a \<Longrightarrow> find_sub (lit ''://'') (a @ lit ''://'' @ s) = Some (length a)"
  by (induction a) (auto simp: lit_def)

lemma scheme_end_append: "58 \<notin> set a \<Longrightarrow> scheme_end (a @ lit ''://'' @ s) = length a + 3"
  by (simp add: scheme_end_def find_scheme)

lemma drop_scheme [simp]: "58 \<notin> set a \<Longrightarrow> drop (scheme_end (a @ lit ''://'' @ s)) (a @ lit ''://'' @ s) = s"
  using scheme_end_append [of a s] by (simp add: lit_def)

lemma takeWhile_slash: "c \<notin> set a \<Longrightarrow> takeWhile (\<lambda>x. x \<noteq> c) (a @ c # b) = a"
  by simp

text \<open>A URL in full reads back as its parts.\<close>

lemma parseUrl_full:
  assumes "58 \<notin> set scheme" "58 \<notin> set host" "47 \<notin> set host" "47 \<notin> set port"
  shows "parseUrl (scheme @ lit ''://'' @ host @ 58 # port @ 47 # path)
    = \<lparr>u_host = host, u_port = port, u_target = 47 # path\<rparr>"
proof -
  let ?rest = "host @ 58 # port @ 47 # path"
  note d = drop_scheme [OF assms(1), of ?rest]
  have t: "takeWhile (\<lambda>c. c \<noteq> 47) ?rest = host @ 58 # port"
    using takeWhile_slash [of 47 "host @ 58 # port" path] assms(3,4) by simp
  show ?thesis
    unfolding parseUrl_def Let_def d t using split_first_append [OF assms(2), of port] by simp
qed

lemma parseUrl_short:
  assumes "58 \<notin> set scheme" "58 \<notin> set host" "47 \<notin> set host"
  shows "parseUrl (scheme @ lit ''://'' @ host)
    = \<lparr>u_host = host, u_port = lit ''443'', u_target = lit ''/dns-query''\<rparr>"
proof -
  note d = drop_scheme [OF assms(1), of host]
  have t: "takeWhile (\<lambda>c. c \<noteq> 47) host = host" using assms(3) by simp
  show ?thesis unfolding parseUrl_def Let_def d t using assms split_first_None by simp
qed

section \<open>The proxy\<close>

text \<open>A loop that pops trailing characters.\<close>

definition strip_back :: "(u8 \<Rightarrow> bool) \<Rightarrow> bytes \<Rightarrow> bytes" where
  "strip_back P s = rev (dropWhile P (rev s))"

text \<open>\<open>rfind\<close> of a character that occurs, with two \<open>substr\<close>.\<close>

definition split_last :: "u8 \<Rightarrow> bytes \<Rightarrow> bytes \<times> bytes" where
  "split_last c s = (let b = rev (takeWhile (\<lambda>x. x \<noteq> c) (rev s)) in (take (length s - length b - 1) s, b))"

lemma split_last_append: "c \<notin> set b \<Longrightarrow> split_last c (a @ c # b) = (a, b)"
  using takeWhile_slash [of c "rev b" "rev a"] by (simp add: split_last_def Let_def)

definition parseProxyUrl :: "bytes \<Rightarrow> bytes \<times> bytes" where
  "parseProxyUrl proxy =
     (let host = strip_back (\<lambda>c. c = 47) (drop (scheme_end proxy) proxy)
      in if 58 \<in> set host
         then split_last 58 host
         else (host, lit ''8000''))"

definition matchesNoProxy :: "bytes \<Rightarrow> bytes \<Rightarrow> bool" where
  "matchesNoProxy host noProxy =
     list_ex (\<lambda>entry. let entry = strip_back (\<lambda>c. c = 32) (dropWhile (\<lambda>c. c = 32) entry) in
         if entry = [] then False else entry = host \<or> entry = lit ''*'') (getlines 44 noProxy)"

text \<open>Where the setting comes from: the first line of \<open>~/.lynx-proxy\<close> if the file opens, the
  environment, the outputs of \<open>gsettings\<close> (mode, host, port).\<close>

record proxy_env =
  pe_file :: "bytes option"
  pe_var :: "bytes \<Rightarrow> bytes option"
  pe_gnome :: "bytes \<times> bytes \<times> bytes"

definition newline :: "u8 \<Rightarrow> bool" where
  "newline c \<longleftrightarrow> c = 10 \<or> c = 13"

definition gnome_trim :: "bytes \<Rightarrow> bytes" where
  "gnome_trim s = dropWhile (\<lambda>c. c = 39) (strip_back (\<lambda>c. newline c \<or> c = 39) s)"

definition detectGnomeProxy :: "bytes \<times> bytes \<times> bytes \<Rightarrow> bytes" where
  "detectGnomeProxy = (\<lambda>(mode, host, port).
     if strip_back newline mode \<noteq> 39 # lit ''manual'' @ [39] then []
     else if gnome_trim host \<noteq> [] \<and> gnome_trim port \<noteq> []
     then lit ''http://'' @ gnome_trim host @ lit '':'' @ gnome_trim port @ lit ''/'' else [])"

fun first_var :: "(bytes \<Rightarrow> bytes option) \<Rightarrow> bytes list \<Rightarrow> bytes option" where
  "first_var env [] = None"
| "first_var env (v # vs) = (case env v of Some x \<Rightarrow> Some x | None \<Rightarrow> first_var env vs)"

definition detectProxy :: "proxy_env \<Rightarrow> bytes" where
  "detectProxy env =
     (case pe_file env of
        Some line \<Rightarrow> strip_back newline line
      | None \<Rightarrow>
          (case first_var (pe_var env) [lit ''https_proxy'', lit ''HTTPS_PROXY'', lit ''http_proxy'', lit ''HTTP_PROXY''] of
             Some x \<Rightarrow> if x \<noteq> [] then x else detectGnomeProxy (pe_gnome env)
           | None \<Rightarrow> detectGnomeProxy (pe_gnome env)))"

text \<open>The settings that \<open>init\<close> and \<open>reload\<close> compute; the proxy's host and port stay where none is used.\<close>

record proxy_config =
  pc_use :: bool
  pc_host :: bytes
  pc_port :: bytes
  pc_noProxy :: bytes

definition proxy_setting :: "bytes \<Rightarrow> bytes \<Rightarrow> bytes \<Rightarrow> proxy_config \<Rightarrow> proxy_config" where
  "proxy_setting proxy noProxy host pc =
     (if proxy \<noteq> [] \<and> \<not> matchesNoProxy host noProxy
      then let (h, p) = parseProxyUrl proxy in \<lparr>pc_use = True, pc_host = h, pc_port = p, pc_noProxy = noProxy\<rparr>
      else pc\<lparr>pc_use := False, pc_noProxy := noProxy\<rparr>)"

lemma strip_back_all: "P x \<Longrightarrow> s = [] \<or> \<not> P (last s) \<Longrightarrow> strip_back P (s @ replicate n x) = s"
proof -
  assume *: "P x" "s = [] \<or> \<not> P (last s)"
  have "dropWhile P (replicate n x @ xs) = dropWhile P xs" for xs using *(1) by (induction n) auto
  moreover have "dropWhile P (rev s) = rev s" using *(2) by (cases "rev s") auto
  ultimately show ?thesis by (simp add: strip_back_def)
qed

lemma parseProxyUrl_full:
  assumes "58 \<notin> set scheme" "58 \<notin> set port" "port \<noteq> []" "last port \<noteq> 47"
  shows "parseProxyUrl (scheme @ lit ''://'' @ (host @ 58 # port) @ replicate n 47) = (host, port)"
proof -
  have s: "strip_back (\<lambda>c. c = 47) ((host @ 58 # port) @ replicate n 47) = host @ 58 # port"
    by (rule strip_back_all) (use assms(3,4) in auto)
  show ?thesis
    unfolding parseProxyUrl_def Let_def drop_scheme [OF assms(1)] s using split_last_append [OF assms(2)] by simp
qed

section \<open>Addresses\<close>

definition BUILTIN_DNS_IPS :: "(bytes \<times> bytes list) list" where
  "BUILTIN_DNS_IPS =
     [(lit ''dns.google'', map lit [''8.8.8.8'', ''8.8.4.4'', ''2001:4860:4860::8888'', ''2001:4860:4860::8844'']),
      (lit ''dns.google.com'', map lit [''8.8.8.8'', ''8.8.4.4'', ''2001:4860:4860::8888'', ''2001:4860:4860::8844'']),
      (lit ''cloudflare-dns.com'', map lit [''1.1.1.1'', ''1.0.0.1'', ''2606:4700:4700::1111'', ''2606:4700:4700::1001'']),
      (lit ''dns.quad9.net'', map lit [''9.9.9.9'', ''149.112.112.112'', ''2620:fe::fe'', ''2620:fe::9''])]"

text \<open>\<open>make_address\<close> and the system's resolver are parameters.\<close>

definition resolveHost :: "(bytes \<Rightarrow> 'a option) \<Rightarrow> (bytes \<Rightarrow> 'a option) \<Rightarrow> bytes \<Rightarrow> 'a option" where
  "resolveHost make_address system_dns host =
     (case map_of BUILTIN_DNS_IPS host of
        Some ips \<Rightarrow> (case List.map_filter make_address ips of a # _ \<Rightarrow> Some a | [] \<Rightarrow> system_dns host)
      | None \<Rightarrow> system_dns host)"

section \<open>Opening a connection\<close>

text \<open>What the network does on the way: the local socket, the whole proxy handshake, the second
  socket, the name lookup, connecting, TLS.\<close>

record dial =
  d_socket :: bool
  d_proxy :: bool
  d_reopen :: bool
  d_lookup :: bool
  d_connect :: bool
  d_tls :: bool

text \<open>\<open>Connection::open\<close>: whether it is open afterwards, and the shared flag \<open>proxyFailed_\<close>.\<close>

definition open_direct :: "bytes \<Rightarrow> dial \<Rightarrow> std_error + bool" where
  "open_direct port d = bindE (stoi port) (\<lambda>_. Inr (d_lookup d \<and> d_connect d \<and> d_tls d))"

definition conn_open :: "proxy_config \<Rightarrow> url \<Rightarrow> dial \<Rightarrow> bool \<Rightarrow> bool \<times> (std_error + bool)" where
  "conn_open pc u d proxyFailed =
     (if \<not> d_socket d then (proxyFailed, Inr False)
      else let bypass = pc_use pc \<and> matchesNoProxy (u_host u) (pc_noProxy pc) in
        if pc_use pc \<and> \<not> bypass \<and> \<not> proxyFailed
        then if d_proxy d then (proxyFailed, Inr True)
          else if \<not> d_reopen d then (True, Inr False)
          else (True, open_direct (u_port u) d)
        else (proxyFailed, open_direct (u_port u) d))"

text \<open>The variant that the connection controller calls does not look at the flags.\<close>

definition openFunc :: "proxy_config \<Rightarrow> url \<Rightarrow> dial \<Rightarrow> std_error + bool" where
  "openFunc pc u d =
     (if \<not> d_socket d then Inr False
      else if pc_use pc
      then if d_proxy d then Inr True
        else if \<not> d_reopen d then Inr False
        else open_direct (u_port u) d
      else open_direct (u_port u) d)"

lemma conn_open_direct:
  "d_socket d \<Longrightarrow> d_reopen d \<Longrightarrow> d_lookup d \<and> d_connect d \<and> d_tls d \<Longrightarrow> stoi (u_port u) = Inr n
    \<Longrightarrow> snd (conn_open pc u d pf) = Inr True"
  by (simp add: conn_open_def open_direct_def Let_def)

end
