(* ===== verification/Dns_Listen.thy ===== *)
theory Dns_Listen
  imports Dns_Server Thread_Pool Std_String Http_Url
begin

text \<open>
  How the DNS server starts and stops (\<open>listenAndServe\<close>, \<open>udpWorker\<close>, \<open>perfMonitorLoop\<close> and \<open>stop\<close> of
  \<open>src/dns_server.cpp\<close>): the address it is given, the sockets it binds, the loop that fits the
  thread pool to the tuner's advice. Whether a call on a socket succeeds is a parameter.
\<close>

section \<open>The address\<close>

text \<open>Host and port, split at the first colon; the port is cut to 16 bits.\<close>

definition dns_endpoint :: "bytes \<Rightarrow> std_error + bytes \<times> u16" where
  "dns_endpoint addr =
     (let (host, port) = (case split_first 58 addr of None \<Rightarrow> ([], lit ''53'') | Some hp \<Rightarrow> hp)
      in bindE (stoi port) (\<lambda>n. Inr (if host = [] then lit ''0.0.0.0'' else host, of_int n)))"

section \<open>The sockets\<close>

definition NUM_WORKERS :: nat where "NUM_WORKERS = 16"

datatype transport = Udp_Main | Udp_Worker nat | Tcp_Main

type_synonym binding = "transport \<times> bytes \<times> u16"

text \<open>\<open>opens b\<close> says whether opening and binding the socket succeed. A worker binds all interfaces
  (\<open>udp::v4()\<close>), whatever the host is.\<close>

definition worker_bindings :: "(binding \<Rightarrow> bool) \<Rightarrow> u16 \<Rightarrow> binding list" where
  "worker_bindings opens port =
     filter opens (map (\<lambda>i. (Udp_Worker i, lit ''0.0.0.0'', port)) [0..<NUM_WORKERS])"

text \<open>What is bound after \<open>listenAndServe\<close>: nothing when the address is bad or the main UDP socket
  fails; a failure of TCP leaves UDP alone.\<close>

definition listenAndServe :: "(bytes \<Rightarrow> bool) \<Rightarrow> (binding \<Rightarrow> bool) \<Rightarrow> bytes \<Rightarrow> binding list" where
  "listenAndServe is_address opens addr =
     (case dns_endpoint addr of
        Inl _ \<Rightarrow> []
      | Inr (host, port) \<Rightarrow>
          if \<not> is_address host then []
          else if \<not> opens (Udp_Main, host, port) then []
          else (Udp_Main, host, port) # worker_bindings opens port
            @ (if opens (Tcp_Main, host, port) then [(Tcp_Main, host, port)] else []))"

section \<open>Fitting the pool\<close>

text \<open>A round of \<open>perfMonitorLoop\<close>: the two gauges, and a resize when the number of live workers is
  not the tuner's. The argument of \<open>resize\<close> is unsigned.\<close>

definition perf_round :: "int \<Rightarrow> 't pool \<times> perf_monitor \<Rightarrow> 't pool \<times> perf_monitor" where
  "perf_round recommended = (\<lambda>(p, pm).
     (if recommended \<noteq> int (liveCount p) then resize_begin (nat (recommended mod 2 ^ 64)) p else p,
      recordThreadPoolWorkers (int (liveCount p)) (recordThreadPoolLoad (int (length (tasks p))) pm)))"

section \<open>Stopping\<close>

text \<open>The loopback ports that \<open>stop\<close> sends to, so that blocked calls return: one TCP connection when
  the address has a port, then one datagram for each worker. Without a colon \<open>colon + 1\<close> wraps to 0
  and the whole address is read as the port. An exception skips the one call.\<close>

definition stop_kicks :: "bytes \<Rightarrow> (bool \<times> u16) list" where
  "stop_kicks addr =
     (let tcp = (case split_first 58 addr of None \<Rightarrow> [] | Some (_, p) \<Rightarrow>
                   if p = [] then [] else case stoi p of Inl _ \<Rightarrow> [] | Inr n \<Rightarrow> [(True, of_int n)]);
          udp = (case stoi (case split_first 58 addr of None \<Rightarrow> addr | Some (_, p) \<Rightarrow> p) of
                   Inl _ \<Rightarrow> [] | Inr n \<Rightarrow> replicate NUM_WORKERS (False, of_int n))
      in tcp @ udp)"

section \<open>What is bound\<close>

lemma dns_endpoint_host:
  assumes "58 \<notin> set host" "host \<noteq> []" "n < 65536"
  shows "dns_endpoint (host @ 58 # to_string n) = Inr (host, of_nat n)"
proof -
  have "stoi (to_string n) = Inr (int n)" using stoi_to_string [of n "[]"] assms(3) by simp
  then show ?thesis using assms split_first_append [of 58 host "to_string n"] by (simp add: dns_endpoint_def)
qed

lemma workers_bind_everything:
  assumes "58 \<notin> set host" "host \<noteq> []" "n < 65536" "is_address host" "\<And>b. opens b" "i < NUM_WORKERS"
  shows "(Udp_Worker i, lit ''0.0.0.0'', of_nat n) \<in> set (listenAndServe is_address opens (host @ 58 # to_string n))"
  using assms by (simp add: listenAndServe_def dns_endpoint_host worker_bindings_def)

lemma listen_bound:
  assumes "b \<in> set (listenAndServe is_address opens addr)"
  shows "\<exists>host port. dns_endpoint addr = Inr (host, port) \<and> is_address host \<and> opens b \<and> snd (snd b) = port
    \<and> (fst (snd b) = host \<or> fst (snd b) = lit ''0.0.0.0'')"
proof (cases "dns_endpoint addr")
  case (Inl e)
  with assms show ?thesis by (simp add: listenAndServe_def)
next
  case (Inr hp)
  with assms show ?thesis by (cases hp) (auto simp: listenAndServe_def worker_bindings_def split: if_splits)
qed

text \<open>The kicks go to the port that is bound.\<close>

lemma kicks_reach:
  assumes "dns_endpoint addr = Inr (host, port)" "58 \<in> set addr"
  shows "(True, port) \<in> set (stop_kicks addr)" "length (filter (\<lambda>(tcp, p). \<not> tcp \<and> p = port) (stop_kicks addr)) = NUM_WORKERS"
proof -
  obtain h p where hp: "split_first 58 addr = Some (h, p)" using assms(2) by (simp add: split_first_def)
  with assms(1) obtain n where n: "stoi p = Inr n" "port = of_int n" by (auto simp: dns_endpoint_def exc_simps)
  have "p \<noteq> []" using n(1) by (auto simp: stoi_def sign_split_def)
  with hp n show "(True, port) \<in> set (stop_kicks addr)"
    "length (filter (\<lambda>(tcp, p). \<not> tcp \<and> p = port) (stop_kicks addr)) = NUM_WORKERS"
    by (simp_all add: stop_kicks_def Let_def filter_replicate)
qed

text \<open>Without a port in the address nothing unblocks the workers.\<close>

lemma no_kicks: "58 \<notin> set addr \<Longrightarrow> stoi addr = Inl e \<Longrightarrow> stop_kicks addr = []"
  by (simp add: stop_kicks_def split_first_None)

text \<open>A recommendation in the tuner's range becomes the target, unless it is the number of live
  workers already.\<close>

lemma perf_round_target:
  assumes "16 \<le> r" "r \<le> 32" "perf_round r (p, pm) = (p', pm')"
  shows "(int (target p') = r \<and> resizing p' = Some (target p')) \<or> (p' = p \<and> int (liveCount p) = r)"
    "poolPending pm' = int (length (tasks p))" "poolWorkers pm' = int (liveCount p)"
proof -
  have "r mod 2 ^ 64 = r" using assms(1,2) by simp
  moreover have "4 \<le> nat r" "nat r \<le> 64" using assms(1,2) by (auto simp: le_nat_iff)
  then have "clamp_workers (nat r) = nat r" by (simp add: clamp_workers_def MIN_WORKERS_def MAX_WORKERS_def Let_def)
  ultimately show "(int (target p') = r \<and> resizing p' = Some (target p')) \<or> (p' = p \<and> int (liveCount p) = r)"
    using assms by (auto simp: perf_round_def resize_begin_def split: if_splits)
  show "poolPending pm' = int (length (tasks p))" "poolWorkers pm' = int (liveCount p)"
    using assms(3) by (auto simp: perf_round_def recordThreadPoolWorkers_def recordThreadPoolLoad_def)
qed

end
