(* ===== verification/Server_Stop.thy ===== *)
theory Server_Stop
  imports Dns_Listen "HOL-Library.Multiset"
begin

text \<open>
  \<open>DnsServer::stop\<close> and the UDP workers that it has to get out of \<open>receive_from\<close>. All worker sockets
  and the server's own socket are bound to one port with \<open>SO_REUSEPORT\<close>: the kernel gives each
  datagram to one of the sockets that are open, whichever it likes. The model starts when the flag
  has gone off with every worker waiting; \<open>kicks_left\<close> datagrams are still to be sent by \<open>stop\<close>.
\<close>

datatype receiver = Receiving | Reading_Flag | Left_Loop

datatype target_socket = Main_Socket | Worker_Socket nat

record receivers =
  server_running :: bool
  udp_workers :: "receiver list"
  inboxes :: "nat list"
  kicks_left :: nat

definition stop_begun :: "nat \<Rightarrow> nat \<Rightarrow> receivers" where
  "stop_begun n k = \<lparr>server_running = False, udp_workers = replicate n Receiving, inboxes = replicate n 0, kicks_left = k\<rparr>"

section \<open>The steps\<close>

definition is_open :: "target_socket \<Rightarrow> receivers \<Rightarrow> bool" where
  "is_open t s = (case t of Main_Socket \<Rightarrow> True
     | Worker_Socket i \<Rightarrow> i < length (udp_workers s) \<and> udp_workers s ! i \<noteq> Left_Loop)"

definition deliver :: "target_socket \<Rightarrow> receivers \<Rightarrow> receivers" where
  "deliver t s = (case t of Main_Socket \<Rightarrow> s
     | Worker_Socket i \<Rightarrow> s\<lparr>inboxes := (inboxes s)[i := inboxes s ! i + 1]\<rparr>)"

text \<open>One step of worker \<open>i\<close>: a datagram ends the call, whatever it is (of a kick's one byte nothing
  else becomes); then the loop reads the flag. A worker that leaves closes its socket.\<close>

definition worker_move :: "nat \<Rightarrow> receivers \<Rightarrow> receivers option" where
  "worker_move i s =
     (if length (udp_workers s) \<le> i then None
      else case udp_workers s ! i of
        Receiving \<Rightarrow>
          if inboxes s ! i = 0 then None
          else Some (s\<lparr>inboxes := (inboxes s)[i := inboxes s ! i - 1], udp_workers := (udp_workers s)[i := Reading_Flag]\<rparr>)
      | Reading_Flag \<Rightarrow>
          Some (s\<lparr>udp_workers := (udp_workers s)[i := if server_running s then Receiving else Left_Loop]\<rparr>)
      | Left_Loop \<Rightarrow> None)"

datatype stop_act = Kick target_socket | Traffic target_socket | Move nat

fun stop_exec :: "stop_act \<Rightarrow> receivers \<Rightarrow> receivers option" where
  "stop_exec (Kick t) s = (if 0 < kicks_left s \<and> is_open t s then Some (deliver t (s\<lparr>kicks_left := kicks_left s - 1\<rparr>)) else None)"
| "stop_exec (Traffic t) s = (if is_open t s then Some (deliver t s) else None)"
| "stop_exec (Move i) s = worker_move i s"

fun stop_run :: "stop_act list \<Rightarrow> receivers \<Rightarrow> receivers option" where
  "stop_run [] s = Some s"
| "stop_run (a # as) s = Option.bind (stop_exec a s) (stop_run as)"

text \<open>The join of the workers returns when all have left.\<close>

definition workers_joined :: "receivers \<Rightarrow> bool" where
  "workers_joined s \<longleftrightarrow> list_all (\<lambda>p. p = Left_Loop) (udp_workers s)"

fun sent_to :: "stop_act \<Rightarrow> target_socket list" where
  "sent_to (Kick t) = [t]"
| "sent_to (Traffic t) = [t]"
| "sent_to (Move i) = []"

fun is_kick :: "stop_act \<Rightarrow> bool" where
  "is_kick (Kick t) = True"
| "is_kick _ = False"

definition destinations :: "stop_act list \<Rightarrow> target_socket list" where
  "destinations as = concat (map sent_to as)"

section \<open>Who gets out\<close>

definition stop_inv :: "nat \<Rightarrow> target_socket set \<Rightarrow> receivers \<Rightarrow> bool" where
  "stop_inv n D s \<longleftrightarrow> \<not> server_running s \<and> length (udp_workers s) = n \<and> length (inboxes s) = n
     \<and> (\<forall>i < n. (Worker_Socket i \<in> D) = (udp_workers s ! i \<noteq> Receiving \<or> inboxes s ! i \<noteq> 0))"

lemma deliver_inv: "stop_inv n D s \<Longrightarrow> is_open t s \<Longrightarrow> stop_inv n (insert t D) (deliver t s)"
  by (auto simp: stop_inv_def deliver_def is_open_def nth_list_update split: target_socket.splits)

lemma move_inv: "stop_inv n D s \<Longrightarrow> worker_move i s = Some s' \<Longrightarrow> stop_inv n D s'"
  by (auto simp: stop_inv_def worker_move_def nth_list_update split: if_splits receiver.splits)

lemma stop_exec_inv:
  assumes "stop_inv n D s" "stop_exec a s = Some s'"
  shows "stop_inv n (set (sent_to a) \<union> D) s'"
proof (cases a)
  case (Kick t)
  have "stop_inv n D (s\<lparr>kicks_left := kicks_left s - 1\<rparr>)" "is_open t (s\<lparr>kicks_left := kicks_left s - 1\<rparr>) = is_open t s"
    using assms(1) by (simp_all add: stop_inv_def is_open_def split: target_socket.split)
  with Kick assms(2) deliver_inv show ?thesis by (auto split: if_splits)
qed (use assms deliver_inv move_inv in \<open>auto split: if_splits\<close>)

lemma stop_run_inv:
  "stop_inv n D s \<Longrightarrow> stop_run as s = Some s' \<Longrightarrow> stop_inv n (set (destinations as) \<union> D) s'"
proof (induction as arbitrary: D s)
  case (Cons a as)
  then obtain s1 where s1: "stop_exec a s = Some s1" "stop_run as s1 = Some s'" by (auto split: bind_splits)
  from Cons.IH [OF stop_exec_inv [OF Cons.prems(1) s1(1)] s1(2)] show ?case
    by (simp add: destinations_def Un_assoc Un_left_commute)
qed (simp add: destinations_def)

lemma stop_begun_inv: "stop_inv n {} (stop_begun n k)"
  by (simp add: stop_inv_def stop_begun_def)

lemma kicks_counted: "stop_run as s = Some s' \<Longrightarrow> length (filter is_kick as) + kicks_left s' = kicks_left s"
proof (induction as arbitrary: s)
  case (Cons a as)
  then obtain s1 where s1: "stop_exec a s = Some s1" "stop_run as s1 = Some s'" by (auto split: bind_splits)
  have "kicks_left s1 + (if is_kick a then 1 else 0) = kicks_left s"
    using s1(1) by (cases a) (auto simp: deliver_def worker_move_def split: if_splits target_socket.splits receiver.splits)
  with Cons.IH [OF s1(2)] show ?case by (cases "is_kick a") simp_all
qed simp

text \<open>At rest, exactly the workers have left to whose socket some datagram went.\<close>

lemma joined_iff:
  assumes "stop_run as (stop_begun n k) = Some s" "\<And>i. worker_move i s = None"
  shows "workers_joined s \<longleftrightarrow> (\<forall>i < n. Worker_Socket i \<in> set (destinations as))"
proof -
  have inv: "stop_inv n (set (destinations as)) s" using stop_run_inv [OF stop_begun_inv assms(1)] by simp
  have "udp_workers s ! i = Left_Loop \<longleftrightarrow> Worker_Socket i \<in> set (destinations as)" if "i < n" for i
    using inv that assms(2) [of i] by (cases "udp_workers s ! i") (auto simp: stop_inv_def worker_move_def split: if_splits)
  with inv show ?thesis by (auto simp: workers_joined_def stop_inv_def list_all_length)
qed

lemma all_once:
  assumes "length xs \<le> n" "\<forall>i < n. f i \<in> set xs" "inj f"
  shows "mset xs = mset (map f [0..<n])"
proof -
  have sub: "set (map f [0..<n]) \<subseteq> set xs" using assms(2) by auto
  have d: "distinct (map f [0..<n])" using assms(3) by (simp add: distinct_map inj_on_def)
  have "count (mset (map f [0..<n])) a \<le> count (mset xs) a" for a
  proof (cases "a \<in> set (map f [0..<n])")
    case True
    then have "count (mset (map f [0..<n])) a = 1" using d distinct_count_atmost_1 by metis
    moreover have "a \<in># mset xs" using True sub by auto
    ultimately show ?thesis by (simp add: Suc_leI)
  next
    case False
    then have "count (mset (map f [0..<n])) a = 0" using count_mset_0_iff by metis
    then show ?thesis by (simp only: zero_le)
  qed
  then have "mset (map f [0..<n]) \<subseteq># mset xs" by (rule mset_subset_eqI)
  moreover have "size (mset xs) \<le> size (mset (map f [0..<n]))" using assms(1) by simp
  ultimately show ?thesis by (metis mset_subset_size not_le subset_mset.le_neq_trans)
qed

text \<open>With no other traffic \<open>stop\<close> returns only if the kernel has given each worker exactly one of its
  datagrams, and none to the server's own socket.\<close>

lemma joined_only_if_spread:
  assumes "stop_run as (stop_begun n n) = Some s" "list_all (\<lambda>a. \<forall>t. a \<noteq> Traffic t) as" "workers_joined s"
  shows "mset (destinations as) = mset (map Worker_Socket [0..<n])"
proof (rule all_once)
  have "length (destinations as) = length (filter is_kick as)"
    using assms(2)
  proof (induction as)
    case (Cons a as)
    then show ?case by (cases a) (simp_all add: destinations_def)
  qed (simp add: destinations_def)
  with kicks_counted [OF assms(1)] show "length (destinations as) \<le> n" by (simp add: stop_begun_def)
  have inv: "stop_inv n (set (destinations as)) s" using stop_run_inv [OF stop_begun_inv assms(1)] by simp
  with assms(3) show "\<forall>i<n. Worker_Socket i \<in> set (destinations as)"
    by (auto simp: stop_inv_def workers_joined_def list_all_length)
qed (simp add: inj_def)

end
