(* ===== verification/Server_Properties.thy ===== *)
theory Server_Properties
  imports Server_Proofs Thread_Pool Server_Stop Cache_Properties
begin

text \<open>
  The properties of the DNS server: rate limiting, the thread pool, and the request handlers.
\<close>

section \<open>A concrete world\<close>

definition w_world :: "unit caching_world" where
  "w_world = \<lparr>w_back = (\<lambda>req f. Inr (Some (createError req 0))), w_fan = True, w_clocks = (\<lambda>_. w_clock), w_calls = 0, w_cache = w_init\<rparr>"

lemma w_world_ok: "world_ok w_world"
  by (simp add: world_ok_def w_world_def back_keeps_id_def cache_inv_init w_cfg_ok)

definition w_ip :: bytes where
  "w_ip = [49, 46, 49]"

lemma w_ip_remote: "\<not> loopback w_ip"
  by code_simp

definition w_local :: dns_message where
  "w_local = (w_request 3)\<lparr>questions := [\<lparr>qname = [97, 46, 108, 111, 99, 97, 108], qtype = 1, qclass = 1\<rparr>]\<rparr>"

section \<open>The rate limiter\<close>

text \<open>C15: Whatever all clients send, in any order that agrees with the clock, no address but
  loopback gets more than 200 requests through in any second.\<close>

theorem limiter_two_hundred:
  "\<not> loopback ip \<Longrightarrow> sorted (map snd rs) \<Longrightarrow> passed ip a limiter_init rs \<le> 200"
  by (rule passed_bound [OF _ limiter_init_count])

theorem limiter_two_hundred_witness:
  "passed w_ip 5 limiter_init (replicate 300 (w_ip, 7)) \<le> 200"
  by (rule limiter_two_hundred [OF w_ip_remote]) (simp add: sorted_replicate)

text \<open>An address that sends at most 100 requests is never refused, however much the others send:
  clients share no budget, not even in the same shard.\<close>

lemma limiter_fair:
  "\<not> loopback ip \<Longrightarrow> length (filter (\<lambda>r. fst r = ip) rs) \<le> 100 \<Longrightarrow>
    \<forall>(r, ok) \<in> set (zip rs (decisions limiter_init rs)). fst r = ip \<longrightarrow> ok"
  by (rule not_refused [OF _ limiter_init_count])
  (simp_all add: room_def abs_limiter_def entry_of_def limiter_init_def)

text \<open>Sharding is invisible: the 16 shards simulate one table with an entry per address, decision by
  decision.\<close>

lemma limiter_shards_transparent:
  "abs_allow ip now (abs_limiter st) = (abs_limiter (fst (allow ip now st)), snd (allow ip now st))"
  by (rule allow_refines)

section \<open>The thread pool\<close>

definition w_pool :: "nat pool" where
  "w_pool = to_phase 3 (Running 7) ((pool_init 24)\<lparr>accepted := [7], taken := [7]\<rparr>)"

lemma w_pool_reachable: "reachable 300 24 w_pool"
  unfolding w_pool_def by (rule first_task) simp_all

text \<open>C16: In every interleaving of clients, workers and a resizer: the queue never exceeds its
  limit; tasks are taken in the order of acceptance and each taken task is running on one
  worker or completed once; the live counter is the number of workers that have not ended, at
  most 64, and at least 4 until shutdown.\<close>

theorem pool_invariant:
  "reachable limit n p \<Longrightarrow> n \<in> {MIN_WORKERS..MAX_WORKERS} \<Longrightarrow>
    length (tasks p) \<le> limit \<and> accepted p = taken p @ tasks p \<and> mset (taken p) = busy p + mset (completed p)
    \<and> liveCount p = alive (workers p) \<and> liveCount p \<le> MAX_WORKERS \<and> (\<not> stop p \<longrightarrow> MIN_WORKERS \<le> liveCount p)"
  using reachable_inv by (auto simp: pool_inv_def)

theorem pool_invariant_witness:
  "length (tasks w_pool) \<le> 300 \<and> accepted w_pool = taken w_pool @ tasks w_pool
    \<and> mset (taken w_pool) = busy w_pool + mset (completed w_pool)
    \<and> liveCount w_pool = alive (workers w_pool) \<and> liveCount w_pool \<le> MAX_WORKERS
    \<and> MIN_WORKERS \<le> liveCount w_pool"
  using pool_invariant [OF w_pool_reachable]
  by (simp add: MIN_WORKERS_def MAX_WORKERS_def w_pool_def to_phase_def pool_init_def)

section \<open>The handlers\<close>

lemma w_local_wf: "wf_message w_local"
  by (simp add: wf_message_def w_local_def w_request_def wf_question_def wf_name_def dot_def)

lemma w_local_handled:
  "handleQuery caching_ops (\<lambda>_ _ _. None) [] [] (encode w_local) w_world =
    (w_world, Some (encode (createError (with_counts w_local) rcode_NXDomain)))"
proof (rule handleQuery_local [OF parse_encode [OF w_local_wf]])
  show "questions (with_counts w_local) = \<lparr>qname = [97, 46, 108, 111, 99, 97, 108], qtype = 1, qclass = 1\<rparr> # []"
    by (simp add: w_local_def with_counts_def)
  show "is_local (qname \<lparr>qname = [97, 46, 108, 111, 99, 97, 108], qtype = 1, qclass = 1\<rparr>)" by code_simp
  show "all_sendable (with_counts w_local)"
    using wf_message_sendable [OF w_local_wf] by (simp add: all_sendable_def with_counts_def)
qed

text \<open>C17: Behind the caching resolver, every packet that handleQuery sends carries the id of the
  query it answers, whether the answer comes from an override, a local refusal, either cache
  level, the wrapped resolver (which is assumed to keep ids) or an error path.\<close>

theorem reply_carries_id:
  "world_ok w \<Longrightarrow> handleQuery caching_ops udp ov unq data w = (w', Some wire) \<Longrightarrow> packet_id wire = packet_id data"
  by (rule cr.handleQuery_id)

theorem reply_carries_id_witness:
  "packet_id (encode (createError (with_counts w_local) rcode_NXDomain)) = packet_id (encode w_local)"
  by (rule reply_carries_id [OF w_world_ok w_local_handled])

definition w_hit_world :: "unit caching_world" where
  "w_hit_world = w_world\<lparr>w_cache := w_stored\<rparr>"

lemma w_hit_world_ok: "world_ok w_hit_world"
  using w_world_ok w_stored_inv [of 1] by (simp add: world_ok_def w_hit_world_def)

lemma w_stored_slot: "turbo w_stored (slot_index (turboHash (key_of w_question))) =
    \<lparr>ts_hash = turboHash (key_of w_question), ts_msg = Some (clobberTTL 900 (w_answer 0x8180)), ts_expires = w_clock 4 + seconds 900\<rparr>"
  unfolding w_stored_def
  using query_stores_turbo [OF w_question_of w_miss w_backend_answer w_should(1)] by (simp only: w_init_ttl w_ttl)

lemma w_peek:
  "snd (peekCacheRaw w_clock (encode (w_request 4)) w_stored) =
    Some (raw_reply (encode (w_request 4)) True (clobberTTL 900 (w_answer 0x8180)))"
  using w_stored_slot
  by (simp add: peekCacheRaw_def raw_key_encode [OF w_request_wf w_question_of] turboLookup_def Let_def w_clock_def seconds_def)

lemma w_hit_sendable: "all_sendable (raw_reply d True (clobberTTL 900 (w_answer 0x8180)))"
  by (simp add: raw_reply_def clobberTTL_def clobber_def w_answer_def w_rr_def w_question_def all_sendable_def sendable_def labels_def dot_def)

definition w_after :: "unit caching_world" where
  "w_after = fst (ro_peekRaw caching_ops (encode (w_request 4)) w_hit_world)"

lemma w_hit_packet:
  "udpWorker_packet caching_ops False (encode (w_request 4)) (lit ''::1'') 0 (limiter_init, w_hit_world) =
    ((limiter_init, w_after), Replied (encode (raw_reply (encode (w_request 4)) True (clobberTTL 900 (w_answer 0x8180)))))"
proof -
  have "ro_peekRaw caching_ops (encode (w_request 4)) w_hit_world =
      (w_after, Some (raw_reply (encode (w_request 4)) True (clobberTTL 900 (w_answer 0x8180))))"
    using w_peek by (simp add: w_after_def prod_eq_iff) (simp add: caching_ops_def w_hit_world_def w_world_def case_prod_beta)
  then show ?thesis
    using loopback_allowed [of "lit ''::1''" 0 limiter_init] length_encode_ge [of "w_request 4"] w_hit_sendable
    by (simp add: udpWorker_packet_def pack_eq_encode loopback_def)
qed

text \<open>The same holds for the packets that a UDP worker sends itself, from the cache or inline when
  the pool is full.\<close>

lemma worker_reply_carries_id:
  "world_ok w \<Longrightarrow> udpWorker_packet caching_ops full data ip now (lm, w) = ((lm', w'), Replied wire) \<Longrightarrow>
    packet_id wire = packet_id data"
  by (rule cr.udpWorker_id)

text \<open>A query for a name that ends in .local is answered with NXDOMAIN and its own question, without
  asking an upstream or the resolver.\<close>

lemma local_names_refused:
  "parse data = Inr req \<Longrightarrow> questions req = q # qs \<Longrightarrow> is_local (qname q) \<Longrightarrow> all_sendable req \<Longrightarrow>
    handleQuery ops udp ov unq data s = (s, Some (encode (createError req rcode_NXDomain)))
    \<and> hdr_rcode (header (createError req rcode_NXDomain)) = rcode_NXDomain"
  using rcode_createError [of req rcode_NXDomain] by (simp add: handleQuery_local rcode_defs)

text \<open>C18: An exception ends a UDP worker's receive loop exactly when an admitted packet of at least
  12 bytes either hits a cached message that cannot be packed, or meets a full pool and does
  not parse or leads to a reply that cannot be packed.\<close>

theorem worker_dies_exactly:
  "ro_peekRaw ops data s = (s1, p) \<Longrightarrow>
    snd (udpWorker_packet ops full data ip now (lm, s)) = Died \<longleftrightarrow>
    12 \<le> length data \<and> snd (allow ip now lm) \<and>
    (case p of Some m \<Rightarrow> \<not> all_sendable m
     | None \<Rightarrow> full \<and> (case parse data of Inl _ \<Rightarrow> True
         | Inr req \<Rightarrow> \<not> all_sendable (snd (inline_reply ops req (ro_perf ops recordDnsQuery s1)))))"
  by (rule udpWorker_dies_iff)

theorem worker_dies_exactly_witness:
  "snd (udpWorker_packet caching_ops False (encode (w_request 4)) (lit ''::1'') 0 (limiter_init, w_hit_world)) = Died \<longleftrightarrow>
    12 \<le> length (encode (w_request 4)) \<and> snd (allow (lit ''::1'') 0 limiter_init) \<and>
    (case snd (ro_peekRaw caching_ops (encode (w_request 4)) w_hit_world) of Some m \<Rightarrow> \<not> all_sendable m
     | None \<Rightarrow> False \<and> (case parse (encode (w_request 4)) of Inl _ \<Rightarrow> True
         | Inr req \<Rightarrow> \<not> all_sendable (snd (inline_reply caching_ops req (ro_perf caching_ops recordDnsQuery w_after)))))"
  by (rule worker_dies_exactly) (simp add: w_after_def)

text \<open>With the pool full, a 12-byte packet that announces a question and contains none ends the UDP
  worker that receives it, in every state of the caching resolver.\<close>

lemma malformed_packet_ends_worker:
  "snd (udpWorker_packet caching_ops True bare_header (lit ''127.0.0.1'') now (lm, w)) = Died"
  by (rule worker_killed)

text \<open>A reply of less than 65536 bytes on a TCP stream is delimited by its length prefix: a client
  reads exactly the reply and the stream continues behind it.\<close>

lemma tcp_stream_framed:
  "length wire < 65536 \<Longrightarrow> tcp_deframe (tcp_frame wire @ rest) = Some (wire, rest)"
  by (rule tcp_deframe_frame)

section \<open>Stopping\<close>

definition spread_kicks :: "stop_act list" where
  "spread_kicks = concat (map (\<lambda>i. [Kick (Worker_Socket i), Move i, Move i]) [0..<NUM_WORKERS])"

definition spread_end :: receivers where
  "spread_end = the (stop_run spread_kicks (stop_begun NUM_WORKERS NUM_WORKERS))"

lemma spread_run: "stop_run spread_kicks (stop_begun NUM_WORKERS NUM_WORKERS) = Some spread_end"
proof -
  have "\<not> Option.is_none (stop_run spread_kicks (stop_begun NUM_WORKERS NUM_WORKERS))" by code_simp
  then show ?thesis by (simp add: spread_end_def Option.is_none_def)
qed

lemma spread_joined: "list_all (\<lambda>a. \<forall>t. a \<noteq> Traffic t) spread_kicks" "workers_joined spread_end"
proof -
  show "list_all (\<lambda>a. \<forall>t. a \<noteq> Traffic t) spread_kicks" by (auto simp: spread_kicks_def list_all_iff)
  show "workers_joined spread_end" by code_simp
qed

text \<open>C19: stop sends one datagram for each UDP worker to the port that they share. On an otherwise
  idle server it gets past the join of the workers only if the kernel gives every worker
  exactly one of them, and none to the server's own socket, which is bound to the same port:
  in any other case a worker waits in receive_from for ever.\<close>

theorem stop_needs_every_worker:
  "stop_run as (stop_begun NUM_WORKERS NUM_WORKERS) = Some s \<Longrightarrow> list_all (\<lambda>a. \<forall>t. a \<noteq> Traffic t) as \<Longrightarrow> workers_joined s \<Longrightarrow>
      mset (destinations as) = mset (map Worker_Socket [0..<NUM_WORKERS])"
  by (rule joined_only_if_spread)

theorem stop_needs_every_worker_witness:
  "mset (destinations spread_kicks) = mset (map Worker_Socket [0..<NUM_WORKERS])"
  using stop_needs_every_worker [OF spread_run] spread_joined by simp

end
