(* ===== verification/Latency_Manager.thy ===== *)
theory Latency_Manager
  imports Perf_Monitor
begin

text \<open>
  \<open>class LatencyManager\<close> of \<open>src/latency_manager.hpp\<close> and \<open>src/latency_manager.cpp\<close>: the
  smoothed gap between the measured latency and its targets, the urgency level (0 to 5) derived
  from it, and the boosts the tuner reads. A \<open>double\<close> is a real number.
\<close>

record targets =
  avgMs :: real
  p95Ms :: real

record latency_manager =
  lm_targets :: targets
  smoothedGap :: real
  urgency :: int
  gapPct :: real
  lastAvg :: real
  lastP95 :: real
  bottleneck :: string
  consecutiveOver :: int
  gapHistory :: "real list"

definition MAX_GAP_HISTORY :: nat where "MAX_GAP_HISTORY = 30"

definition lm_init :: latency_manager where
  "lm_init = \<lparr>lm_targets = \<lparr>avgMs = 50, p95Ms = 200\<rparr>, smoothedGap = 0, urgency = 0, gapPct = 0,
     lastAvg = 0, lastP95 = 0, bottleneck = ''none'', consecutiveOver = 0, gapHistory = []\<rparr>"

definition setTargets :: "targets \<Rightarrow> latency_manager \<Rightarrow> latency_manager" where
  "setTargets t lm = lm\<lparr>lm_targets := t\<rparr>"

text \<open>Append to a deque that drops its front beyond a maximal size.\<close>

definition push_bounded :: "nat \<Rightarrow> 'a \<Rightarrow> 'a list \<Rightarrow> 'a list" where
  "push_bounded m x xs = (let ys = xs @ [x] in if m < length ys then tl ys else ys)"

definition raw_gap :: "targets \<Rightarrow> perf_snapshot \<Rightarrow> real" where
  "raw_gap t perf =
     (let rawGap = max (avgLatencyMs perf / avgMs t) (p95LatencyMs perf / p95Ms t)
      in if rawGap < 1 then 1 else rawGap)"

definition gap_urgency :: "real \<Rightarrow> int" where
  "gap_urgency gap =
     (if 10 < gap then 5 else if 5 < gap then 4 else if 3 < gap then 3
      else if 2 < gap then 2 else if 1.5 < gap then 1 else 0)"

definition escalate :: "int \<Rightarrow> int \<Rightarrow> int" where
  "escalate over u =
     (let u = (if 3 \<le> over \<and> 0 < u then min (u + 1) 5 else u)
      in if 6 \<le> over then min (u + 1) 5 else u)"

definition detect_bottleneck :: "perf_snapshot \<Rightarrow> string" where
  "detect_bottleneck perf =
     (if 10 < threadPoolLoad perf then ''queue''
      else if cacheHitRate perf < 0.5 then ''cache''
      else if 0.9 < connUtilization perf then ''upstream'' else ''upstream'')"

definition evaluate :: "perf_snapshot \<Rightarrow> latency_manager \<Rightarrow> latency_manager" where
  "evaluate perf lm =
     (let gap = smoothedGap lm * 0.7 + raw_gap (lm_targets lm) perf * 0.3;
          over = (if 1.1 \<le> gap then min (consecutiveOver lm + 1) 10 else max 0 (consecutiveOver lm - 1))
      in lm\<lparr>lastAvg := avgLatencyMs perf, lastP95 := p95LatencyMs perf, smoothedGap := gap,
            gapPct := (gap - 1) * 100, gapHistory := push_bounded MAX_GAP_HISTORY gap (gapHistory lm),
            consecutiveOver := over, urgency := escalate over (gap_urgency gap),
            bottleneck := detect_bottleneck perf\<rparr>)"

definition threadBoost :: "latency_manager \<Rightarrow> int" where
  "threadBoost lm =
     (let u = urgency lm in
      if u \<le> 0 then 0
      else if bottleneck lm = ''queue'' then u * 3
      else if bottleneck lm = ''upstream'' then u * 2 else u)"

definition connBoost :: "latency_manager \<Rightarrow> int" where
  "connBoost lm =
     (let u = urgency lm in
      if u \<le> 0 then 0
      else if bottleneck lm = ''upstream'' \<or> bottleneck lm = ''cache'' then u * 2 else u)"

definition forceFanOut :: "latency_manager \<Rightarrow> bool" where
  "forceFanOut lm \<longleftrightarrow> 0 < urgency lm"

definition cacheRefreshBoost :: "latency_manager \<Rightarrow> int" where
  "cacheRefreshBoost lm = (let u = urgency lm in if u \<le> 0 then 0 else min (2 + u * 2) 12)"

section \<open>Invariant\<close>

definition lm_inv :: "latency_manager \<Rightarrow> bool" where
  "lm_inv lm \<longleftrightarrow> urgency lm \<in> {0..5} \<and> consecutiveOver lm \<in> {0..10} \<and> 0 \<le> smoothedGap lm
     \<and> length (gapHistory lm) \<le> MAX_GAP_HISTORY"

lemma length_push_bounded: "length xs \<le> m \<Longrightarrow> length (push_bounded m x xs) \<le> m"
  by (auto simp: push_bounded_def Let_def)

lemma raw_gap_ge: "1 \<le> raw_gap t perf"
  by (auto simp: raw_gap_def Let_def not_less)

lemma gap_urgency_range: "gap_urgency g \<in> {0..5}"
  by (simp add: gap_urgency_def)

lemma escalate_range: "u \<in> {0..5} \<Longrightarrow> escalate over u \<in> {0..5}"
  by (auto simp: escalate_def Let_def)

lemma lm_inv_init: "lm_inv lm_init"
  by (simp add: lm_inv_def lm_init_def)

lemma lm_inv_evaluate: "lm_inv lm \<Longrightarrow> lm_inv (evaluate perf lm)"
  using raw_gap_ge [of "lm_targets lm" perf] escalate_range [OF gap_urgency_range]
  by (auto simp: lm_inv_def evaluate_def Let_def length_push_bounded)

interpretation latency: step_invariant "\<lambda>lm perf. evaluate perf lm" "\<lambda>_. True" lm_inv
  by unfold_locales (rule lm_inv_evaluate)

lemma boosts:
  assumes "lm_inv lm"
  shows "threadBoost lm \<in> {0..15}" "connBoost lm \<in> {0..10}" "cacheRefreshBoost lm \<in> {0..12}"
  using assms unfolding lm_inv_def threadBoost_def connBoost_def cacheRefreshBoost_def Let_def
  by auto

section \<open>Recovery\<close>

text \<open>While the targets are met the gap approaches 1 geometrically, and the urgency returns to 0.\<close>

definition within_targets :: "targets \<Rightarrow> perf_snapshot \<Rightarrow> bool" where
  "within_targets t perf \<longleftrightarrow> raw_gap t perf = 1"

definition evaluate_all :: "perf_snapshot list \<Rightarrow> latency_manager \<Rightarrow> latency_manager" where
  "evaluate_all ps lm = foldl (\<lambda>lm perf. evaluate perf lm) lm ps"

lemma targets_evaluate [simp]: "lm_targets (evaluate perf lm) = lm_targets lm"
  by (simp add: evaluate_def Let_def)

lemma gap_within:
  "list_all (within_targets (lm_targets lm)) ps \<Longrightarrow>
    smoothedGap (evaluate_all ps lm) - 1 = (smoothedGap lm - 1) * 0.7 ^ length ps"
proof (induction ps arbitrary: lm)
  case Nil
  then show ?case by (simp add: evaluate_all_def)
next
  case (Cons p ps)
  have "smoothedGap (evaluate p lm) - 1 = (smoothedGap lm - 1) * 0.7"
    using Cons.prems by (simp add: evaluate_def Let_def within_targets_def algebra_simps)
  with Cons.IH [of "evaluate p lm"] Cons.prems show ?case by (simp add: evaluate_all_def)
qed

lemma over_within:
  assumes "list_all (within_targets (lm_targets lm)) ps" "smoothedGap lm < 1.1" "consecutiveOver lm \<le> 10"
    "0 \<le> consecutiveOver lm"
  shows "consecutiveOver (evaluate_all ps lm) = max 0 (consecutiveOver lm - int (length ps))"
  using assms
proof (induction ps arbitrary: lm)
  case Nil
  then show ?case by (simp add: evaluate_all_def)
next
  case (Cons p ps)
  have "smoothedGap (evaluate p lm) < 1.1"
    using Cons.prems by (simp add: evaluate_def Let_def within_targets_def)
  moreover have "consecutiveOver (evaluate p lm) = max 0 (consecutiveOver lm - 1)"
    using Cons.prems by (simp add: evaluate_def Let_def within_targets_def)
  ultimately show ?case using Cons.IH [of "evaluate p lm"] Cons.prems by (simp add: evaluate_all_def)
qed

lemma evaluate_all_append: "evaluate_all (ps @ qs) lm = evaluate_all qs (evaluate_all ps lm)"
  by (simp add: evaluate_all_def)

lemma targets_evaluate_all [simp]: "lm_targets (evaluate_all ps lm) = lm_targets lm"
  by (induction ps arbitrary: lm) (auto simp: evaluate_all_def)

lemma lm_inv_evaluate_all: "lm_inv lm \<Longrightarrow> lm_inv (evaluate_all ps lm)"
  unfolding evaluate_all_def by (rule latency.inv_run) (auto simp: list_all_iff)

lemma urgency_evaluate_all:
  assumes "ps \<noteq> []"
  shows "urgency (evaluate_all ps lm) =
    escalate (consecutiveOver (evaluate_all ps lm)) (gap_urgency (smoothedGap (evaluate_all ps lm)))"
  using assms by (cases ps rule: rev_cases) (simp_all add: evaluate_all_def evaluate_def Let_def)

lemma recovery:
  assumes "lm_inv lm" "list_all (within_targets (lm_targets lm)) ps"
    and "(smoothedGap lm - 1) * 0.7 ^ n < 0.1" "n + 5 \<le> length ps"
  shows "urgency (evaluate_all ps lm) = 0"
proof -
  define lm1 where "lm1 = evaluate_all (take n ps) lm"
  let ?qs = "drop n ps" let ?lm2 = "evaluate_all ?qs lm1"
  have end_state: "evaluate_all ps lm = ?lm2"
    unfolding lm1_def by (metis evaluate_all_append append_take_drop_id)
  have "list_all (within_targets (lm_targets lm)) (take n ps @ ?qs)" using assms(2) by simp
  then have ok: "list_all (within_targets (lm_targets lm)) (take n ps)"
    "list_all (within_targets (lm_targets lm1)) ?qs"
    by (auto simp: lm1_def list_all_iff dest: in_set_takeD in_set_dropD)
  have gap1: "smoothedGap lm1 < 1.1"
    using gap_within [OF ok(1)] assms(3,4) by (simp add: lm1_def)
  have inv1: "lm_inv lm1" unfolding lm1_def by (rule lm_inv_evaluate_all [OF assms(1)])
  have "consecutiveOver ?lm2 \<le> 5"
    using over_within [OF ok(2) gap1] inv1 assms(4) by (simp add: lm_inv_def)
  moreover have "smoothedGap ?lm2 \<le> 1.5"
  proof -
    have "(smoothedGap lm1 - 1) * 0.7 ^ length ?qs \<le> 0.1"
    proof (cases "0 \<le> smoothedGap lm1 - 1")
      case True
      then have "(smoothedGap lm1 - 1) * 0.7 ^ length ?qs \<le> smoothedGap lm1 - 1"
        by (simp add: mult_left_le power_le_one)
      with gap1 show ?thesis by simp
    next
      case False
      then have "(smoothedGap lm1 - 1) * 0.7 ^ length ?qs \<le> 0" by (simp add: mult_le_0_iff)
      then show ?thesis by simp
    qed
    with gap_within [OF ok(2)] show ?thesis by simp
  qed
  moreover have "?qs \<noteq> []" using assms(4) by simp
  ultimately show ?thesis
    unfolding end_state urgency_evaluate_all [OF \<open>?qs \<noteq> []\<close>] by (simp add: gap_urgency_def escalate_def)
qed

lemma recovery_eventually:
  assumes "lm_inv lm"
  obtains N where "\<And>ps. list_all (within_targets (lm_targets lm)) ps \<Longrightarrow> N \<le> length ps \<Longrightarrow>
    urgency (evaluate_all ps lm) = 0"
proof -
  obtain n where n: "(0.7::real) ^ n < 0.1 / (1 + \<bar>smoothedGap lm - 1\<bar>)"
  proof -
    have "0 < 0.1 / (1 + \<bar>smoothedGap lm - 1\<bar>)" by (intro divide_pos_pos) auto
    then show ?thesis using that real_arch_pow_inv [of "0.1 / (1 + \<bar>smoothedGap lm - 1\<bar>)" "0.7"] by auto
  qed
  have "(smoothedGap lm - 1) * 0.7 ^ n \<le> (1 + \<bar>smoothedGap lm - 1\<bar>) * 0.7 ^ n"
    by (intro mult_right_mono) auto
  also have "\<dots> = 0.7 ^ n * (1 + \<bar>smoothedGap lm - 1\<bar>)" by (rule mult.commute)
  also have "\<dots> < 0.1"
    using n pos_less_divide_eq [of "1 + \<bar>smoothedGap lm - 1\<bar>" "0.7 ^ n" "0.1"] by linarith
  finally show ?thesis using recovery [OF assms] that by blast
qed

end
