(* ===== verification/Auto_Tuner.thy ===== *)
theory Auto_Tuner
  imports Latency_Manager Clock
begin

text \<open>
  \<open>class AutoTuner\<close> of \<open>src/auto_tuner.hpp\<close> and \<open>src/auto_tuner.cpp\<close>. \<open>tune\<close> runs every
  three seconds: it reads a performance snapshot, lets the latency manager judge it, and adjusts
  the number of upstream connections and worker threads, the refresh threshold, the fan-out flag
  and the cache's TTL limits. Each commented part of \<open>AutoTuner::tune\<close> is a definition here, in
  the order of the code; the \<open>static\<close> locals are fields of the state. Times are nanoseconds
  of the steady clock, a \<open>double\<close> is a real number. What \<open>tune\<close> only logs is left out.
\<close>

section \<open>State\<close>

record auto_tuner =
  connCount :: int
  threadCount :: int
  refreshPct :: int
  fanOut :: bool
  predictedLat :: real
  latVariance :: real
  trendSlope :: real
  qps :: real
  prevLatency :: real
  prevErrorRate :: real
  integral :: real
  prevDerivative :: real
  latHistory :: "(int \<times> real) list"
  qpsHistory :: "(int \<times> real) list"
  consecutiveHighLat :: int
  consecutiveHighErr :: int
  consecutiveLowLoad :: int
  samplesCollected :: int
  turboCycles :: int
  anomalyCooldown :: int
  lastConnChange :: int
  kalmanEstimate :: real
  kalmanError :: real
  prevUrgency :: int
  probeCooldown :: int
  lastQueries :: int
  lastQpsCheck :: "int option"

definition at_init :: auto_tuner where
  "at_init = \<lparr>connCount = 32, threadCount = 20, refreshPct = 10, fanOut = True, predictedLat = 0,
     latVariance = 0, trendSlope = 0, qps = 0, prevLatency = 0, prevErrorRate = 0, integral = 0,
     prevDerivative = 0, latHistory = [], qpsHistory = [], consecutiveHighLat = 0,
     consecutiveHighErr = 0, consecutiveLowLoad = 0, samplesCollected = 0, turboCycles = 0,
     anomalyCooldown = 0, lastConnChange = 0, kalmanEstimate = 0, kalmanError = 1,
     prevUrgency = 0, probeCooldown = 0, lastQueries = 0, lastQpsCheck = None\<rparr>"

definition MAX_HISTORY :: nat where "MAX_HISTORY = 150"
definition MIN_CONNS :: int where "MIN_CONNS = 24"
definition MAX_CONNS :: int where "MAX_CONNS = 48"
definition MIN_THREADS :: int where "MIN_THREADS = 16"
definition MAX_THREADS :: int where "MAX_THREADS = 32"
definition CONN_CHANGE_HOLDOFF :: int where "CONN_CHANGE_HOLDOFF = seconds 15"

lemmas tuner_limits = MIN_CONNS_def MAX_CONNS_def MIN_THREADS_def MAX_THREADS_def

section \<open>Measurements\<close>

definition kalmanFilter :: "real \<Rightarrow> auto_tuner \<Rightarrow> auto_tuner" where
  "kalmanFilter measurement s =
     (let pred = kalmanEstimate s; predError = kalmanError s + 0.01;
          kg = predError / (predError + 5)
      in s\<lparr>kalmanEstimate := pred + kg * (measurement - pred), kalmanError := (1 - kg) * predError\<rparr>)"

definition computeTrend :: "(int \<times> real) list \<Rightarrow> real" where
  "computeTrend hist =
     (if length hist < 10 then 0
      else let n = real (length hist); xs = map real [0..<length hist]; ys = map snd hist;
               sumX = sum_list xs; sumY = sum_list ys;
               sumXY = sum_list (map2 (*) xs ys); sumX2 = sum_list (map (\<lambda>x. x * x) xs)
           in (n * sumXY - sumX * sumY) / (n * sumX2 - sumX * sumX))"

definition computeVariance :: "(int \<times> real) list \<Rightarrow> real" where
  "computeVariance hist =
     (if length hist < 5 then 0
      else let n = real (length hist); mean = sum_list (map snd hist) / n
           in sum_list (map (\<lambda>p. (snd p - mean) * (snd p - mean)) hist) / n)"

text \<open>Probing idle connections when the urgency spikes or stays high; the result says whether
  \<open>probeIdleConnections\<close> is called.\<close>

definition tune_probe :: "int \<Rightarrow> auto_tuner \<Rightarrow> auto_tuner \<times> bool" where
  "tune_probe latUrgency s =
     (let probe = (2 \<le> latUrgency \<and> (prevUrgency s < 2 \<or> probeCooldown s \<le> 0));
          cd = (if probe then 3 else probeCooldown s);
          cd = (if 0 < cd then cd - 1 else cd)
      in (s\<lparr>probeCooldown := cd, prevUrgency := latUrgency\<rparr>, probe))"

definition constrain :: "real \<Rightarrow> real" where
  "constrain rawLat = (let r = (if rawLat < 1 then 1 else rawLat) in if 10000 < r then 10000 else r)"

definition tune_latency :: "int \<Rightarrow> real \<Rightarrow> auto_tuner \<Rightarrow> auto_tuner" where
  "tune_latency now rawLat s =
     (let s = kalmanFilter (constrain rawLat) s; lat = kalmanEstimate s
      in s\<lparr>predictedLat := lat, latHistory := push_bounded MAX_HISTORY (now, lat) (latHistory s)\<rparr>)"

definition computeQps :: "auto_tuner \<Rightarrow> real" where
  "computeQps s =
     (let h = qpsHistory s in
      if length h < 2 then 0
      else let span = duration_cast (seconds 1) (fst (last h) - fst (hd h)) in
        if span < 1 then 0 else sum_list (map snd h) / of_int span)"

definition tune_qps :: "int \<Rightarrow> int \<Rightarrow> auto_tuner \<Rightarrow> auto_tuner" where
  "tune_qps now queries s =
     (let lastCheck = (case lastQpsCheck s of None \<Rightarrow> now | Some t \<Rightarrow> t);
          elapsed = duration_cast (seconds 1) (now - lastCheck);
          q = (if 1 \<le> elapsed then of_int (queries - lastQueries s) / of_int elapsed else 0)
      in s\<lparr>lastQueries := (if 1 \<le> elapsed then queries else lastQueries s),
            lastQpsCheck := Some (if 1 \<le> elapsed then now else lastCheck),
            qpsHistory := push_bounded MAX_HISTORY (now, q) (qpsHistory s), qps := q\<rparr>)"

definition tune_trend :: "auto_tuner \<Rightarrow> auto_tuner" where
  "tune_trend s = s\<lparr>trendSlope := computeTrend (latHistory s), latVariance := computeVariance (latHistory s)\<rparr>"

text \<open>The PID terms; the controller's output is only logged.\<close>

definition tune_pid :: "real \<Rightarrow> auto_tuner \<Rightarrow> auto_tuner" where
  "tune_pid lat s =
     (let latencyError = (if prevLatency s \<le> 0 then 0
            else (lat - prevLatency s) / (if 0 < prevLatency s then prevLatency s else 1))
      in s\<lparr>integral := clamp (integral s + latencyError * 0.1) (- 5) 5, prevDerivative := latencyError\<rparr>)"

definition count_state :: "bool \<Rightarrow> int \<Rightarrow> int" where
  "count_state b n = (if b then n + 1 else max 0 (n - 1))"

definition tune_counts :: "real \<Rightarrow> real \<Rightarrow> auto_tuner \<Rightarrow> auto_tuner" where
  "tune_counts lat err s =
     s\<lparr>consecutiveHighLat := count_state (200 < lat) (consecutiveHighLat s),
        consecutiveHighErr := count_state (0.05 < err) (consecutiveHighErr s),
        consecutiveLowLoad := count_state (lat < 50 \<and> err < 0.01) (consecutiveLowLoad s)\<rparr>"

section \<open>Anomalies\<close>

definition tune_idle :: "int \<Rightarrow> real \<Rightarrow> auto_tuner \<Rightarrow> auto_tuner \<times> bool" where
  "tune_idle load lat s =
     (if load = 0 \<and> 8 \<le> consecutiveLowLoad s
      then (s\<lparr>connCount := max (connCount s - 1) MIN_CONNS,
               threadCount := max (threadCount s - 1) MIN_THREADS,
               integral := integral s * 0.5, prevLatency := lat\<rparr>, True)
      else (s, False))"

definition tune_stuck :: "int \<Rightarrow> auto_tuner \<times> ttl_config \<Rightarrow> (auto_tuner \<times> ttl_config) \<times> bool" where
  "tune_stuck load = (\<lambda>(s, ttl).
     if 200 < load \<and> 3 \<le> consecutiveHighLat s
     then ((s\<lparr>threadCount := max (threadCount s - 2) MIN_THREADS,
               connCount := max (connCount s - 2) MIN_CONNS,
               consecutiveHighLat := 0, consecutiveHighErr := 0\<rparr>,
            ttl\<lparr>minTTLSecs := min (minTTLSecs ttl + 120) 1200,
                negativeTTLSecs := min (negativeTTLSecs ttl + 120) 600\<rparr>), True)
     else ((s, ttl), False))"

definition tune_error_spike :: "real \<Rightarrow> int \<Rightarrow> auto_tuner \<Rightarrow> auto_tuner \<times> bool" where
  "tune_error_spike err now s =
     (if 0.03 < err \<and> 2 \<le> consecutiveHighErr s
      then (s\<lparr>connCount := max (connCount s - 1) MIN_CONNS, lastConnChange := now,
               consecutiveHighErr := 0\<rparr>, True)
      else (s, False))"

definition tune_hit_collapse :: "real \<Rightarrow> int \<Rightarrow> ttl_config \<Rightarrow> ttl_config \<times> bool" where
  "tune_hit_collapse hitRate samples ttl =
     (if hitRate < 0.5 \<and> 60 < samples
      then (ttl\<lparr>minTTLSecs := min (minTTLSecs ttl + 300) 7200,
                negativeTTLSecs := min (negativeTTLSecs ttl + 120) 3600\<rparr>, True)
      else (ttl, False))"

definition tune_latency_boost :: "bool \<Rightarrow> real \<Rightarrow> real \<Rightarrow> int \<Rightarrow> ttl_config \<Rightarrow> ttl_config" where
  "tune_latency_boost anomalyHit hitRate lat samples ttl =
     (if \<not> anomalyHit \<and> hitRate < 0.7 \<and> 150 < lat \<and> 30 < samples \<and> minTTLSecs ttl < 3600
      then ttl\<lparr>minTTLSecs := min (minTTLSecs ttl + \<lfloor>(lat - 50) * 2\<rfloor>) 7200,
               negativeTTLSecs := min (negativeTTLSecs ttl + 60) 3600\<rparr>
      else ttl)"

definition tune_cooldown :: "bool \<Rightarrow> bool \<Rightarrow> int \<Rightarrow> auto_tuner \<Rightarrow> auto_tuner \<times> bool" where
  "tune_cooldown anomalyHit idleRecovery now s =
     (if anomalyHit then (s\<lparr>anomalyCooldown := 6, lastConnChange := now\<rparr>, True)
      else if 0 < anomalyCooldown s
      then (s\<lparr>anomalyCooldown := anomalyCooldown s - 1\<rparr>, idleRecovery \<or> 0 < anomalyCooldown s - 1)
      else (s, idleRecovery))"

section \<open>Connections\<close>

text \<open>The measurements that the growth rules read.\<close>

record load_view =
  lv_lat :: real
  lv_err :: real
  lv_util :: real
  lv_trend :: real
  lv_qps :: real
  lv_load :: int
  lv_p95 :: real
  lv_hitRate :: real

text \<open>The chain of growth rules, the first that applies; \<open>newConn\<close> where none does.\<close>

definition conn_growth :: "load_view \<Rightarrow> auto_tuner \<Rightarrow> int \<Rightarrow> int \<Rightarrow> int" where
  "conn_growth v s curConn newConn =
     (if 0.90 < lv_util v \<and> 200 < lv_lat v \<and> curConn < MAX_CONNS
      then min (curConn + (if 0.95 < lv_util v then 3 else 2)) MAX_CONNS
      else if 0.70 < lv_util v \<and> 3 < lv_trend v \<and> 5 < lv_qps v \<and> curConn < MAX_CONNS
      then min (curConn + 2) MAX_CONNS
      else if 0.85 < lv_util v \<and> 5 < lv_qps v \<and> curConn < MAX_CONNS
      then min (curConn + (if 0.95 < lv_util v then 3 else 2)) MAX_CONNS
      else if 0.02 < lv_err v \<or> 2 \<le> consecutiveHighErr s
      then min (curConn + 2) MAX_CONNS
      else if 200 < lv_lat v \<and> 5 < lv_qps v \<and> curConn < MAX_CONNS
      then min (curConn + 1) MAX_CONNS
      else if 5 < lv_trend v \<and> curConn < MAX_CONNS
      then min (curConn + 1) MAX_CONNS
      else newConn)"

definition conn_turbo :: "load_view \<Rightarrow> bool \<Rightarrow> int \<Rightarrow> int" where
  "conn_turbo v inTurbo curConn =
     (if inTurbo \<and> 50 < lv_load v
      then let growth = min 4 (MAX_CONNS - curConn) in if 0 < growth then curConn + growth else curConn
      else curConn)"

definition proxy_saturated :: "load_view \<Rightarrow> int \<Rightarrow> bool" where
  "proxy_saturated v curConn \<longleftrightarrow> 1000 < lv_lat v \<and> lv_util v < 0.7 \<and> MIN_CONNS < curConn"

definition conn_shrink :: "load_view \<Rightarrow> auto_tuner \<Rightarrow> int \<Rightarrow> int \<Rightarrow> int" where
  "conn_shrink v s curConn newConn =
     (if proxy_saturated v curConn then max (curConn - 1) MIN_CONNS
      else if 3 \<le> consecutiveLowLoad s \<and> MIN_CONNS < curConn then curConn - 1 else newConn)"

definition conn_boosted :: "latency_manager \<Rightarrow> bool \<Rightarrow> int \<Rightarrow> int" where
  "conn_boosted lm saturated newConn =
     (if 0 < urgency lm \<and> \<not> saturated \<and> newConn < MAX_CONNS
      then let boosted = min (newConn + connBoost lm) MAX_CONNS in if newConn < boosted then boosted else newConn
      else newConn)"

definition tune_conns :: "load_view \<Rightarrow> int \<Rightarrow> latency_manager \<Rightarrow> auto_tuner \<Rightarrow> auto_tuner" where
  "tune_conns v now lm s =
     (let curConn = connCount s; inTurbo = (2 \<le> turboCycles s); saturated = proxy_saturated v curConn;
          newConn = conn_turbo v inTurbo curConn;
          newConn = (if \<not> inTurbo then conn_shrink v s curConn newConn else newConn);
          newConn = (if \<not> inTurbo \<and> \<not> saturated then conn_growth v s curConn newConn else newConn);
          newConn = conn_boosted lm saturated newConn;
          newConn = (if curConn < newConn \<and> now - lastConnChange s < CONN_CHANGE_HOLDOFF then curConn else newConn)
      in s\<lparr>lastConnChange := (if newConn \<noteq> curConn then now else lastConnChange s), connCount := newConn\<rparr>)"

definition tune_fanout :: "load_view \<Rightarrow> latency_manager \<Rightarrow> auto_tuner \<Rightarrow> auto_tuner" where
  "tune_fanout v lm s =
     (let bootPhase = (samplesCollected s < 12); lmForceFan = forceFanOut lm; tailIssue = (120 < lv_p95 v)
      in if bootPhase \<or> lmForceFan \<or> 0.03 < lv_err v \<or> tailIssue \<or> 300 < lv_lat v
            \<or> (50 < latVariance s \<and> 2 \<le> consecutiveHighLat s)
         then s\<lparr>fanOut := True\<rparr>
         else if \<not> lmForceFan \<and> 24 < samplesCollected s \<and> lv_err v < 0.01 \<and> lv_p95 v < 60 \<and> latVariance s < 20
         then s\<lparr>fanOut := False\<rparr>
         else s)"

section \<open>Threads\<close>

definition tune_turbo :: "int \<Rightarrow> auto_tuner \<Rightarrow> auto_tuner \<times> int" where
  "tune_turbo load s =
     (let cur = threadCount s in
      if 50 < load
      then let cycles = min (turboCycles s + 1) 10 in
        if 2 \<le> cycles
        then let growth = min 8 (MAX_THREADS - cur) in
          if 0 < growth then (s\<lparr>turboCycles := cycles\<rparr>, cur + growth)
          else (s\<lparr>turboCycles := min cycles 5\<rparr>, cur)
        else (s\<lparr>turboCycles := cycles\<rparr>, cur)
      else (s\<lparr>turboCycles := max 0 (turboCycles s - 1)\<rparr>, cur))"

definition thread_growth :: "load_view \<Rightarrow> int \<Rightarrow> int \<Rightarrow> int" where
  "thread_growth v cur new =
     (if 0.5 < lv_util v \<and> 3 < lv_trend v \<and> cur < MAX_THREADS then min (cur + 1) MAX_THREADS
      else if 0.8 < lv_util v \<and> 200 < lv_lat v \<and> cur < MAX_THREADS then min (cur + 2) MAX_THREADS
      else if 3 < lv_load v \<and> 100 < lv_lat v \<and> cur < MAX_THREADS then min (cur + 2) MAX_THREADS
      else if 5 < lv_load v \<and> cur < MAX_THREADS then min (cur + 1) MAX_THREADS
      else new)"

definition thread_shrink :: "load_view \<Rightarrow> int \<Rightarrow> auto_tuner \<Rightarrow> int \<Rightarrow> int \<Rightarrow> int" where
  "thread_shrink v curConn s cur new =
     (if curConn + curConn div 5 < cur \<and> MIN_THREADS < cur then max (curConn + curConn div 5) MIN_THREADS
      else if lv_util v < 0.7
      then if lv_load v = 0 \<and> 8 \<le> consecutiveLowLoad s \<and> MIN_THREADS < cur then cur - 1
           else if lv_load v < 3 \<and> 12 \<le> consecutiveLowLoad s \<and> MIN_THREADS < cur then cur - 1
           else new
      else new)"

text \<open>\<open>curConn\<close> is the connection count from before this cycle's adjustment.\<close>

definition thread_target :: "load_view \<Rightarrow> int \<Rightarrow> latency_manager \<Rightarrow> auto_tuner \<Rightarrow> int \<Rightarrow> int" where
  "thread_target v curConn lm s new =
     (let cur = threadCount s; inTurbo = (2 \<le> turboCycles s);
          new = (if \<not> inTurbo then thread_growth v cur new else new);
          new = (if \<not> inTurbo then thread_shrink v curConn s cur new else new)
      in if 0 < urgency lm \<and> \<not> inTurbo \<and> new < MAX_THREADS
         then let boosted = min (new + threadBoost lm) MAX_THREADS in if new < boosted then boosted else new
         else new)"

definition tune_threads :: "load_view \<Rightarrow> int \<Rightarrow> latency_manager \<Rightarrow> auto_tuner \<Rightarrow> auto_tuner" where
  "tune_threads v curConn lm s =
     (let (s, new) = tune_turbo (lv_load v) s;
          new = thread_target v curConn lm s new;
          new = (if new < MIN_THREADS then MIN_THREADS else new);
          new = (if MAX_THREADS < new then MAX_THREADS else new)
      in s\<lparr>threadCount := new\<rparr>)"

section \<open>Refresh threshold and TTL limits\<close>

definition tune_refresh :: "real \<Rightarrow> latency_manager \<Rightarrow> auto_tuner \<Rightarrow> auto_tuner" where
  "tune_refresh hitRate lm s =
     (let cur = refreshPct s in
      s\<lparr>refreshPct :=
         (if samplesCollected s < 12 then 15
          else if 0 < urgency lm \<and> cur < 50 then min (cur + cacheRefreshBoost lm) 10
          else if hitRate < 0.3 \<and> cur < 30 then min (cur + 5) 10
          else if 0.8 < hitRate \<and> 5 < cur then max (cur - 2) 5
          else cur)\<rparr>)"

definition tune_ttl :: "real \<Rightarrow> real \<Rightarrow> int \<Rightarrow> ttl_config \<Rightarrow> ttl_config" where
  "tune_ttl lat hitRate samples ttl =
     (if 12 < samples
      then let curMin = minTTLSecs ttl; curNeg = negativeTTLSecs ttl;
               ttl = (if 80 < lat \<and> hitRate < 0.92 \<and> curMin < 900
                      then ttl\<lparr>minTTLSecs := curMin + 60, negativeTTLSecs := min (curNeg + 60) 600\<rparr> else ttl)
           in if lat < 40 \<and> 0.95 < hitRate \<and> 300 < curMin then ttl\<lparr>minTTLSecs := curMin - 60\<rparr> else ttl
      else ttl)"

section \<open>tune\<close>

text \<open>The growth half of \<open>tune\<close>, after the anomaly checks.\<close>

definition tune_grow :: "load_view \<Rightarrow> int \<Rightarrow> latency_manager \<Rightarrow> auto_tuner \<times> ttl_config \<Rightarrow> auto_tuner \<times> ttl_config" where
  "tune_grow v now lm = (\<lambda>(s, ttl).
     let curConn = connCount s;
         s = tune_conns v now lm s;
         s = tune_fanout v lm s;
         s = tune_threads v curConn lm s;
         s = tune_refresh (lv_hitRate v) lm s;
         ttl = tune_ttl (lv_lat v) (lv_hitRate v) (samplesCollected s) ttl
     in (s, ttl))"

text \<open>The first half: measurements and anomaly checks. The result says whether an anomaly was
  found and whether growth is skipped in this cycle.\<close>

definition tune_measure :: "perf_snapshot \<Rightarrow> int \<Rightarrow> int \<Rightarrow> auto_tuner \<Rightarrow> auto_tuner" where
  "tune_measure perf now queries s =
     (let s = tune_latency now (avgLatencyMs perf) s;
          s = tune_qps now queries s;
          s = tune_trend s;
          s = tune_pid (kalmanEstimate s) s
      in tune_counts (kalmanEstimate s) (errorRate perf) s)"

definition tune_anomalies :: "perf_snapshot \<Rightarrow> int \<Rightarrow> auto_tuner \<times> ttl_config \<Rightarrow> (auto_tuner \<times> ttl_config) \<times> bool \<times> bool" where
  "tune_anomalies perf now = (\<lambda>(s, ttl).
     let lat = kalmanEstimate s; load = threadPoolLoad perf;
         (s, idleRecovery) = tune_idle load lat s;
         ((s, ttl), stuck) = tune_stuck load (s, ttl);
         (s, spike) = tune_error_spike (errorRate perf) now s;
         (ttl, collapse) = tune_hit_collapse (cacheHitRate perf) (samplesCollected s) ttl;
         anomalyHit = (stuck \<or> spike \<or> collapse);
         ttl = tune_latency_boost anomalyHit (cacheHitRate perf) lat (samplesCollected s) ttl;
         (s, skipGrowth) = tune_cooldown anomalyHit idleRecovery now s
     in ((s, ttl), anomalyHit, skipGrowth))"

definition view_of :: "perf_snapshot \<Rightarrow> auto_tuner \<Rightarrow> load_view" where
  "view_of perf s = \<lparr>lv_lat = kalmanEstimate s, lv_err = errorRate perf, lv_util = connUtilization perf,
     lv_trend = trendSlope s, lv_qps = qps s, lv_load = threadPoolLoad perf,
     lv_p95 = p95LatencyMs perf, lv_hitRate = cacheHitRate perf\<rparr>"

definition tune_finish :: "perf_snapshot \<Rightarrow> auto_tuner \<Rightarrow> auto_tuner" where
  "tune_finish perf s = s\<lparr>prevLatency := kalmanEstimate s, prevErrorRate := errorRate perf,
     samplesCollected := samplesCollected s + 1\<rparr>"

record tuning =
  tn_perf :: perf_monitor
  tn_lm :: latency_manager
  tn_tuner :: auto_tuner
  tn_ttl :: ttl_config
  tn_probes :: nat

definition tune :: "(perf_snapshot \<Rightarrow> perf_snapshot) \<Rightarrow> int \<Rightarrow> tuning \<Rightarrow> tuning" where
  "tune extra now t =
     (let perf = snapshot extra (tn_perf t);
          pm = decayErrors (tn_perf t);
          lm = evaluate perf (tn_lm t);
          (s, probe) = tune_probe (urgency lm) (tn_tuner t);
          s = tune_measure perf now (pm_queries pm) s;
          ((s, ttl), anomalyHit, skipGrowth) = tune_anomalies perf now (s, tn_ttl t);
          (s, ttl) = (if skipGrowth then (s, ttl) else tune_grow (view_of perf s) now lm (s, ttl))
      in \<lparr>tn_perf = pm, tn_lm = lm, tn_tuner = tune_finish perf s, tn_ttl = ttl,
          tn_probes = tn_probes t + (if probe then 1 else 0)\<rparr>)"

section \<open>Invariant\<close>

definition at_inv :: "auto_tuner \<Rightarrow> bool" where
  "at_inv s \<longleftrightarrow> connCount s \<in> {MIN_CONNS..MAX_CONNS} \<and> threadCount s \<in> {MIN_THREADS..MAX_THREADS}
     \<and> refreshPct s \<in> {5..15} \<and> integral s \<in> {- 5..5} \<and> turboCycles s \<in> {0..10}
     \<and> anomalyCooldown s \<in> {0..6} \<and> probeCooldown s \<in> {0..3}
     \<and> length (latHistory s) \<le> MAX_HISTORY \<and> length (qpsHistory s) \<le> MAX_HISTORY
     \<and> 0 < kalmanError s \<and> kalmanError s \<le> 1 \<and> 0 \<le> kalmanEstimate s \<and> kalmanEstimate s \<le> 10000"

definition ttl_inv :: "ttl_config \<Rightarrow> bool" where
  "ttl_inv t \<longleftrightarrow> minTTLSecs t \<in> {241..7200} \<and> negativeTTLSecs t \<in> {300..3600}"

lemma at_inv_init: "at_inv at_init"
  by (simp add: at_inv_def at_init_def tuner_limits)

lemma ttl_inv_init: "ttl_inv ttl_init"
  by (simp add: ttl_inv_def ttl_init_def)

lemma at_inv_probe: "at_inv s \<Longrightarrow> at_inv (fst (tune_probe u s))"
  by (auto simp: at_inv_def tune_probe_def Let_def)

lemma kalman_gain:
  fixes e :: real
  assumes "0 < e" "e \<le> 1"
  defines "pe \<equiv> e + 0.01"
  defines "kg \<equiv> pe / (pe + 5)"
  shows "0 < kg" "kg < 1" "0 < (1 - kg) * pe" "(1 - kg) * pe \<le> 1"
proof -
  have pe: "0 < pe" "pe \<le> 1.01" using assms by (auto simp: pe_def)
  then show "0 < kg" "kg < 1" by (auto simp: kg_def)
  then show "0 < (1 - kg) * pe" using pe by simp
  have "1 - kg = 5 / (pe + 5)" using pe by (simp add: kg_def field_simps)
  then have "(1 - kg) * pe = 5 * pe / (pe + 5)" by simp
  also have "\<dots> \<le> 1" using pe by (simp add: divide_le_eq)
  finally show "(1 - kg) * pe \<le> 1" .
qed

lemma convex_between:
  fixes k :: real
  assumes "0 \<le> k" "k \<le> 1" "lo \<le> x" "x \<le> hi" "lo \<le> y" "y \<le> hi"
  shows "lo \<le> x + k * (y - x)" "x + k * (y - x) \<le> hi"
proof -
  have "(1 - k) * lo + k * lo \<le> (1 - k) * x + k * y" "(1 - k) * x + k * y \<le> (1 - k) * hi + k * hi"
    using assms by (intro add_mono mult_left_mono; simp)+
  then show "lo \<le> x + k * (y - x)" "x + k * (y - x) \<le> hi" by (simp_all add: algebra_simps)
qed

lemma constrain_range: "1 \<le> constrain x" "constrain x \<le> 10000"
  by (auto simp: constrain_def Let_def)

lemma at_inv_kalman:
  assumes "at_inv s" "0 \<le> m" "m \<le> 10000"
  shows "at_inv (kalmanFilter m s)"
proof -
  define pe where "pe = kalmanError s + 0.01"
  define kg where "kg = pe / (pe + 5)"
  have kg: "0 < kg" "kg < 1" "0 < (1 - kg) * pe" "(1 - kg) * pe \<le> 1"
    using kalman_gain [of "kalmanError s"] assms(1) unfolding kg_def pe_def at_inv_def by blast+
  have "0 \<le> kalmanEstimate s + kg * (m - kalmanEstimate s)"
    "kalmanEstimate s + kg * (m - kalmanEstimate s) \<le> 10000"
    using convex_between [of kg 0 "kalmanEstimate s" 10000 m] kg assms by (auto simp: at_inv_def)
  moreover have "kalmanFilter m s =
      s\<lparr>kalmanEstimate := kalmanEstimate s + kg * (m - kalmanEstimate s), kalmanError := (1 - kg) * pe\<rparr>"
    by (simp only: kalmanFilter_def Let_def kg_def pe_def)
  ultimately show ?thesis using assms(1) kg(3,4) by (simp add: at_inv_def del: mult_less_0_iff)
qed

lemma at_inv_latency: "at_inv s \<Longrightarrow> at_inv (tune_latency now r s)"
  using at_inv_kalman [of s "constrain r"] constrain_range [of r]
  unfolding tune_latency_def Let_def by (simp add: at_inv_def length_push_bounded)

lemma at_inv_measure: "at_inv s \<Longrightarrow> at_inv (tune_measure perf now q s)"
proof -
  assume "at_inv s"
  then have "at_inv (tune_latency now (avgLatencyMs perf) s)" (is "at_inv ?s1") by (rule at_inv_latency)
  then have "at_inv (tune_qps now q ?s1)" (is "at_inv ?s2")
    by (auto simp: at_inv_def tune_qps_def Let_def length_push_bounded)
  then have "at_inv (tune_trend ?s2)" (is "at_inv ?s3") by (simp add: at_inv_def tune_trend_def)
  then have "at_inv (tune_pid l ?s3)" for l by (simp add: at_inv_def tune_pid_def Let_def)
  then show ?thesis by (simp add: tune_measure_def Let_def at_inv_def tune_counts_def)
qed

text \<open>The parts of the anomaly check, one by one.\<close>

lemma inv_idle: "at_inv s \<Longrightarrow> tune_idle load lat s = (s', b) \<Longrightarrow> at_inv s'"
  by (auto simp: tune_idle_def at_inv_def tuner_limits split: if_splits)

lemma inv_stuck:
  "at_inv s \<Longrightarrow> tune_stuck load (s, t) = ((s', t'), b) \<Longrightarrow> at_inv s'"
  "ttl_inv t \<Longrightarrow> tune_stuck load (s, t) = ((s', t'), b) \<Longrightarrow> ttl_inv t'"
  by (auto simp: tune_stuck_def at_inv_def ttl_inv_def tuner_limits split: if_splits)

lemma inv_spike: "at_inv s \<Longrightarrow> tune_error_spike e now s = (s', b) \<Longrightarrow> at_inv s'"
  by (auto simp: tune_error_spike_def at_inv_def tuner_limits split: if_splits)

lemma inv_collapse: "ttl_inv t \<Longrightarrow> tune_hit_collapse r n t = (t', b) \<Longrightarrow> ttl_inv t'"
  by (auto simp: tune_hit_collapse_def ttl_inv_def split: if_splits)

lemma inv_boost: "ttl_inv t \<Longrightarrow> ttl_inv (tune_latency_boost b r l n t)"
proof -
  assume t: "ttl_inv t"
  define g where "g = \<lfloor>(l - 50) * 2\<rfloor>"
  have "0 \<le> g" if "150 < l" using that by (simp add: g_def)
  with t show ?thesis unfolding tune_latency_boost_def g_def [symmetric] by (auto simp: ttl_inv_def)
qed

lemma inv_cooldown: "at_inv s \<Longrightarrow> tune_cooldown h i now s = (s', b) \<Longrightarrow> at_inv s'"
  by (auto simp: tune_cooldown_def at_inv_def split: if_splits)

text \<open>The run of the anomaly check, with the states between its parts.\<close>

lemma anomalies_cases:
  assumes "tune_anomalies perf now (s, ttl) = ((s', ttl'), hit, skip)"
  obtains s1 s2 s3 t1 t2 i a b c where
    "tune_idle (threadPoolLoad perf) (kalmanEstimate s) s = (s1, i)"
    "tune_stuck (threadPoolLoad perf) (s1, ttl) = ((s2, t1), a)"
    "tune_error_spike (errorRate perf) now s2 = (s3, b)"
    "tune_hit_collapse (cacheHitRate perf) (samplesCollected s3) t1 = (t2, c)"
    "hit = (a \<or> b \<or> c)"
    "ttl' = tune_latency_boost hit (cacheHitRate perf) (kalmanEstimate s) (samplesCollected s3) t2"
    "tune_cooldown hit i now s3 = (s', skip)"
proof -
  obtain s1 i where 1: "tune_idle (threadPoolLoad perf) (kalmanEstimate s) s = (s1, i)" by fastforce
  obtain s2 t1 a where 2: "tune_stuck (threadPoolLoad perf) (s1, ttl) = ((s2, t1), a)"
    by (metis prod.exhaust)
  obtain s3 b where 3: "tune_error_spike (errorRate perf) now s2 = (s3, b)" by fastforce
  obtain t2 c where 4: "tune_hit_collapse (cacheHitRate perf) (samplesCollected s3) t1 = (t2, c)" by fastforce
  obtain s4 k where 5: "tune_cooldown (a \<or> b \<or> c) i now s3 = (s4, k)" by fastforce
  from assms have "s4 = s'" "hit = (a \<or> b \<or> c)" "skip = k"
    "ttl' = tune_latency_boost hit (cacheHitRate perf) (kalmanEstimate s) (samplesCollected s3) t2"
    by (auto simp: tune_anomalies_def Let_def 1 2 3 4 5)
  with 1 2 3 4 5 show ?thesis using that by simp
qed

lemma at_inv_anomalies:
  assumes "tune_anomalies perf now (s, ttl) = ((s', ttl'), hit, skip)"
  shows "at_inv s \<Longrightarrow> at_inv s'" "ttl_inv ttl \<Longrightarrow> ttl_inv ttl'"
proof -
  from assms obtain s1 s2 s3 t1 t2 i a b c where run:
    "tune_idle (threadPoolLoad perf) (kalmanEstimate s) s = (s1, i)"
    "tune_stuck (threadPoolLoad perf) (s1, ttl) = ((s2, t1), a)"
    "tune_error_spike (errorRate perf) now s2 = (s3, b)"
    "tune_hit_collapse (cacheHitRate perf) (samplesCollected s3) t1 = (t2, c)"
    "ttl' = tune_latency_boost hit (cacheHitRate perf) (kalmanEstimate s) (samplesCollected s3) t2"
    "tune_cooldown hit i now s3 = (s', skip)"
    by (rule anomalies_cases)
  show "at_inv s \<Longrightarrow> at_inv s'"
    using run(1-3,6) inv_idle inv_stuck(1) inv_spike inv_cooldown by metis
  show "ttl_inv ttl \<Longrightarrow> ttl_inv ttl'"
    using run(2,4,5) inv_stuck(2) inv_collapse inv_boost by metis
qed

section \<open>The growth half keeps the invariant\<close>

lemma conn_ranges:
  assumes "cur \<in> {MIN_CONNS..MAX_CONNS}"
  shows "conn_turbo v b cur \<in> {MIN_CONNS..MAX_CONNS}"
    and "new \<in> {MIN_CONNS..MAX_CONNS} \<Longrightarrow> conn_shrink v s cur new \<in> {MIN_CONNS..MAX_CONNS}"
    and "new \<in> {MIN_CONNS..MAX_CONNS} \<Longrightarrow> conn_growth v s cur new \<in> {MIN_CONNS..MAX_CONNS}"
    and "new \<in> {MIN_CONNS..MAX_CONNS} \<Longrightarrow> conn_boosted lm b new \<in> {MIN_CONNS..MAX_CONNS}"
  using assms by (auto simp: conn_turbo_def conn_shrink_def conn_growth_def conn_boosted_def Let_def)

lemma at_inv_conns:
  assumes "at_inv s"
  shows "at_inv (tune_conns v now lm s)"
proof -
  have cur: "connCount s \<in> {MIN_CONNS..MAX_CONNS}" using assms by (simp add: at_inv_def)
  have "connCount (tune_conns v now lm s) \<in> {MIN_CONNS..MAX_CONNS}"
    unfolding tune_conns_def Let_def by (simp add: conn_ranges [OF cur] cur del: atLeastAtMost_iff)
  then show ?thesis using assms by (simp add: at_inv_def tune_conns_def Let_def)
qed

lemma at_inv_fanout: "at_inv s \<Longrightarrow> at_inv (tune_fanout v lm s)"
  by (auto simp: at_inv_def tune_fanout_def Let_def)

lemma at_inv_turbo: "at_inv s \<Longrightarrow> tune_turbo load s = (s', new) \<Longrightarrow> at_inv s'"
  by (auto simp: at_inv_def tune_turbo_def Let_def split: if_splits)

lemma clamp_threads:
  "(if MAX_THREADS < (if n < MIN_THREADS then MIN_THREADS else n) then MAX_THREADS
    else if n < MIN_THREADS then MIN_THREADS else n) \<in> {MIN_THREADS..MAX_THREADS}"
  by (simp add: tuner_limits)

lemma at_inv_threads:
  assumes "at_inv s"
  shows "at_inv (tune_threads v c lm s)"
proof -
  obtain s1 n1 where t: "tune_turbo (lv_load v) s = (s1, n1)" by fastforce
  define n where "n = thread_target v c lm s1 n1"
  have eq: "tune_threads v c lm s = s1\<lparr>threadCount :=
      (if MAX_THREADS < (if n < MIN_THREADS then MIN_THREADS else n) then MAX_THREADS
       else if n < MIN_THREADS then MIN_THREADS else n)\<rparr>"
    unfolding tune_threads_def Let_def t prod.case n_def ..
  show ?thesis using at_inv_turbo [OF assms t] clamp_threads [of n] unfolding eq by (simp add: at_inv_def)
qed

lemma at_inv_refresh:
  assumes "at_inv s" "lm_inv lm"
  shows "at_inv (tune_refresh h lm s)"
proof -
  have "0 \<le> cacheRefreshBoost lm" using boosts(3) [OF assms(2)] by simp
  with assms(1) show ?thesis by (auto simp: at_inv_def tune_refresh_def Let_def)
qed

lemma ttl_inv_tune: "ttl_inv t \<Longrightarrow> ttl_inv (tune_ttl lat h n t)"
  by (auto simp: ttl_inv_def tune_ttl_def Let_def)

lemma at_inv_grow:
  assumes "at_inv s" "ttl_inv t" "lm_inv lm" "tune_grow v now lm (s, t) = (s', t')"
  shows "at_inv s'" "ttl_inv t'"
  using assms by (auto simp: tune_grow_def Let_def intro!: at_inv_refresh at_inv_threads at_inv_fanout
      at_inv_conns ttl_inv_tune)

section \<open>The invariant of the whole tuner\<close>

definition tuning_inv :: "tuning \<Rightarrow> bool" where
  "tuning_inv t \<longleftrightarrow> at_inv (tn_tuner t) \<and> ttl_inv (tn_ttl t) \<and> lm_inv (tn_lm t)"

definition tuning_init :: tuning where
  "tuning_init = \<lparr>tn_perf = perf_init, tn_lm = lm_init, tn_tuner = at_init, tn_ttl = ttl_init, tn_probes = 0\<rparr>"

lemma tuning_inv_init: "tuning_inv tuning_init"
  by (simp add: tuning_inv_def tuning_init_def at_inv_init ttl_inv_init lm_inv_init)

text \<open>One cycle, with the states between its parts.\<close>

lemma tune_cases:
  obtains s1 p s2 s3 ttl3 hit skip s4 ttl4 where
    "tune_probe (urgency (tn_lm (tune extra now t))) (tn_tuner t) = (s1, p)"
    "s2 = tune_measure (snapshot extra (tn_perf t)) now (pm_queries (decayErrors (tn_perf t))) s1"
    "tune_anomalies (snapshot extra (tn_perf t)) now (s2, tn_ttl t) = ((s3, ttl3), hit, skip)"
    "(s4, ttl4) = (if skip then (s3, ttl3)
       else tune_grow (view_of (snapshot extra (tn_perf t)) s3) now (tn_lm (tune extra now t)) (s3, ttl3))"
    "tn_lm (tune extra now t) = evaluate (snapshot extra (tn_perf t)) (tn_lm t)"
    "tn_tuner (tune extra now t) = tune_finish (snapshot extra (tn_perf t)) s4"
    "tn_ttl (tune extra now t) = ttl4"
proof -
  let ?perf = "snapshot extra (tn_perf t)" and ?lm = "evaluate (snapshot extra (tn_perf t)) (tn_lm t)"
  obtain s1 p where 1: "tune_probe (urgency ?lm) (tn_tuner t) = (s1, p)" by fastforce
  define s2 where "s2 = tune_measure ?perf now (pm_queries (decayErrors (tn_perf t))) s1"
  obtain s3 ttl3 hit skip where 3: "tune_anomalies ?perf now (s2, tn_ttl t) = ((s3, ttl3), hit, skip)"
    by (metis prod.exhaust)
  obtain s4 ttl4 where 4: "(s4, ttl4) = (if skip then (s3, ttl3)
      else tune_grow (view_of ?perf s3) now ?lm (s3, ttl3))" by (metis prod.exhaust)
  have eq: "tune extra now t = \<lparr>tn_perf = decayErrors (tn_perf t), tn_lm = ?lm,
      tn_tuner = tune_finish ?perf s4, tn_ttl = ttl4, tn_probes = tn_probes t + (if p then 1 else 0)\<rparr>"
    unfolding tune_def Let_def 1 prod.case s2_def [symmetric] 3 4 [symmetric] ..
  then have lm: "tn_lm (tune extra now t) = ?lm" by simp
  show ?thesis
    by (rule that [of s1 p s2 s3 ttl3 hit skip s4 ttl4])
      (simp_all only: lm 1 s2_def [symmetric] 3 4, simp_all only: eq tuning.simps s2_def)
qed

lemma tuning_inv_tune: "tuning_inv t \<Longrightarrow> tuning_inv (tune extra now t)"
proof -
  assume inv: "tuning_inv t"
  obtain s1 p s2 s3 ttl3 hit skip s4 ttl4 where run:
    "tune_probe (urgency (tn_lm (tune extra now t))) (tn_tuner t) = (s1, p)"
    "s2 = tune_measure (snapshot extra (tn_perf t)) now (pm_queries (decayErrors (tn_perf t))) s1"
    "tune_anomalies (snapshot extra (tn_perf t)) now (s2, tn_ttl t) = ((s3, ttl3), hit, skip)"
    "(s4, ttl4) = (if skip then (s3, ttl3)
       else tune_grow (view_of (snapshot extra (tn_perf t)) s3) now (tn_lm (tune extra now t)) (s3, ttl3))"
    "tn_lm (tune extra now t) = evaluate (snapshot extra (tn_perf t)) (tn_lm t)"
    "tn_tuner (tune extra now t) = tune_finish (snapshot extra (tn_perf t)) s4"
    "tn_ttl (tune extra now t) = ttl4"
    by (rule tune_cases)
  have lm: "lm_inv (tn_lm (tune extra now t))" using inv run(5) lm_inv_evaluate by (simp add: tuning_inv_def)
  have "at_inv s1" using inv at_inv_probe [of "tn_tuner t" "urgency (tn_lm (tune extra now t))"] run(1)
    by (simp add: tuning_inv_def)
  then have "at_inv s2" using run(2) at_inv_measure by simp
  then have s3: "at_inv s3" "ttl_inv ttl3" using at_inv_anomalies [OF run(3)] inv by (auto simp: tuning_inv_def)
  have "at_inv s4 \<and> ttl_inv ttl4"
  proof (cases skip)
    case True
    with run(4) s3 show ?thesis by simp
  next
    case False
    with run(4) have "tune_grow (view_of (snapshot extra (tn_perf t)) s3) now (tn_lm (tune extra now t)) (s3, ttl3)
      = (s4, ttl4)" by simp
    with at_inv_grow [OF s3 lm] show ?thesis by blast
  qed
  then have "at_inv (tn_tuner (tune extra now t))" "ttl_inv (tn_ttl (tune extra now t))"
    by (simp_all add: run(6,7) tune_finish_def at_inv_def)
  with lm show ?thesis by (simp add: tuning_inv_def)
qed

interpretation tuner: step_invariant "\<lambda>t (extra, now). tune extra now t" "\<lambda>_. True" tuning_inv
  by unfold_locales (auto intro: tuning_inv_tune)

section \<open>Growth is damped\<close>

lemma measure_keeps:
  "connCount (tune_measure perf now q s) = connCount s"
  "threadCount (tune_measure perf now q s) = threadCount s"
  "lastConnChange (tune_measure perf now q s) = lastConnChange s"
  "anomalyCooldown (tune_measure perf now q s) = anomalyCooldown s"
  by (simp_all add: tune_measure_def tune_latency_def kalmanFilter_def tune_qps_def tune_trend_def
      tune_pid_def tune_counts_def Let_def)

lemma probe_keeps:
  assumes "tune_probe u s = (s', p)"
  shows "connCount s' = connCount s" "threadCount s' = threadCount s"
    "lastConnChange s' = lastConnChange s" "anomalyCooldown s' = anomalyCooldown s"
  using assms by (auto simp: tune_probe_def Let_def)

text \<open>The anomaly checks never grow anything, and change nothing when growth is not skipped.\<close>

definition shrinks :: "auto_tuner \<Rightarrow> auto_tuner \<Rightarrow> bool" where
  "shrinks s s' \<longleftrightarrow> at_inv s' \<and> connCount s' \<le> connCount s \<and> threadCount s' \<le> threadCount s
     \<and> anomalyCooldown s' = anomalyCooldown s"

definition same_counts :: "auto_tuner \<Rightarrow> auto_tuner \<Rightarrow> bool" where
  "same_counts s s' \<longleftrightarrow> connCount s' = connCount s \<and> threadCount s' = threadCount s
     \<and> lastConnChange s' = lastConnChange s \<and> anomalyCooldown s' = anomalyCooldown s"

lemma anomaly_parts:
  "at_inv s \<Longrightarrow> tune_idle load lat s = (s', b) \<Longrightarrow>
    shrinks s s' \<and> lastConnChange s' = lastConnChange s \<and> (\<not> b \<longrightarrow> same_counts s s')"
  "at_inv s \<Longrightarrow> tune_stuck load (s, t) = ((s', t'), b) \<Longrightarrow>
    shrinks s s' \<and> lastConnChange s' = lastConnChange s \<and> (\<not> b \<longrightarrow> same_counts s s')"
  "at_inv s \<Longrightarrow> tune_error_spike e now s = (s', b) \<Longrightarrow>
    shrinks s s' \<and> lastConnChange s' \<in> {lastConnChange s, now} \<and> (\<not> b \<longrightarrow> same_counts s s')"
    apply (auto simp: tune_idle_def shrinks_def same_counts_def at_inv_def tuner_limits split: if_splits)[]
   apply (auto simp: tune_stuck_def shrinks_def same_counts_def at_inv_def tuner_limits split: if_splits)[]
  apply (auto simp: tune_error_spike_def shrinks_def same_counts_def at_inv_def tuner_limits split: if_splits)[]
  done

lemma cooldown_parts:
  assumes "tune_cooldown hit idle now s = (s', skip)"
  shows "connCount s' = connCount s" "threadCount s' = threadCount s"
    "lastConnChange s' \<in> {lastConnChange s, now}"
    "\<not> skip \<Longrightarrow> \<not> hit \<and> \<not> idle \<and> lastConnChange s' = lastConnChange s \<and> anomalyCooldown s \<le> 1"
    "anomalyCooldown s' = (if hit then 6 else if 0 < anomalyCooldown s then anomalyCooldown s - 1 else anomalyCooldown s)"
  using assms by (auto simp: tune_cooldown_def split: if_splits)

lemma anomalies_shrink:
  assumes "at_inv s" "tune_anomalies perf now (s, ttl) = ((s', ttl'), hit, skip)"
  shows "connCount s' \<le> connCount s" "threadCount s' \<le> threadCount s"
    "lastConnChange s' \<in> {lastConnChange s, now}"
    "\<not> skip \<Longrightarrow> connCount s' = connCount s \<and> threadCount s' = threadCount s \<and>
      lastConnChange s' = lastConnChange s \<and> anomalyCooldown s \<le> 1"
    "anomalyCooldown s' = (if hit then 6 else if 0 < anomalyCooldown s then anomalyCooldown s - 1 else anomalyCooldown s)"
proof -
  from assms(2) obtain s1 s2 s3 t1 t2 i a b c where run:
    "tune_idle (threadPoolLoad perf) (kalmanEstimate s) s = (s1, i)"
    "tune_stuck (threadPoolLoad perf) (s1, ttl) = ((s2, t1), a)"
    "tune_error_spike (errorRate perf) now s2 = (s3, b)"
    and hit: "hit = (a \<or> b \<or> c)" and cool: "tune_cooldown hit i now s3 = (s', skip)"
    by (rule anomalies_cases)
  have 1: "shrinks s s1" "lastConnChange s1 = lastConnChange s" "\<not> i \<longrightarrow> same_counts s s1"
    using anomaly_parts(1) [OF assms(1) run(1)] by auto
  then have "at_inv s1" by (simp add: shrinks_def)
  then have 2: "shrinks s1 s2" "lastConnChange s2 = lastConnChange s1" "\<not> a \<longrightarrow> same_counts s1 s2"
    using anomaly_parts(2) [OF _ run(2)] by auto
  then have "at_inv s2" by (simp add: shrinks_def)
  then have 3: "shrinks s2 s3" "lastConnChange s3 \<in> {lastConnChange s2, now}" "\<not> b \<longrightarrow> same_counts s2 s3"
    using anomaly_parts(3) [OF _ run(3)] by auto
  note parts = 1 2 3 cooldown_parts [OF cool]
  show "connCount s' \<le> connCount s" "threadCount s' \<le> threadCount s" using parts by (auto simp: shrinks_def)
  show "lastConnChange s' \<in> {lastConnChange s, now}" using parts by auto
  show "anomalyCooldown s' = (if hit then 6 else if 0 < anomalyCooldown s then anomalyCooldown s - 1 else anomalyCooldown s)"
    using parts by (simp add: shrinks_def)
  assume "\<not> skip"
  with parts hit show "connCount s' = connCount s \<and> threadCount s' = threadCount s \<and>
      lastConnChange s' = lastConnChange s \<and> anomalyCooldown s \<le> 1"
    by (auto simp: same_counts_def shrinks_def)
qed

text \<open>What the later parts of a growth leave alone.\<close>

lemma turbo_keep:
  "connCount (fst (tune_turbo l s)) = connCount s" "lastConnChange (fst (tune_turbo l s)) = lastConnChange s"
  "anomalyCooldown (fst (tune_turbo l s)) = anomalyCooldown s"
  by (simp_all add: tune_turbo_def Let_def)

lemma threads_keep:
  "connCount (tune_threads v c lm s) = connCount s" "lastConnChange (tune_threads v c lm s) = lastConnChange s"
  "anomalyCooldown (tune_threads v c lm s) = anomalyCooldown s"
  "turboCycles (tune_threads v c lm s) = turboCycles (fst (tune_turbo (lv_load v) s))"
  by (simp_all add: tune_threads_def case_prod_beta Let_def turbo_keep)

lemma fanout_keep:
  "connCount (tune_fanout v lm s) = connCount s" "lastConnChange (tune_fanout v lm s) = lastConnChange s"
  "anomalyCooldown (tune_fanout v lm s) = anomalyCooldown s" "turboCycles (tune_fanout v lm s) = turboCycles s"
  by (simp_all add: tune_fanout_def Let_def)

lemma refresh_keep:
  "connCount (tune_refresh h lm s) = connCount s" "lastConnChange (tune_refresh h lm s) = lastConnChange s"
  "anomalyCooldown (tune_refresh h lm s) = anomalyCooldown s" "turboCycles (tune_refresh h lm s) = turboCycles s"
  by (simp_all add: tune_refresh_def Let_def)

lemmas growth_keeps = threads_keep fanout_keep refresh_keep

lemma grow_conns:
  assumes "tune_grow v now lm (s, t) = (s', t')"
  shows "connCount s < connCount s' \<Longrightarrow> CONN_CHANGE_HOLDOFF \<le> now - lastConnChange s \<and> lastConnChange s' = now"
    and "lastConnChange s' \<in> {lastConnChange s, now}" and "anomalyCooldown s' = anomalyCooldown s"
proof -
  have keep: "connCount (tune_refresh h lm (tune_threads v c lm (tune_fanout v lm u))) = connCount u
    \<and> lastConnChange (tune_refresh h lm (tune_threads v c lm (tune_fanout v lm u))) = lastConnChange u
    \<and> anomalyCooldown (tune_refresh h lm (tune_threads v c lm (tune_fanout v lm u))) = anomalyCooldown u" for h c u
    by (simp add: growth_keeps)
  from assms have s': "s' = tune_refresh (lv_hitRate v) lm (tune_threads v (connCount s) lm (tune_fanout v lm (tune_conns v now lm s)))"
    by (simp add: tune_grow_def Let_def)
  show "connCount s < connCount s' \<Longrightarrow> CONN_CHANGE_HOLDOFF \<le> now - lastConnChange s \<and> lastConnChange s' = now"
    "lastConnChange s' \<in> {lastConnChange s, now}" "anomalyCooldown s' = anomalyCooldown s"
    unfolding s' by (auto simp: keep tune_conns_def Let_def split: if_splits)
qed

lemma tune_damped:
  fixes now :: int and extra :: "perf_snapshot \<Rightarrow> perf_snapshot"
  assumes "tuning_inv t"
  defines "s \<equiv> tn_tuner t" and "s' \<equiv> tn_tuner (tune extra now t)"
  shows "connCount s < connCount s' \<Longrightarrow> CONN_CHANGE_HOLDOFF \<le> now - lastConnChange s \<and> lastConnChange s' = now"
    and "lastConnChange s' \<in> {lastConnChange s, now}"
    and "1 < anomalyCooldown s \<Longrightarrow> connCount s' \<le> connCount s \<and> threadCount s' \<le> threadCount s"
    and "0 < anomalyCooldown s \<Longrightarrow> anomalyCooldown s - 1 \<le> anomalyCooldown s'"
proof -
  obtain s1 p s2 s3 ttl3 hit skip s4 ttl4 where run:
    "tune_probe (urgency (tn_lm (tune extra now t))) (tn_tuner t) = (s1, p)"
    "s2 = tune_measure (snapshot extra (tn_perf t)) now (pm_queries (decayErrors (tn_perf t))) s1"
    and an: "tune_anomalies (snapshot extra (tn_perf t)) now (s2, tn_ttl t) = ((s3, ttl3), hit, skip)"
    and gr: "(s4, ttl4) = (if skip then (s3, ttl3)
       else tune_grow (view_of (snapshot extra (tn_perf t)) s3) now (tn_lm (tune extra now t)) (s3, ttl3))"
    and fin: "tn_tuner (tune extra now t) = tune_finish (snapshot extra (tn_perf t)) s4"
    by (rule tune_cases)
  have s2: "connCount s2 = connCount s" "threadCount s2 = threadCount s"
    "lastConnChange s2 = lastConnChange s" "anomalyCooldown s2 = anomalyCooldown s"
    unfolding s_def run(2) measure_keeps by (rule probe_keeps [OF run(1)])+
  have "at_inv s1" using assms(1) at_inv_probe [of "tn_tuner t" "urgency (tn_lm (tune extra now t))"] run(1)
    by (simp add: tuning_inv_def)
  then have "at_inv s2" using run(2) at_inv_measure by simp
  note sh = anomalies_shrink [OF this an, unfolded s2]
  have s': "connCount s' = connCount s4" "threadCount s' = threadCount s4"
    "lastConnChange s' = lastConnChange s4" "anomalyCooldown s' = anomalyCooldown s4"
    by (simp_all add: s'_def fin tune_finish_def)
  have grow: "tune_grow (view_of (snapshot extra (tn_perf t)) s3) now (tn_lm (tune extra now t)) (s3, ttl3)
      = (s4, ttl4)" if "\<not> skip" using gr that by simp
  have skipped: "s4 = s3" if skip using gr that by simp
  show "connCount s < connCount s' \<Longrightarrow> CONN_CHANGE_HOLDOFF \<le> now - lastConnChange s \<and> lastConnChange s' = now"
    using sh(1,4) skipped grow_conns(1) [OF grow] unfolding s' by (cases skip) force+
  show "lastConnChange s' \<in> {lastConnChange s, now}"
    using sh(3) skipped grow_conns(2) [OF grow] unfolding s' by (cases skip) auto
  show "1 < anomalyCooldown s \<Longrightarrow> connCount s' \<le> connCount s \<and> threadCount s' \<le> threadCount s"
    using sh(1,2,4) skipped unfolding s' by (cases skip) auto
  show "0 < anomalyCooldown s \<Longrightarrow> anomalyCooldown s - 1 \<le> anomalyCooldown s'"
  proof -
    assume c: "0 < anomalyCooldown s"
    have "anomalyCooldown s4 = anomalyCooldown s3"
      using skipped grow_conns(3) [OF grow] by (cases skip) auto
    moreover have "anomalyCooldown s \<le> 6" using \<open>at_inv s2\<close> s2(4) by (simp add: at_inv_def)
    ultimately show ?thesis using sh(5) c unfolding s' by (simp split: if_splits)
  qed
qed

section \<open>Runs of the tuner\<close>

type_synonym cycle = "(perf_snapshot \<Rightarrow> perf_snapshot) \<times> int"

definition tune_run :: "tuning \<Rightarrow> cycle list \<Rightarrow> tuning" where
  "tune_run = foldl (\<lambda>t (extra, now). tune extra now t)"

lemma tune_run_simps:
  "tune_run t [] = t" "tune_run t ((extra, now) # cs) = tune_run (tune extra now t) cs"
  "tune_run t (cs @ ds) = tune_run (tune_run t cs) ds"
  by (simp_all add: tune_run_def)

lemma tuning_inv_run: "tuning_inv t \<Longrightarrow> tuning_inv (tune_run t cs)"
  unfolding tune_run_def by (rule tuner.inv_run) (auto simp: list_all_iff)

text \<open>While the cooldown after an anomaly lasts, nothing grows.\<close>

lemma cooldown_run:
  "tuning_inv t \<Longrightarrow> int (length cs) < anomalyCooldown (tn_tuner t) \<Longrightarrow>
    connCount (tn_tuner (tune_run t cs)) \<le> connCount (tn_tuner t) \<and>
    threadCount (tn_tuner (tune_run t cs)) \<le> threadCount (tn_tuner t)"
proof (induction cs arbitrary: t)
  case Nil
  then show ?case by (simp add: tune_run_simps)
next
  case (Cons c cs)
  obtain extra now where c: "c = (extra, now)" by (cases c)
  note d = tune_damped [OF Cons.prems(1), of extra now]
  have "int (length cs) < anomalyCooldown (tn_tuner (tune extra now t))" using d(4) Cons.prems(2) by simp
  from Cons.IH [OF tuning_inv_tune [OF Cons.prems(1)] this] d(3) Cons.prems(2) show ?case
    by (simp add: c tune_run_simps)
qed

lemma last_change_run:
  "tuning_inv t \<Longrightarrow> \<forall>c \<in> set cs. b \<le> snd c \<Longrightarrow> b \<le> lastConnChange (tn_tuner t) \<Longrightarrow>
    b \<le> lastConnChange (tn_tuner (tune_run t cs))"
proof (induction cs arbitrary: t)
  case Nil
  then show ?case by (simp add: tune_run_simps)
next
  case (Cons c cs)
  obtain extra now where c: "c = (extra, now)" by (cases c)
  have "b \<le> lastConnChange (tn_tuner (tune extra now t))"
    using tune_damped(2) [OF Cons.prems(1), of extra now] Cons.prems(2,3) c by auto
  with Cons.IH [OF tuning_inv_tune [OF Cons.prems(1)]] Cons.prems(2) show ?case by (simp add: c tune_run_simps)
qed

definition grows_at :: "tuning \<Rightarrow> cycle list \<Rightarrow> cycle \<Rightarrow> bool" where
  "grows_at t cs c \<longleftrightarrow> connCount (tn_tuner (tune_run t cs)) < connCount (tn_tuner (tune_run t (cs @ [c])))"

text \<open>Any two growths of the number of connections are at least the holdoff apart.\<close>

lemma growth_spacing:
  assumes "tuning_inv t" "sorted (map snd (as @ [(e1, t1)] @ bs @ [(e2, t2)]))"
    and "grows_at t as (e1, t1)" "grows_at t (as @ [(e1, t1)] @ bs) (e2, t2)"
  shows "CONN_CHANGE_HOLDOFF \<le> t2 - t1"
proof -
  let ?t1 = "tune_run t (as @ [(e1, t1)])" let ?t2 = "tune_run ?t1 bs"
  have inv: "tuning_inv (tune_run t as)" "tuning_inv ?t1" "tuning_inv ?t2"
    by (intro tuning_inv_run assms(1))+
  have "lastConnChange (tn_tuner ?t1) = t1"
    using tune_damped(1) [OF inv(1), of e1 t1] assms(3) by (simp add: grows_at_def tune_run_simps)
  moreover have "\<forall>c \<in> set bs. t1 \<le> snd c" using assms(2) by (auto simp: sorted_append)
  ultimately have "t1 \<le> lastConnChange (tn_tuner ?t2)" using last_change_run [OF inv(2)] by simp
  moreover have "CONN_CHANGE_HOLDOFF \<le> t2 - lastConnChange (tn_tuner ?t2)"
    using tune_damped(1) [OF inv(3), of e2 t2] assms(4) by (simp add: grows_at_def tune_run_simps)
  ultimately show ?thesis by simp
qed

end
