(* ===== verification/Tuning_Properties.thy ===== *)
theory Tuning_Properties
  imports Auto_Tuner
begin

text \<open>
  The properties of the performance monitor, the latency manager and the tuner.
\<close>

section \<open>A measurement that makes the tuner grow\<close>

definition w_perf :: perf_snapshot where
  "w_perf = \<lparr>avgLatencyMs = 10, p95LatencyMs = 10, cacheHitRate = 1, turboHitRate = 0, staleHitRate = 0,
     errorRate = 1 / 40, connUtilization = 7 / 10, activeConnections = 0, threadPoolLoad = 1, threadPoolWorkers = 20\<rparr>"

lemma w_perf_snapshot [simp]: "snapshot (\<lambda>_. w_perf) pm = w_perf"
  by (simp add: snapshot_def Let_def)

lemma quiet_anomalies:
  assumes "tune_anomalies w_perf now (s, ttl) = ((s', ttl'), hit, skip)" "anomalyCooldown s = 0"
  shows "\<not> skip \<and> s' = s"
  using assms by (auto simp: tune_anomalies_def tune_idle_def tune_stuck_def tune_error_spike_def
      tune_hit_collapse_def tune_cooldown_def w_perf_def Let_def)

lemma quiet_conns:
  assumes "turboCycles s \<le> 1" "connCount s < MAX_CONNS" "CONN_CHANGE_HOLDOFF \<le> now - lastConnChange s" "lm_inv lm"
  shows "connCount s < connCount (tune_conns (view_of w_perf u) now lm s)"
    and "connCount (tune_conns (view_of w_perf u) now lm s) \<le> connCount s + 12"
proof -
  define v where "v = view_of w_perf u"
  have sat: "\<not> proxy_saturated v (connCount s)" by (simp add: proxy_saturated_def v_def view_of_def w_perf_def)
  have grow: "conn_growth v s (connCount s) n = min (connCount s + 2) MAX_CONNS" for n
    by (simp add: conn_growth_def v_def view_of_def w_perf_def)
  have boost: "n \<le> conn_boosted lm False n" "conn_boosted lm False n \<le> n + 10" if "n \<le> MAX_CONNS" for n
    using boosts(2) [OF assms(4)] that by (auto simp: conn_boosted_def Let_def)
  define n where "n = conn_boosted lm False (min (connCount s + 2) MAX_CONNS)"
  have n: "connCount s < n" "n \<le> connCount s + 12"
    using boost [of "min (connCount s + 2) MAX_CONNS"] assms(2) by (auto simp: n_def)
  have "connCount (tune_conns v now lm s) = n"
    using assms(1,3) n(1) by (simp add: tune_conns_def Let_def sat grow n_def [symmetric])
  with n show "connCount s < connCount (tune_conns (view_of w_perf u) now lm s)"
    "connCount (tune_conns (view_of w_perf u) now lm s) \<le> connCount s + 12" by (simp_all add: v_def)
qed

lemma quiet_cycle:
  assumes "tuning_inv t" "anomalyCooldown (tn_tuner t) = 0" "turboCycles (tn_tuner t) \<le> 1"
    "connCount (tn_tuner t) < MAX_CONNS" "CONN_CHANGE_HOLDOFF \<le> now - lastConnChange (tn_tuner t)"
  defines "t' \<equiv> tune (\<lambda>_. w_perf) now t"
  shows "connCount (tn_tuner t) < connCount (tn_tuner t')" "connCount (tn_tuner t') \<le> connCount (tn_tuner t) + 12"
    "anomalyCooldown (tn_tuner t') = 0" "turboCycles (tn_tuner t') \<le> 1"
proof -
  obtain s1 p s2 s3 ttl3 hit skip s4 ttl4 where run:
    "tune_probe (urgency (tn_lm t')) (tn_tuner t) = (s1, p)"
    "s2 = tune_measure w_perf now (pm_queries (decayErrors (tn_perf t))) s1"
    and an: "tune_anomalies w_perf now (s2, tn_ttl t) = ((s3, ttl3), hit, skip)"
    and gr: "(s4, ttl4) = (if skip then (s3, ttl3) else tune_grow (view_of w_perf s3) now (tn_lm t') (s3, ttl3))"
    and lm: "tn_lm t' = evaluate w_perf (tn_lm t)"
    and fin: "tn_tuner t' = tune_finish w_perf s4"
    unfolding t'_def using tune_cases [where extra = "\<lambda>_. w_perf" and now = now and t = t] by (metis w_perf_snapshot)
  have s2: "connCount s2 = connCount (tn_tuner t)" "lastConnChange s2 = lastConnChange (tn_tuner t)"
    "anomalyCooldown s2 = anomalyCooldown (tn_tuner t)"
    unfolding run(2) measure_keeps by (rule probe_keeps [OF run(1)])+
  have "turboCycles s2 = turboCycles s1" by (simp add: run(2) tune_measure_def tune_latency_def kalmanFilter_def tune_qps_def
      tune_trend_def tune_pid_def tune_counts_def Let_def)
  also have "turboCycles s1 = turboCycles (tn_tuner t)" using run(1) by (auto simp: tune_probe_def Let_def)
  finally have turbo: "turboCycles s2 \<le> 1" using assms(3) by simp
  have s3: "\<not> skip" "s3 = s2" using quiet_anomalies [OF an] s2 assms(2) by auto
  have inv: "lm_inv (tn_lm t')" unfolding lm using assms(1) by (intro lm_inv_evaluate) (simp add: tuning_inv_def)
  let ?u = "tune_conns (view_of w_perf s2) now (tn_lm t') s2"
  have u: "connCount s2 < connCount ?u" "connCount ?u \<le> connCount s2 + 12"
    using quiet_conns [OF turbo _ _ inv] s2 assms(4,5) by simp_all
  have "turboCycles ?u = turboCycles s2" "anomalyCooldown ?u = anomalyCooldown s2" by (simp_all add: tune_conns_def Let_def)
  moreover have "connCount s4 = connCount ?u \<and> anomalyCooldown s4 = anomalyCooldown ?u \<and> turboCycles s4 = max 0 (turboCycles ?u - 1)"
    using gr s3 by (auto simp: tune_grow_def Let_def growth_keeps tune_turbo_def view_of_def w_perf_def
        split: prod.splits)
  ultimately show "connCount (tn_tuner t) < connCount (tn_tuner t')" "connCount (tn_tuner t') \<le> connCount (tn_tuner t) + 12"
    "anomalyCooldown (tn_tuner t') = 0" "turboCycles (tn_tuner t') \<le> 1"
    using u s2 assms(2) turbo by (simp_all add: fin tune_finish_def)
qed

lemma w_two_growths:
  "grows_at tuning_init [] (\<lambda>_. w_perf, seconds 20)"
  "grows_at tuning_init ([] @ [(\<lambda>_. w_perf, seconds 20)] @ []) (\<lambda>_. w_perf, seconds 40)"
proof -
  let ?t1 = "tune (\<lambda>_. w_perf) (seconds 20) tuning_init"
  have 1: "connCount (tn_tuner tuning_init) < connCount (tn_tuner ?t1)" "connCount (tn_tuner ?t1) \<le> 32 + 12"
    "anomalyCooldown (tn_tuner ?t1) = 0" "turboCycles (tn_tuner ?t1) \<le> 1"
    using quiet_cycle [OF tuning_inv_init, of "seconds 20"]
    by (simp_all add: tuning_init_def at_init_def tuner_limits CONN_CHANGE_HOLDOFF_def seconds_def)
  have inv: "tuning_inv ?t1" by (rule tuning_inv_tune [OF tuning_inv_init])
  have "lastConnChange (tn_tuner ?t1) = seconds 20"
    using tune_damped(1) [OF tuning_inv_init] 1(1) by blast
  then have 2: "connCount (tn_tuner ?t1) < connCount (tn_tuner (tune (\<lambda>_. w_perf) (seconds 40) ?t1))"
    using quiet_cycle(1) [OF inv, of "seconds 40"] 1 by (simp add: tuner_limits CONN_CHANGE_HOLDOFF_def seconds_def)
  from 1 show "grows_at tuning_init [] (\<lambda>_. w_perf, seconds 20)" by (simp add: grows_at_def tune_run_simps)
  from 2 show "grows_at tuning_init ([] @ [(\<lambda>_. w_perf, seconds 20)] @ []) (\<lambda>_. w_perf, seconds 40)"
    by (simp add: grows_at_def tune_run_simps)
qed

section \<open>The tuner\<close>

text \<open>C30: After any number of tuning cycles on any measurements: 24 to 48 connections, 16 to 32
  threads, a refresh threshold of 5 to 15 percent, a minimum TTL of 241 to 7200 s and a
  negative TTL of 300 to 3600 s are recommended, the integral term stays in [-5, 5], the
  histories within 150 entries, and the latency manager's urgency in 0 to 5.\<close>

theorem tuner_bounds:
  "tuning_inv (tune_run tuning_init cs)"
  by (rule tuning_inv_run [OF tuning_inv_init])

text \<open>C31: In every run with a monotone clock, two cycles that raise the number of connections are
  at least 15 s apart.\<close>

theorem growth_damped:
  "tuning_inv t \<Longrightarrow> sorted (map snd (as @ [(e1, t1)] @ bs @ [(e2, t2)])) \<Longrightarrow>
    grows_at t as (e1, t1) \<Longrightarrow> grows_at t (as @ [(e1, t1)] @ bs) (e2, t2) \<Longrightarrow> CONN_CHANGE_HOLDOFF \<le> t2 - t1"
  by (rule growth_spacing)

theorem growth_damped_witness:
  "grows_at tuning_init [] (\<lambda>_. w_perf, seconds 20) \<and> CONN_CHANGE_HOLDOFF \<le> seconds 40 - seconds 20"
  using growth_damped [OF tuning_inv_init _ w_two_growths] w_two_growths(1) by (simp add: seconds_def)

definition w_cooling :: tuning where
  "w_cooling = tuning_init\<lparr>tn_tuner := at_init\<lparr>anomalyCooldown := 6\<rparr>\<rparr>"

text \<open>After an anomaly nothing grows while the cooldown lasts: with a cooldown of c cycles left,
  fewer than c further cycles raise neither the connections nor the threads.\<close>

lemma cooldown_respected:
  "tuning_inv t \<Longrightarrow> int (length cs) < anomalyCooldown (tn_tuner t) \<Longrightarrow>
    connCount (tn_tuner (tune_run t cs)) \<le> connCount (tn_tuner t) \<and>
    threadCount (tn_tuner (tune_run t cs)) \<le> threadCount (tn_tuner t)"
  by (rule cooldown_run)

section \<open>The latency manager\<close>

definition w_urgent :: latency_manager where
  "w_urgent = lm_init\<lparr>smoothedGap := 100, urgency := 5, consecutiveOver := 10\<rparr>"

text \<open>C32: From any state that keeps its invariant there is a number of evaluations after which, if
  all of them met the latency targets, the urgency is back at 0.\<close>

theorem urgency_recovers:
  "lm_inv lm \<Longrightarrow> \<exists>N. \<forall>ps. list_all (within_targets (lm_targets lm)) ps \<and> N \<le> length ps \<longrightarrow>
    urgency (evaluate_all ps lm) = 0"
  using recovery_eventually by metis

theorem urgency_recovers_witness:
  "\<exists>N. \<forall>ps. list_all (within_targets (lm_targets w_urgent)) ps \<and> N \<le> length ps \<longrightarrow>
    urgency (evaluate_all ps w_urgent) = 0"
  by (rule urgency_recovers) (simp add: w_urgent_def lm_inv_def lm_init_def)

section \<open>The performance monitor\<close>

text \<open>C33: The latency ring holds exactly the last 256 recorded latencies, and the reported 95th
  percentile is the one at position floor(0.95 n) of the n in ascending order: at least
  floor(0.95 n) + 1 of them do not exceed it, and at most floor(0.95 n) are smaller.\<close>

theorem latency_window:
  "xs \<noteq> [] \<Longrightarrow> length xs < 2 ^ 64 \<Longrightarrow>
    let pm = foldl (\<lambda>pm us. recordLatency False us pm) perf_init xs;
        w = map of_int (drop (length xs - WINDOW_SIZE) xs)
    in window pm = w \<and> (\<exists>v. p95LatencyMs (snapshot id pm) = real (unat v) / 1000 \<and> v \<in> set w
       \<and> p95_index (length w) + 1 \<le> length (filter (\<lambda>x. x \<le> v) w)
       \<and> length (filter (\<lambda>x. x < v) w) \<le> p95_index (length w))"
  using window_ring [OF ring_of_run] snapshot_p95 [OF ring_of_run] by (simp add: Let_def)

theorem latency_window_witness:
  "let pm = foldl (\<lambda>pm us. recordLatency False us pm) perf_init [5, 3];
        w = map of_int (drop (length [5, 3 :: int] - WINDOW_SIZE) [5, 3])
    in window pm = w \<and> (\<exists>v. p95LatencyMs (snapshot id pm) = real (unat v) / 1000 \<and> v \<in> set w
       \<and> p95_index (length w) + 1 \<le> length (filter (\<lambda>x. x \<le> v) w)
       \<and> length (filter (\<lambda>x. x < v) w) \<le> p95_index (length w))"
  by (rule latency_window) simp_all

text \<open>The per-domain 95th percentile is not one: under a constant latency x it falls towards x / 10,
  as each sample enters it with a factor of one tenth.\<close>

lemma domain_p95_decays:
  "0 \<le> x \<Longrightarrow> dl_count dl = 0 \<Longrightarrow> (update_domain x ^^ Suc n) dl =
    \<lparr>dl_avg = x, dl_p95 = max (x * 0.9 ^ n) (x * 0.1), dl_count = int (Suc n)\<rparr>"
  by (rule update_domain_constant)

end
