(* ===== verification/System_Resolver.thy ===== *)
theory System_Resolver
  imports Server_Proofs Std_String
begin

text \<open>
  \<open>class SystemResolver\<close> of \<open>src/system_resolver.hpp\<close> and \<open>src/system_resolver.cpp\<close>, the resolver
  that the program puts behind the cache: \<open>getaddrinfo\<close>, then raw UDP to the name servers, then DoH
  through libcurl, and a probe thread that finds out which of them work.

  The network is the record \<open>sys_net\<close> of what the three calls return at the time of a query; a
  failed or timed out call is \<open>None\<close>.
\<close>

section \<open>State and environment\<close>

record name_server =
  ns_ip :: bytes
  ns_port :: u16

record system_resolver =
  servers :: "name_server list"
  dohUrls :: "bytes list"
  detected :: bool
  udpWorks :: bool
  getaddrinfoWorks :: bool
  getaddrinfoTested :: bool

datatype sock_address = Inet4 bytes | Inet6 bytes | Other_Family

record sys_net =
  net_gai :: "bytes \<Rightarrow> sock_address list option"
  net_udp :: "name_server \<Rightarrow> bytes \<Rightarrow> bytes option"
  net_doh :: "bytes \<Rightarrow> bytes \<Rightarrow> bytes option"

section \<open>Finding the name servers\<close>

definition resolv_line :: "bytes \<Rightarrow> name_server option" where
  "resolv_line line =
     (if line = [] \<or> line ! 0 = 35 then None
      else let (directive, rest) = next_word line in
        if directive \<noteq> lit ''nameserver'' then None
        else let (ip, _) = next_word rest in
          if ip = [] \<or> contains (lit '':'') ip then None
          else if take 4 ip = lit ''127.'' then None
          else Some \<lparr>ns_ip = ip, ns_port = 53\<rparr>)"

definition add_public :: "bytes \<Rightarrow> name_server list \<Rightarrow> name_server list \<Rightarrow> name_server list" where
  "add_public ip found ss = (if ip \<in> set (map ns_ip found) then ss else ss @ [\<lparr>ns_ip = ip, ns_port = 53\<rparr>])"

text \<open>\<open>resolv\<close> is the content of \<open>/etc/resolv.conf\<close>, if it can be opened.\<close>

definition detectSystemDns :: "bytes option \<Rightarrow> system_resolver \<Rightarrow> system_resolver" where
  "detectSystemDns resolv r =
     (let found = (case resolv of None \<Rightarrow> [] | Some s \<Rightarrow> List.map_filter resolv_line (getlines 10 s))
      in r\<lparr>servers := add_public (lit ''8.8.8.8'') found (add_public (lit ''1.1.1.1'') found found), detected := True\<rparr>)"

definition detectDohUpstreams :: "system_resolver \<Rightarrow> system_resolver" where
  "detectDohUpstreams r = r\<lparr>dohUrls := dohUrls r @ [lit ''https://dns.google/dns-query'',
     lit ''https://cloudflare-dns.com/dns-query'', lit ''https://dns.quad9.net/dns-query'']\<rparr>"

definition sys_init :: "bytes option \<Rightarrow> system_resolver" where
  "sys_init resolv = detectDohUpstreams (detectSystemDns resolv
     \<lparr>servers = [], dohUrls = [], detected = False, udpWorks = False, getaddrinfoWorks = False, getaddrinfoTested = False\<rparr>)"

section \<open>The three ways to an answer\<close>

text \<open>\<open>qname.c_str()\<close> ends at a zero byte.\<close>

definition c_str :: "bytes \<Rightarrow> bytes" where
  "c_str s = takeWhile (\<lambda>c. c \<noteq> 0) s"

definition gai_answer :: "dns_question \<Rightarrow> sock_address \<Rightarrow> dns_rr list" where
  "gai_answer q a =
     (case a of
        Inet4 ip \<Rightarrow> if qtype q = type_A
          then [\<lparr>rr_name = qname q, rr_type = type_A, rr_class = 1, rr_ttl = 300, rr_rdata = ip\<rparr>] else []
      | Inet6 ip \<Rightarrow> if qtype q = type_AAAA
          then [\<lparr>rr_name = qname q, rr_type = type_AAAA, rr_class = 1, rr_ttl = 300, rr_rdata = ip\<rparr>] else []
      | Other_Family \<Rightarrow> [])"

definition queryGetaddrinfo :: "sys_net \<Rightarrow> dns_message \<Rightarrow> dns_message" where
  "queryGetaddrinfo net req =
     (let q = questions req ! 0; reply = createReply req in
      case net_gai net (c_str (qname q)) of
        None \<Rightarrow> reply
      | Some [] \<Rightarrow> reply
      | Some as \<Rightarrow>
          let reply = reply\<lparr>answers := concat (map (gai_answer q) as)\<rparr>
          in if answers reply = [] then reply\<lparr>header := setRcode rcode_NXDomain (header reply)\<rparr> else reply)"

text \<open>A received packet: the next source is tried where it is missing, short or malformed.\<close>

definition accept_reply :: "dns_message \<Rightarrow> bytes option \<Rightarrow> dns_message option" where
  "accept_reply req resp =
     (case resp of None \<Rightarrow> None
      | Some data \<Rightarrow>
          if length data < 12 then None
          else case parse data of Inl _ \<Rightarrow> None
            | Inr m \<Rightarrow> Some (m\<lparr>header := (header m)\<lparr>hid := hid (header req)\<rparr>\<rparr>))"

fun first_reply :: "dns_message \<Rightarrow> bytes option list \<Rightarrow> dns_message option" where
  "first_reply req [] = None"
| "first_reply req (r # rs) = (case accept_reply req r of None \<Rightarrow> first_reply req rs | Some m \<Rightarrow> Some m)"

definition queryUdp :: "sys_net \<Rightarrow> system_resolver \<Rightarrow> dns_message \<Rightarrow> dns_message option dns_result" where
  "queryUdp net r req =
     (if servers r = [] then Inr None
      else bindE (pack req) (\<lambda>wire. Inr (first_reply req (map (\<lambda>s. net_udp net s wire) (servers r)))))"

definition queryDoh :: "sys_net \<Rightarrow> system_resolver \<Rightarrow> dns_message \<Rightarrow> dns_message option dns_result" where
  "queryDoh net r req =
     bindE (pack req) (\<lambda>wire. Inr (first_reply req (map (\<lambda>u. net_doh net u wire) (dohUrls r))))"

section \<open>query\<close>

definition try_gai :: "sys_net \<Rightarrow> dns_message \<Rightarrow> system_resolver \<Rightarrow> system_resolver \<times> dns_message option" where
  "try_gai net req r =
     (let q = questions req ! 0 in
      if qtype q = type_A \<or> qtype q = type_AAAA
      then if \<not> getaddrinfoTested r
        then let m = queryGetaddrinfo net req in
          if answers m \<noteq> [] then (r\<lparr>getaddrinfoWorks := True, getaddrinfoTested := True\<rparr>, Some m) else (r, None)
        else if getaddrinfoWorks r
        then let m = queryGetaddrinfo net req in if answers m \<noteq> [] then (r, Some m) else (r, None)
        else (r, None)
      else (r, None))"

definition try_udp :: "sys_net \<Rightarrow> system_resolver \<Rightarrow> dns_message \<Rightarrow> dns_message option dns_result" where
  "try_udp net r req =
     (if udpWorks r
      then bindE (queryUdp net r req) (\<lambda>reply. Inr (case reply of
        Some m \<Rightarrow> if hdr_rcode (header m) \<noteq> rcode_ServFail then Some m else None
      | None \<Rightarrow> None))
      else Inr None)"

definition sys_query :: "sys_net \<Rightarrow> dns_message \<Rightarrow> bool \<Rightarrow> system_resolver \<Rightarrow> system_resolver \<times> (dns_error + dns_message option)" where
  "sys_query net req allowFanOut r =
     (if questions req = [] then (r, Inr (Some (createError req rcode_FormErr)))
      else case try_gai net req r of
        (r, Some m) \<Rightarrow> (r, Inr (Some m))
      | (r, None) \<Rightarrow> (r,
          bindE (try_udp net r req) (\<lambda>reply. case reply of Some m \<Rightarrow> Inr (Some m) | None \<Rightarrow>
          bindE (queryDoh net r req) (\<lambda>reply. case reply of Some m \<Rightarrow> Inr (Some m) | None \<Rightarrow>
          bindE (if \<not> udpWorks r then queryUdp net r req else Inr None) (\<lambda>reply.
            case reply of Some m \<Rightarrow> Inr (Some m) | None \<Rightarrow> Inr (Some (createError req rcode_ServFail)))))))"

section \<open>Probing\<close>

definition probe_query :: dns_message where
  "probe_query = createQuery (lit ''google.com'') type_A 1"

definition probeUdp :: "sys_net \<Rightarrow> system_resolver \<Rightarrow> bool dns_result" where
  "probeUdp net r =
     (if servers r = [] then Inr False
      else bindE (pack probe_query) (\<lambda>wire.
        Inr (list_ex (\<lambda>s. case net_udp net s wire of None \<Rightarrow> False | Some data \<Rightarrow> 12 \<le> length data) (servers r))))"

text \<open>The probe through \<open>getaddrinfo\<close>; \<open>in_time\<close> says whether it was ready within two seconds.\<close>

definition probe_gai :: "sys_net \<Rightarrow> bool \<Rightarrow> bool" where
  "probe_gai net in_time \<longleftrightarrow> in_time \<and> answers (queryGetaddrinfo net probe_query) \<noteq> []"

definition probe_start :: "sys_net \<Rightarrow> bool \<Rightarrow> system_resolver \<Rightarrow> system_resolver dns_result" where
  "probe_start net in_time r =
     bindE (probeUdp net r) (\<lambda>udp. let r = r\<lparr>udpWorks := udp\<rparr> in
       Inr (if \<not> getaddrinfoTested r
         then r\<lparr>getaddrinfoWorks := probe_gai net in_time, getaddrinfoTested := True\<rparr> else r))"

text \<open>One round of the loop, a minute apart, with its two counters.\<close>

definition probe_round :: "sys_net \<Rightarrow> bool \<Rightarrow> nat \<times> nat \<times> system_resolver \<Rightarrow> (nat \<times> nat \<times> system_resolver) dns_result" where
  "probe_round net in_time = (\<lambda>(cycles, retries, r).
     let cycles = cycles + 1 in
     bindE (probeUdp net r) (\<lambda>udp. let r = r\<lparr>udpWorks := udp\<rparr> in
       Inr (if \<not> getaddrinfoWorks r \<and> retries < 6 \<and> cycles mod 5 = 0
         then (cycles, retries + 1, if probe_gai net in_time then r\<lparr>getaddrinfoWorks := True\<rparr> else r)
         else (cycles, retries, r))))"

section \<open>What the resolver guarantees\<close>

lemma accept_reply_id: "accept_reply req resp = Some m \<Longrightarrow> hid (header m) = hid (header req)"
  by (auto simp: accept_reply_def split: option.splits if_splits sum.splits)

lemma first_reply_id: "first_reply req rs = Some m \<Longrightarrow> hid (header m) = hid (header req)"
  by (induction rs) (auto split: option.splits dest: accept_reply_id)

lemma queryGetaddrinfo_id [simp]: "hid (header (queryGetaddrinfo net req)) = hid (header req)"
  by (simp add: queryGetaddrinfo_def Let_def createReply_def split: option.split list.split)

lemma sys_query_id:
  assumes "sys_query net req f r = (r', Inr (Some m))"
  shows "hid (header m) = hid (header req)"
proof -
  have g: "hid (header m) = hid (header req)" if "try_gai net req r = (r', Some m)"
    using that by (auto simp: try_gai_def Let_def split: if_splits)
  have u: "hid (header m) = hid (header req)" if "queryUdp net r'' req = Inr (Some m)" for r'' m
    using that by (auto simp: queryUdp_def exc_simps dest: first_reply_id split: if_splits)
  have d: "hid (header m) = hid (header req)" if "queryDoh net r'' req = Inr (Some m)" for r'' m
    using that by (auto simp: queryDoh_def exc_simps dest: first_reply_id)
  have t: "hid (header m) = hid (header req)" if "try_udp net r'' req = Inr (Some m)" for r'' m
    using that by (auto simp: try_udp_def exc_simps dest: u split: if_splits option.splits)
  from assms g u d t show ?thesis
    by (auto simp: sys_query_def exc_simps split: if_splits prod.splits option.splits)
qed

text \<open>The server on the bare resolver: the base class has no cache to look into.\<close>

record sys_world =
  sw_nets :: "nat \<Rightarrow> sys_net"
  sw_calls :: nat
  sw_sys :: system_resolver
  sw_perf :: perf_monitor

definition system_ops :: "(sys_world, dns_error) resolver_ops" where
  "system_ops = \<lparr>
     ro_query = (\<lambda>req f w. let (r, res) = sys_query (sw_nets w (sw_calls w)) req f (sw_sys w)
        in (w\<lparr>sw_sys := r, sw_calls := sw_calls w + 1\<rparr>, res)),
     ro_peekRaw = (\<lambda>data w. (w, None)),
     ro_perf = (\<lambda>g w. w\<lparr>sw_perf := g (sw_perf w)\<rparr>)\<rparr>"

interpretation sysr: id_resolver system_ops "\<lambda>w. True"
  by unfold_locales (auto simp: system_ops_def split: prod.splits dest: sys_query_id)

text \<open>And behind the cache.\<close>

definition sys_backend :: "sys_net \<Rightarrow> system_resolver \<Rightarrow> dns_error backend" where
  "sys_backend net r = (\<lambda>req f. snd (sys_query net req f r))"

lemma sys_backend_keeps_id: "back_keeps_id (sys_backend net r)"
  by (auto simp: back_keeps_id_def sys_backend_def) (metis prod.collapse sys_query_id)

text \<open>Queries one after the other, each with its own state of the network and of the resolver.\<close>

fun serve :: "upstream \<Rightarrow> domain_map \<Rightarrow> bytes \<Rightarrow> (bytes \<times> sys_net \<times> system_resolver) list \<Rightarrow> dns_error caching_world
    \<Rightarrow> (bytes \<times> bytes option) list" where
  "serve udp ov unq [] w = []"
| "serve udp ov unq ((data, net, r) # qs) w =
     (let (w', reply) = handleQuery caching_ops udp ov unq data (w\<lparr>w_back := sys_backend net r\<rparr>)
      in (data, reply) # serve udp ov unq qs w')"

lemma serve_id:
  "cache_inv 1 (w_cache w) \<Longrightarrow> (data, Some wire) \<in> set (serve udp ov unq qs w) \<Longrightarrow> packet_id wire = packet_id data"
proof (induction qs arbitrary: w)
  case (Cons q qs)
  obtain d net r where q: "q = (d, net, r)" by (cases q)
  let ?w = "w\<lparr>w_back := sys_backend net r\<rparr>"
  obtain w' reply where h: "handleQuery caching_ops udp ov unq d ?w = (w', reply)" by fastforce
  have ok: "world_ok ?w" using Cons.prems(1) sys_backend_keeps_id by (simp add: world_ok_def)
  have "cache_inv 1 (w_cache w')" using cr.handleQuery_inv [OF ok h] by (simp add: world_ok_def)
  with Cons.IH Cons.prems(2) cr.handleQuery_id [OF ok] h q show ?case by auto
qed simp

text \<open>A null reply does not occur, so the cache's own failure entries are not used.\<close>

lemma sys_query_not_null: "snd (sys_query net req f r) \<noteq> Inr None"
  by (auto simp: sys_query_def exc_simps split: prod.splits option.splits)

section \<open>The order of the sources\<close>

text \<open>The specification: a list of sources, each silent or with a reply, the first reply wins.\<close>

fun first_of :: "dns_message option list \<Rightarrow> dns_message \<Rightarrow> dns_message" where
  "first_of [] d = d"
| "first_of (None # ms) d = first_of ms d"
| "first_of (Some m # ms) d = m"

definition useful :: "dns_message \<Rightarrow> dns_message option" where
  "useful m = (if answers m \<noteq> [] then Some m else None)"

definition not_servfail :: "dns_message option \<Rightarrow> dns_message option" where
  "not_servfail r = (case r of Some m \<Rightarrow> if hdr_rcode (header m) \<noteq> rcode_ServFail then Some m else None | None \<Rightarrow> None)"

definition sources :: "sys_net \<Rightarrow> bytes \<Rightarrow> system_resolver \<Rightarrow> dns_message \<Rightarrow> dns_message option list" where
  "sources net wire r req =
     (let q = questions req ! 0; udp = first_reply req (map (\<lambda>s. net_udp net s wire) (servers r));
          doh = first_reply req (map (\<lambda>u. net_doh net u wire) (dohUrls r)) in
      (if qtype q \<in> {type_A, type_AAAA} \<and> (getaddrinfoTested r \<longrightarrow> getaddrinfoWorks r)
       then [useful (queryGetaddrinfo net req)] else [])
      @ (if udpWorks r then [not_servfail udp, doh] else [doh, udp]))"

lemma sys_query_sources:
  assumes "questions req \<noteq> []" "servers r \<noteq> []" "pack req = Inr wire"
  shows "snd (sys_query net req f r) = Inr (Some (first_of (sources net wire r req) (createError req rcode_ServFail)))"
  using assms
  by (auto simp: sys_query_def try_gai_def try_udp_def queryUdp_def queryDoh_def sources_def useful_def not_servfail_def
      Let_def split: option.splits)

section \<open>The name servers\<close>

lemma resolv_line_ip: "resolv_line l = Some s \<Longrightarrow> take 4 (ns_ip s) \<noteq> lit ''127.'' \<and> \<not> contains (lit '':'') (ns_ip s) \<and> ns_port s = 53"
  by (auto simp: resolv_line_def Let_def split: if_splits prod.splits)

lemma map_filter_member: "y \<in> set (List.map_filter f xs) \<Longrightarrow> \<exists>x \<in> set xs. f x = Some y"
  by (induction xs) (auto simp: List.map_filter_simps split: option.splits)

lemma detected_servers:
  fixes r :: system_resolver and resolv
  defines "ss \<equiv> servers (detectSystemDns resolv r)"
  shows "lit ''1.1.1.1'' \<in> set (map ns_ip ss)" "lit ''8.8.8.8'' \<in> set (map ns_ip ss)"
    and "\<forall>s \<in> set ss. take 4 (ns_ip s) \<noteq> lit ''127.'' \<and> \<not> contains (lit '':'') (ns_ip s) \<and> ns_port s = 53"
proof -
  define found where "found = (case resolv of None \<Rightarrow> [] | Some s \<Rightarrow> List.map_filter resolv_line (getlines 10 s))"
  have ss: "ss = add_public (lit ''8.8.8.8'') found (add_public (lit ''1.1.1.1'') found found)"
    by (simp add: ss_def detectSystemDns_def found_def Let_def)
  show "lit ''1.1.1.1'' \<in> set (map ns_ip ss)" "lit ''8.8.8.8'' \<in> set (map ns_ip ss)"
    by (auto simp: ss add_public_def)
  have "take 4 (ns_ip s) \<noteq> lit ''127.'' \<and> \<not> contains (lit '':'') (ns_ip s) \<and> ns_port s = 53" if "s \<in> set found" for s
    using that by (auto simp: found_def split: option.splits dest!: map_filter_member resolv_line_ip)
  moreover have "take 4 (lit ''1.1.1.1'') \<noteq> lit ''127.''" "\<not> contains (lit '':'') (lit ''1.1.1.1'')"
    "take 4 (lit ''8.8.8.8'') \<noteq> lit ''127.''" "\<not> contains (lit '':'') (lit ''8.8.8.8'')" by code_simp+
  ultimately show "\<forall>s \<in> set ss. take 4 (ns_ip s) \<noteq> lit ''127.'' \<and> \<not> contains (lit '':'') (ns_ip s) \<and> ns_port s = 53"
    by (auto simp: ss add_public_def)
qed

end
