(* ===== verification/System_Properties.thy ===== *)
theory System_Properties
  imports System_Resolver Server_Properties
begin

text \<open>
  The properties of the system resolver, alone and behind the cache and the server.
\<close>

section \<open>A network without answers\<close>

definition w_silent :: sys_net where
  "w_silent = \<lparr>net_gai = (\<lambda>_. None), net_udp = (\<lambda>_ _. None), net_doh = (\<lambda>_ _. None)\<rparr>"

definition w_resolver :: system_resolver where
  "w_resolver = sys_init None"

lemma w_resolver_servers: "servers w_resolver \<noteq> []"
  by code_simp

lemma w_silence: "first_reply req (map (\<lambda>_. None) xs) = None"
  by (induction xs) (simp_all add: accept_reply_def)

text \<open>A configuration with a loopback address and another one.\<close>

definition w_conf :: bytes where
  "w_conf = lit ''nameserver 127.0.0.1'' @ [10] @ lit ''nameserver 9.9.9.9'' @ [10]"

lemma w_pack: "pack (w_request 4) = Inr (encode (w_request 4))"
  using wf_message_sendable [OF w_request_wf] by (simp add: pack_eq_encode)

section \<open>The sources of an answer\<close>

text \<open>C20: A query that can be packed is answered by the first source that has something to say, in
  the order getaddrinfo (for address queries, unless it is known not to work), UDP, DoH, or
  DoH before UDP while UDP is believed down; a SERVFAIL over a working UDP path, and an
  address lookup without addresses, count as silence, and with no source left the answer is
  SERVFAIL.\<close>

theorem system_query_order:
  "questions req \<noteq> [] \<Longrightarrow> servers r \<noteq> [] \<Longrightarrow> pack req = Inr wire \<Longrightarrow>
    snd (sys_query net req f r) = Inr (Some (first_of (sources net wire r req) (createError req rcode_ServFail)))"
  by (rule sys_query_sources)

theorem system_query_order_witness:
  "snd (sys_query w_silent (w_request 4) True w_resolver) = Inr (Some (createError (w_request 4) rcode_ServFail))"
  proof -
  have q: "questions (w_request 4) \<noteq> []" by (simp add: w_request_def)
  have "first_of (sources w_silent (encode (w_request 4)) w_resolver (w_request 4)) d = d" for d
    by (simp add: w_silence sources_def w_silent_def useful_def not_servfail_def queryGetaddrinfo_def createReply_def Let_def)
  then show ?thesis by (simp only: system_query_order [OF q w_resolver_servers w_pack])
qed

text \<open>Whatever /etc/resolv.conf holds, the name servers found include 1.1.1.1 and 8.8.8.8, none of
  them is a loopback or IPv6 address, and all are asked on port 53.\<close>

lemma system_name_servers:
  "servers (detectSystemDns resolv r) = ss \<Longrightarrow> lit ''1.1.1.1'' \<in> set (map ns_ip ss) \<and> lit ''8.8.8.8'' \<in> set (map ns_ip ss)
    \<and> (\<forall>s \<in> set ss. take 4 (ns_ip s) \<noteq> lit ''127.'' \<and> \<not> contains (lit '':'') (ns_ip s) \<and> ns_port s = 53)"
  using detected_servers [of resolv r] by blast

section \<open>Behind the server\<close>

lemma w_local_facts:
  "questions (with_counts w_local) = [\<lparr>qname = [97, 46, 108, 111, 99, 97, 108], qtype = 1, qclass = 1\<rparr>]"
  "is_local [97, 46, 108, 111, 99, 97, 108]" "all_sendable (with_counts w_local)"
proof -
  show "questions (with_counts w_local) = [\<lparr>qname = [97, 46, 108, 111, 99, 97, 108], qtype = 1, qclass = 1\<rparr>]"
    by (simp add: w_local_def with_counts_def)
  show "is_local [97, 46, 108, 111, 99, 97, 108]" by code_simp
  show "all_sendable (with_counts w_local)"
    using wf_message_sendable [OF w_local_wf] by (simp add: all_sendable_def with_counts_def)
qed

text \<open>C21: With the cache in front of the system resolver, as the program is put together, every
  packet sent in any sequence of queries carries the id of the query it answers, whatever the
  networks returned and whatever the resolver believed of them at each query.\<close>

theorem served_replies_carry_id:
  "(data, Some wire) \<in> set (serve udp ov unq qs \<lparr>w_back = sys_backend net r, w_fan = fan, w_clocks = ts, w_calls = 0,
      w_cache = caching_init perf_init ttl_init\<rparr>) \<Longrightarrow> packet_id wire = packet_id data"
  by (rule serve_id [OF _ ]) (simp_all add: cache_inv_init w_cfg_ok)

theorem served_replies_carry_id_witness:
  "packet_id (encode (createError (with_counts w_local) rcode_NXDomain)) = packet_id (encode w_local)"
  proof (rule served_replies_carry_id)
  let ?w = "\<lparr>w_back = sys_backend w_silent w_resolver, w_fan = True, w_clocks = (\<lambda>_. w_clock), w_calls = 0, w_cache = w_init\<rparr>"
  have "handleQuery caching_ops (\<lambda>_ _ _. None) [] [] (encode w_local) (?w\<lparr>w_back := sys_backend w_silent w_resolver\<rparr>) =
      (?w, Some (encode (createError (with_counts w_local) rcode_NXDomain)))"
    using handleQuery_local [OF parse_encode [OF w_local_wf], of _ _ caching_ops "\<lambda>_ _ _. None" "[]" "[]" ?w] w_local_facts by simp
  then show "(encode w_local, Some (encode (createError (with_counts w_local) rcode_NXDomain)))
      \<in> set (serve (\<lambda>_ _ _. None) [] [] [(encode w_local, w_silent, w_resolver)] ?w)" by simp
qed

end
