(* ===== verification/Http_Exchange.thy ===== *)
theory Http_Exchange
  imports Dns_Codec Std_String
begin

text \<open>
  One HTTP exchange over an open connection: \<open>HttpResolver::Connection::exchange\<close> of
  \<open>src/http_resolver.cpp\<close> and the same loop in \<open>ConnectionController::healthCheck\<close> of
  \<open>src/connection_controller.cpp\<close>. What the TLS stream delivers is a list of events, one for each
  call of \<open>read_some\<close>: some bytes, end of file, or an error (also the receive timeout).
\<close>

section \<open>The request\<close>

definition CRLF :: bytes where "CRLF = [13, 10]"

definition header_end :: bytes where "header_end = [13, 10, 13, 10]"

lemma header_end_facts [simp]: "length header_end = 4" "header_end \<noteq> []"
  by (simp_all add: header_end_def)

definition cl_tag :: bytes where "cl_tag = lit ''Content-Length: ''"

definition buildHeaderPrefix :: "bytes \<Rightarrow> bytes \<Rightarrow> bytes" where
  "buildHeaderPrefix host target = lit ''POST '' @ target @ lit '' HTTP/1.1'' @ CRLF
     @ lit ''Host: '' @ host @ CRLF @ lit ''User-Agent: lynx/0.2'' @ CRLF
     @ lit ''Content-Type: application/dns-message'' @ CRLF
     @ lit ''Accept: application/dns-message'' @ CRLF"

text \<open>The rest of the header is printed into a buffer of 64 bytes.\<close>

definition cl_line :: "nat \<Rightarrow> bytes" where
  "cl_line n = take 63 (cl_tag @ to_string n @ CRLF @ lit ''Connection: keep-alive'' @ CRLF @ CRLF)"

definition request :: "bytes \<Rightarrow> bytes \<Rightarrow> bytes \<Rightarrow> bytes" where
  "request host target wire = buildHeaderPrefix host target @ cl_line (length wire) @ wire"

definition makeHealthQuery :: bytes where
  "makeHealthQuery = [0x00, 0x00, 0x01, 0x00, 0x00, 0x01, 0x00, 0x00, 0x00, 0x00,
     0x00, 0x00, 0x00, 0x00, 0x01, 0x00, 0x01]"

section \<open>Reading the response\<close>

datatype read_event = Chunk bytes | Eof | Failed

record framing =
  respBuf :: bytes
  headerEndPos :: nat
  headerDone :: bool
  contentLength :: nat
  isChunked :: bool

definition framing_init :: framing where
  "framing_init = \<lparr>respBuf = [], headerEndPos = 0, headerDone = False, contentLength = 0, isChunked = False\<rparr>"

text \<open>The header without its final line end. A \<open>Content-Length\<close> line counts only when a line end
  follows it there; at most 31 characters of its value are converted.\<close>

definition content_length :: "bytes \<Rightarrow> std_error + nat option" where
  "content_length hdr =
     (case find_sub cl_tag hdr of None \<Rightarrow> Inr None
      | Some i \<Rightarrow> let clTag = i + 16 in
          case find_at CRLF hdr clTag of None \<Rightarrow> Inr None
          | Some clEnd \<Rightarrow> bindE (stoul (take (min (clEnd - clTag) 31) (drop clTag hdr))) (\<lambda>n. Inr (Some n)))"

definition body_complete :: "framing \<Rightarrow> bool" where
  "body_complete fr \<longleftrightarrow> contentLength fr \<le> length (respBuf fr) - (headerEndPos fr + 4)"

definition header_found :: "nat \<Rightarrow> framing \<Rightarrow> std_error + framing" where
  "header_found he fr =
     (let hdr = take he (respBuf fr) in
      bindE (content_length hdr) (\<lambda>cl.
        Inr (fr\<lparr>headerDone := True, headerEndPos := he,
               contentLength := (case cl of None \<Rightarrow> contentLength fr | Some n \<Rightarrow> n),
               isChunked := (contains (lit ''chunked'') hdr \<or> isChunked fr)\<rparr>)))"

text \<open>The test at the end of the loop body, and the two inside the header branch.\<close>

definition loop_break :: "framing \<Rightarrow> bool" where
  "loop_break fr = (if 0 < contentLength fr then body_complete fr else \<not> isChunked fr \<and> headerDone fr)"

definition header_break :: "framing \<Rightarrow> bool" where
  "header_break fr \<longleftrightarrow> (0 < contentLength fr \<and> body_complete fr) \<or> (\<not> isChunked fr \<and> contentLength fr = 0)"

definition on_chunk :: "framing \<Rightarrow> bytes \<Rightarrow> std_error + framing \<times> bool" where
  "on_chunk fr bs =
     (let fr = fr\<lparr>respBuf := respBuf fr @ bs\<rparr> in
      case (if headerDone fr then None else find_sub header_end (respBuf fr)) of
        Some he \<Rightarrow> bindE (header_found he fr) (\<lambda>fr. Inr (fr, header_break fr \<or> loop_break fr))
      | None \<Rightarrow> Inr (fr, loop_break fr))"

text \<open>\<open>None\<close> where the code gives up; the exception is one of \<open>std::stoul\<close>. A stream without
  further events is one whose read times out.\<close>

fun read_response :: "read_event list \<Rightarrow> framing \<Rightarrow> std_error + framing option" where
  "read_response [] fr = Inr None"
| "read_response (Eof # es) fr = Inr (Some fr)"
| "read_response (Failed # es) fr = Inr None"
| "read_response (Chunk bs # es) fr =
     bindE (on_chunk fr bs) (\<lambda>(fr, stop). if stop then Inr (Some fr) else read_response es fr)"

section \<open>The reply\<close>

datatype exchange_error = Std std_error | Dns dns_error

definition response_reply :: "bytes \<Rightarrow> exchange_error + dns_message option" where
  "response_reply buf =
     (if buf = [] then Inr None
      else case find_sub header_end buf of None \<Rightarrow> Inr None
      | Some headerEnd \<Rightarrow>
          let headerPart = take headerEnd buf; statusLine = takeWhile (\<lambda>c. c \<noteq> 13) headerPart;
              bodyOffset = headerEnd + 4
          in if \<not> contains (lit ''200'') statusLine then Inr None
             else case content_length headerPart of Inl e \<Rightarrow> Inl (Std e)
             | Inr cl \<Rightarrow>
                 let totalBody = (case cl of None \<Rightarrow> length buf - bodyOffset | Some n \<Rightarrow> n)
                 in if totalBody = 0 then Inr None
                    else case parse_span (drop bodyOffset buf) totalBody of
                      Inl e \<Rightarrow> Inl (Dns e) | Inr m \<Rightarrow> Inr (Some m))"

definition exchange :: "bool \<Rightarrow> bool \<Rightarrow> read_event list \<Rightarrow> exchange_error + dns_message option" where
  "exchange isopen written es =
     (if \<not> isopen then Inr None
      else if \<not> written then Inr None
      else case read_response es framing_init of
        Inl e \<Rightarrow> Inl (Std e)
      | Inr None \<Rightarrow> Inr None
      | Inr (Some fr) \<Rightarrow> response_reply (respBuf fr))"

text \<open>A health check only looks whether anything arrived.\<close>

definition healthCheck :: "bool \<Rightarrow> bool \<Rightarrow> read_event list \<Rightarrow> std_error + bool" where
  "healthCheck isopen written es =
     (if \<not> isopen then Inr False
      else if \<not> written then Inr False
      else bindE (read_response es framing_init) (\<lambda>r.
        case r of None \<Rightarrow> Inr False | Some fr \<Rightarrow> Inr (respBuf fr \<noteq> [])))"

section \<open>Framing does not depend on the segments\<close>

text \<open>A complete response: a header that ends where its first empty line is, and the body that its
  \<open>Content-Length\<close> announces.\<close>

definition complete_response :: "bytes \<Rightarrow> bytes \<Rightarrow> bool" where
  "complete_response hdr body \<longleftrightarrow> find_sub header_end (hdr @ header_end) = Some (length hdr)
     \<and> content_length hdr = Inr (Some (length body)) \<and> body \<noteq> []"

definition framed :: "bytes \<Rightarrow> bytes \<Rightarrow> framing \<Rightarrow> bool" where
  "framed hdr body fr \<longleftrightarrow>
     (if headerDone fr then headerEndPos fr = length hdr \<and> contentLength fr = length body
      else contentLength fr = 0 \<and> \<not> isChunked fr)"

lemma find_header_end:
  assumes "complete_response hdr body"
  shows "find_sub header_end (hdr @ header_end @ body) = Some (length hdr)"
  using assms find_sub_append [of header_end "hdr @ header_end" "length hdr" body]
  by (simp add: complete_response_def)

lemma on_chunk_framed:
  assumes r: "complete_response hdr body" and f: "framed hdr body fr"
    and buf: "(respBuf fr @ bs) @ rest = hdr @ header_end @ body"
  shows "\<exists>fr'. on_chunk fr bs = Inr (fr', rest = []) \<and> respBuf fr' = respBuf fr @ bs \<and> framed hdr body fr'
    \<and> (rest = [] \<longrightarrow> headerDone fr')"
proof -
  let ?buf = "respBuf fr @ bs"
  have len: "length ?buf + length rest = length hdr + 4 + length body"
    using arg_cong [OF buf, of length] by (simp add: header_end_def)
  have pos: "0 < length body" using r by (simp add: complete_response_def)
  have full: "length body \<le> length ?buf - (length hdr + 4) \<longleftrightarrow> rest = []" if "length hdr + 4 \<le> length ?buf"
  proof
    assume "length body \<le> length ?buf - (length hdr + 4)"
    with len that have "length rest = 0" by linarith
    then show "rest = []" by simp
  qed (use len in simp)
  show ?thesis
  proof (cases "headerDone fr")
    case True
    have "length hdr + 4 \<le> length ?buf" if "length body \<le> length ?buf - (length hdr + 4)"
      using that pos by linarith
    moreover have "length hdr + 4 \<le> length ?buf" if "rest = []" using that len by simp
    ultimately have "length body \<le> length ?buf - (length hdr + 4) \<longleftrightarrow> rest = []" using full by blast
    then show ?thesis
      using True f pos by (auto simp: on_chunk_def loop_break_def body_complete_def framed_def)
  next
    case False
    note nd = this
    show ?thesis
    proof (cases "find_sub header_end ?buf")
      case None
      have "rest \<noteq> []" using None find_header_end [OF r] buf by auto
      with None nd f show ?thesis by (simp add: on_chunk_def loop_break_def framed_def)
    next
      case (Some he)
      then have "find_sub header_end (?buf @ rest) = Some he" by (rule find_sub_append)
      then have he: "he = length hdr" using find_header_end [OF r] buf by simp
      from find_sub_Some [OF Some] he have le: "length hdr + 4 \<le> length ?buf" by (simp add: header_end_def)
      have "take he ?buf = take he (?buf @ rest)" using le he by simp
      also have "\<dots> = hdr" using buf he by simp
      finally have "take he ?buf = hdr" .
      moreover have "content_length hdr = Inr (Some (length body))" using r by (simp add: complete_response_def)
      ultimately show ?thesis
        using Some nd f full [OF le] pos he
        by (simp add: on_chunk_def header_found_def header_break_def loop_break_def body_complete_def framed_def)
    qed
  qed
qed

lemma read_response_framed:
  assumes "complete_response hdr body" "framed hdr body fr" "cs \<noteq> []"
    and "respBuf fr @ concat cs = hdr @ header_end @ body"
  shows "\<exists>fr'. read_response (map Chunk cs @ es) fr = Inr (Some fr') \<and> respBuf fr' = hdr @ header_end @ body
    \<and> framed hdr body fr' \<and> headerDone fr'"
  using assms(2-4)
proof (induction cs arbitrary: fr)
  case Nil
  then show ?case by simp
next
  case (Cons c cs)
  from on_chunk_framed [OF assms(1) Cons.prems(1), of c "concat cs"] Cons.prems(3)
  obtain fr' where fr': "on_chunk fr c = Inr (fr', concat cs = [])" "respBuf fr' = respBuf fr @ c"
      "framed hdr body fr'" "concat cs = [] \<longrightarrow> headerDone fr'" by auto
  show ?case
  proof (cases "concat cs = []")
    case True
    with fr' Cons.prems(3) show ?thesis by simp
  next
    case False
    then have "cs \<noteq> []" by auto
    with Cons.IH [OF fr'(3)] fr'(2) Cons.prems(3) False fr'(1) show ?thesis by auto
  qed
qed

text \<open>The reader knows where the body is: the header has been seen when it stops.\<close>

lemma read_response_at_end:
  assumes r: "complete_response hdr body" and "cs \<noteq> []" "concat cs = hdr @ header_end @ body"
  shows "\<exists>fr. read_response (map Chunk cs @ es) framing_init = Inr (Some fr) \<and> respBuf fr = hdr @ header_end @ body
    \<and> headerEndPos fr = length hdr"
proof -
  have "framed hdr body framing_init" by (simp add: framed_def framing_init_def)
  from read_response_framed [OF r this assms(2), of es] assms(3)
  obtain fr where fr: "read_response (map Chunk cs @ es) framing_init = Inr (Some fr)" "respBuf fr = hdr @ header_end @ body"
    "framed hdr body fr" "headerDone fr" by (auto simp: framing_init_def)
  with fr show ?thesis by (auto simp: framed_def)
qed

lemma exchange_framed:
  assumes r: "complete_response hdr body" and ok: "contains (lit ''200'') (takeWhile (\<lambda>c. c \<noteq> 13) hdr)"
    and cs: "concat cs = hdr @ header_end @ body"
  shows "exchange True True (map Chunk cs @ es)
    = (case parse body of Inl e \<Rightarrow> Inl (Dns e) | Inr m \<Rightarrow> Inr (Some m))"
proof -
  have "cs \<noteq> []" using cs by (auto simp: header_end_def)
  moreover have "framed hdr body framing_init" by (simp add: framed_def framing_init_def)
  ultimately obtain fr' where fr': "read_response (map Chunk cs @ es) framing_init = Inr (Some fr')"
      "respBuf fr' = hdr @ header_end @ body"
    using read_response_framed [OF r, of framing_init cs es] cs by (auto simp: framing_init_def)
  have "drop (length hdr + 4) (hdr @ header_end @ body) = body" by (simp add: header_end_def)
  moreover have "hdr @ header_end @ body \<noteq> []" by (simp add: header_end_def)
  ultimately show ?thesis
    using fr' r ok find_header_end [OF r] by (simp add: exchange_def response_reply_def complete_response_def parse_def)
qed

section \<open>Where it does\<close>

text \<open>A \<open>Content-Length\<close> in the last line of the header is not seen.\<close>

lemma no_CR_digits: "list_all isdigit ds \<Longrightarrow> find_sub CRLF ds = None"
  by (induction ds) (auto simp: CRLF_def isdigit_def)

lemma content_length_last:
  assumes "find_sub cl_tag (h @ cl_tag) = Some (length h)" "list_all isdigit ds"
  shows "content_length (h @ cl_tag @ ds) = Inr None"
proof -
  have "find_sub cl_tag (h @ cl_tag @ ds) = Some (length h)"
    using find_sub_append [OF assms(1), of ds] by simp
  moreover have "length cl_tag = 16" by (simp add: cl_tag_def lit_def)
  then have "drop (length h + 16) (h @ cl_tag @ ds) = ds" "\<not> length (h @ cl_tag @ ds) < length h + 16" by simp_all
  ultimately show ?thesis
    using no_CR_digits [OF assms(2)] by (simp add: content_length_def find_at_def)
qed

text \<open>Then the reading ends with the header, and a body in a later segment is lost.\<close>

lemma header_only:
  assumes "find_sub header_end (hdr @ header_end) = Some (length hdr)" "content_length hdr = Inr None"
    and "\<not> contains (lit ''chunked'') hdr"
  shows "exchange True True (Chunk (hdr @ header_end) # es) = Inr None"
  using assms
  by (simp add: exchange_def on_chunk_def framing_init_def header_found_def header_break_def response_reply_def
      Let_def)

text \<open>A body cut short is parsed at its announced length.\<close>

lemma cut_short:
  assumes "find_sub header_end (hdr @ header_end) = Some (length hdr)" "content_length hdr = Inr (Some n)"
    and "contains (lit ''200'') (takeWhile (\<lambda>c. c \<noteq> 13) hdr)" "length body < n"
  shows "exchange True True [Chunk (hdr @ header_end @ body), Eof]
    = (case parse_span body n of Inl e \<Rightarrow> Inl (Dns e) | Inr m \<Rightarrow> Inr (Some m))"
proof -
  have "find_sub header_end (hdr @ header_end @ body) = Some (length hdr)"
    using find_sub_append [OF assms(1), of body] by simp
  moreover have "drop (length hdr + 4) (hdr @ header_end @ body) = body" "length (hdr @ header_end @ body) - (length hdr + 4) = length body"
    by simp_all
  ultimately show ?thesis
    using assms(2-4)
    by (simp add: exchange_def on_chunk_def framing_init_def header_found_def header_break_def loop_break_def
        body_complete_def response_reply_def)
qed

end
