(* ===== verification/Conn_Controller.thy ===== *)
theory Conn_Controller
  imports Http_Exchange Clock Step_Invariant
begin

text \<open>
  \<open>class ConnectionController\<close> of \<open>src/connection_controller.cpp\<close>: the list of managed connections,
  their health, and the queue of reconnects that four workers serve.

  A stream is identified by a number, as the code compares pointers. The flag \<open>connected\<close> of a
  connection belongs to its owner, the HTTP resolver; the controller holds its address, so the
  flags are a store \<open>conn_flags\<close> that both sides write. Each critical section is one operation; the
  network I/O between them is outside, and its result an argument.
\<close>

section \<open>State\<close>

type_synonym address = "bytes \<times> bytes \<times> bytes"

record managed_conn =
  mc_addr :: address
  mc_stream :: nat
  mc_flag :: "nat option"
  mc_lastUse :: int
  mc_lastCheck :: int
  mc_failures :: int
  mc_reconnectPending :: bool

record reconnect_work =
  rw_stream :: nat
  rw_addr :: address
  rw_retries :: nat

record controller =
  managed :: "managed_conn list"
  reconnectQueue :: "reconnect_work list"
  connectedCount :: int
  totalCount :: nat
  conn_flags :: "nat \<Rightarrow> bool"

definition controller_init :: "(nat \<Rightarrow> bool) \<Rightarrow> controller" where
  "controller_init fl = \<lparr>managed = [], reconnectQueue = [], connectedCount = 0, totalCount = 0, conn_flags = fl\<rparr>"

text \<open>\<open>connected && connected->load()\<close>.\<close>

definition up :: "(nat \<Rightarrow> bool) \<Rightarrow> managed_conn \<Rightarrow> bool" where
  "up fl m \<longleftrightarrow> (case mc_flag m of None \<Rightarrow> False | Some a \<Rightarrow> fl a)"

text \<open>The loops that look for the entry of a stream stop at the first.\<close>

fun index_of :: "nat \<Rightarrow> managed_conn list \<Rightarrow> nat option" where
  "index_of st [] = None"
| "index_of st (m # ms) = (if mc_stream m = st then Some 0 else map_option Suc (index_of st ms))"

definition update_at :: "nat \<Rightarrow> (managed_conn \<Rightarrow> managed_conn) \<Rightarrow> controller \<Rightarrow> controller" where
  "update_at i f c = c\<lparr>managed := (managed c)[i := f (managed c ! i)]\<rparr>"

section \<open>The operations of the owner\<close>

definition manage :: "address \<Rightarrow> nat \<Rightarrow> nat option \<Rightarrow> int \<Rightarrow> controller \<Rightarrow> controller" where
  "manage addr st flag now c =
     (let mc = \<lparr>mc_addr = addr, mc_stream = st, mc_flag = flag, mc_lastUse = now, mc_lastCheck = now,
           mc_failures = 0, mc_reconnectPending = False\<rparr>;
          c = (if up (conn_flags c) mc then c\<lparr>connectedCount := connectedCount c + 1\<rparr> else c);
          ms = managed c @ [mc]
      in c\<lparr>managed := ms, totalCount := length ms\<rparr>)"

definition remove_at :: "nat \<Rightarrow> controller \<Rightarrow> controller" where
  "remove_at i c =
     (let c = (if up (conn_flags c) (managed c ! i) then c\<lparr>connectedCount := connectedCount c - 1\<rparr> else c);
          ms = take i (managed c) @ drop (Suc i) (managed c)
      in c\<lparr>managed := ms, totalCount := length ms\<rparr>)"

definition unmanage :: "nat \<Rightarrow> controller \<Rightarrow> controller" where
  "unmanage st c =
     (let c = (case index_of st (managed c) of None \<Rightarrow> c | Some i \<Rightarrow> remove_at i c)
      in c\<lparr>reconnectQueue := filter (\<lambda>w. rw_stream w \<noteq> st) (reconnectQueue c)\<rparr>)"

definition notifyUsed :: "nat \<Rightarrow> int \<Rightarrow> controller \<Rightarrow> controller" where
  "notifyUsed st now c =
     (case index_of st (managed c) of None \<Rightarrow> c
      | Some i \<Rightarrow> update_at i (\<lambda>m. m\<lparr>mc_lastUse := now, mc_failures := 0\<rparr>) c)"

text \<open>\<open>if (connected && connected->exchange(false)) connectedCount_--\<close>.\<close>

definition drop_conn :: "nat \<Rightarrow> controller \<Rightarrow> controller" where
  "drop_conn i c =
     (case mc_flag (managed c ! i) of None \<Rightarrow> c
      | Some a \<Rightarrow>
          let c' = c\<lparr>conn_flags := (conn_flags c)(a := False)\<rparr>
          in if conn_flags c a then c'\<lparr>connectedCount := connectedCount c - 1\<rparr> else c')"

definition work_for :: "managed_conn \<Rightarrow> nat \<Rightarrow> reconnect_work" where
  "work_for m n = \<lparr>rw_stream = mc_stream m, rw_addr = mc_addr m, rw_retries = n\<rparr>"

definition enqueue_work :: "reconnect_work \<Rightarrow> controller \<Rightarrow> controller" where
  "enqueue_work w c = c\<lparr>reconnectQueue := reconnectQueue c @ [w]\<rparr>"

definition request_reconnect :: "nat \<Rightarrow> controller \<Rightarrow> controller" where
  "request_reconnect i c =
     (if mc_reconnectPending (managed c ! i) then c
      else enqueue_work (work_for (managed c ! i) 0) (update_at i (\<lambda>m. m\<lparr>mc_reconnectPending := True\<rparr>) c))"

definition notifyFailure :: "nat \<Rightarrow> controller \<Rightarrow> controller" where
  "notifyFailure st c =
     (case index_of st (managed c) of None \<Rightarrow> c
      | Some i \<Rightarrow> request_reconnect i (drop_conn i (update_at i (\<lambda>m. m\<lparr>mc_failures := mc_failures m + 1\<rparr>) c)))"

section \<open>Health checks\<close>

text \<open>The connections that \<open>probeAllIdle\<close> checks: up, not being reconnected, idle for three seconds.\<close>

definition idle_ms :: "int \<Rightarrow> int \<Rightarrow> int" where
  "idle_ms now since = duration_cast 1000000 (now - since)"

definition idle_candidates :: "int \<Rightarrow> controller \<Rightarrow> (nat \<times> nat) list" where
  "idle_candidates now c =
     [(i, mc_stream m). (i, m) \<leftarrow> enumerate 0 (managed c), up (conn_flags c) m, \<not> mc_reconnectPending m, 3000 \<le> idle_ms now (mc_lastUse m)]"

text \<open>The section entered when a check failed: \<open>idx\<close> is the index from the collecting section.\<close>

definition check_failed :: "nat \<Rightarrow> nat \<Rightarrow> controller \<Rightarrow> controller" where
  "check_failed idx st c =
     (if idx < length (managed c) \<and> mc_stream (managed c ! idx) = st
      then request_reconnect idx (drop_conn idx c) else c)"

section \<open>The maintenance thread\<close>

definition IDLE_CHECK_INTERVAL :: int where "IDLE_CHECK_INTERVAL = 12000"

definition due_checks :: "int \<Rightarrow> controller \<Rightarrow> (nat \<times> nat) list" where
  "due_checks now c =
     [(i, mc_stream m). (i, m) \<leftarrow> enumerate 0 (managed c), mc_flag m \<noteq> None, \<not> mc_reconnectPending m, up (conn_flags c) m,
        3000 \<le> idle_ms now (mc_lastUse m) \<and> IDLE_CHECK_INTERVAL \<le> idle_ms now (mc_lastCheck m)]"

definition is_down :: "controller \<Rightarrow> managed_conn \<Rightarrow> bool" where
  "is_down c m \<longleftrightarrow> mc_flag m \<noteq> None \<and> \<not> mc_reconnectPending m \<and> \<not> up (conn_flags c) m"

definition down_indices :: "controller \<Rightarrow> nat list" where
  "down_indices c = filter (\<lambda>i. is_down c (managed c ! i)) [0..<length (managed c)]"

text \<open>The collecting section of \<open>run\<close> marks the connections that are down and keeps their indices.\<close>

definition scan :: "controller \<Rightarrow> controller \<times> nat list" where
  "scan c = (c\<lparr>managed := map (\<lambda>m. if is_down c m then m\<lparr>mc_reconnectPending := True\<rparr> else m) (managed c)\<rparr>,
     down_indices c)"

text \<open>One round of its last loop, which uses such an index later, in a section of its own.\<close>

definition enqueue_index :: "nat \<Rightarrow> controller \<Rightarrow> controller" where
  "enqueue_index idx c =
     (if idx < length (managed c) then enqueue_work (work_for (managed c ! idx) 0) c else c)"

section \<open>The reconnect workers\<close>

text \<open>The delay before an attempt, in milliseconds.\<close>

definition reconnect_delay :: "nat \<Rightarrow> nat" where
  "reconnect_delay retries = min (5 * 2 ^ min retries 6) 5000"

text \<open>The first section: whether the connection is to be opened.\<close>

definition reconnect_lookup :: "reconnect_work \<Rightarrow> controller \<Rightarrow> bool" where
  "reconnect_lookup w c \<longleftrightarrow>
     (case index_of (rw_stream w) (managed c) of None \<Rightarrow> False
      | Some i \<Rightarrow> mc_flag (managed c ! i) \<noteq> None \<and> \<not> up (conn_flags c) (managed c ! i))"

text \<open>The last section: \<open>success\<close> is the result of opening the connection.\<close>

definition mark_up :: "nat \<Rightarrow> controller \<Rightarrow> controller" where
  "mark_up a c = c\<lparr>conn_flags := (conn_flags c)(a := True), connectedCount := connectedCount c + 1\<rparr>"

definition reconnect_done :: "bool \<Rightarrow> int \<Rightarrow> reconnect_work \<Rightarrow> controller \<Rightarrow> controller" where
  "reconnect_done success now w c =
     (case index_of (rw_stream w) (managed c) of None \<Rightarrow> c
      | Some i \<Rightarrow>
          (case (success, mc_flag (managed c ! i)) of
             (True, Some a) \<Rightarrow> mark_up a (update_at i
               (\<lambda>m. m\<lparr>mc_reconnectPending := False, mc_lastUse := now, mc_lastCheck := now, mc_failures := 0\<rparr>) c)
           | _ \<Rightarrow> if rw_retries w < 5 then enqueue_work (w\<lparr>rw_retries := rw_retries w + 1\<rparr>) c
                  else update_at i (\<lambda>m. m\<lparr>mc_reconnectPending := False\<rparr>) c))"

section \<open>The interleavings\<close>

text \<open>The state with what the threads hold between their sections: the indices that the maintenance
  thread has still to enqueue, the works that reconnect workers have taken, and those whose
  connection is being opened.\<close>

record system =
  ctl :: controller
  to_enqueue :: "nat list"
  in_delay :: "reconnect_work list"
  in_open :: "reconnect_work list"

definition works :: "system \<Rightarrow> reconnect_work list" where
  "works s = reconnectQueue (ctl s) @ in_delay s @ in_open s"

definition system_init :: "(nat \<Rightarrow> bool) \<Rightarrow> system" where
  "system_init fl = \<lparr>ctl = controller_init fl, to_enqueue = [], in_delay = [], in_open = []\<rparr>"

text \<open>The owner gives each stream and each flag to the controller once at a time, and writes the
  flag only while the connection is not managed. With \<open>strict\<close>, no connection is removed while the
  maintenance thread holds indices.\<close>

inductive cc_step :: "bool \<Rightarrow> system \<Rightarrow> system \<Rightarrow> bool" for strict :: bool where
  cc_manage: "st \<notin> set (map mc_stream (managed (ctl s))) \<Longrightarrow> st \<notin> set (map rw_stream (works s)) \<Longrightarrow>
     Some a \<notin> set (map mc_flag (managed (ctl s))) \<Longrightarrow>
     cc_step strict s (s\<lparr>ctl := manage addr st (Some a) now (ctl s)\<rparr>)"
| cc_unmanage: "strict \<longrightarrow> to_enqueue s = [] \<Longrightarrow> cc_step strict s (s\<lparr>ctl := unmanage st (ctl s)\<rparr>)"
| cc_owner: "Some a \<notin> set (map mc_flag (managed (ctl s))) \<Longrightarrow>
     cc_step strict s (s\<lparr>ctl := (ctl s)\<lparr>conn_flags := (conn_flags (ctl s))(a := v)\<rparr>\<rparr>)"
| cc_used: "cc_step strict s (s\<lparr>ctl := notifyUsed st now (ctl s)\<rparr>)"
| cc_failure: "cc_step strict s (s\<lparr>ctl := notifyFailure st (ctl s)\<rparr>)"
| cc_check: "cc_step strict s (s\<lparr>ctl := check_failed i st (ctl s)\<rparr>)"
| cc_scan: "to_enqueue s = [] \<Longrightarrow>
     cc_step strict s (s\<lparr>ctl := fst (scan (ctl s)), to_enqueue := snd (scan (ctl s))\<rparr>)"
| cc_enqueue: "to_enqueue s = i # is \<Longrightarrow>
     cc_step strict s (s\<lparr>ctl := enqueue_index i (ctl s), to_enqueue := is\<rparr>)"
| cc_take: "reconnectQueue (ctl s) = w # ws \<Longrightarrow>
     cc_step strict s (s\<lparr>ctl := (ctl s)\<lparr>reconnectQueue := ws\<rparr>, in_delay := w # in_delay s\<rparr>)"
| cc_open: "w \<in> set (in_delay s) \<Longrightarrow> reconnect_lookup w (ctl s) \<Longrightarrow>
     cc_step strict s (s\<lparr>in_delay := remove1 w (in_delay s), in_open := w # in_open s\<rparr>)"
| cc_skip: "w \<in> set (in_delay s) \<Longrightarrow> \<not> reconnect_lookup w (ctl s) \<Longrightarrow>
     cc_step strict s (s\<lparr>in_delay := remove1 w (in_delay s)\<rparr>)"
| cc_done: "w \<in> set (in_open s) \<Longrightarrow>
     cc_step strict s (s\<lparr>ctl := reconnect_done ok now w (ctl s), in_open := remove1 w (in_open s)\<rparr>)"

inductive_cases cc_stepE: "cc_step strict s s'"

definition cc_reachable :: "bool \<Rightarrow> system \<Rightarrow> bool" where
  "cc_reachable strict s \<longleftrightarrow> (\<exists>fl. (cc_step strict)\<^sup>*\<^sup>* (system_init fl) s)"

end
