(* ===== verification/Conn_Proofs.thy ===== *)
theory Conn_Proofs
  imports Conn_Controller "HOL-Library.Multiset"
begin

text \<open>
  The invariant of the connection controller: its counter is the number of connections that are up,
  and a connection that waits for a reconnect is down and has exactly one reconnect on its way. It
  holds as long as no connection is removed between the two sections of a maintenance round; a run
  at the end shows how it breaks otherwise.
\<close>

section \<open>Finding entries\<close>

lemma index_of_Some: "index_of st ms = Some i \<Longrightarrow> i < length ms \<and> mc_stream (ms ! i) = st"
  by (induction ms arbitrary: i) (auto split: if_splits)

lemma index_of_None: "index_of st ms = None \<Longrightarrow> st \<notin> set (map mc_stream ms)"
  by (induction ms) (auto split: if_splits)

lemma same_stream:
  "distinct (map mc_stream ms) \<Longrightarrow> i < length ms \<Longrightarrow> j < length ms \<Longrightarrow> mc_stream (ms ! i) = mc_stream (ms ! j) \<longleftrightarrow> i = j"
  by (metis length_map nth_eq_iff_index_eq nth_map)

section \<open>The controller by itself\<close>

definition ups :: "(nat \<Rightarrow> bool) \<Rightarrow> managed_conn list \<Rightarrow> nat" where
  "ups fl ms = length (filter (up fl) ms)"

definition ctl_ok :: "controller \<Rightarrow> bool" where
  "ctl_ok c \<longleftrightarrow> distinct (map mc_stream (managed c)) \<and> distinct (map mc_flag (managed c))
     \<and> None \<notin> set (map mc_flag (managed c)) \<and> connectedCount c = int (ups (conn_flags c) (managed c))
     \<and> totalCount c = length (managed c)"

declare set_map [simp del]

lemma up_Some: "mc_flag m = Some a \<Longrightarrow> up fl m = fl a"
  by (simp add: up_def)

lemma up_mono: "mc_flag m' = mc_flag m \<Longrightarrow> up fl m' = up fl m"
  by (simp add: up_def)

lemma ups_append [simp]: "ups fl [] = 0" "ups fl (m # ms) = of_bool (up fl m) + ups fl ms" "ups fl (xs @ ys) = ups fl xs + ups fl ys"
  by (simp_all add: ups_def)

lemma ups_other: "Some a \<notin> set (map mc_flag ms) \<Longrightarrow> ups (fl(a := v)) ms = ups fl ms"
  unfolding ups_def by (rule arg_cong [where f = length], rule filter_cong) (auto simp: up_def set_map image_iff split: option.splits)

lemma ups_map: "map mc_flag ms' = map mc_flag ms \<Longrightarrow> ups fl ms' = ups fl ms"
proof (induction ms arbitrary: ms')
  case (Cons m ms)
  then obtain m' ms2 where "ms' = m' # ms2" by (cases ms') auto
  with Cons.IH [of ms2] Cons.prems up_mono [of m' m fl] show ?case by simp
qed simp

text \<open>Writing the flag that an entry owns.\<close>

lemma ups_middle:
  assumes "distinct (map mc_flag (xs @ m # ys))" "mc_flag m = Some a"
  shows "ups (fl(a := v)) (xs @ m # ys) + of_bool (fl a) = ups fl (xs @ m # ys) + of_bool v"
proof -
  have "Some a \<notin> set (map mc_flag xs)" "Some a \<notin> set (map mc_flag ys)" using assms by auto
  then show ?thesis
    using up_Some [OF assms(2), of fl] up_Some [OF assms(2), of "fl(a := v)"] by (simp add: ups_other)
qed

lemma ups_at:
  assumes "i < length ms" "distinct (map mc_flag ms)" "mc_flag (ms ! i) = Some a"
  shows "ups (fl(a := v)) ms + of_bool (fl a) = ups fl ms + of_bool v"
  using ups_middle [of "take i ms" "ms ! i" "drop (Suc i) ms" a fl v] assms
  unfolding id_take_nth_drop [OF assms(1), symmetric] by blast

lemma flag_at: "ctl_ok c \<Longrightarrow> i < length (managed c) \<Longrightarrow> \<exists>a. mc_flag (managed c ! i) = Some a"
  unfolding ctl_ok_def by (metis length_map not_None_eq nth_map nth_mem)

lemma map_update_same: "i < length ms \<Longrightarrow> g m' = g (ms ! i) \<Longrightarrow> map g (ms[i := m']) = map g ms"
  by (simp add: map_update list_update_same_conv)

lemma ctl_ok_same:
  assumes "map mc_stream (managed c') = map mc_stream (managed c)" "map mc_flag (managed c') = map mc_flag (managed c)"
    and "conn_flags c' = conn_flags c" "connectedCount c' = connectedCount c" "totalCount c' = totalCount c"
  shows "ctl_ok c' = ctl_ok c"
  using assms ups_map [OF assms(2)] map_eq_imp_length_eq [OF assms(2)] by (simp add: ctl_ok_def)

lemma ctl_ok_update:
  assumes "i < length (managed c)" "\<And>m. mc_stream (f m) = mc_stream m" "\<And>m. mc_flag (f m) = mc_flag m"
  shows "ctl_ok (update_at i f c) = ctl_ok c"
  by (rule ctl_ok_same) (use assms in \<open>simp_all add: update_at_def map_update_same\<close>)

lemma ctl_ok_flag:
  assumes "ctl_ok c" "i < length (managed c)" "mc_flag (managed c ! i) = Some a"
    and "conn_flags c' = (conn_flags c)(a := v)" "managed c' = managed c" "totalCount c' = totalCount c"
    and "connectedCount c' = connectedCount c - of_bool (conn_flags c a) + of_bool v"
  shows "ctl_ok c'"
  using assms ups_at [OF assms(2) _ assms(3), of "conn_flags c" v]
  by (auto simp: ctl_ok_def of_bool_def split: if_splits)

lemma ctl_ok_drop: "ctl_ok c \<Longrightarrow> i < length (managed c) \<Longrightarrow> ctl_ok (drop_conn i c)"
  using flag_at [of c i] by (auto simp: drop_conn_def Let_def intro: ctl_ok_flag [where v = False])

lemma ctl_ok_mark_up:
  "ctl_ok c \<Longrightarrow> i < length (managed c) \<Longrightarrow> mc_flag (managed c ! i) = Some a \<Longrightarrow> \<not> conn_flags c a \<Longrightarrow> ctl_ok (mark_up a c)"
  by (auto simp: mark_up_def intro: ctl_ok_flag [where v = True])

lemma ctl_ok_enqueue [simp]: "ctl_ok (enqueue_work w c) = ctl_ok c"
  by (rule ctl_ok_same) (simp_all add: enqueue_work_def)

lemma ctl_ok_queue [simp]: "ctl_ok (c\<lparr>reconnectQueue := q\<rparr>) = ctl_ok c"
  by (rule ctl_ok_same) simp_all

lemma ctl_ok_owner:
  "ctl_ok c \<Longrightarrow> Some a \<notin> set (map mc_flag (managed c)) \<Longrightarrow> ctl_ok (c\<lparr>conn_flags := (conn_flags c)(a := v)\<rparr>)"
  by (simp add: ctl_ok_def ups_other)

lemma ctl_ok_manage:
  "ctl_ok c \<Longrightarrow> st \<notin> set (map mc_stream (managed c)) \<Longrightarrow> Some a \<notin> set (map mc_flag (managed c))
    \<Longrightarrow> ctl_ok (manage addr st (Some a) now c)"
  by (auto simp: ctl_ok_def manage_def Let_def)

lemma ctl_ok_remove:
  assumes "ctl_ok c" "i < length (managed c)"
  shows "ctl_ok (remove_at i c)"
proof -
  let ?ms = "managed c"
  have ms: "?ms = take i ?ms @ ?ms ! i # drop (Suc i) ?ms" using assms(2) by (rule id_take_nth_drop)
  have "ups fl (take i ?ms @ ?ms ! i # drop (Suc i) ?ms)
      = ups fl (take i ?ms) + of_bool (up fl (?ms ! i)) + ups fl (drop (Suc i) ?ms)" for fl
    by (simp only: ups_append)
  then have u: "ups fl ?ms = ups fl (take i ?ms) + of_bool (up fl (?ms ! i)) + ups fl (drop (Suc i) ?ms)" for fl
    using ms by metis
  have d: "distinct (map g (take i ?ms @ drop (Suc i) ?ms))" if "distinct (map g ?ms)" for g :: "managed_conn \<Rightarrow> 'a"
  proof -
    have "distinct (map g (take i ?ms @ ?ms ! i # drop (Suc i) ?ms))" using that ms by simp
    then show ?thesis by auto
  qed
  have "None \<notin> set (map mc_flag (take i ?ms @ drop (Suc i) ?ms))"
    using assms(1) by (auto simp: ctl_ok_def set_map dest: in_set_takeD in_set_dropD)
  moreover have "managed (remove_at i c) = take i ?ms @ drop (Suc i) ?ms" "conn_flags (remove_at i c) = conn_flags c"
    "totalCount (remove_at i c) = length (take i ?ms @ drop (Suc i) ?ms)"
    "connectedCount (remove_at i c) = connectedCount c - of_bool (up (conn_flags c) (?ms ! i))"
    by (simp_all add: remove_at_def Let_def)
  ultimately show ?thesis
    using assms(1) d [of mc_stream] d [of mc_flag] u [of "conn_flags c"] unfolding ctl_ok_def by simp
qed

lemma ctl_ok_scan [simp]: "ctl_ok (fst (scan c)) = ctl_ok c"
  by (rule ctl_ok_same) (simp_all add: scan_def)


section \<open>The system\<close>

text \<open>What is on its way for entry \<open>i\<close>: queued and taken works for its stream, and its index where the
  maintenance thread still holds it.\<close>

definition owed :: "system \<Rightarrow> nat \<Rightarrow> nat" where
  "owed s i = count (image_mset rw_stream (mset (works s))) (mc_stream (managed (ctl s) ! i))
     + count (mset (to_enqueue s)) i"

definition entry_inv :: "system \<Rightarrow> nat \<Rightarrow> bool" where
  "entry_inv s i \<longleftrightarrow> (let m = managed (ctl s) ! i in
     owed s i = of_bool (mc_reconnectPending m) \<and> (mc_reconnectPending m \<longrightarrow> \<not> up (conn_flags (ctl s)) m))"

definition sys_inv :: "system \<Rightarrow> bool" where
  "sys_inv s \<longleftrightarrow> ctl_ok (ctl s) \<and> (\<forall>i \<in> set (to_enqueue s). i < length (managed (ctl s)))
     \<and> (\<forall>i < length (managed (ctl s)). entry_inv s i) \<and> (\<forall>w \<in> set (works s). rw_retries w \<le> 5)"

lemmas inv_unfold = sys_inv_def entry_inv_def owed_def works_def Let_def

lemma stream_distinct:
  "ctl_ok c \<Longrightarrow> i < length (managed c) \<Longrightarrow> j < length (managed c) \<Longrightarrow> mc_stream (managed c ! i) = mc_stream (managed c ! j) \<longleftrightarrow> i = j"
  by (simp add: ctl_ok_def same_stream)

lemma flag_distinct:
  "ctl_ok c \<Longrightarrow> i < length (managed c) \<Longrightarrow> j < length (managed c) \<Longrightarrow> mc_flag (managed c ! i) = mc_flag (managed c ! j) \<longleftrightarrow> i = j"
  unfolding ctl_ok_def by (metis length_map nth_eq_iff_index_eq nth_map)

lemma managed_ops [simp]:
  "managed (drop_conn i c) = managed c" "managed (mark_up a c) = managed c" "managed (enqueue_work w c) = managed c"
  "managed (update_at i f c) = (managed c)[i := f (managed c ! i)]"
  "reconnectQueue (drop_conn i c) = reconnectQueue c" "reconnectQueue (mark_up a c) = reconnectQueue c"
  "reconnectQueue (enqueue_work w c) = reconnectQueue c @ [w]" "reconnectQueue (update_at i f c) = reconnectQueue c"
  "conn_flags (enqueue_work w c) = conn_flags c" "conn_flags (update_at i f c) = conn_flags c"
  by (auto simp: drop_conn_def mark_up_def enqueue_work_def update_at_def Let_def split: option.splits)

lemma up_drop:
  assumes "ctl_ok c" "i < length (managed c)" "j < length (managed c)"
  shows "up (conn_flags (drop_conn i c)) (managed c ! j) \<longleftrightarrow> j \<noteq> i \<and> up (conn_flags c) (managed c ! j)"
  using flag_at [OF assms(1,2)] flag_at [OF assms(1,3)] flag_distinct [OF assms]
  by (auto simp: drop_conn_def Let_def up_def split: if_splits)

lemma up_mark:
  assumes "ctl_ok c" "i < length (managed c)" "j < length (managed c)" "mc_flag (managed c ! i) = Some a"
  shows "up (conn_flags (mark_up a c)) (managed c ! j) \<longleftrightarrow> j = i \<or> up (conn_flags c) (managed c ! j)"
  using flag_at [OF assms(1,3)] flag_distinct [OF assms(1-3)] assms(4) by (auto simp: mark_up_def up_def)

text \<open>Changes that no part of the invariant sees.\<close>

lemma inv_update:
  assumes "i < length (managed (ctl s))" "\<And>m. mc_stream (f m) = mc_stream m" "\<And>m. mc_flag (f m) = mc_flag m"
    and "\<And>m. mc_reconnectPending (f m) = mc_reconnectPending m" "sys_inv s"
  shows "sys_inv (s\<lparr>ctl := update_at i f (ctl s)\<rparr>)"
proof -
  have "up fl (f m) = up fl m" for fl m by (rule up_mono) (rule assms(3))
  with assms ctl_ok_update [of i "ctl s" f, OF assms(1-3)] show ?thesis
    by (auto simp: inv_unfold nth_list_update)
qed

lemma inv_fail_at:
  assumes "sys_inv s" "i < length (managed (ctl s))"
  shows "sys_inv (s\<lparr>ctl := request_reconnect i (drop_conn i (ctl s))\<rparr>)"
proof -
  let ?c = "ctl s" and ?p = "\<lambda>m. m\<lparr>mc_reconnectPending := True\<rparr>"
  have ok: "ctl_ok ?c" using assms(1) by (simp add: sys_inv_def)
  note up = up_drop [OF ok assms(2)] and st = stream_distinct [OF ok assms(2)]
  have d: "ctl_ok (drop_conn i ?c)" using ok assms(2) by (rule ctl_ok_drop)
  have p: "up fl (?p m) = up fl m" for fl m by (rule up_mono) simp
  show ?thesis
  proof (cases "mc_reconnectPending (managed ?c ! i)")
    case True
    with assms(1) d up show ?thesis by (auto simp: inv_unfold request_reconnect_def)
  next
    case False
    have "ctl_ok (request_reconnect i (drop_conn i ?c))"
      using d assms(2) False ctl_ok_update [of i "drop_conn i ?c" ?p] by (simp add: request_reconnect_def)
    with False assms up p show ?thesis
      by (auto simp: inv_unfold request_reconnect_def work_for_def nth_list_update st)
  qed
qed

lemma inv_owner:
  assumes "sys_inv s" "Some a \<notin> set (map mc_flag (managed (ctl s)))"
  shows "sys_inv (s\<lparr>ctl := (ctl s)\<lparr>conn_flags := (conn_flags (ctl s))(a := v)\<rparr>\<rparr>)"
proof -
  have "mc_flag (managed (ctl s) ! i) \<noteq> Some a" if "i < length (managed (ctl s))" for i
    using assms(2) that by (metis length_map nth_map nth_mem)
  then have "up ((conn_flags (ctl s))(a := v)) (managed (ctl s) ! i) = up (conn_flags (ctl s)) (managed (ctl s) ! i)"
    if "i < length (managed (ctl s))" for i using that by (auto simp: up_def split: option.splits)
  with assms ctl_ok_owner [OF _ assms(2)] show ?thesis by (auto simp: inv_unfold)
qed

lemma inv_manage:
  assumes "sys_inv s" "st \<notin> set (map mc_stream (managed (ctl s)))" "st \<notin> set (map rw_stream (works s))"
    and "Some a \<notin> set (map mc_flag (managed (ctl s)))"
  shows "sys_inv (s\<lparr>ctl := manage addr st (Some a) now (ctl s)\<rparr>)"
proof -
  have "count (image_mset rw_stream (mset (works s))) st = 0"
    using assms(3) by (simp add: count_eq_zero_iff set_map)
  moreover have "count (mset (to_enqueue s)) (length (managed (ctl s))) = 0"
    using assms(1) by (auto simp: count_eq_zero_iff sys_inv_def)
  ultimately show ?thesis
    using assms(1) ctl_ok_manage [OF _ assms(2,4), of addr now]
    by (auto simp: inv_unfold manage_def nth_append less_Suc_eq)
qed

text \<open>Without indices on their way, the invariant of the entries speaks of the list as a set.\<close>

lemma entries_as_set:
  "to_enqueue s = [] \<Longrightarrow> (\<forall>i < length (managed (ctl s)). entry_inv s i) \<longleftrightarrow>
    (\<forall>m \<in> set (managed (ctl s)). count (image_mset rw_stream (mset (works s))) (mc_stream m) = of_bool (mc_reconnectPending m)
       \<and> (mc_reconnectPending m \<longrightarrow> \<not> up (conn_flags (ctl s)) m))"
  by (auto simp: entry_inv_def owed_def Let_def all_set_conv_all_nth)

lemma unmanage_facts:
  assumes ok: "ctl_ok c"
  shows "set (managed (unmanage st c)) \<subseteq> set (managed c) \<and> st \<notin> set (map mc_stream (managed (unmanage st c)))
    \<and> conn_flags (unmanage st c) = conn_flags c \<and> ctl_ok (unmanage st c)"
proof (cases "index_of st (managed c)")
  case None
  with index_of_None [OF None] ok show ?thesis by (simp add: unmanage_def Let_def)
next
  case (Some i)
  note i = index_of_Some [OF Some]
  have e: "managed (unmanage st c) = take i (managed c) @ drop (Suc i) (managed c)"
    using Some by (simp add: unmanage_def remove_at_def Let_def)
  have "distinct (map mc_stream (take i (managed c) @ managed c ! i # drop (Suc i) (managed c)))"
    using ok i id_take_nth_drop [of i "managed c"] by (simp add: ctl_ok_def)
  then have "st \<notin> set (map mc_stream (managed (unmanage st c)))" using e i by auto
  moreover have "set (managed (unmanage st c)) \<subseteq> set (managed c)"
    using e by (auto dest: in_set_takeD in_set_dropD)
  moreover have "conn_flags (unmanage st c) = conn_flags c" "ctl_ok (unmanage st c)"
    using Some ctl_ok_remove [OF ok] i by (simp_all add: unmanage_def remove_at_def Let_def)
  ultimately show ?thesis by simp
qed

lemma inv_unmanage:
  assumes "sys_inv s" "to_enqueue s = []"
  shows "sys_inv (s\<lparr>ctl := unmanage st (ctl s)\<rparr>)"
proof -
  let ?c = "ctl s" and ?s = "s\<lparr>ctl := unmanage st (ctl s)\<rparr>"
  have "ctl_ok ?c" using assms(1) by (simp add: sys_inv_def)
  note sub = unmanage_facts [OF this, of st]
  have q: "reconnectQueue (unmanage st ?c) = filter (\<lambda>w. rw_stream w \<noteq> st) (reconnectQueue ?c)"
    by (simp add: unmanage_def remove_at_def Let_def split: option.split)
  have "count (image_mset rw_stream (mset (works ?s))) t = count (image_mset rw_stream (mset (works s))) t" if "t \<noteq> st" for t
  proof -
    have "count (image_mset rw_stream (mset (filter (\<lambda>w. rw_stream w \<noteq> st) ws))) t = count (image_mset rw_stream (mset ws)) t" for ws
      using that by (induction ws) auto
    then show ?thesis by (simp add: works_def q)
  qed
  moreover have "mc_stream m \<noteq> st" if "m \<in> set (managed (unmanage st ?c))" for m
    using that sub by (auto simp: set_map)
  ultimately show ?thesis
    using assms sub q entries_as_set [of s] entries_as_set [of ?s] unfolding sys_inv_def
    by (auto simp: works_def)
qed

lemma inv_scan:
  assumes "sys_inv s" "to_enqueue s = []"
  shows "sys_inv (s\<lparr>ctl := fst (scan (ctl s)), to_enqueue := snd (scan (ctl s))\<rparr>)"
proof -
  let ?c = "ctl s"
  have "count (mset (down_indices ?c)) i = of_bool (is_down ?c (managed ?c ! i))" if "i < length (managed ?c)" for i
    using that distinct_count_atmost_1 [of "down_indices ?c"] by (simp add: down_indices_def)
  moreover have "up fl (m\<lparr>mc_reconnectPending := True\<rparr>) = up fl m" for fl m by (rule up_mono) simp
  moreover have "ctl_ok (fst (scan ?c))" using assms(1) by (simp add: sys_inv_def)
  ultimately show ?thesis
    using assms by (auto simp: inv_unfold scan_def down_indices_def is_down_def)
qed

lemma inv_enqueue_index:
  assumes "sys_inv s" "to_enqueue s = i # is"
  shows "sys_inv (s\<lparr>ctl := enqueue_index i (ctl s), to_enqueue := is\<rparr>)"
proof -
  have "i < length (managed (ctl s))" "ctl_ok (ctl s)" using assms by (simp_all add: sys_inv_def)
  with assms stream_distinct [of "ctl s" i] show ?thesis
    by (auto simp: inv_unfold enqueue_index_def work_for_def split: if_splits)
qed

section \<open>The workers\<close>

lemma owed_work:
  assumes "sys_inv s" "w \<in> set (works s)" "i < length (managed (ctl s))" "mc_stream (managed (ctl s) ! i) = rw_stream w"
  shows "mc_reconnectPending (managed (ctl s) ! i)" "\<not> up (conn_flags (ctl s)) (managed (ctl s) ! i)" "owed s i = 1"
proof -
  have "rw_stream w \<in># image_mset rw_stream (mset (works s))" using assms(2) by simp
  then have "0 < owed s i" using assms(4) by (simp add: owed_def)
  moreover have "entry_inv s i" using assms(1,3) by (simp add: sys_inv_def)
  ultimately show "mc_reconnectPending (managed (ctl s) ! i)" "owed s i = 1"
    "\<not> up (conn_flags (ctl s)) (managed (ctl s) ! i)" by (auto simp: entry_inv_def Let_def split: if_splits)
qed

text \<open>Moving works between the queue and the workers changes nothing.\<close>

lemma inv_move:
  assumes "sys_inv s" "mset (works s') = mset (works s)" "to_enqueue s' = to_enqueue s"
    "ctl s' = (ctl s)\<lparr>reconnectQueue := q\<rparr>"
  shows "sys_inv s'"
proof -
  have "set (works s') = set (works s)" using assms(2) by (metis set_mset_mset)
  with assms show ?thesis by (simp add: sys_inv_def entry_inv_def owed_def Let_def)
qed

text \<open>Dropping a work whose stream is not managed.\<close>

lemma inv_forget:
  assumes "sys_inv s" "add_mset w (mset (works s')) = mset (works s)" "to_enqueue s' = to_enqueue s"
    "ctl s' = ctl s" "rw_stream w \<notin> set (map mc_stream (managed (ctl s)))"
  shows "sys_inv s'"
proof -
  have "rw_stream w \<noteq> mc_stream (managed (ctl s) ! i)" if "i < length (managed (ctl s))" for i
    using assms(5) that by (metis length_map nth_map nth_mem)
  then have "owed s' i = owed s i" if "i < length (managed (ctl s))" for i
    using assms(2-4) that by (auto simp: owed_def simp flip: assms(2))
  moreover have "set (works s') \<subseteq> set (works s)"
    using assms(2) by (metis set_mset_mset set_mset_add_mset_insert subset_insertI)
  ultimately show ?thesis using assms(1,3,4) by (auto simp: sys_inv_def entry_inv_def Let_def)
qed

lemma mset_in_delay:
  "w \<in> set (in_delay s) \<Longrightarrow> add_mset w (mset (works (s\<lparr>in_delay := remove1 w (in_delay s)\<rparr>))) = mset (works s)"
  by (simp add: works_def)

lemma inv_skip:
  assumes "sys_inv s" "w \<in> set (in_delay s)" "\<not> reconnect_lookup w (ctl s)"
  shows "sys_inv (s\<lparr>in_delay := remove1 w (in_delay s)\<rparr>)"
proof (cases "index_of (rw_stream w) (managed (ctl s))")
  case None
  show ?thesis
    by (rule inv_forget [OF assms(1) mset_in_delay [OF assms(2)]]) (use index_of_None [OF None] in simp_all)
next
  case (Some i)
  note i = index_of_Some [OF Some]
  have "w \<in> set (works s)" using assms(2) by (simp add: works_def)
  with owed_work(2) [OF assms(1) this] flag_at [of "ctl s" i] assms i Some show ?thesis
    by (auto simp: reconnect_lookup_def sys_inv_def)
qed

text \<open>The end of an attempt: the connection is up, or the work is queued again with one more retry,
  or it is given up and left to the next maintenance round.\<close>

lemma inv_settle:
  assumes "sys_inv s" "w \<in> set (in_open s)" and i: "i < length (managed (ctl s))" "mc_stream (managed (ctl s) ! i) = rw_stream w"
    and f: "\<And>m. mc_stream (f m) = mc_stream m" "\<And>m. mc_flag (f m) = mc_flag m" "\<And>m. \<not> mc_reconnectPending (f m)"
    and c': "ctl_ok c'" "managed c' = (managed (ctl s))[i := f (managed (ctl s) ! i)]" "reconnectQueue c' = reconnectQueue (ctl s)"
    and u: "\<And>j. j < length (managed (ctl s)) \<Longrightarrow> j \<noteq> i \<Longrightarrow>
      up (conn_flags c') (managed (ctl s) ! j) = up (conn_flags (ctl s)) (managed (ctl s) ! j)"
  shows "sys_inv (s\<lparr>ctl := c', in_open := remove1 w (in_open s)\<rparr>)" (is "sys_inv ?s")
proof -
  have ok: "ctl_ok (ctl s)" using assms(1) by (simp add: sys_inv_def)
  have w: "add_mset w (mset (works ?s)) = mset (works s)" using assms(2) c'(3) by (simp add: works_def)
  have one: "owed s i = 1" by (rule owed_work(3) [OF assms(1) _ i]) (use assms(2) in \<open>simp add: works_def\<close>)
  have st: "mc_stream (managed c' ! j) = mc_stream (managed (ctl s) ! j)" if "j < length (managed (ctl s))" for j
    using that i(1) by (simp add: c'(2) nth_list_update f)
  have "owed s j = owed ?s j + of_bool (j = i)" if "j < length (managed (ctl s))" for j
    using that st [OF that] stream_distinct [OF ok that i(1)] i(2)
    by (auto simp: owed_def simp flip: w)
  note owed = this
  have "entry_inv ?s j" if j: "j < length (managed (ctl s))" for j
  proof (cases "j = i")
    case True
    with owed [OF j] one i(1) f(3) show ?thesis by (simp add: entry_inv_def Let_def c'(2))
  next
    case False
    with owed [OF j] u [OF j] assms(1) j show ?thesis by (simp add: sys_inv_def entry_inv_def Let_def c'(2))
  qed
  moreover have "set (works ?s) \<subseteq> set (works s)"
    using w by (metis set_mset_mset set_mset_add_mset_insert subset_insertI)
  ultimately show ?thesis using assms(1) c'(1,2) by (auto simp: sys_inv_def)
qed

lemma inv_retry:
  assumes "sys_inv s" "w \<in> set (in_open s)" "rw_retries w < 5"
  shows "sys_inv (s\<lparr>ctl := enqueue_work (w\<lparr>rw_retries := rw_retries w + 1\<rparr>) (ctl s), in_open := remove1 w (in_open s)\<rparr>)"
    (is "sys_inv ?s")
proof -
  have w: "mset (works ?s) + {#w#} = mset (works s) + {#w\<lparr>rw_retries := rw_retries w + 1\<rparr>#}"
    using assms(2) by (simp add: works_def)
  have "image_mset rw_stream (mset (works ?s)) = image_mset rw_stream (mset (works s))"
    using arg_cong [OF w, of "image_mset rw_stream"] by simp
  then have "owed ?s i = owed s i" for i by (simp add: owed_def)
  moreover have "set (works ?s) \<subseteq> insert (w\<lparr>rw_retries := rw_retries w + 1\<rparr>) (set (works s))"
    using set_remove1_subset [of w "in_open s"] by (auto simp: works_def)
  then have "rw_retries v \<le> 5" if "v \<in> set (works ?s)" for v
    using that assms(1,3) by (auto simp: sys_inv_def)
  ultimately show ?thesis using assms(1) by (simp add: sys_inv_def entry_inv_def Let_def)
qed

lemma inv_done:
  assumes "sys_inv s" "w \<in> set (in_open s)"
  shows "sys_inv (s\<lparr>ctl := reconnect_done success now w (ctl s), in_open := remove1 w (in_open s)\<rparr>)"
proof (cases "index_of (rw_stream w) (managed (ctl s))")
  case None
  show ?thesis
    by (rule inv_forget [OF assms(1), of w])
      (use index_of_None [OF None] None assms(2) in \<open>simp_all add: reconnect_done_def works_def\<close>)
next
  case (Some i)
  note i = index_of_Some [OF Some]
  have ok: "ctl_ok (ctl s)" using assms(1) by (simp add: sys_inv_def)
  obtain a where a: "mc_flag (managed (ctl s) ! i) = Some a" using flag_at [OF ok] i by blast
  have "w \<in> set (works s)" using assms(2) by (simp add: works_def)
  from owed_work(2) [OF assms(1) this] i have "\<not> up (conn_flags (ctl s)) (managed (ctl s) ! i)" by blast
  with a have down: "\<not> conn_flags (ctl s) a" by (simp add: up_def)
  consider "success" | "\<not> success" "rw_retries w < 5" | "\<not> success" "\<not> rw_retries w < 5" by blast
  then show ?thesis
  proof cases
    case 1
    let ?f = "\<lambda>m. m\<lparr>mc_reconnectPending := False, mc_lastUse := now, mc_lastCheck := now, mc_failures := 0\<rparr>"
    have "ctl_ok (update_at i ?f (ctl s))" using ok i by (simp add: ctl_ok_update)
    then have up: "ctl_ok (mark_up a (update_at i ?f (ctl s)))"
      by (rule ctl_ok_mark_up [where i = i]) (use i a down in simp_all)
    have "sys_inv (s\<lparr>ctl := mark_up a (update_at i ?f (ctl s)), in_open := remove1 w (in_open s)\<rparr>)"
      by (rule inv_settle [OF assms, where i = i and f = ?f])
        (use i up up_mark [OF ok _ _ a] in \<open>simp_all add: mark_up_def\<close>)
    with 1 Some a show ?thesis by (simp add: reconnect_done_def)
  next
    case 2
    with Some inv_retry [OF assms 2(2)] show ?thesis by (simp add: reconnect_done_def)
  next
    case 3
    let ?f = "\<lambda>m. m\<lparr>mc_reconnectPending := False\<rparr>"
    have up: "ctl_ok (update_at i ?f (ctl s))" using ok i by (simp add: ctl_ok_update)
    have "sys_inv (s\<lparr>ctl := update_at i ?f (ctl s), in_open := remove1 w (in_open s)\<rparr>)"
      by (rule inv_settle [OF assms, where i = i and f = ?f]) (use i up in simp_all)
    with 3 Some show ?thesis by (simp add: reconnect_done_def)
  qed
qed

lemma inv_used: "sys_inv s \<Longrightarrow> sys_inv (s\<lparr>ctl := notifyUsed st now (ctl s)\<rparr>)"
  by (cases "index_of st (managed (ctl s))")
    (auto simp: notifyUsed_def dest: index_of_Some intro!: inv_update)

lemma inv_failure: "sys_inv s \<Longrightarrow> sys_inv (s\<lparr>ctl := notifyFailure st (ctl s)\<rparr>)"
proof (cases "index_of st (managed (ctl s))")
  case (Some i)
  assume inv: "sys_inv s"
  let ?f = "\<lambda>m. m\<lparr>mc_failures := mc_failures m + 1\<rparr>"
  have i: "i < length (managed (ctl s))" using index_of_Some [OF Some] by simp
  have "sys_inv (s\<lparr>ctl := update_at i ?f (ctl s)\<rparr>)" by (rule inv_update) (use i inv in simp_all)
  from inv_fail_at [OF this, of i] i Some show ?thesis by (simp add: notifyFailure_def)
qed (simp add: notifyFailure_def)

lemma inv_check: "sys_inv s \<Longrightarrow> sys_inv (s\<lparr>ctl := check_failed i st (ctl s)\<rparr>)"
  using inv_fail_at by (simp add: check_failed_def)

lemma inv_cc_step: "cc_step True s s' \<Longrightarrow> sys_inv s \<Longrightarrow> sys_inv s'"
proof (induction rule: cc_step.induct)
  case (cc_take s w ws)
  show ?case by (rule inv_move [OF cc_take(2), where q = ws]) (use cc_take(1) in \<open>simp_all add: works_def\<close>)
next
  case (cc_open w s)
  show ?case
    by (rule inv_move [OF cc_open(3), where q = "reconnectQueue (ctl s)"]) (use cc_open(1) in \<open>simp_all add: works_def\<close>)
qed (simp_all add: inv_manage inv_unmanage inv_owner inv_used inv_failure inv_check inv_scan inv_enqueue_index inv_skip inv_done)

lemma sys_inv_init: "sys_inv (system_init fl)"
  by (simp add: sys_inv_def ctl_ok_def system_init_def controller_init_def works_def)

lemma cc_reachable_inv: "cc_reachable True s \<Longrightarrow> sys_inv s"
proof -
  assume "cc_reachable True s"
  then obtain fl where "(cc_step True)\<^sup>*\<^sup>* (system_init fl) s" by (auto simp: cc_reachable_def)
  then show ?thesis by (induction rule: rtranclp_induct) (auto intro: sys_inv_init inv_cc_step)
qed

section \<open>Runs\<close>

text \<open>The steps as commands, to run concrete interleavings.\<close>

datatype cc_action =
    Manage nat nat | Unmanage nat | Failure nat | Scan | Enqueue | Take | Open | Done bool

fun cc_exec :: "cc_action \<Rightarrow> system \<Rightarrow> system option" where
  "cc_exec (Manage st a) s =
     (if st \<in> set (map mc_stream (managed (ctl s))) \<or> st \<in> set (map rw_stream (works s))
         \<or> Some a \<in> set (map mc_flag (managed (ctl s))) then None
      else Some (s\<lparr>ctl := manage ([], [], []) st (Some a) 0 (ctl s)\<rparr>))"
| "cc_exec (Unmanage st) s = Some (s\<lparr>ctl := unmanage st (ctl s)\<rparr>)"
| "cc_exec (Failure st) s = Some (s\<lparr>ctl := notifyFailure st (ctl s)\<rparr>)"
| "cc_exec Scan s =
     (if to_enqueue s = [] then Some (s\<lparr>ctl := fst (scan (ctl s)), to_enqueue := snd (scan (ctl s))\<rparr>) else None)"
| "cc_exec Enqueue s =
     (case to_enqueue s of [] \<Rightarrow> None | i # is \<Rightarrow> Some (s\<lparr>ctl := enqueue_index i (ctl s), to_enqueue := is\<rparr>))"
| "cc_exec Take s =
     (case reconnectQueue (ctl s) of [] \<Rightarrow> None
      | w # ws \<Rightarrow> Some (s\<lparr>ctl := (ctl s)\<lparr>reconnectQueue := ws\<rparr>, in_delay := w # in_delay s\<rparr>))"
| "cc_exec Open s =
     (case in_delay s of [] \<Rightarrow> None
      | w # ws \<Rightarrow> if reconnect_lookup w (ctl s) then Some (s\<lparr>in_delay := ws, in_open := w # in_open s\<rparr>)
          else Some (s\<lparr>in_delay := ws\<rparr>))"
| "cc_exec (Done success) s =
     (case in_open s of [] \<Rightarrow> None
      | w # ws \<Rightarrow> Some (s\<lparr>ctl := reconnect_done success 0 w (ctl s), in_open := ws\<rparr>))"

fun cc_run :: "cc_action list \<Rightarrow> system \<Rightarrow> system option" where
  "cc_run [] s = Some s"
| "cc_run (a # as) s = (case cc_exec a s of None \<Rightarrow> None | Some s' \<Rightarrow> cc_run as s')"

lemma cc_exec_step: "cc_exec a s = Some s' \<Longrightarrow> cc_step False s s'"
proof (cases a)
  case Open
  assume "cc_exec a s = Some s'"
  with Open obtain w ws where w: "in_delay s = w # ws"
    "s' = (if reconnect_lookup w (ctl s) then s\<lparr>in_delay := ws, in_open := w # in_open s\<rparr> else s\<lparr>in_delay := ws\<rparr>)"
    by (auto split: list.splits if_splits)
  with cc_step.cc_open [of w s] cc_step.cc_skip [of w s] show ?thesis by simp
next
  case (Done success)
  assume "cc_exec a s = Some s'"
  with Done obtain w ws where w: "in_open s = w # ws"
    "s' = s\<lparr>ctl := reconnect_done success 0 w (ctl s), in_open := ws\<rparr>" by (auto split: list.splits)
  with cc_step.cc_done [of w s False success 0] show ?thesis by simp
qed (auto split: if_splits list.splits intro: cc_step.intros)

lemma cc_run_steps: "cc_run as s = Some s' \<Longrightarrow> (cc_step False)\<^sup>*\<^sup>* s s'"
  by (induction as arbitrary: s) (auto split: option.splits dest: cc_exec_step intro: converse_rtranclp_into_rtranclp)

text \<open>Three connections. The second fails for good: after six attempts it is left to the maintenance
  thread. The third fails while the first is removed between the sections of a maintenance round.\<close>

definition lost_run :: "cc_action list" where
  "lost_run = [Manage 1 1, Manage 2 2, Manage 3 3, Failure 2] @ concat (replicate 6 [Take, Open, Done False])
     @ [Failure 3, Scan, Unmanage 1, Enqueue, Take, Take, Open, Open, Done True, Done True]"

definition lost_state :: system where
  "lost_state = (case cc_run lost_run (system_init (\<lambda>_. True)) of Some s \<Rightarrow> s | None \<Rightarrow> system_init (\<lambda>_. True))"

end
