(* ===== verification/Http_Pool.thy ===== *)
theory Http_Pool
  imports Conn_Proofs Http_Url Dns_Server
begin

text \<open>
  The connection pools of \<open>class HttpResolver\<close> (\<open>src/http_resolver.cpp\<close>) and the way a query goes
  through them, together with the connection controller that they share their connections with.

  A connection's flag \<open>connected\<close> is the controller's \<open>conn_flags\<close> at the connection's number. The
  network is a record of outcomes, one for each exchange or opening, counted by \<open>net_calls\<close>. One
  call of \<open>doPost\<close> is one operation; background openings are a list of their own.
\<close>

section \<open>State\<close>

record http_conn =
  hc_id :: nat
  hc_inUse :: bool
  hc_stream :: "nat option"

record http_pool =
  hp_url :: url
  hp_conns :: "http_conn list"
  hp_next :: u32
  hp_errors :: int
  hp_successes :: int
  hp_lastErrorRatio :: int

record http =
  pools :: "http_pool list"
  cc :: controller
  next_id :: nat
  next_stream :: nat
  net_calls :: nat
  async_opens :: "(nat \<times> nat) list"

record http_net =
  hn_exchange :: "nat \<Rightarrow> exchange_error + dns_message option"
  hn_open :: "nat \<Rightarrow> bool"

datatype http_error = Raised exchange_error | Bad_Index | Deadlock

definition MAX_CONNECTIONS :: nat where "MAX_CONNECTIONS = 128"

abbreviation conns :: "nat \<Rightarrow> http \<Rightarrow> http_conn list" where
  "conns p s \<equiv> hp_conns (pools s ! p)"

definition conn_up :: "http \<Rightarrow> http_conn \<Rightarrow> bool" where
  "conn_up s c \<longleftrightarrow> conn_flags (cc s) (hc_id c)"

definition upd_pool :: "nat \<Rightarrow> (http_pool \<Rightarrow> http_pool) \<Rightarrow> http \<Rightarrow> http" where
  "upd_pool p f s = s\<lparr>pools := (pools s)[p := f (pools s ! p)]\<rparr>"

definition upd_conn :: "nat \<Rightarrow> nat \<Rightarrow> (http_conn \<Rightarrow> http_conn) \<Rightarrow> http \<Rightarrow> http" where
  "upd_conn p j f = upd_pool p (\<lambda>q. q\<lparr>hp_conns := (hp_conns q)[j := f (hp_conns q ! j)]\<rparr>)"

definition set_inUse :: "nat \<Rightarrow> nat \<Rightarrow> bool \<Rightarrow> http \<Rightarrow> http" where
  "set_inUse p j b = upd_conn p j (\<lambda>c. c\<lparr>hc_inUse := b\<rparr>)"

section \<open>Calls of the controller\<close>

definition on_stream :: "(nat \<Rightarrow> controller \<Rightarrow> controller) \<Rightarrow> nat \<Rightarrow> nat \<Rightarrow> http \<Rightarrow> http" where
  "on_stream f p j s = (case hc_stream (conns p s ! j) of None \<Rightarrow> s | Some st \<Rightarrow> s\<lparr>cc := f st (cc s)\<rparr>)"

definition exchange_succeeded :: "int \<Rightarrow> nat \<Rightarrow> nat \<Rightarrow> http \<Rightarrow> http" where
  "exchange_succeeded now p j s =
     upd_pool p (\<lambda>q. q\<lparr>hp_successes := hp_successes q + 1\<rparr>) (on_stream (\<lambda>st. notifyUsed st now) p j s)"

definition exchange_failed :: "nat \<Rightarrow> nat \<Rightarrow> http \<Rightarrow> http" where
  "exchange_failed p j s =
     upd_pool p (\<lambda>q. q\<lparr>hp_errors := hp_errors q + 1\<rparr>) (on_stream notifyFailure p j s)"

section \<open>Connections\<close>

text \<open>\<open>ensurePoolSize\<close>; \<open>locked\<close> says that the calling thread already holds \<open>growMutex\<close>, which is
  not recursive.\<close>

definition grow :: "nat \<Rightarrow> nat \<Rightarrow> http \<Rightarrow> http" where
  "grow p n s = upd_pool p (\<lambda>q. q\<lparr>hp_conns := hp_conns q
       @ map (\<lambda>k. \<lparr>hc_id = next_id s + k, hc_inUse = False, hc_stream = None\<rparr>) [0..<n]\<rparr>)
     (s\<lparr>next_id := next_id s + n,
        cc := (cc s)\<lparr>conn_flags := (\<lambda>a. if next_id s \<le> a then False else conn_flags (cc s) a)\<rparr>\<rparr>)"

definition ensurePoolSize :: "bool \<Rightarrow> nat \<Rightarrow> nat \<Rightarrow> http \<Rightarrow> http_error + http" where
  "ensurePoolSize locked p want s =
     (if want \<le> length (conns p s) then Inr s
      else if locked then Inl Deadlock
      else Inr (grow p (want - length (conns p s)) s))"

text \<open>The C remainder, and the round robin search for a connection that is up and free. A negative
  index is an access outside the vector.\<close>

definition crem :: "int \<Rightarrow> int \<Rightarrow> int" where
  "crem a b = (if a < 0 then - (- a mod b) else a mod b)"

fun scan_conns :: "(http_conn \<Rightarrow> bool) \<Rightarrow> http_conn list \<Rightarrow> int \<Rightarrow> nat list \<Rightarrow> http_error + nat option" where
  "scan_conns free cs start [] = Inr None"
| "scan_conns free cs start (i # is) =
     (let idx = crem (start + int i) (int (length cs)) in
      if idx < 0 then Inl Bad_Index
      else if free (cs ! nat idx) then Inr (Some (nat idx)) else scan_conns free cs start is)"

definition getNextConnection :: "nat \<Rightarrow> http \<Rightarrow> http \<times> (http_error + nat option)" where
  "getNextConnection p s =
     (let cs = conns p s; n = length cs in
      if n = 0 then (s, Inr None)
      else let start = crem (sint (hp_next (pools s ! p))) (int n);
               s = upd_pool p (\<lambda>q. q\<lparr>hp_next := hp_next q + 1\<rparr>) s
           in case scan_conns (\<lambda>c. conn_up s c \<and> \<not> hc_inUse c) cs start [0..<n] of
                Inr (Some j) \<Rightarrow> (set_inUse p j True s, Inr (Some j))
              | r \<Rightarrow> (s, r))"

definition close_conn :: "nat \<Rightarrow> nat \<Rightarrow> http \<Rightarrow> http" where
  "close_conn p j s =
     (let s = upd_conn p j (\<lambda>c. c\<lparr>hc_stream := None\<rparr>) (on_stream unmanage p j s)
      in s\<lparr>cc := (cc s)\<lparr>conn_flags := (conn_flags (cc s))(hc_id (conns p s ! j) := False)\<rparr>\<rparr>)"

text \<open>\<open>Connection::open\<close>: closes, and leaves a new stream, with the flag set when it succeeded.\<close>

definition open_conn :: "http_net \<Rightarrow> nat \<Rightarrow> nat \<Rightarrow> http \<Rightarrow> http \<times> bool" where
  "open_conn net p j s =
     (let s = close_conn p j s; success = hn_open net (net_calls s);
          s = upd_conn p j (\<lambda>c. c\<lparr>hc_stream := Some (next_stream s)\<rparr>) s
      in (s\<lparr>next_stream := next_stream s + 1, net_calls := net_calls s + 1,
            cc := (cc s)\<lparr>conn_flags := (conn_flags (cc s))(hc_id (conns p s ! j) := success)\<rparr>\<rparr>, success))"

definition manage_conn :: "int \<Rightarrow> nat \<Rightarrow> nat \<Rightarrow> http \<Rightarrow> http" where
  "manage_conn now p j s =
     (let c = conns p s ! j; u = hp_url (pools s ! p)
      in on_stream (\<lambda>st. manage (u_host u, u_port u, u_target u) st (Some (hc_id c)) now) p j s)"

definition do_exchange :: "http_net \<Rightarrow> nat \<Rightarrow> nat \<Rightarrow> http \<Rightarrow> http \<times> (http_error + dns_message option)" where
  "do_exchange net p j s =
     (let c = conns p s ! j in
      if hc_stream c = None \<or> \<not> conn_up s c then (s, Inr None)
      else (s\<lparr>net_calls := net_calls s + 1\<rparr>,
            case hn_exchange net (net_calls s) of Inl e \<Rightarrow> Inl (Raised e) | Inr r \<Rightarrow> Inr r))"

section \<open>Background openings\<close>

definition openConnectionAsync :: "nat \<Rightarrow> nat \<Rightarrow> http \<Rightarrow> http" where
  "openConnectionAsync p j s =
     (if hc_inUse (conns p s ! j) then s
      else let s = on_stream unmanage p j (set_inUse p j True s)
           in s\<lparr>async_opens := async_opens s @ [(p, hc_id (conns p s ! j))]\<rparr>)"

definition openPoolAsync :: "nat \<Rightarrow> http \<Rightarrow> http" where
  "openPoolAsync p s =
     foldl (\<lambda>s j. if conn_up s (conns p s ! j) then s else openConnectionAsync p j s) s [0..<length (conns p s)]"

text \<open>The task holds the connection itself, so it runs also when the pool has dropped it; then the
  controller is given a flag that goes away with the task.\<close>

fun conn_index :: "nat \<Rightarrow> http_conn list \<Rightarrow> nat option" where
  "conn_index a [] = None"
| "conn_index a (c # cs) = (if hc_id c = a then Some 0 else map_option Suc (conn_index a cs))"

definition open_detached :: "http_net \<Rightarrow> int \<Rightarrow> nat \<Rightarrow> nat \<Rightarrow> http \<Rightarrow> http" where
  "open_detached net now p a s =
     (let u = hp_url (pools s ! p); success = hn_open net (net_calls s); st = next_stream s;
          c = (cc s)\<lparr>conn_flags := (conn_flags (cc s))(a := success)\<rparr>
      in s\<lparr>next_stream := st + 1, net_calls := net_calls s + 1,
           cc := (if success then manage (u_host u, u_port u, u_target u) st (Some a) now c else c)\<rparr>)"

definition async_done :: "http_net \<Rightarrow> int \<Rightarrow> nat \<Rightarrow> nat \<Rightarrow> http \<Rightarrow> http" where
  "async_done net now p a s =
     (let s = s\<lparr>async_opens := remove1 (p, a) (async_opens s)\<rparr> in
      case conn_index a (conns p s) of
        None \<Rightarrow> open_detached net now p a s
      | Some j \<Rightarrow>
          let (s, success) = open_conn net p j s
          in set_inUse p j False (if success then manage_conn now p j s else s))"

section \<open>doPost\<close>

text \<open>One round over the pools; an exception of the exchange leaves it at once.\<close>

definition try_pool :: "http_net \<Rightarrow> int \<Rightarrow> nat \<Rightarrow> http \<Rightarrow> http \<times> (http_error + dns_message option)" where
  "try_pool net now p s =
     (case getNextConnection p s of
        (s, Inl e) \<Rightarrow> (s, Inl e)
      | (s, Inr None) \<Rightarrow> (s, Inr None)
      | (s, Inr (Some j)) \<Rightarrow>
          (case do_exchange net p j s of
             (s, Inl e) \<Rightarrow> (s, Inl e)
           | (s, Inr (Some m)) \<Rightarrow> (exchange_succeeded now p j (set_inUse p j False s), Inr (Some m))
           | (s, Inr None) \<Rightarrow> (set_inUse p j False (exchange_failed p j s), Inr None)))"

fun try_pools :: "(nat \<Rightarrow> http \<Rightarrow> http \<times> (http_error + dns_message option)) \<Rightarrow> nat list \<Rightarrow> http
    \<Rightarrow> http \<times> (http_error + dns_message option)" where
  "try_pools act [] s = (s, Inr None)"
| "try_pools act (p # ps) s = (case act p s of (s, Inr None) \<Rightarrow> try_pools act ps s | r \<Rightarrow> r)"

text \<open>At most six rounds; \<open>in_time k\<close> says that the deadline has not passed before round \<open>k\<close>.\<close>

function retry_loop :: "http_net \<Rightarrow> int \<Rightarrow> (nat \<Rightarrow> bool) \<Rightarrow> nat \<Rightarrow> http \<Rightarrow> http \<times> (http_error + dns_message option)" where
  "retry_loop net now in_time attempt s =
     (if \<not> in_time attempt then (s, Inr None)
      else case try_pools (try_pool net now) [0..<length (pools s)] s of
        (s, Inr None) \<Rightarrow> if 6 \<le> attempt + 1 then (s, Inr None) else retry_loop net now in_time (attempt + 1) s
      | r \<Rightarrow> r)"
  by pat_completeness auto
termination by (relation "measure (\<lambda>(net, now, t, attempt, s). 6 - attempt)") auto

declare retry_loop.simps [simp del]

text \<open>Opening one connection of a pool: the loop over its connections with the counter \<open>opened\<close>.\<close>

fun reopen :: "http_net \<Rightarrow> int \<Rightarrow> nat \<Rightarrow> nat list \<Rightarrow> nat \<Rightarrow> http \<Rightarrow> http \<times> (http_error + dns_message option)" where
  "reopen net now p [] opened s = (s, Inr None)"
| "reopen net now p (j # js) opened s =
     (let c = conns p s ! j in
      if conn_up s c then reopen net now p js opened s
      else if hc_inUse c then reopen net now p js opened s
      else let s = set_inUse p j True s; opened = opened + 1 in
        if 1 < opened then (s, Inr None)
        else let (s, success) = open_conn net p j (on_stream unmanage p j s) in
          if \<not> success then reopen net now p js opened (set_inUse p j False s)
          else (case do_exchange net p j (manage_conn now p j s) of
              (s, Inl e) \<Rightarrow> (s, Inl e)
            | (s, Inr (Some m)) \<Rightarrow>
                (foldl (\<lambda>s p. openPoolAsync p s) (exchange_succeeded now p j (set_inUse p j False s)) [0..<length (pools s)],
                 Inr (Some m))
            | (s, Inr None) \<Rightarrow> (set_inUse p j False (exchange_failed p j s), Inr None)))"

definition reopen_pool :: "http_net \<Rightarrow> int \<Rightarrow> nat \<Rightarrow> http \<Rightarrow> http \<times> (http_error + dns_message option)" where
  "reopen_pool net now p s = reopen net now p [0..<length (conns p s)] 0 s"

text \<open>The race: one connection of each pool, all exchanges at once. \<open>order\<close> lists the candidates in
  the order in which the polling loop finds them ready before its deadline.\<close>

fun take_candidates :: "nat list \<Rightarrow> http \<Rightarrow> http \<times> (http_error + (nat \<times> nat) list)" where
  "take_candidates [] s = (s, Inr [])"
| "take_candidates (p # ps) s =
     (case getNextConnection p s of
        (s, Inl e) \<Rightarrow> (s, Inl e)
      | (s, Inr r) \<Rightarrow>
          (case take_candidates ps s of
             (s, Inl e) \<Rightarrow> (s, Inl e)
           | (s, Inr cs) \<Rightarrow> (s, Inr (case r of None \<Rightarrow> cs | Some j \<Rightarrow> (p, j) # cs))))"

fun run_exchanges :: "http_net \<Rightarrow> (nat \<times> nat) list \<Rightarrow> http \<Rightarrow> http \<times> (http_error + dns_message option) list" where
  "run_exchanges net [] s = (s, [])"
| "run_exchanges net ((p, j) # cs) s =
     (case do_exchange net p j s of (s, r) \<Rightarrow> case run_exchanges net cs s of (s, rs) \<Rightarrow> (s, r # rs))"

fun poll :: "(http_error + dns_message option) list \<Rightarrow> nat list \<Rightarrow> http_error + dns_message option" where
  "poll rs [] = Inr None"
| "poll rs (i # is) = (case rs ! i of Inr None \<Rightarrow> poll rs is | r \<Rightarrow> r)"

definition release :: "int \<Rightarrow> bool \<Rightarrow> http \<Rightarrow> nat \<times> nat \<Rightarrow> http" where
  "release now success s = (\<lambda>(p, j).
     let s = set_inUse p j False s in
     if hc_stream (conns p s ! j) = None then s
     else if success then exchange_succeeded now p j s else exchange_failed p j s)"

definition raceUpstreams :: "http_net \<Rightarrow> int \<Rightarrow> nat list \<Rightarrow> http \<Rightarrow> http \<times> (http_error + dns_message option)" where
  "raceUpstreams net now order s =
     (case take_candidates [0..<length (pools s)] s of
        (s, Inl e) \<Rightarrow> (s, Inl e)
      | (s, Inr []) \<Rightarrow> (s, Inr None)
      | (s, Inr cs) \<Rightarrow>
          (case run_exchanges net cs s of (s, rs) \<Rightarrow>
             (case poll rs order of
                Inl e \<Rightarrow> (s, Inl e)
              | Inr result \<Rightarrow> (foldl (release now (result \<noteq> None)) s cs, Inr result))))"

definition per_pool :: "int \<Rightarrow> http \<Rightarrow> nat" where
  "per_pool recommended s = nat (max 2 (recommended div int (length (pools s))))"

text \<open>\<open>recommended\<close> is the tuner's number of connections, \<open>fanOut\<close> its flag with the caller's.\<close>

fun grow_all :: "nat \<Rightarrow> nat list \<Rightarrow> http \<Rightarrow> http" where
  "grow_all want [] s = s"
| "grow_all want (p # ps) s =
     grow_all want ps (case ensurePoolSize False p want s of Inl _ \<Rightarrow> s | Inr s \<Rightarrow> s)"

definition doPost :: "http_net \<Rightarrow> int \<Rightarrow> (nat \<Rightarrow> bool) \<Rightarrow> nat list \<Rightarrow> int \<Rightarrow> bool \<Rightarrow> dns_message \<Rightarrow> http
    \<Rightarrow> http \<times> (http_error + dns_message option)" where
  "doPost net now in_time order recommended fanOut req s =
     (case pack req of Inl e \<Rightarrow> (s, Inl (Raised (Dns e)))
      | Inr wire \<Rightarrow>
          let s = grow_all (per_pool recommended s) [0..<length (pools s)] s in
          case (if fanOut then raceUpstreams net now order s else (s, Inr None)) of
            (s, Inr None) \<Rightarrow>
              let anyConnected = list_ex (\<lambda>q. list_ex (conn_up s) (hp_conns q)) (pools s) in
              (case (if anyConnected then retry_loop net now in_time 0 s else (s, Inr None)) of
                 (s, Inr None) \<Rightarrow> try_pools (reopen_pool net now) [0..<length (pools s)] s
               | r \<Rightarrow> r)
          | r \<Rightarrow> r)"

section \<open>The fallback\<close>

definition doFallback :: "upstream \<Rightarrow> bytes \<Rightarrow> dns_message \<Rightarrow> dns_message option dns_result" where
  "doFallback udp fallback req =
     bindE (pack req) (\<lambda>wire.
       let (host, port) = split_upstream fallback; host = (if host = [] then lit ''8.8.8.8'' else host)
       in udpQueryRaw udp host port wire (hid (header req)))"

section \<open>maintain\<close>

text \<open>The health of one pool; the lock is held from the size on.\<close>

definition maintain_pool :: "nat \<Rightarrow> http \<Rightarrow> http_error + http" where
  "maintain_pool p s =
     (let q = pools s ! p; total = hp_successes q + hp_errors q in
      if total < 10 then Inr s
      else let errRatio = hp_errors q * 100 div total;
               s = upd_pool p (\<lambda>q. q\<lparr>hp_lastErrorRatio := errRatio\<rparr>) s;
               currentSize = length (hp_conns q)
           in bindE
             (if 30 < errRatio \<and> 2 < currentSize then Inr (upd_pool p (\<lambda>q. q\<lparr>hp_conns := butlast (hp_conns q)\<rparr>) s)
              else if errRatio < 5 \<and> currentSize < MAX_CONNECTIONS div 2 then ensurePoolSize True p (currentSize + 1) s
              else Inr s)
             (\<lambda>s. Inr (upd_pool p (\<lambda>q. q\<lparr>hp_successes := hp_successes q div 2, hp_errors := hp_errors q div 2\<rparr>) s)))"

fun maintain_pools :: "nat list \<Rightarrow> http \<Rightarrow> http_error + http" where
  "maintain_pools [] s = Inr s"
| "maintain_pools (p # ps) s = bindE (maintain_pool p s) (maintain_pools ps)"

definition http_maintain :: "http \<Rightarrow> http_error + http" where
  "http_maintain s = (if length (pools s) < 2 then Inr s else maintain_pools [0..<length (pools s)] s)"

text \<open>Closing all connections, as the destructor does, and draining the pools when the proxy setting
  changed.\<close>

definition close_all :: "http \<Rightarrow> http" where
  "close_all s = foldl (\<lambda>s p. foldl (\<lambda>s j. close_conn p j s) s [0..<length (conns p s)]) s [0..<length (pools s)]"

definition drain :: "http \<Rightarrow> http" where
  "drain s = (let s = close_all s in s\<lparr>pools := map (\<lambda>q. q\<lparr>hp_conns := []\<rparr>) (pools s)\<rparr>)"

end
