(* ===== verification/Http_Pool_Proofs.thy ===== *)
theory Http_Pool_Proofs
  imports Http_Pool
begin

text \<open>
  What the connection pools guarantee and where they fail: the round robin search finds a free
  connection exactly when there is one; a query that cannot open a connection blocks another one
  for good; the maintenance of two pools deadlocks or leaves a dangling flag.
\<close>

section \<open>The round robin search\<close>

lemma crem_nonneg: "0 \<le> a \<Longrightarrow> 0 < n \<Longrightarrow> 0 \<le> crem a n \<and> crem a n < n"
  by (simp add: crem_def)

lemma scan_conns_ok:
  assumes "0 \<le> start" "cs \<noteq> []"
  shows "case scan_conns free cs start ks of
      Inl e \<Rightarrow> False
    | Inr None \<Rightarrow> \<forall>i \<in> set ks. \<not> free (cs ! nat (crem (start + int i) (int (length cs))))
    | Inr (Some j) \<Rightarrow> j < length cs \<and> free (cs ! j)"
proof (induction ks)
  case (Cons i ks)
  have "0 \<le> crem (start + int i) (int (length cs)) \<and> crem (start + int i) (int (length cs)) < int (length cs)"
    using assms by (intro crem_nonneg) auto
  with Cons show ?case by (auto simp: Let_def split: sum.splits option.splits)
qed simp

text \<open>The positions tried are all positions.\<close>

lemma round_robin_covers:
  assumes "0 \<le> start" "k < n"
  shows "\<exists>i \<in> set [0..<n]. nat (crem (start + int i) (int n)) = k"
proof -
  let ?i = "nat ((int k - start) mod int n)"
  have i: "int ?i = (int k - start) mod int n" using assms(2) by simp
  have "?i < n" using assms(2) by (simp add: nat_less_iff)
  moreover have "0 \<le> (int k - start) mod int n" using assms(2) by (simp add: pos_mod_sign)
  then have "crem (start + int ?i) (int n) = (start + (int k - start) mod int n) mod int n"
    using assms(1) unfolding crem_def i by simp
  then have "crem (start + int ?i) (int n) = int k" using assms(2) by (simp add: mod_add_right_eq)
  ultimately show ?thesis by (intro bexI [of _ ?i]) simp_all
qed

lemma getNextConnection_ok:
  assumes "0 \<le> sint (hp_next (pools s ! p))"
  shows "case snd (getNextConnection p s) of
      Inl e \<Rightarrow> False
    | Inr None \<Rightarrow> \<forall>c \<in> set (conns p s). \<not> (conn_up s c \<and> \<not> hc_inUse c)
    | Inr (Some j) \<Rightarrow> j < length (conns p s) \<and> conn_up s (conns p s ! j) \<and> \<not> hc_inUse (conns p s ! j)"
proof (cases "conns p s = []")
  case False
  let ?cs = "conns p s" and ?n = "length (conns p s)"
  let ?start = "crem (sint (hp_next (pools s ! p))) (int ?n)"
  let ?s = "upd_pool p (\<lambda>q. q\<lparr>hp_next := hp_next q + 1\<rparr>) s"
  let ?free = "\<lambda>c. conn_up ?s c \<and> \<not> hc_inUse c"
  have up: "conn_up ?s c = conn_up s c" for c by (simp add: conn_up_def upd_pool_def)
  have start: "0 \<le> ?start" using crem_nonneg [OF assms] False by simp
  note scan = scan_conns_ok [OF start False, where free = ?free and ks = "[0..<?n]"]
  have all: "\<forall>c \<in> set ?cs. \<not> ?free c"
    if none: "\<forall>i \<in> set [0..<?n]. \<not> ?free (?cs ! nat (crem (?start + int i) (int ?n)))"
  proof
    fix c assume "c \<in> set ?cs"
    then obtain k where k: "k < ?n" "c = ?cs ! k" by (auto simp: in_set_conv_nth)
    from round_robin_covers [OF start k(1)] none k(2) show "\<not> ?free c" by auto
  qed
  show ?thesis
  proof (cases "scan_conns ?free ?cs ?start [0..<?n]")
    case (Inl e)
    with scan show ?thesis by simp
  next
    case (Inr r)
    with scan all False show ?thesis
      by (cases r) (simp_all add: getNextConnection_def Let_def up)
  qed
qed (simp add: getNextConnection_def)

text \<open>The counter is an \<open>int\<close> that wraps around; then the remainder is negative.\<close>

lemma counter_overflow:
  assumes "length (conns p s) = 3" "hp_next (pools s ! p) = 0x80000000"
  shows "snd (getNextConnection p s) = Inl Bad_Index"
proof -
  have "sint (0x80000000 :: u32) = -2147483648" by simp
  with assms show ?thesis by (auto simp: getNextConnection_def crem_def Let_def upt_rec [of 0])
qed

section \<open>A failed opening blocks another connection\<close>

definition all_down :: "nat \<Rightarrow> http \<Rightarrow> bool" where
  "all_down p s \<longleftrightarrow> (\<forall>i < length (conns p s). \<not> conn_up s (conns p s ! i))"

text \<open>What an opening that fails does not change.\<close>

definition same_use :: "nat \<Rightarrow> http \<Rightarrow> http \<Rightarrow> bool" where
  "same_use p s s' \<longleftrightarrow> length (pools s') = length (pools s) \<and> length (conns p s') = length (conns p s)
     \<and> (\<forall>i < length (conns p s). hc_inUse (conns p s' ! i) = hc_inUse (conns p s ! i))"

lemma unmanage_flags [simp]: "conn_flags (unmanage st c) = conn_flags c"
  by (simp add: unmanage_def remove_at_def Let_def split: option.split)

lemma on_stream_unmanage [simp]:
  "pools (on_stream unmanage p j s) = pools s" "conn_flags (cc (on_stream unmanage p j s)) = conn_flags (cc s)"
  by (simp_all add: on_stream_def split: option.split)

lemma conns_upd [simp]:
  "p < length (pools s) \<Longrightarrow> conns p (upd_conn p j f s) = (conns p s)[j := f (conns p s ! j)]"
  "length (pools (upd_conn p j f s)) = length (pools s)" "cc (upd_conn p j f s) = cc s"
  by (simp_all add: upd_conn_def upd_pool_def)

lemma hc_update:
  fixes xs :: "http_conn list"
  shows "(\<And>c. hc_inUse (f c) = hc_inUse c) \<Longrightarrow> hc_inUse (xs[j := f (xs ! j)] ! i) = hc_inUse (xs ! i)"
    and "(\<And>c. hc_id (f c) = hc_id c) \<Longrightarrow> hc_id (xs[j := f (xs ! j)] ! i) = hc_id (xs ! i)"
  by (cases "j < length xs"; cases "i = j"; simp add: list_update_beyond)+

lemma update_twice: "xs[j := g (xs[j := f (xs ! j)] ! j)] = xs[j := g (f (xs ! j))]"
  by (cases "j < length xs") (simp_all add: list_update_beyond)

lemma open_conn_failed:
  assumes "p < length (pools s)" "all_down p s" "\<And>k. \<not> hn_open net k"
  shows "\<exists>s'. open_conn net p j (on_stream unmanage p j s) = (s', False) \<and> all_down p s' \<and> same_use p s s'"
proof -
  show ?thesis
    using assms by (auto simp: open_conn_def close_conn_def Let_def all_down_def same_use_def conn_up_def
        update_twice hc_update)
qed

lemma reopen_skip:
  assumes "\<forall>j \<in> set js. conn_up s (conns p s ! j) \<or> hc_inUse (conns p s ! j)"
  shows "reopen net now p (js @ js') opened s = reopen net now p js' opened s"
  using assms by (induction js) (auto simp: Let_def)

definition blocked :: "nat \<Rightarrow> http \<Rightarrow> bool" where
  "blocked k s \<longleftrightarrow> length (pools s) = 1 \<and> k < length (conns 0 s) \<and> all_down 0 s
     \<and> (\<forall>i < length (conns 0 s). hc_inUse (conns 0 s ! i) \<longleftrightarrow> 1 \<le> i \<and> i \<le> k)"

lemma set_inUse_facts [simp]:
  "p < length (pools s) \<Longrightarrow> conns p (set_inUse p j b s) = (conns p s)[j := (conns p s ! j)\<lparr>hc_inUse := b\<rparr>]"
  "length (pools (set_inUse p j b s)) = length (pools s)" "cc (set_inUse p j b s) = cc s"
  by (simp_all add: set_inUse_def)

lemma all_down_inUse: "p < length (pools s) \<Longrightarrow> all_down p s \<Longrightarrow> all_down p (set_inUse p j b s)"
  by (auto simp: all_down_def conn_up_def hc_update)

lemma upt_split:
  assumes "Suc k < n"
  shows "[0..<n] = 0 # [1..<Suc k] @ Suc k # [Suc (Suc k)..<n]"
proof -
  have "[0..<n] = [0..<Suc k] @ [Suc k..<n]" using assms upt_add_eq_append [of 0 "Suc k" "n - Suc k"] by simp
  moreover have "[0..<Suc k] = 0 # [1..<Suc k]" using upt_conv_Cons [of 0 "Suc k"] by simp
  moreover have "[Suc k..<n] = Suc k # [Suc (Suc k)..<n]" using assms by (rule upt_conv_Cons)
  ultimately show ?thesis by simp
qed

lemma reopen_blocked:
  assumes b: "blocked k s" "Suc k < length (conns 0 s)" and net: "\<And>i. \<not> hn_open net i"
  shows "\<exists>s'. reopen_pool net now 0 s = (s', Inr None) \<and> blocked (Suc k) s' \<and> length (conns 0 s') = length (conns 0 s)"
proof -
  let ?n = "length (conns 0 s)" and ?s1 = "set_inUse 0 0 True s"
  have pools: "length (pools s) = 1" and down: "all_down 0 s"
    and use: "\<forall>i < ?n. hc_inUse (conns 0 s ! i) \<longleftrightarrow> 1 \<le> i \<and> i \<le> k" using b(1) by (auto simp: blocked_def)
  have n0: "0 < ?n" "conns 0 s \<noteq> []" using b(2) by auto
  obtain s2 where s2: "open_conn net 0 0 (on_stream unmanage 0 0 ?s1) = (s2, False)" "all_down 0 s2" "same_use 0 ?s1 s2"
    using open_conn_failed [of 0 ?s1 net 0] all_down_inUse [of 0 s 0 True] pools down net
    by (metis less_one set_inUse_facts(2))
  let ?s3 = "set_inUse 0 0 False s2"
  have l3: "length (pools ?s3) = 1" "length (conns 0 ?s3) = ?n" "all_down 0 ?s3"
    using s2(2,3) pools all_down_inUse [of 0 s2] by (auto simp: same_use_def)
  have use3: "\<forall>i < ?n. hc_inUse (conns 0 ?s3 ! i) \<longleftrightarrow> 1 \<le> i \<and> i \<le> k"
    using s2(3) pools use n0(1) by (auto simp: same_use_def nth_list_update)
  let ?s4 = "set_inUse 0 (Suc k) True ?s3"
  have "[0..<?n] = 0 # [1..<Suc k] @ Suc k # [Suc (Suc k)..<?n]"
    using b(2) by (rule upt_split)
  moreover have "reopen net now 0 ([1..<Suc k] @ Suc k # [Suc (Suc k)..<?n]) 1 ?s3 = (?s4, Inr None)"
  proof -
    have "\<forall>j \<in> set [1..<Suc k]. conn_up ?s3 (conns 0 ?s3 ! j) \<or> hc_inUse (conns 0 ?s3 ! j)"
      using use3 b(2) by auto
    moreover have "\<not> conn_up ?s3 (conns 0 ?s3 ! Suc k)" "\<not> hc_inUse (conns 0 ?s3 ! Suc k)"
      using l3(2,3) use3 b(2) by (auto simp: all_down_def)
    ultimately show ?thesis by (subst reopen_skip) (simp_all add: Let_def)
  qed
  moreover have "\<not> conn_up s (conns 0 s ! 0)" "\<not> hc_inUse (conns 0 s ! 0)"
    using down use n0(1) by (auto simp: all_down_def)
  ultimately have "reopen_pool net now 0 s = (?s4, Inr None)"
    using s2(1) by (simp add: reopen_pool_def Let_def)
  moreover have "blocked (Suc k) ?s4"
    using l3 all_down_inUse [of 0 ?s3] use3 b(2) by (auto simp: blocked_def nth_list_update)
  moreover have "length (conns 0 ?s4) = ?n" using l3(1,2) by simp
  ultimately show ?thesis by blast
qed

lemma doPost_blocked:
  assumes b: "blocked k s" "Suc k < length (conns 0 s)" and net: "\<And>i. \<not> hn_open net i"
    and size: "recommended \<le> int (length (conns 0 s))" and "pack req = Inr wire"
  shows "\<exists>s'. doPost net now in_time order recommended False req s = (s', Inr None) \<and> blocked (Suc k) s'
    \<and> length (conns 0 s') = length (conns 0 s)"
proof -
  have "length (pools s) = 1" and down: "all_down 0 s" using b(1) by (auto simp: blocked_def)
  then obtain q where q: "pools s = [q]" by (auto simp: length_Suc_conv)
  have "per_pool recommended s \<le> length (conns 0 s)" using size b(2) q by (simp add: per_pool_def)
  then have "grow_all (per_pool recommended s) [0..<length (pools s)] s = s"
    using q by (simp add: ensurePoolSize_def)
  moreover have "\<not> list_ex (\<lambda>q. list_ex (conn_up s) (hp_conns q)) (pools s)"
    using down q by (auto simp: all_down_def list_ex_iff in_set_conv_nth)
  ultimately show ?thesis
    using reopen_blocked [OF b net, of now] q \<open>pack req = Inr wire\<close> by (auto simp: doPost_def Let_def)
qed

text \<open>A sequence of queries.\<close>

definition fresh_pool :: "url \<Rightarrow> nat \<Rightarrow> http" where
  "fresh_pool u n = grow 0 n \<lparr>pools = [\<lparr>hp_url = u, hp_conns = [], hp_next = 0, hp_errors = 0, hp_successes = 0,
       hp_lastErrorRatio = 0\<rparr>], cc = controller_init (\<lambda>_. False), next_id = 0, next_stream = 0, net_calls = 0,
     async_opens = []\<rparr>"

lemma fresh_pool_blocked: "0 < n \<Longrightarrow> blocked 0 (fresh_pool u n) \<and> length (conns 0 (fresh_pool u n)) = n"
  by (auto simp: blocked_def fresh_pool_def grow_def upd_pool_def all_down_def conn_up_def controller_init_def)

fun post_all :: "http_net \<Rightarrow> int \<Rightarrow> dns_message list \<Rightarrow> http \<Rightarrow> http" where
  "post_all net recommended [] s = s"
| "post_all net recommended (req # reqs) s =
     post_all net recommended reqs (fst (doPost net 0 (\<lambda>_. True) [] recommended False req s))"

lemma post_all_blocked:
  assumes "blocked k s" "k + length reqs < length (conns 0 s)" "\<And>i. \<not> hn_open net i"
    and "recommended \<le> int (length (conns 0 s))" "list_all (\<lambda>req. \<exists>wire. pack req = Inr wire) reqs"
  shows "blocked (k + length reqs) (post_all net recommended reqs s)
    \<and> length (conns 0 (post_all net recommended reqs s)) = length (conns 0 s)"
  using assms(1,2,4,5)
proof (induction reqs arbitrary: k s)
  case (Cons req reqs)
  then obtain wire where "pack req = Inr wire" by auto
  with doPost_blocked [OF Cons.prems(1) _ assms(3) Cons.prems(3), of req wire 0 "\<lambda>_. True" "[]"] Cons.prems(2)
  obtain s' where s': "fst (doPost net 0 (\<lambda>_. True) [] recommended False req s) = s'" "blocked (Suc k) s'"
      "length (conns 0 s') = length (conns 0 s)" by auto
  with Cons.IH [OF s'(2)] Cons.prems show ?case by simp
qed simp

section \<open>Maintenance\<close>

lemma maintain_deadlock:
  assumes "2 \<le> length (pools s)" "10 \<le> hp_successes (pools s ! 0) + hp_errors (pools s ! 0)"
    and "hp_errors (pools s ! 0) * 100 div (hp_successes (pools s ! 0) + hp_errors (pools s ! 0)) < 5"
    and "length (conns 0 s) < 64"
  shows "http_maintain s = Inl Deadlock"
proof -
  have "[0..<length (pools s)] = 0 # [1..<length (pools s)]" using assms(1) upt_conv_Cons [of 0 "length (pools s)"] by (cases "pools s = []") simp_all
  moreover have "0 < length (pools s)" using assms(1) by linarith
  ultimately show ?thesis
    using assms by (simp del: length_greater_0_conv add: http_maintain_def maintain_pool_def ensurePoolSize_def upd_pool_def MAX_CONNECTIONS_def Let_def)
qed

definition all_ids :: "http \<Rightarrow> nat list" where
  "all_ids s = concat (map (\<lambda>q. map hc_id (hp_conns q)) (pools s))"

text \<open>A pool that shrinks destroys its last connection, and with it the flag that the controller
  still points to.\<close>

lemma maintain_dangling:
  assumes p: "p < length (pools s)" and d: "distinct (all_ids s)"
    and bad: "10 \<le> hp_successes (pools s ! p) + hp_errors (pools s ! p)"
      "30 < hp_errors (pools s ! p) * 100 div (hp_successes (pools s ! p) + hp_errors (pools s ! p))"
      "2 < length (conns p s)"
  shows "\<exists>s'. maintain_pool p s = Inr s' \<and> cc s' = cc s \<and> hc_id (last (conns p s)) \<notin> set (all_ids s')"
proof -
  let ?q = "pools s ! p"
  let ?s = "upd_pool p (\<lambda>q. q\<lparr>hp_successes := hp_successes q div 2, hp_errors := hp_errors q div 2\<rparr>)
    (upd_pool p (\<lambda>q. q\<lparr>hp_conns := butlast (hp_conns q)\<rparr>)
      (upd_pool p (\<lambda>q. q\<lparr>hp_lastErrorRatio := hp_errors q * 100 div (hp_successes q + hp_errors q)\<rparr>) s))"
  have "maintain_pool p s = Inr ?s" using bad p by (simp add: maintain_pool_def Let_def upd_pool_def)
  moreover have "cc ?s = cc s" by (simp add: upd_pool_def)
  moreover have "hc_id (last (conns p s)) \<notin> set (all_ids ?s)"
  proof -
    have ps: "pools s = take p (pools s) @ ?q # drop (Suc p) (pools s)" using p by (rule id_take_nth_drop)
    have q: "hp_conns ?q = butlast (hp_conns ?q) @ [last (hp_conns ?q)]" using bad(3) by (cases "hp_conns ?q") auto
    define ids :: "http_pool \<Rightarrow> nat list" where "ids = (\<lambda>q. map hc_id (hp_conns q))"
    have "all_ids s = concat (map ids (take p (pools s))) @ ids ?q @ concat (map ids (drop (Suc p) (pools s)))"
      unfolding all_ids_def ids_def by (subst ps) simp
    moreover have "ids ?q = map hc_id (butlast (hp_conns ?q)) @ [hc_id (last (hp_conns ?q))]"
      unfolding ids_def by (subst q) simp
    moreover obtain q' where "pools ?s = (pools s)[p := q']" "hp_conns q' = butlast (hp_conns ?q)"
      using p by (simp add: upd_pool_def)
    then have "all_ids ?s = concat (map ids (take p (pools s))) @ map hc_id (butlast (hp_conns ?q))
        @ concat (map ids (drop (Suc p) (pools s)))"
      using p by (simp add: all_ids_def ids_def upd_conv_take_nth_drop)
    ultimately show ?thesis using d by auto
  qed
  ultimately show ?thesis by blast
qed

end
