(* ===== verification/Http_Resolver.thy ===== *)
theory Http_Resolver
  imports Http_Pool_Proofs
begin

text \<open>
  \<open>class HttpResolver\<close> as a whole (\<open>src/http_resolver.cpp\<close>): its construction, the start and the
  reload of the proxy setting, the warm-up, \<open>query\<close> with its measurements, and the statistics.

  What a call finds outside is in the record \<open>http_env\<close>: the environment variables and files, the
  time, the measured duration, the outcomes of the network. The parse time that \<open>exchange\<close> records
  is not modelled, nor is the flag \<open>proxyFailed_\<close> written by an opening (\<open>conn_open\<close> has it).
\<close>

section \<open>State\<close>

record http_resolver =
  hr_pools :: http
  hr_proxy :: bytes
  hr_config :: proxy_config
  hr_proxyFailed :: bool
  hr_path :: bytes
  hr_mtime :: int
  hr_fallback :: bytes
  hr_perf :: perf_monitor

text \<open>The thread-local variables of \<open>query\<close>.\<close>

record http_thread =
  lastProxyCheck :: int
  queryCount :: int

record http_env =
  he_proxy :: proxy_env
  he_mtime :: "int option"
  he_net :: http_net
  he_udp :: upstream
  he_now :: int
  he_us :: int
  he_in_time :: "nat \<Rightarrow> bool"
  he_order :: "nat list"
  he_recommended :: int
  he_fanOut :: bool
  he_noise :: bool

section \<open>Construction and start\<close>

definition new_pool :: "bytes \<Rightarrow> http_pool" where
  "new_pool u = \<lparr>hp_url = parseUrl u, hp_conns = [], hp_next = 0, hp_errors = 0, hp_successes = 0, hp_lastErrorRatio = 0\<rparr>"

definition no_proxy_var :: "bytes list \<Rightarrow> proxy_env \<Rightarrow> bytes" where
  "no_proxy_var vars env = (case first_var (pe_var env) vars of None \<Rightarrow> [] | Some x \<Rightarrow> x)"

definition http_create :: "proxy_env \<Rightarrow> perf_monitor \<Rightarrow> bytes \<Rightarrow> bytes \<Rightarrow> bytes \<Rightarrow> http_resolver" where
  "http_create env pm primary secondary fallback =
     \<lparr>hr_pools = \<lparr>pools = new_pool primary # (if secondary \<noteq> [] then [new_pool secondary] else []),
        cc = controller_init (\<lambda>_. False), next_id = 0, next_stream = 0, net_calls = 0, async_opens = []\<rparr>,
      hr_proxy = detectProxy env,
      hr_config = \<lparr>pc_use = False, pc_host = [], pc_port = [], pc_noProxy = no_proxy_var [lit ''no_proxy''] env\<rparr>,
      hr_proxyFailed = False,
      hr_path = (case pe_var env (lit ''HOME'') of None \<Rightarrow> [] | Some h \<Rightarrow> h @ lit ''/.lynx-proxy''),
      hr_mtime = 0, hr_fallback = fallback, hr_perf = pm\<rparr>"

definition first_host :: "http_resolver \<Rightarrow> bytes" where
  "first_host r = u_host (hp_url (pools (hr_pools r) ! 0))"

definition http_init :: "int option \<Rightarrow> http_resolver \<Rightarrow> http_resolver" where
  "http_init mtime r = r\<lparr>hr_proxyFailed := False,
     hr_mtime := (if hr_path r = [] then 0 else case mtime of None \<Rightarrow> 0 | Some t \<Rightarrow> t),
     hr_config := proxy_setting (hr_proxy r) (pc_noProxy (hr_config r)) (first_host r) (hr_config r)\<rparr>"

section \<open>Reload\<close>

text \<open>Growing each pool and opening its connections in the background.\<close>

definition repopulate :: "int \<Rightarrow> http \<Rightarrow> http" where
  "repopulate recommended s =
     foldl (\<lambda>s' p. openPoolAsync p (grow_all (per_pool recommended s) [p] s')) s [0..<length (pools s)]"

definition reload :: "proxy_env \<Rightarrow> int \<Rightarrow> http_resolver \<Rightarrow> http_resolver" where
  "reload env recommended r =
     (let proxy = detectProxy env; noProxy = no_proxy_var [lit ''no_proxy'', lit ''NO_PROXY''] env;
          config = proxy_setting proxy noProxy (first_host r) (hr_config r);
          changed = (pc_use (hr_config r) \<noteq> pc_use config)
      in r\<lparr>hr_proxyFailed := False, hr_proxy := proxy, hr_config := config,
           hr_pools := (if changed then repopulate recommended (drain (hr_pools r)) else hr_pools r)\<rparr>)"

section \<open>Warm-up\<close>

definition all_conns :: "http \<Rightarrow> (nat \<times> nat) list" where
  "all_conns s = [(p, j). p \<leftarrow> [0..<length (pools s)], j \<leftarrow> [0..<length (conns p s)]]"

definition warm_open :: "http_net \<Rightarrow> int \<Rightarrow> nat \<times> nat \<Rightarrow> http \<Rightarrow> http" where
  "warm_open net now = (\<lambda>(p, j) s.
     if hc_inUse (conns p s ! j) then s
     else let (s, success) = open_conn net p j (on_stream unmanage p j (set_inUse p j True s))
          in set_inUse p j False (if success then manage_conn now p j s else s))"

fun warm_checks :: "http_net \<Rightarrow> int \<Rightarrow> (nat \<times> nat) list \<Rightarrow> http \<Rightarrow> http_error + http" where
  "warm_checks net now [] s = Inr s"
| "warm_checks net now ((p, j) # cs) s =
     (if \<not> conn_up s (conns p s ! j) then warm_checks net now cs s
      else case do_exchange net p j (set_inUse p j True s) of
        (s, Inl e) \<Rightarrow> Inl e
      | (s, Inr reply) \<Rightarrow>
          warm_checks net now cs (set_inUse p j False
            (on_stream (if reply = None then notifyFailure else (\<lambda>st. notifyUsed st now)) p j s)))"

text \<open>\<open>order\<close> is the order in which the openings, one thread each, take effect. The exceptions of
  the checks after them leave the thread.\<close>

definition warmUp :: "http_net \<Rightarrow> int \<Rightarrow> int \<Rightarrow> (nat \<times> nat) list \<Rightarrow> http \<Rightarrow> http_error + http" where
  "warmUp net now recommended order s =
     (let s = foldl (\<lambda>s c. warm_open net now c s) (grow_all (per_pool recommended s) [0..<length (pools s)] s) order
      in warm_checks net now (all_conns s) s)"

section \<open>query\<close>

definition check_proxy_file :: "http_env \<Rightarrow> http_thread \<times> http_resolver \<Rightarrow> http_thread \<times> http_resolver" where
  "check_proxy_file env = (\<lambda>(th, r).
     if hr_path r = [] then (th, r)
     else if he_now env - lastProxyCheck th < seconds 1 then (th, r)
     else (th\<lparr>lastProxyCheck := he_now env\<rparr>,
       case he_mtime env of None \<Rightarrow> r
       | Some t \<Rightarrow> if t = hr_mtime r then r else reload (he_proxy env) (he_recommended env) (r\<lparr>hr_mtime := t\<rparr>)))"

definition record_outcome :: "http_env \<Rightarrow> bytes \<Rightarrow> bool \<Rightarrow> http_resolver \<Rightarrow> http_resolver" where
  "record_outcome env name failed r =
     (let pm = recordDomainLatency (he_noise env) name (he_us env) (recordLatency (he_noise env) (he_us env) (hr_perf r))
      in if failed
         then r\<lparr>hr_perf := recordError (he_noise env) pm, hr_proxyFailed := (pc_use (hr_config r) \<or> hr_proxyFailed r)\<rparr>
         else r\<lparr>hr_perf := pm\<rparr>)"

definition http_answer :: "http_env \<Rightarrow> dns_message \<Rightarrow> http_resolver \<Rightarrow> http_resolver \<times> (http_error + dns_message option)" where
  "http_answer env req r =
     (case doPost (he_net env) (he_now env) (he_in_time env) (he_order env) (he_recommended env) (he_fanOut env) req (hr_pools r) of
        (s, Inl e) \<Rightarrow> (r\<lparr>hr_pools := s\<rparr>, Inl e)
      | (s, Inr result) \<Rightarrow> (r\<lparr>hr_pools := s\<rparr>,
          if result = None \<and> hr_fallback r \<noteq> []
          then (case doFallback (he_udp env) (hr_fallback r) req of Inl e \<Rightarrow> Inl (Raised (Dns e)) | Inr m \<Rightarrow> Inr m)
          else Inr result))"

definition http_query :: "http_env \<Rightarrow> dns_message \<Rightarrow> http_thread \<times> http_resolver
    \<Rightarrow> (http_thread \<times> http_resolver) \<times> (http_error + dns_message option)" where
  "http_query env req w =
     (let (th, r) = check_proxy_file env w; th = th\<lparr>queryCount := queryCount th + 1\<rparr> in
      case (if queryCount th mod 100 = 0 then http_maintain (hr_pools r) else Inr (hr_pools r)) of
        Inl e \<Rightarrow> ((th, r), Inl e)
      | Inr s \<Rightarrow>
          let totalConns = sum_list (map (\<lambda>q. length (hp_conns q)) (pools s));
              r = r\<lparr>hr_pools := s, hr_perf := recordConnUse (connectedCount (cc s)) (int totalConns) (hr_perf r)\<rparr>
          in case http_answer env req r of
            (r, Inl e) \<Rightarrow> ((th, r), Inl e)
          | (r, Inr result) \<Rightarrow>
              if questions req = []
              then ((th, r\<lparr>hr_perf := recordLatency (he_noise env) (he_us env) (hr_perf r)\<rparr>), Inl (Raised (Dns Bad_Access)))
              else ((th, record_outcome env (qname (questions req ! 0)) (result = None) r), Inr result))"

section \<open>Statistics\<close>

record pool_stats =
  ps_host :: bytes
  ps_port :: bytes
  ps_connected :: nat
  ps_total :: nat
  ps_errors :: int
  ps_successes :: int
  ps_errorRatio :: int

definition pool_stats_of :: "http \<Rightarrow> http_pool \<Rightarrow> pool_stats" where
  "pool_stats_of s q =
     (let n = hp_errors q + hp_successes q in
      \<lparr>ps_host = u_host (hp_url q), ps_port = u_port (hp_url q),
       ps_connected = length (filter (conn_up s) (hp_conns q)), ps_total = length (hp_conns q),
       ps_errors = hp_errors q, ps_successes = hp_successes q,
       ps_errorRatio = (if 0 < n then hp_errors q * 100 div n else 0)\<rparr>)"

text \<open>The destructor closes what the pools hold. Openings in the background go on: the object waits for
  them after its controller is gone.\<close>

definition http_destroy :: "http_resolver \<Rightarrow> http_resolver" where
  "http_destroy r = r\<lparr>hr_pools := close_all (hr_pools r)\<rparr>"

definition getPoolStats :: "http \<Rightarrow> pool_stats list" where
  "getPoolStats s = map (pool_stats_of s) (pools s)"

definition getProxyUrl :: "http_resolver \<Rightarrow> bytes" where
  "getProxyUrl r = (if \<not> pc_use (hr_config r) then lit ''direct'' else hr_proxy r)"

end
