(* ===== verification/Http_Invariant.thy ===== *)
theory Http_Invariant
  imports Http_Resolver
begin

text \<open>
  The joint invariant of the pools and the controller: the controller's counter is right, and every
  entry it manages is the stream and the flag of one connection of a pool. It is kept by queries,
  background openings, warm-up and reload, which therefore keep to the rules that the controller's
  own invariant assumes of its client.
\<close>

section \<open>Positions\<close>

definition positions :: "http \<Rightarrow> (nat \<times> nat) set" where
  "positions s = {(p, j). p < length (pools s) \<and> j < length (conns p s)}"

definition conn_at :: "http \<Rightarrow> nat \<times> nat \<Rightarrow> http_conn" where
  "conn_at s x = conns (fst x) s ! snd x"

definition lens :: "http \<Rightarrow> nat list" where
  "lens s = map (\<lambda>q. length (hp_conns q)) (pools s)"

lemma lens_length: "lens s' = lens s \<Longrightarrow> length (pools s') = length (pools s)"
  unfolding lens_def by (rule map_eq_imp_length_eq)

lemma lens_conns: "lens s' = lens s \<Longrightarrow> p < length (pools s) \<Longrightarrow> length (conns p s') = length (conns p s)"
  using lens_length [of s' s] unfolding lens_def by (metis nth_map)

lemma lens_positions: "lens s' = lens s \<Longrightarrow> positions s' = positions s"
  using lens_length [of s' s] lens_conns [of s' s] by (auto simp: positions_def)

text \<open>Updates of one pool or one connection.\<close>

lemma upd_pool_lens: "length (hp_conns (f (pools s ! p))) = length (conns p s) \<Longrightarrow> lens (upd_pool p f s) = lens s"
  by (cases "p < length (pools s)") (simp_all add: lens_def upd_pool_def map_update list_update_beyond list_update_same_conv)

lemma upd_pool_fields [simp]:
  "cc (upd_pool p f s) = cc s" "next_id (upd_pool p f s) = next_id s" "next_stream (upd_pool p f s) = next_stream s"
  "net_calls (upd_pool p f s) = net_calls s" "async_opens (upd_pool p f s) = async_opens s"
  by (simp_all add: upd_pool_def)

lemma upd_conn_fields [simp]:
  "lens (upd_conn p j f s) = lens s" "next_id (upd_conn p j f s) = next_id s"
  "next_stream (upd_conn p j f s) = next_stream s" "net_calls (upd_conn p j f s) = net_calls s"
  "async_opens (upd_conn p j f s) = async_opens s"
  by (simp_all add: upd_conn_def upd_pool_lens)

lemma upd_conn_at:
  "x \<in> positions s \<Longrightarrow> conn_at (upd_conn p j f s) x = (if x = (p, j) then f (conn_at s x) else conn_at s x)"
  by (cases x; cases "p = fst x"; cases "j = snd x") (simp_all add: conn_at_def positions_def upd_conn_def upd_pool_def)

lemma upd_pool_at:
  "(\<And>q. hp_conns (f q) = hp_conns q) \<Longrightarrow> x \<in> positions s \<Longrightarrow> conn_at (upd_pool p f s) x = conn_at s x"
  by (cases x; cases "p = fst x") (simp_all add: conn_at_def positions_def upd_pool_def)

lemma with_fields [simp]:
  "lens (s\<lparr>cc := c\<rparr>) = lens s" "conn_at (s\<lparr>cc := c\<rparr>) x = conn_at s x"
  "lens (s\<lparr>net_calls := n\<rparr>) = lens s" "conn_at (s\<lparr>net_calls := n\<rparr>) x = conn_at s x"
  "lens (s\<lparr>next_stream := n\<rparr>) = lens s" "conn_at (s\<lparr>next_stream := n\<rparr>) x = conn_at s x"
  "lens (s\<lparr>async_opens := a\<rparr>) = lens s" "conn_at (s\<lparr>async_opens := a\<rparr>) x = conn_at s x"
  by (simp_all add: lens_def conn_at_def)

lemma positions_simps [simp]:
  "positions (upd_conn p j f s) = positions s" "positions (s\<lparr>cc := c\<rparr>) = positions s"
  "positions (s\<lparr>net_calls := n\<rparr>) = positions s" "positions (s\<lparr>next_stream := n\<rparr>) = positions s"
  "positions (s\<lparr>async_opens := a\<rparr>) = positions s"
  by (rule lens_positions; simp)+

lemma positions_upd_pool: "(\<And>q. hp_conns (f q) = hp_conns q) \<Longrightarrow> positions (upd_pool p f s) = positions s"
  by (rule lens_positions) (simp add: upd_pool_lens)

section \<open>The invariant\<close>

definition entry_of_conn :: "http \<Rightarrow> managed_conn \<Rightarrow> nat \<times> nat \<Rightarrow> bool" where
  "entry_of_conn s m x \<longleftrightarrow> x \<in> positions s \<and> hc_stream (conn_at s x) = Some (mc_stream m)
     \<and> mc_flag m = Some (hc_id (conn_at s x))"

definition http_inv :: "http \<Rightarrow> bool" where
  "http_inv s \<longleftrightarrow> ctl_ok (cc s) \<and> inj_on (\<lambda>x. hc_id (conn_at s x)) (positions s)
     \<and> (\<forall>x \<in> positions s. hc_id (conn_at s x) < next_id s)
     \<and> (\<forall>x \<in> positions s. \<forall>st. hc_stream (conn_at s x) = Some st \<longrightarrow> st < next_stream s)
     \<and> (\<forall>m \<in> set (managed (cc s)). \<exists>x. entry_of_conn s m x)"

lemma http_invD:
  assumes "http_inv s"
  shows "ctl_ok (cc s)" "x \<in> positions s \<Longrightarrow> hc_id (conn_at s x) < next_id s"
    "x \<in> positions s \<Longrightarrow> hc_stream (conn_at s x) = Some st \<Longrightarrow> st < next_stream s"
    "m \<in> set (managed (cc s)) \<Longrightarrow> \<exists>x. entry_of_conn s m x"
    "x \<in> positions s \<Longrightarrow> y \<in> positions s \<Longrightarrow> hc_id (conn_at s x) = hc_id (conn_at s y) \<Longrightarrow> x = y"
  using assms unfolding http_inv_def by (auto dest: inj_onD)

text \<open>Changes that the invariant does not see.\<close>

lemma http_inv_cong:
  assumes "http_inv s" "positions s' = positions s"
    and "\<And>x. x \<in> positions s \<Longrightarrow> hc_id (conn_at s' x) = hc_id (conn_at s x) \<and> hc_stream (conn_at s' x) = hc_stream (conn_at s x)"
    and "ctl_ok (cc s')" "next_id s \<le> next_id s'" "next_stream s \<le> next_stream s'"
    and "\<And>m'. m' \<in> set (managed (cc s')) \<Longrightarrow> \<exists>m \<in> set (managed (cc s)). mc_stream m = mc_stream m' \<and> mc_flag m = mc_flag m'"
  shows "http_inv s'"
proof -
  have "inj_on (\<lambda>x. hc_id (conn_at s' x)) (positions s')"
    using assms(2,3) http_invD(5) [OF assms(1)] by (auto intro!: inj_onI)
  moreover have "\<exists>x. entry_of_conn s' m' x" if "m' \<in> set (managed (cc s'))" for m'
  proof -
    from assms(7) [OF that] obtain m where m: "m \<in> set (managed (cc s))" "mc_stream m = mc_stream m'" "mc_flag m = mc_flag m'" by blast
    from http_invD(4) [OF assms(1) m(1)] obtain x where "entry_of_conn s m x" by blast
    with m(2,3) assms(2) assms(3) [of x] have "entry_of_conn s' m' x" by (simp add: entry_of_conn_def)
    then show ?thesis ..
  qed
  ultimately show ?thesis
    using assms(2-6) http_invD(2,3) [OF assms(1)] by (fastforce simp: http_inv_def)
qed

lemma http_inv_upd_conn:
  assumes "http_inv s" "\<And>c. hc_id (f c) = hc_id c" "\<And>c. hc_stream (f c) = hc_stream c"
  shows "http_inv (upd_conn p j f s)"
  by (rule http_inv_cong [OF assms(1)])
    (use assms http_invD(1) [OF assms(1)] in \<open>auto simp: upd_conn_at\<close>)

lemma http_inv_inUse: "http_inv s \<Longrightarrow> http_inv (set_inUse p j b s)"
  unfolding set_inUse_def by (rule http_inv_upd_conn) simp_all

lemma http_inv_upd_pool:
  assumes "http_inv s" "\<And>q. hp_conns (f q) = hp_conns q"
  shows "http_inv (upd_pool p f s)"
  by (rule http_inv_cong [OF assms(1)])
    (use assms http_invD(1) [OF assms(1)] in \<open>auto simp: positions_upd_pool upd_pool_at\<close>)

lemma http_inv_fields:
  "http_inv (s\<lparr>net_calls := n\<rparr>) = http_inv s" "http_inv (s\<lparr>async_opens := a\<rparr>) = http_inv s"
  by (simp_all add: http_inv_def entry_of_conn_def positions_def conn_at_def)

text \<open>Calls of the controller that keep its streams and flags.\<close>

lemma notify_ok:
  assumes "ctl_ok c"
  shows "ctl_ok (notifyUsed st now c)" "ctl_ok (notifyFailure st c)"
    "map (\<lambda>m. (mc_stream m, mc_flag m)) (managed (notifyUsed st now c)) = map (\<lambda>m. (mc_stream m, mc_flag m)) (managed c)"
    "map (\<lambda>m. (mc_stream m, mc_flag m)) (managed (notifyFailure st c)) = map (\<lambda>m. (mc_stream m, mc_flag m)) (managed c)"
proof -
  let ?k = "\<lambda>m. (mc_stream m, mc_flag m)"
  show "ctl_ok (notifyUsed st now c)"
    using assms by (auto simp: notifyUsed_def ctl_ok_update dest: index_of_Some split: option.split)
  show "map ?k (managed (notifyUsed st now c)) = map ?k (managed c)"
    by (auto simp: notifyUsed_def map_update_same dest: index_of_Some split: option.split)
  show "map ?k (managed (notifyFailure st c)) = map ?k (managed c)"
    by (auto simp: notifyFailure_def request_reconnect_def map_update_same dest: index_of_Some split: option.split)
  show "ctl_ok (notifyFailure st c)"
  proof (cases "index_of st (managed c)")
    case (Some i)
    let ?f = "\<lambda>m. m\<lparr>mc_failures := mc_failures m + 1\<rparr>"
    have i: "i < length (managed c)" using index_of_Some [OF Some] by simp
    have "ctl_ok (drop_conn i (update_at i ?f c))"
      by (rule ctl_ok_drop) (use assms i in \<open>simp_all add: ctl_ok_update\<close>)
    with Some i show ?thesis by (simp add: notifyFailure_def request_reconnect_def ctl_ok_update)
  qed (use assms in \<open>simp add: notifyFailure_def\<close>)
qed

lemma http_inv_cc:
  assumes "http_inv s" "ctl_ok c" "map (\<lambda>m. (mc_stream m, mc_flag m)) (managed c) = map (\<lambda>m. (mc_stream m, mc_flag m)) (managed (cc s))"
  shows "http_inv (s\<lparr>cc := c\<rparr>)"
proof (rule http_inv_cong [OF assms(1)])
  fix m' assume "m' \<in> set (managed (cc (s\<lparr>cc := c\<rparr>)))"
  then have "(mc_stream m', mc_flag m') \<in> set (map (\<lambda>m. (mc_stream m, mc_flag m)) (managed (cc s)))"
    using assms(3) [symmetric] by (simp add: set_map)
  then show "\<exists>m \<in> set (managed (cc s)). mc_stream m = mc_stream m' \<and> mc_flag m = mc_flag m'" by (auto simp: set_map)
qed (use assms in simp_all)

lemma http_inv_notify:
  assumes "http_inv s"
  shows "http_inv (on_stream (\<lambda>st. notifyUsed st now) p j s)" "http_inv (on_stream notifyFailure p j s)"
  using assms notify_ok [OF http_invD(1) [OF assms]] http_inv_cc [OF assms]
  by (simp_all add: on_stream_def split: option.split)

lemma http_inv_outcome:
  assumes "http_inv s"
  shows "http_inv (exchange_succeeded now p j s)" "http_inv (exchange_failed p j s)"
  using http_inv_notify [OF assms] by (simp_all add: exchange_succeeded_def exchange_failed_def http_inv_upd_pool)

section \<open>Closing and opening\<close>

definition unmanaged :: "nat \<times> nat \<Rightarrow> http \<Rightarrow> bool" where
  "unmanaged x s \<longleftrightarrow> (\<forall>m \<in> set (managed (cc s)). \<not> entry_of_conn s m x)"

lemma unmanage_on:
  assumes "http_inv s" "(p, j) \<in> positions s"
  shows "http_inv (on_stream unmanage p j s) \<and> unmanaged (p, j) (on_stream unmanage p j s)"
proof (cases "hc_stream (conns p s ! j)")
  case None
  with assms show ?thesis by (simp add: on_stream_def unmanaged_def entry_of_conn_def conn_at_def)
next
  case (Some st)
  let ?c = "unmanage st (cc s)"
  note u = unmanage_facts [OF http_invD(1) [OF assms(1)], of st]
  have "http_inv (s\<lparr>cc := ?c\<rparr>)"
    by (rule http_inv_cong [OF assms(1)]) (use u in auto)
  moreover have "unmanaged (p, j) (s\<lparr>cc := ?c\<rparr>)"
    using u Some by (auto simp: unmanaged_def entry_of_conn_def conn_at_def set_map)
  ultimately show ?thesis using Some by (simp add: on_stream_def)
qed

lemma on_stream_lens [simp]: "lens (on_stream f p j s) = lens s" "conn_at (on_stream f p j s) x = conn_at s x"
  "next_id (on_stream f p j s) = next_id s" "next_stream (on_stream f p j s) = next_stream s"
  "async_opens (on_stream f p j s) = async_opens s"
  by (simp_all add: on_stream_def split: option.split)

lemma on_stream_pools [simp]: "pools (on_stream f p j s) = pools s"
  by (simp add: on_stream_def split: option.split)

text \<open>A connection that is not managed may take any stream and any value of its flag.\<close>

lemma unmanaged_flag:
  assumes "http_inv s" "x \<in> positions s" "unmanaged x s"
  shows "Some (hc_id (conn_at s x)) \<notin> set (map mc_flag (managed (cc s)))"
proof
  assume "Some (hc_id (conn_at s x)) \<in> set (map mc_flag (managed (cc s)))"
  then obtain m where m: "m \<in> set (managed (cc s))" "mc_flag m = Some (hc_id (conn_at s x))" by (auto simp: set_map)
  from http_invD(4) [OF assms(1) m(1)] obtain y where y: "entry_of_conn s m y" by blast
  then have "hc_id (conn_at s y) = hc_id (conn_at s x)" "y \<in> positions s" using m(2) by (auto simp: entry_of_conn_def)
  then have "y = x" by (intro http_invD(5) [OF assms(1)] assms(2)) auto
  with y m(1) assms(3) show False by (simp add: unmanaged_def)
qed

lemma http_inv_write:
  assumes inv: "http_inv s" "x \<in> positions s" "unmanaged x s" and pos: "positions s' = positions s"
    and at: "\<And>y. y \<in> positions s \<Longrightarrow> conn_at s' y = (if y = x then c else conn_at s y)"
    and c: "hc_id c = hc_id (conn_at s x)" "\<And>st. hc_stream c = Some st \<Longrightarrow> st < next_stream s'"
    and nxt: "next_id s' = next_id s" "next_stream s \<le> next_stream s'"
    and cc: "cc s' = (cc s)\<lparr>conn_flags := (conn_flags (cc s))(hc_id (conn_at s x) := b)\<rparr>"
  shows "http_inv s' \<and> unmanaged x s'"
proof -
  have other: "y \<noteq> x" if "entry_of_conn s m y" "m \<in> set (managed (cc s))" for m y
    using that inv(3) by (auto simp: unmanaged_def)
  note flag = unmanaged_flag [OF inv]
  have ids: "hc_id (conn_at s' y) = hc_id (conn_at s y)" if "y \<in> positions s" for y
    using at [OF that] c(1) by simp
  have "ctl_ok (cc s')" using ctl_ok_owner [OF http_invD(1) [OF inv(1)] flag] by (simp add: cc)
  moreover have "inj_on (\<lambda>y. hc_id (conn_at s' y)) (positions s')"
  proof (rule inj_onI)
    fix y z assume "y \<in> positions s'" "z \<in> positions s'" "hc_id (conn_at s' y) = hc_id (conn_at s' z)"
    then show "y = z" using pos ids http_invD(5) [OF inv(1), of y z] by simp
  qed
  moreover have "hc_id (conn_at s' y) < next_id s'" if "y \<in> positions s'" for y
    using that pos ids http_invD(2) [OF inv(1), of y] nxt(1) by simp
  moreover have "st < next_stream s'" if "y \<in> positions s'" "hc_stream (conn_at s' y) = Some st" for y st
    using that pos at [of y] http_invD(3) [OF inv(1), of y st] nxt(2) c(2) by (cases "y = x") auto
  moreover have "\<exists>y. entry_of_conn s' m y" if "m \<in> set (managed (cc s'))" for m
  proof -
    have m: "m \<in> set (managed (cc s))" using that by (simp add: cc)
    from http_invD(4) [OF inv(1) m] obtain y where y: "entry_of_conn s m y" by blast
    have "y \<in> positions s" using y by (simp add: entry_of_conn_def)
    with y other [OF y m] at pos have "entry_of_conn s' m y" by (simp add: entry_of_conn_def)
    then show ?thesis ..
  qed
  moreover have "unmanaged x s'"
  proof -
    have "mc_flag m \<noteq> Some (hc_id (conn_at s x))" if "m \<in> set (managed (cc s))" for m
      using flag that by (force simp: set_map)
    then show ?thesis using ids [OF inv(2)] by (auto simp: unmanaged_def entry_of_conn_def cc)
  qed
  ultimately show ?thesis by (simp add: http_inv_def)
qed

lemma close_conn_inv:
  assumes "http_inv s" "(p, j) \<in> positions s"
  shows "http_inv (close_conn p j s) \<and> unmanaged (p, j) (close_conn p j s)"
proof -
  let ?s0 = "on_stream unmanage p j s"
  have inv: "http_inv ?s0" "unmanaged (p, j) ?s0" using unmanage_on [OF assms] by auto
  have pos: "positions ?s0 = positions s" by (simp add: positions_def)
  have id: "hc_id (conns p (upd_conn p j (\<lambda>c. c\<lparr>hc_stream := None\<rparr>) ?s0) ! j) = hc_id (conn_at ?s0 (p, j))"
    using assms(2) by (simp add: positions_def conn_at_def)
  show ?thesis
    by (rule http_inv_write [OF inv(1) _ inv(2), where c = "(conn_at s (p, j))\<lparr>hc_stream := None\<rparr>" and b = False])
      (use assms(2) pos id in \<open>simp_all add: close_conn_def Let_def upd_conn_at\<close>)
qed

lemma close_conn_lens [simp]: "lens (close_conn p j s) = lens s" "next_id (close_conn p j s) = next_id s"
  "next_stream (close_conn p j s) = next_stream s" "async_opens (close_conn p j s) = async_opens s"
  by (simp_all add: close_conn_def Let_def)

lemma open_conn_inv:
  assumes "http_inv s" "(p, j) \<in> positions s" "open_conn net p j s = (s', b)"
  shows "http_inv s'" "lens s' = lens s" "unmanaged (p, j) s'" "\<exists>st. hc_stream (conn_at s' (p, j)) = Some st
    \<and> st \<notin> set (map mc_stream (managed (cc s')))" "async_opens s' = async_opens s" "next_id s' = next_id s"
proof -
  let ?s0 = "close_conn p j s" and ?c = "\<lambda>c. c\<lparr>hc_stream := Some (next_stream s)\<rparr>"
  have inv: "http_inv ?s0" "unmanaged (p, j) ?s0" using close_conn_inv [OF assms(1,2)] by auto
  have pos: "positions ?s0 = positions s" by (rule lens_positions) simp
  have id: "hc_id (conns p (upd_conn p j ?c ?s0) ! j) = hc_id (conn_at ?s0 (p, j))"
    using upd_conn_at [of "(p, j)" ?s0 p j ?c] assms(2) pos by (simp add: conn_at_def)
  have s': "s' = (upd_conn p j ?c ?s0)\<lparr>next_stream := next_stream s + 1, net_calls := net_calls ?s0 + 1,
      cc := (cc ?s0)\<lparr>conn_flags := (conn_flags (cc ?s0))(hc_id (conn_at ?s0 (p, j)) := b)\<rparr>\<rparr>"
    using assms(3) id by (auto simp: open_conn_def Let_def)
  have at: "conn_at s' y = (if y = (p, j) then ?c (conn_at ?s0 (p, j)) else conn_at ?s0 y)" if "y \<in> positions ?s0" for y
    using upd_conn_at [OF that, of p j ?c] by (simp add: s')
  have "http_inv s' \<and> unmanaged (p, j) s'"
    by (rule http_inv_write [OF inv(1) _ inv(2), where c = "?c (conn_at ?s0 (p, j))" and b = b])
      (use assms(2) pos at in \<open>simp_all add: s'\<close>)
  then show "http_inv s'" "unmanaged (p, j) s'" by auto
  show "lens s' = lens s" "async_opens s' = async_opens s" "next_id s' = next_id s" by (simp_all add: s')
  have "next_stream s \<notin> set (map mc_stream (managed (cc ?s0)))"
  proof
    assume "next_stream s \<in> set (map mc_stream (managed (cc ?s0)))"
    then obtain m where m: "m \<in> set (managed (cc ?s0))" "mc_stream m = next_stream s" by (auto simp: set_map)
    from http_invD(4) [OF inv(1) m(1)] obtain y where "entry_of_conn ?s0 m y" by blast
    with http_invD(3) [OF inv(1), of y "next_stream s"] m(2) show False by (simp add: entry_of_conn_def)
  qed
  moreover have "hc_stream (conn_at s' (p, j)) = Some (next_stream s)" using at [of "(p, j)"] assms(2) pos by simp
  ultimately show "\<exists>st. hc_stream (conn_at s' (p, j)) = Some st \<and> st \<notin> set (map mc_stream (managed (cc s')))"
    by (simp add: s')
qed

lemma manage_conn_inv:
  assumes "http_inv s" "(p, j) \<in> positions s" "unmanaged (p, j) s"
    and "hc_stream (conn_at s (p, j)) = Some st" "st \<notin> set (map mc_stream (managed (cc s)))"
  shows "http_inv (manage_conn now p j s)" "lens (manage_conn now p j s) = lens s"
    "async_opens (manage_conn now p j s) = async_opens s" "next_id (manage_conn now p j s) = next_id s"
proof -
  let ?c = "conn_at s (p, j)" and ?u = "hp_url (pools s ! p)"
  let ?cc = "manage (u_host ?u, u_port ?u, u_target ?u) st (Some (hc_id ?c)) now (cc s)"
  have s': "manage_conn now p j s = s\<lparr>cc := ?cc\<rparr>"
    using assms(4) by (simp add: manage_conn_def on_stream_def conn_at_def Let_def)
  have "ctl_ok ?cc" by (rule ctl_ok_manage [OF http_invD(1) [OF assms(1)] assms(5) unmanaged_flag [OF assms(1-3)]])
  moreover have "\<exists>x. entry_of_conn (s\<lparr>cc := ?cc\<rparr>) m x" if "m \<in> set (managed ?cc)" for m
  proof (cases "m \<in> set (managed (cc s))")
    case True
    with http_invD(4) [OF assms(1)] show ?thesis by (simp add: entry_of_conn_def)
  next
    case False
    with that have "mc_stream m = st" "mc_flag m = Some (hc_id ?c)" by (auto simp: manage_def Let_def split: if_splits)
    with assms(2,4) have "entry_of_conn (s\<lparr>cc := ?cc\<rparr>) m (p, j)" by (simp add: entry_of_conn_def)
    then show ?thesis ..
  qed
  ultimately show "http_inv (manage_conn now p j s)"
    using assms(1) unfolding s' by (simp add: http_inv_def)
  show "lens (manage_conn now p j s) = lens s" "async_opens (manage_conn now p j s) = async_opens s"
    "next_id (manage_conn now p j s) = next_id s" by (simp_all add: s')
qed

end
