(* ===== verification/Http_Steps.thy ===== *)
theory Http_Steps
  imports Http_Invariant
begin

text \<open>
  Every operation of the HTTP resolver keeps the joint invariant of \<open>Http_Invariant\<close>, and the
  background openings that are pending belong to connections of the pools.
\<close>

section \<open>What an operation between connections keeps\<close>

definition ids :: "http \<Rightarrow> nat list list" where
  "ids s = map (\<lambda>q. map hc_id (hp_conns q)) (pools s)"

definition pending_ok :: "http \<Rightarrow> bool" where
  "pending_ok s \<longleftrightarrow> (\<forall>(p, a) \<in> set (async_opens s). p < length (ids s) \<and> a \<in> set (ids s ! p))"

definition evolves :: "http \<Rightarrow> http \<Rightarrow> bool" where
  "evolves s s' \<longleftrightarrow> http_inv s' \<and> ids s' = ids s \<and> (pending_ok s \<longrightarrow> pending_ok s')"

lemma evolves_trans: "evolves s s' \<Longrightarrow> evolves s' s'' \<Longrightarrow> evolves s s''"
  by (simp add: evolves_def)

lemma evolves_inv: "evolves s s' \<Longrightarrow> http_inv s'"
  by (simp add: evolves_def)

lemma evolves_refl: "http_inv s \<Longrightarrow> evolves s s"
  by (simp add: evolves_def)

lemma evolvesI: "http_inv s' \<Longrightarrow> ids s' = ids s \<Longrightarrow> async_opens s' = async_opens s \<Longrightarrow> evolves s s'"
  by (simp add: evolves_def pending_ok_def)

lemma ids_lens: "ids s' = ids s \<Longrightarrow> lens s' = lens s"
proof -
  have "lens s = map length (ids s)" for s by (simp add: lens_def ids_def)
  then show "ids s' = ids s \<Longrightarrow> lens s' = lens s" by simp
qed

lemma evolves_positions: "evolves s s' \<Longrightarrow> positions s' = positions s"
  unfolding evolves_def by (rule lens_positions, rule ids_lens) simp

lemma evolves_length: "evolves s s' \<Longrightarrow> length (pools s') = length (pools s)"
  unfolding evolves_def by (rule lens_length, rule ids_lens) simp

lemma ids_length: "length (ids s) = length (pools s)"
  by (simp add: ids_def)

lemma ids_upd_pool: "map hc_id (hp_conns (f (pools s ! p))) = map hc_id (conns p s) \<Longrightarrow> ids (upd_pool p f s) = ids s"
  by (cases "p < length (pools s)") (simp_all add: ids_def upd_pool_def map_update list_update_beyond list_update_same_conv)

lemma ids_upd_conn [simp]: "(\<And>c. hc_id (f c) = hc_id c) \<Longrightarrow> ids (upd_conn p j f s) = ids s"
  unfolding upd_conn_def by (rule ids_upd_pool) (simp add: list_eq_iff_nth_eq hc_update(2))

lemma ids_fields [simp]:
  "ids (s\<lparr>cc := c\<rparr>) = ids s" "ids (s\<lparr>net_calls := n\<rparr>) = ids s" "ids (s\<lparr>next_stream := n\<rparr>) = ids s"
  "ids (s\<lparr>async_opens := a\<rparr>) = ids s" "ids (on_stream f p j s) = ids s"
  by (simp_all add: ids_def)

lemma set_inUse_ids [simp]: "ids (set_inUse p j b s) = ids s" "async_opens (set_inUse p j b s) = async_opens s"
  by (simp_all add: set_inUse_def)

section \<open>Exchanges\<close>

lemma ev_inUse: "http_inv s \<Longrightarrow> evolves s (set_inUse p j b s)"
  by (rule evolvesI) (simp_all add: http_inv_inUse)

lemma ev_outcome:
  assumes "http_inv s"
  shows "evolves s (exchange_succeeded now p j s)" "evolves s (exchange_failed p j s)"
  by (rule evolvesI; use http_inv_outcome [OF assms] in \<open>simp add: exchange_succeeded_def exchange_failed_def ids_upd_pool\<close>)+

text \<open>The same after other changes.\<close>

lemma then_inUse: "evolves s s' \<Longrightarrow> evolves s (set_inUse p j b s')"
  using evolves_trans [OF _ ev_inUse [OF evolves_inv]] by blast

lemma then_outcome:
  "evolves s s' \<Longrightarrow> evolves s (exchange_succeeded now p j s')" "evolves s s' \<Longrightarrow> evolves s (exchange_failed p j s')"
  using evolves_trans [OF _ ev_outcome(1) [OF evolves_inv]] evolves_trans [OF _ ev_outcome(2) [OF evolves_inv]] by blast+

lemma ev_exchange: "http_inv s \<Longrightarrow> evolves s (fst (do_exchange net p j s))"
  by (auto simp: do_exchange_def Let_def http_inv_fields evolves_refl intro: evolvesI)

lemma ev_next: "http_inv s \<Longrightarrow> evolves s (fst (getNextConnection p s))"
proof -
  assume inv: "http_inv s"
  let ?s = "upd_pool p (\<lambda>q. q\<lparr>hp_next := hp_next q + 1\<rparr>) s"
  have "evolves s ?s" by (rule evolvesI) (use inv in \<open>simp_all add: http_inv_upd_pool ids_upd_pool\<close>)
  then have "evolves s (set_inUse p j True ?s)" for j by (rule then_inUse)
  with \<open>evolves s ?s\<close> inv show ?thesis
    by (simp add: getNextConnection_def Let_def evolves_refl split: sum.split option.split)
qed

lemma ev_try_pool: "http_inv s \<Longrightarrow> evolves s (fst (try_pool net now p s))"
proof -
  assume inv: "http_inv s"
  obtain s1 r1 where n: "getNextConnection p s = (s1, r1)" by fastforce
  then have 1: "evolves s s1" using ev_next [OF inv, of p] by simp
  show ?thesis
  proof (cases r1)
    case (Inr r)
    show ?thesis
    proof (cases r)
      case (Some j)
      obtain s2 r2 where x: "do_exchange net p j s1 = (s2, r2)" by fastforce
      then have "evolves s1 s2" using ev_exchange [OF evolves_inv [OF 1], of net p j] by simp
      then have 2: "evolves s s2" by (rule evolves_trans [OF 1])
      then have "evolves s (set_inUse p j False (exchange_failed p j s2))"
        "evolves s (exchange_succeeded now p j (set_inUse p j False s2))"
        by (intro then_inUse then_outcome 2)+
      with n Inr Some x 2 show ?thesis by (simp add: try_pool_def split: sum.split option.split)
    qed (use n Inr 1 in \<open>simp add: try_pool_def\<close>)
  qed (use n 1 in \<open>simp add: try_pool_def\<close>)
qed

lemma ev_try_pools:
  assumes "\<And>p s. p \<in> set ps \<Longrightarrow> http_inv s \<Longrightarrow> evolves s (fst (act p s))"
  shows "http_inv s \<Longrightarrow> evolves s (fst (try_pools act ps s))"
  using assms
proof (induction ps arbitrary: s)
  case (Cons p ps)
  obtain s1 r1 where a: "act p s = (s1, r1)" by fastforce
  then have 1: "evolves s s1" using Cons.prems by (metis fst_conv list.set_intros(1))
  have "evolves s1 (fst (try_pools act ps s1))"
    by (rule Cons.IH [OF evolves_inv [OF 1]]) (use Cons.prems in auto)
  with 1 a show ?case by (auto split: sum.split option.split intro: evolves_trans)
qed (simp add: evolves_refl)

lemma ev_retry: "http_inv s \<Longrightarrow> evolves s (fst (retry_loop net now in_time attempt s))"
proof (induction net now in_time attempt s rule: retry_loop.induct)
  case (1 net now in_time attempt s)
  let ?r = "try_pools (try_pool net now) [0..<length (pools s)] s"
  have ev: "evolves s (fst ?r)" by (rule ev_try_pools) (use 1 ev_try_pool in auto)
  obtain s1 r1 where r: "?r = (s1, r1)" by fastforce
  with ev have ev1: "evolves s s1" by simp
  have "evolves s (fst (retry_loop net now in_time (attempt + 1) s1))" if "in_time attempt" "r1 = Inr None" "\<not> 6 \<le> attempt + 1"
    using 1(1) [OF _ r [symmetric]] that evolves_inv [OF ev1] evolves_trans [OF ev1] by simp
  with r ev1 "1.prems" show ?case
    by (subst retry_loop.simps) (auto simp: evolves_refl split: sum.split option.split)
qed

section \<open>Openings\<close>

lemma close_conn_ids [simp]: "ids (close_conn p j s) = ids s"
  by (simp add: close_conn_def Let_def)

lemma then_unmanage: "evolves s s' \<Longrightarrow> (p, j) \<in> positions s \<Longrightarrow> evolves s (on_stream unmanage p j s')"
  using unmanage_on [of s' p j] evolves_positions [of s s']
  by (auto simp: evolves_def pending_ok_def)

lemma then_open:
  assumes "evolves s s0" "(p, j) \<in> positions s" "open_conn net p j s0 = (s', b)"
  shows "evolves s s'" "evolves s (manage_conn now p j s')"
proof -
  have v: "http_inv s0" "(p, j) \<in> positions s0" using assms(1,2) evolves_positions evolves_inv by auto
  note o = open_conn_inv [OF v assms(3)]
  have "ids s' = ids s0" using assms(3) by (auto simp: open_conn_def Let_def)
  then have 1: "evolves s0 s'" by (intro evolvesI o)
  then show "evolves s s'" by (rule evolves_trans [OF assms(1)])
  obtain st where st: "hc_stream (conn_at s' (p, j)) = Some st" "st \<notin> set (map mc_stream (managed (cc s')))"
    using o(4) by blast
  have "(p, j) \<in> positions s'" using v(2) 1 evolves_positions by simp
  note m = manage_conn_inv [OF o(1) this o(3) st, of now]
  have "ids (manage_conn now p j s') = ids s'" by (simp add: manage_conn_def Let_def)
  then have "evolves s' (manage_conn now p j s')" by (intro evolvesI m)
  with 1 assms(1) show "evolves s (manage_conn now p j s')" using evolves_trans by blast
qed

lemma id_at: "(p, j) \<in> positions s \<Longrightarrow> p < length (ids s) \<and> hc_id (conns p s ! j) \<in> set (ids s ! p)"
  by (auto simp: positions_def ids_def)

lemma then_async:
  assumes "evolves s s'" "(p, j) \<in> positions s"
  shows "evolves s (openConnectionAsync p j s')"
proof -
  let ?s = "on_stream unmanage p j (set_inUse p j True s')"
  have 1: "evolves s ?s" by (intro then_unmanage then_inUse assms)
  have "(p, j) \<in> positions ?s" using assms(2) evolves_positions [OF 1] by simp
  from id_at [OF this] have "pending_ok (?s\<lparr>async_opens := async_opens ?s @ [(p, hc_id (conns p ?s ! j))]\<rparr>)" if "pending_ok ?s"
    using that unfolding pending_ok_def by auto
  with 1 assms(1) show ?thesis
    unfolding openConnectionAsync_def Let_def by (auto simp: evolves_def http_inv_fields)
qed

lemma evolves_foldl:
  assumes "\<And>x s'. x \<in> set xs \<Longrightarrow> evolves s s' \<Longrightarrow> evolves s (f s' x)"
  shows "evolves s s' \<Longrightarrow> evolves s (foldl f s' xs)"
  using assms by (induction xs arbitrary: s') auto

lemma positionsI: "evolves s s' \<Longrightarrow> p < length (pools s) \<Longrightarrow> j < length (conns p s') \<Longrightarrow> (p, j) \<in> positions s"
  using evolves_positions [of s s'] evolves_length [of s s'] by (auto simp: positions_def)

lemma then_pool_async: "evolves s s' \<Longrightarrow> p < length (pools s) \<Longrightarrow> evolves s (openPoolAsync p s')"
  unfolding openPoolAsync_def
  by (rule evolves_foldl) (auto intro: then_async positionsI [of s s'])

lemma then_exchange:
  "evolves s s' \<Longrightarrow> do_exchange net p j s' = (s'', r) \<Longrightarrow> evolves s s''"
  using ev_exchange [OF evolves_inv, of s s' net p j] evolves_trans by (metis fst_conv)

lemma outcome_length [simp]: "length (pools (exchange_succeeded now p j s)) = length (pools s)"
  by (simp add: exchange_succeeded_def upd_pool_def)

lemma ev_reopen:
  assumes "p < length (pools s)" "\<forall>j \<in> set js. j < length (conns p s)" "evolves s s'"
  shows "evolves s (fst (reopen net now p js opened s'))"
  using assms(2,3)
proof (induction js arbitrary: opened s')
  case (Cons j js)
  have pos: "(p, j) \<in> positions s" using assms(1) Cons.prems(1) by (simp add: positions_def)
  have IH: "evolves s (fst (reopen net now p js k s2))" if "evolves s s2" for k s2
    using Cons.IH [of s2 k] Cons.prems that by simp
  let ?s1 = "set_inUse p j True s'"
  have 1: "evolves s ?s1" by (intro then_inUse Cons.prems)
  obtain s2 b where o: "open_conn net p j (on_stream unmanage p j ?s1) = (s2, b)" by fastforce
  note 2 = then_open [OF then_unmanage [OF 1 pos] pos o]
  obtain s3 r where x: "do_exchange net p j (manage_conn now p j s2) = (s3, r)" by fastforce
  have 3: "evolves s s3" by (rule then_exchange [OF 2(2) x])
  have 4: "evolves s (foldl (\<lambda>s p. openPoolAsync p s) s4 [0..<length (pools s4)])" if "evolves s s4" for s4
    by (rule evolves_foldl) (use that evolves_length [OF that] then_pool_async in auto)
  note steps = 4 [OF then_outcome(1) [OF then_inUse [OF 3, of p j False], of now p j]]
    IH [OF then_inUse [OF 2(1), of p j False]] then_inUse [OF then_outcome(2) [OF 3, of p j], of p j False]
  show ?case
    using IH [OF Cons.prems(2)] 1 3 steps by (auto simp: Let_def o x split: sum.split option.split)
qed (simp add: assms(3))

lemma ev_reopen_pool: "p < length (pools s) \<Longrightarrow> http_inv s \<Longrightarrow> evolves s (fst (reopen_pool net now p s))"
  unfolding reopen_pool_def by (rule ev_reopen) (auto simp: evolves_refl)

section \<open>Racing\<close>

lemma ev_candidates: "http_inv s \<Longrightarrow> evolves s (fst (take_candidates ps s))"
proof (induction ps arbitrary: s)
  case (Cons p ps)
  obtain s1 r1 where n: "getNextConnection p s = (s1, r1)" by fastforce
  then have 1: "evolves s s1" using ev_next [OF Cons.prems, of p] by simp
  obtain s2 r2 where c: "take_candidates ps s1 = (s2, r2)" by fastforce
  then have "evolves s s2" using Cons.IH [OF evolves_inv [OF 1]] evolves_trans [OF 1] by simp
  with 1 n c show ?case by (auto split: sum.split option.split)
qed (simp add: evolves_refl)

lemma ev_run: "http_inv s \<Longrightarrow> evolves s (fst (run_exchanges net cs s))"
proof (induction cs arbitrary: s)
  case (Cons c cs)
  obtain p j where c: "c = (p, j)" by fastforce
  obtain s1 r1 where x: "do_exchange net p j s = (s1, r1)" by fastforce
  then have 1: "evolves s s1" using ev_exchange [OF Cons.prems, of net p j] by simp
  obtain s2 r2 where "run_exchanges net cs s1 = (s2, r2)" by fastforce
  with Cons.IH [OF evolves_inv [OF 1]] evolves_trans [OF 1] c x show ?case by auto
qed (simp add: evolves_refl)

lemma ev_race: "http_inv s \<Longrightarrow> evolves s (fst (raceUpstreams net now order s))"
proof -
  assume inv: "http_inv s"
  let ?ps = "[0..<length (pools s)]"
  obtain s1 r1 where t: "take_candidates ?ps s = (s1, r1)" by fastforce
  then have 1: "evolves s s1" using ev_candidates [OF inv, of ?ps] by simp
  have run: "evolves s (fst (run_exchanges net cs s1))" for cs
    using ev_run [OF evolves_inv [OF 1]] evolves_trans [OF 1] by blast
  have credit: "evolves s (foldl (release now success) s2 cs)" if "evolves s s2" for s2 cs success
    by (rule evolves_foldl) (use that in \<open>auto simp: release_def Let_def intro!: then_inUse then_outcome\<close>)
  show ?thesis
  proof (cases r1)
    case (Inr cs)
    obtain s2 rs where r: "run_exchanges net cs s1 = (s2, rs)" by fastforce
    then have "evolves s s2" using run [of cs] by simp
    from this credit [OF this] 1 t Inr r show ?thesis
      by (cases cs) (simp_all add: raceUpstreams_def del: foldl_Cons run_exchanges.simps split: sum.split)
  qed (use t 1 in \<open>simp add: raceUpstreams_def\<close>)
qed

section \<open>Growing\<close>

definition http_ok :: "http \<Rightarrow> bool" where
  "http_ok s \<longleftrightarrow> http_inv s \<and> pending_ok s"

lemma evolves_ok: "http_ok s \<Longrightarrow> evolves s s' \<Longrightarrow> http_ok s'"
  by (simp add: http_ok_def evolves_def)

definition fresh_conn :: "nat \<Rightarrow> http_conn" where
  "fresh_conn a = \<lparr>hc_id = a, hc_inUse = False, hc_stream = None\<rparr>"

lemma grown_conns:
  assumes "p < length (pools s)"
  shows "conns q (grow p n s) = (if q = p then conns p s @ map fresh_conn [next_id s..<next_id s + n] else conns q s)"
proof -
  have "map (\<lambda>k. fresh_conn (next_id s + k)) [0..<n] = map fresh_conn [next_id s..<next_id s + n]"
    by (rule nth_equalityI) simp_all
  with assms show ?thesis by (simp add: grow_def upd_pool_def fresh_conn_def)
qed

lemma grow_fields [simp]:
  "length (pools (grow p n s)) = length (pools s)" "next_id (grow p n s) = next_id s + n"
  "next_stream (grow p n s) = next_stream s" "async_opens (grow p n s) = async_opens s"
  "managed (cc (grow p n s)) = managed (cc s)" "net_calls (grow p n s) = net_calls s"
  by (simp_all add: grow_def upd_pool_def)

lemma grow_at:
  assumes "p < length (pools s)" "x \<in> positions (grow p n s)"
  shows "(x \<in> positions s \<and> conn_at (grow p n s) x = conn_at s x)
    \<or> (fst x = p \<and> length (conns p s) \<le> snd x \<and> snd x - length (conns p s) < n
       \<and> conn_at (grow p n s) x = fresh_conn (next_id s + (snd x - length (conns p s))))"
  using assms(2) by (auto simp: positions_def conn_at_def grown_conns [OF assms(1)] nth_append split: if_splits)

lemma grow_old:
  "p < length (pools s) \<Longrightarrow> x \<in> positions s \<Longrightarrow> x \<in> positions (grow p n s) \<and> conn_at (grow p n s) x = conn_at s x"
  by (cases x) (auto simp: positions_def conn_at_def grown_conns nth_append)

lemma grow_inv:
  assumes inv: "http_inv s" and p: "p < length (pools s)"
  shows "http_inv (grow p n s)"
proof -
  let ?g = "grow p n s"
  have flags: "conn_flags (cc ?g) a = conn_flags (cc s) a" if "a < next_id s" for a using that by (simp add: grow_def)
  have "up (conn_flags (cc ?g)) m = up (conn_flags (cc s)) m" if "m \<in> set (managed (cc s))" for m
  proof -
    from http_invD(4) [OF inv that] obtain x where "entry_of_conn s m x" by blast
    then show ?thesis using http_invD(2) [OF inv, of x] flags by (auto simp: entry_of_conn_def up_def)
  qed
  then have "ups (conn_flags (cc ?g)) (managed (cc s)) = ups (conn_flags (cc s)) (managed (cc s))"
    unfolding ups_def by (metis (no_types, lifting) filter_cong)
  moreover have "connectedCount (cc ?g) = connectedCount (cc s)" "totalCount (cc ?g) = totalCount (cc s)"
    by (simp_all add: grow_def)
  ultimately have "ctl_ok (cc ?g)" using http_invD(1) [OF inv] by (simp add: ctl_ok_def)
  moreover have "inj_on (\<lambda>x. hc_id (conn_at ?g x)) (positions ?g)"
  proof (rule inj_onI)
    fix x y assume xy: "x \<in> positions ?g" "y \<in> positions ?g" "hc_id (conn_at ?g x) = hc_id (conn_at ?g y)"
    show "x = y"
      using grow_at [OF p xy(1)] grow_at [OF p xy(2)] xy(3) http_invD(2) [OF inv, of x] http_invD(2) [OF inv, of y]
        http_invD(5) [OF inv, of x y] by (auto simp: fresh_conn_def intro: prod_eqI)
  qed
  moreover have "hc_id (conn_at ?g x) < next_id ?g" if "x \<in> positions ?g" for x
    using grow_at [OF p that] http_invD(2) [OF inv, of x] by (auto simp: fresh_conn_def)
  moreover have "st < next_stream ?g" if "x \<in> positions ?g" "hc_stream (conn_at ?g x) = Some st" for x st
    using grow_at [OF p that(1)] that(2) http_invD(3) [OF inv, of x st] by (auto simp: fresh_conn_def)
  moreover have "\<exists>x. entry_of_conn ?g m x" if "m \<in> set (managed (cc ?g))" for m
  proof -
    have "m \<in> set (managed (cc s))" using that by simp
    from http_invD(4) [OF inv this] obtain x where "entry_of_conn s m x" by blast
    then have "entry_of_conn ?g m x" using grow_old [OF p, of x] by (auto simp: entry_of_conn_def)
    then show ?thesis ..
  qed
  ultimately show ?thesis unfolding http_inv_def by blast
qed

lemma grow_ok: "http_ok s \<Longrightarrow> p < length (pools s) \<Longrightarrow> http_ok (grow p n s)"
  using grow_inv [of s p n] by (fastforce simp: http_ok_def pending_ok_def ids_def grown_conns)

lemma grow_all_ok:
  "http_ok s \<Longrightarrow> \<forall>p \<in> set ps. p < length (pools s) \<Longrightarrow>
    http_ok (grow_all want ps s) \<and> length (pools (grow_all want ps s)) = length (pools s)"
  by (induction ps arbitrary: s) (auto simp: ensurePoolSize_def grow_ok)

section \<open>A whole query\<close>

lemma doPost_ok:
  assumes "http_ok s"
  shows "http_ok (fst (doPost net now in_time order recommended fanOut req s))
    \<and> length (pools (fst (doPost net now in_time order recommended fanOut req s))) = length (pools s)"
proof (cases "pack req")
  case (Inr wire)
  let ?s = "grow_all (per_pool recommended s) [0..<length (pools s)] s"
  have ok: "http_ok ?s" and len: "length (pools ?s) = length (pools s)" using grow_all_ok [OF assms] by auto
  then have inv: "http_inv ?s" by (simp add: http_ok_def)
  define race where "race = (if fanOut then raceUpstreams net now order ?s else (?s, Inr None))"
  obtain s1 r1 where r1: "race = (s1, r1)" by fastforce
  have 1: "evolves ?s s1" using r1 ev_race [OF inv, of net now order] inv by (auto simp: race_def evolves_refl split: if_splits)
  define retry where "retry = (if list_ex (\<lambda>q. list_ex (conn_up s1) (hp_conns q)) (pools s1)
    then retry_loop net now in_time 0 s1 else (s1, Inr None))"
  obtain s2 r2 where r2: "retry = (s2, r2)" by fastforce
  have "evolves s1 s2"
    using r2 ev_retry [OF evolves_inv [OF 1], of net now in_time 0] evolves_refl [OF evolves_inv [OF 1]]
    by (auto simp: retry_def split: if_splits)
  then have 2: "evolves ?s s2" by (rule evolves_trans [OF 1])
  have "evolves s2 (fst (try_pools (reopen_pool net now) [0..<length (pools s2)] s2))"
  proof -
    have "evolves s' (fst (reopen_pool net now p s'))" if "evolves s2 s'" "p < length (pools s2)" for s' p
      using that ev_reopen_pool [of p s'] evolves_length [OF that(1)] evolves_inv [OF that(1)] by simp
    then have "evolves s2 (fst (try_pools (reopen_pool net now) ps s'))" if "evolves s2 s'" "\<forall>p \<in> set ps. p < length (pools s2)" for ps s'
      using that
    proof (induction ps arbitrary: s')
      case (Cons p ps)
      obtain s3 r3 where r: "reopen_pool net now p s' = (s3, r3)" by fastforce
      then have 3: "evolves s2 s3" using Cons.prems evolves_trans [OF Cons.prems(2), of s3] by (metis fst_conv list.set_intros(1))
      show ?case using Cons.IH [OF Cons.prems(1) 3] Cons.prems(3) 3 r by (auto split: sum.split option.split)
    qed simp
    then show ?thesis using evolves_refl [OF evolves_inv [OF 2]] by simp
  qed
  then have 3: "evolves ?s (fst (try_pools (reopen_pool net now) [0..<length (pools s2)] s2))" by (rule evolves_trans [OF 2])
  have "evolves ?s (fst (doPost net now in_time order recommended fanOut req s))"
    using Inr r1 r2 1 2 3 unfolding doPost_def Let_def race_def [symmetric]
    by (auto simp flip: retry_def split: sum.split option.split)
  then show ?thesis using evolves_ok [OF ok] evolves_length len by simp
qed (use assms in \<open>simp add: doPost_def\<close>)

end
