(* ===== verification/Http_Runs.thy ===== *)
theory Http_Runs
  imports Http_Steps
begin

text \<open>
  Runs of the HTTP resolver: queries and background openings keep the joint invariant, warm-up too,
  and a reload that switches the proxy leaves the controller with no connection and every
  connection of the pools about to be opened.
\<close>

section \<open>Background openings\<close>

lemma conn_index_member:
  "a \<in> set (map hc_id cs) \<Longrightarrow> \<exists>j. conn_index a cs = Some j \<and> j < length cs"
  by (induction cs) auto

lemma async_done_ok:
  assumes "http_ok s" "(p, a) \<in> set (async_opens s)"
  shows "http_ok (async_done net now p a s) \<and> length (pools (async_done net now p a s)) = length (pools s)"
proof -
  let ?s = "s\<lparr>async_opens := remove1 (p, a) (async_opens s)\<rparr>"
  have ok: "http_ok ?s"
    using assms(1) notin_set_remove1 [of _ "async_opens s"] set_remove1_subset [of "(p, a)" "async_opens s"]
    by (auto simp: http_ok_def http_inv_fields pending_ok_def)
  have "p < length (pools s)" "a \<in> set (map hc_id (conns p ?s))"
    using assms by (auto simp: http_ok_def pending_ok_def ids_def)
  then obtain j where j: "conn_index a (conns p ?s) = Some j" "(p, j) \<in> positions ?s"
    using conn_index_member [of a "conns p ?s"] by (auto simp: positions_def)
  obtain s1 b where o: "open_conn net p j ?s = (s1, b)" by fastforce
  have "http_inv ?s" using ok by (simp add: http_ok_def)
  note then_open [OF evolves_refl [OF this] j(2) o]
  then have "evolves ?s (set_inUse p j False (if b then manage_conn now p j s1 else s1))" by (intro then_inUse) simp
  from evolves_ok [OF ok this] evolves_length [OF this] show ?thesis
    using j o by (simp add: async_done_def Let_def)
qed

section \<open>Warm-up\<close>

lemma warm_open_ev: "evolves s s' \<Longrightarrow> x \<in> positions s \<Longrightarrow> evolves s (warm_open net now x s')"
proof (cases x)
  case (Pair p j)
  assume 1: "evolves s s'" and x: "x \<in> positions s"
  obtain s1 b where o: "open_conn net p j (on_stream unmanage p j (set_inUse p j True s')) = (s1, b)" by fastforce
  note then_open [OF then_unmanage [OF then_inUse [OF 1]] _ o]
  then show ?thesis
    using 1 x Pair o by (auto simp: warm_open_def Let_def intro!: then_inUse)
qed

lemma warm_checks_ev: "evolves s s' \<Longrightarrow> warm_checks net now cs s' = Inr s'' \<Longrightarrow> evolves s s''"
proof (induction cs arbitrary: s')
  case (Cons c cs)
  obtain p j where c: "c = (p, j)" by fastforce
  show ?case
  proof (cases "conn_up s' (conns p s' ! j)")
    case True
    obtain s1 r where x: "do_exchange net p j (set_inUse p j True s') = (s1, r)" by fastforce
    have 1: "evolves s s1" by (rule then_exchange [OF then_inUse [OF Cons.prems(1)] x])
    obtain reply where r: "r = Inr reply" using Cons.prems(2) c True x by (cases r) auto
    let ?f = "if reply = None then notifyFailure else (\<lambda>st. notifyUsed st now)"
    have "evolves s1 (on_stream ?f p j s1)"
      by (rule evolvesI) (use http_inv_notify [OF evolves_inv [OF 1]] in simp_all)
    from Cons.IH [OF then_inUse [OF evolves_trans [OF 1 this]]] Cons.prems(2) c True x r show ?thesis by simp
  qed (use Cons c in simp)
qed simp

lemma warmUp_ok:
  assumes "http_ok s" "warmUp net now recommended order s = Inr s'"
    and "set order \<subseteq> positions (grow_all (per_pool recommended s) [0..<length (pools s)] s)"
  shows "http_ok s'" "length (pools s') = length (pools s)"
proof -
  let ?s = "grow_all (per_pool recommended s) [0..<length (pools s)] s"
  have ok: "http_ok ?s" "length (pools ?s) = length (pools s)" using grow_all_ok [OF assms(1)] by auto
  have "evolves ?s (foldl (\<lambda>s c. warm_open net now c s) ?s order)"
    by (rule evolves_foldl) (use assms(3) ok warm_open_ev in \<open>auto simp: http_ok_def evolves_refl\<close>)
  from warm_checks_ev [OF this] assms(2) have ev: "evolves ?s s'" by (simp add: warmUp_def Let_def)
  show "http_ok s'" by (rule evolves_ok [OF ok(1) ev])
  show "length (pools s') = length (pools s)" using evolves_length [OF ev] ok(2) by simp
qed

section \<open>Queries\<close>

definition resolver_ok :: "http_resolver \<Rightarrow> bool" where
  "resolver_ok r \<longleftrightarrow> http_ok (hr_pools r) \<and> length (pools (hr_pools r)) = 1"

lemma http_answer_ok:
  assumes "resolver_ok r"
  shows "resolver_ok (fst (http_answer env req r))"
  using doPost_ok [of "hr_pools r" "he_net env" "he_now env" "he_in_time env" "he_order env" "he_recommended env" "he_fanOut env" req] assms
  by (auto simp: http_answer_def resolver_ok_def split: prod.split sum.split)

lemma http_create_ok: "resolver_ok (http_create env pm primary [] fallback)"
  by (simp add: resolver_ok_def http_create_def http_ok_def http_inv_def pending_ok_def positions_def new_pool_def
      controller_init_def ctl_ok_def inj_on_def)

section \<open>Reload\<close>

lemma close_conn_cc:
  "set (managed (cc (close_conn p j s))) \<subseteq> set (managed (cc s))" if "ctl_ok (cc s)"
  using unmanage_facts [OF that] by (auto simp: close_conn_def on_stream_def Let_def split: option.split)

lemma close_conn_at: "x \<in> positions s \<Longrightarrow> x \<noteq> (p, j) \<Longrightarrow> conn_at (close_conn p j s) x = conn_at s x"
  by (simp add: close_conn_def Let_def upd_conn_at positions_def [of "on_stream _ _ _ _"] flip: positions_def)

lemma unmanaged_close:
  assumes "http_inv s" "x \<in> positions s" "y \<in> positions s" "unmanaged x s"
  shows "unmanaged x (close_conn (fst y) (snd y) s)"
proof (cases "x = y")
  case True
  with close_conn_inv [OF assms(1), of "fst y" "snd y"] assms(3) show ?thesis by simp
next
  case False
  then have "conn_at (close_conn (fst y) (snd y) s) x = conn_at s x" using assms(2) by (intro close_conn_at) auto
  then show ?thesis
    using assms(2,4) close_conn_cc [OF http_invD(1) [OF assms(1)], of "fst y" "snd y"]
    by (auto simp: unmanaged_def entry_of_conn_def)
qed

text \<open>Closing a list of connections.\<close>

definition closed :: "http \<Rightarrow> http \<Rightarrow> (nat \<times> nat) set \<Rightarrow> bool" where
  "closed s s' X \<longleftrightarrow> evolves s s' \<and> (\<forall>x \<in> X. x \<in> positions s \<and> unmanaged x s')"

lemma closed_close:
  assumes "closed s s' X" "y \<in> positions s"
  shows "closed s (close_conn (fst y) (snd y) s') (insert y X)"
proof -
  have ev: "evolves s s'" and X: "\<forall>x \<in> X. x \<in> positions s \<and> unmanaged x s'" using assms(1) by (auto simp: closed_def)
  have inv: "http_inv s'" and pos: "positions s' = positions s" using evolves_inv [OF ev] evolves_positions [OF ev] by auto
  have "(fst y, snd y) \<in> positions s'" using assms(2) pos by simp
  note c = close_conn_inv [OF inv this]
  have "evolves s' (close_conn (fst y) (snd y) s')" by (rule evolvesI) (use c in simp_all)
  then have "evolves s (close_conn (fst y) (snd y) s')" by (rule evolves_trans [OF ev])
  moreover have "unmanaged x (close_conn (fst y) (snd y) s')" if "x \<in> X" for x
    by (rule unmanaged_close [OF inv]) (use X that assms(2) pos in auto)
  ultimately show ?thesis using X c assms(2) by (auto simp: closed_def)
qed

lemma closed_pool:
  "closed s s' X \<Longrightarrow> p < length (pools s) \<Longrightarrow> \<forall>j \<in> set js. j < length (conns p s) \<Longrightarrow>
    closed s (foldl (\<lambda>s j. close_conn p j s) s' js) (Pair p ` set js \<union> X)"
proof (induction js arbitrary: s' X)
  case (Cons j js)
  have "closed s (close_conn p j s') (insert (p, j) X)"
    using closed_close [OF Cons.prems(1), of "(p, j)"] Cons.prems(2,3) by (simp add: positions_def)
  from Cons.IH [OF this] Cons.prems show ?case by (simp add: Un_insert_left insert_commute)
qed simp

lemma closed_all:
  "closed s s' X \<Longrightarrow> \<forall>p \<in> set ps. p < length (pools s) \<Longrightarrow>
    closed s (foldl (\<lambda>s p. foldl (\<lambda>s j. close_conn p j s) s [0..<length (conns p s)]) s' ps)
      ({x \<in> positions s. fst x \<in> set ps} \<union> X)"
proof (induction ps arbitrary: s' X)
  case (Cons p ps)
  have len: "length (conns p s') = length (conns p s)"
    by (rule lens_conns [OF ids_lens]) (use Cons.prems in \<open>simp_all add: closed_def evolves_def\<close>)
  have "closed s (foldl (\<lambda>s j. close_conn p j s) s' [0..<length (conns p s')]) (Pair p ` {0..<length (conns p s)} \<union> X)"
    using closed_pool [OF Cons.prems(1), of p "[0..<length (conns p s)]"] Cons.prems(2) len by simp
  note IH = Cons.IH [OF this]
  have "{x \<in> positions s. fst x \<in> set ps} \<union> (Pair p ` {0..<length (conns p s)} \<union> X)
      = {x \<in> positions s. fst x \<in> set (p # ps)} \<union> X"
    using Cons.prems(2) by (auto simp: positions_def)
  with IH Cons.prems(2) show ?case by simp
qed simp

lemma close_all_state:
  assumes "http_inv s"
  shows "managed (cc (close_all s)) = []" "evolves s (close_all s)" "async_opens (close_all s) = async_opens s"
proof -
  have "closed s s {}" using assms by (simp add: closed_def evolves_refl)
  from closed_all [OF this, of "[0..<length (pools s)]"]
  have c: "closed s (close_all s) {x \<in> positions s. fst x \<in> {0..<length (pools s)}}" by (simp add: close_all_def)
  then show ev: "evolves s (close_all s)" by (simp add: closed_def)
  have un: "\<forall>x \<in> positions s. unmanaged x (close_all s)" using c by (auto simp: closed_def positions_def)
  have "m \<notin> set (managed (cc (close_all s)))" for m
  proof
    assume m: "m \<in> set (managed (cc (close_all s)))"
    from http_invD(4) [OF evolves_inv [OF ev] m] obtain x where "entry_of_conn (close_all s) m x" by blast
    with un m evolves_positions [OF ev] show False by (auto simp: unmanaged_def entry_of_conn_def)
  qed
  then show "managed (cc (close_all s)) = []" by (metis last_in_set)
  have "async_opens (foldl (\<lambda>s j. close_conn p j s) t js) = async_opens t" for p t js by (induction js arbitrary: t) auto
  then have "async_opens (foldl (\<lambda>s p. foldl (\<lambda>s j. close_conn p j s) s [0..<length (conns p s)]) t ps) = async_opens t" for t ps
    by (induction ps arbitrary: t) auto
  then show "async_opens (close_all s) = async_opens s" by (simp add: close_all_def)
qed

lemma drain_state:
  assumes "http_inv s"
  shows "managed (cc (drain s)) = []" "http_inv (drain s)" "length (pools (drain s)) = length (pools s)"
    "async_opens s = [] \<Longrightarrow> async_opens (drain s) = []" "\<forall>q \<in> set (pools (drain s)). hp_conns q = []"
proof -
  note c = close_all_state [OF assms]
  show man: "managed (cc (drain s)) = []" using c(1) by (simp add: drain_def Let_def)
  have "positions (drain s) = {}" by (auto simp: positions_def drain_def Let_def)
  then show "http_inv (drain s)"
    using man http_invD(1) [OF evolves_inv [OF c(2)]] by (simp add: http_inv_def drain_def Let_def)
  show "length (pools (drain s)) = length (pools s)" using evolves_length [OF c(2)] by (simp add: drain_def Let_def)
  show "async_opens s = [] \<Longrightarrow> async_opens (drain s) = []" using c(3) by (simp add: drain_def Let_def)
  show "\<forall>q \<in> set (pools (drain s)). hp_conns q = []" by (simp add: drain_def Let_def)
qed

text \<open>After the destructor's body the controller manages nothing, and every opening that was under way
  still is.\<close>

lemma destroyed:
  assumes "resolver_ok r"
  shows "managed (cc (hr_pools (http_destroy r))) = []" "async_opens (hr_pools (http_destroy r)) = async_opens (hr_pools r)"
  using assms close_all_state [of "hr_pools r"] by (simp_all add: resolver_ok_def http_ok_def http_destroy_def)

section \<open>Opening all connections of new pools\<close>

definition async_each :: "nat \<Rightarrow> nat list \<Rightarrow> http \<Rightarrow> http" where
  "async_each p js s = foldl (\<lambda>s j. if conn_up s (conns p s ! j) then s else openConnectionAsync p j s) s js"

lemma async_fresh:
  assumes "p < length (pools s)" "distinct js" "\<forall>j \<in> set js. j < length (conns p s)
      \<and> \<not> conn_up s (conns p s ! j) \<and> \<not> hc_inUse (conns p s ! j) \<and> hc_stream (conns p s ! j) = None"
  shows "async_opens (async_each p js s) = async_opens s @ map (\<lambda>j. (p, hc_id (conns p s ! j))) js
    \<and> cc (async_each p js s) = cc s \<and> ids (async_each p js s) = ids s
    \<and> (\<forall>q. q \<noteq> p \<longrightarrow> pools (async_each p js s) ! q = pools s ! q)"
  using assms
proof (induction js arbitrary: s)
  case (Cons j js)
  have j: "j < length (conns p s)" "\<not> conn_up s (conns p s ! j)" "\<not> hc_inUse (conns p s ! j)" "hc_stream (conns p s ! j) = None"
    using Cons.prems(3) by auto
  let ?s = "(set_inUse p j True s)\<lparr>async_opens := async_opens s @ [(p, hc_id (conns p s ! j))]\<rparr>"
  have "async_each p (j # js) s = async_each p js ?s"
    using j Cons.prems(1) by (simp add: async_each_def openConnectionAsync_def on_stream_def Let_def)
  note step = this
  have at: "conns p ?s ! k = conns p s ! k" if "k \<in> set js" for k
  proof -
    have "k \<noteq> j" using that Cons.prems(2) by auto
    then show ?thesis using Cons.prems(1) by simp
  qed
  have up: "conn_up ?s c = conn_up s c" for c by (simp add: conn_up_def)
  have pre: "p < length (pools ?s)" "distinct js" "\<forall>k \<in> set js. k < length (conns p ?s)
      \<and> \<not> conn_up ?s (conns p ?s ! k) \<and> \<not> hc_inUse (conns p ?s ! k) \<and> hc_stream (conns p ?s ! k) = None"
  proof -
    show "p < length (pools ?s)" "distinct js" using Cons.prems(1,2) by simp_all
    have "length (conns p ?s) = length (conns p s)" using Cons.prems(1) by simp
    with Cons.prems(3) show "\<forall>k \<in> set js. k < length (conns p ?s)
      \<and> \<not> conn_up ?s (conns p ?s ! k) \<and> \<not> hc_inUse (conns p ?s ! k) \<and> hc_stream (conns p ?s ! k) = None"
      by (metis at up list.set_intros(2))
  qed
  have other: "pools ?s ! q = pools s ! q" if "q \<noteq> p" for q
    using that by (simp add: set_inUse_def upd_conn_def upd_pool_def)
  have "map (\<lambda>k. (p, hc_id (conns p ?s ! k))) js = map (\<lambda>k. (p, hc_id (conns p s ! k))) js"
    by (rule map_cong) (use at in simp_all)
  with Cons.IH [OF pre] step other show ?case by simp
qed (simp add: async_each_def)

lemma pool_fresh:
  assumes p: "p < length (pools s)" "conns p s = []" "0 < want"
  defines "s' \<equiv> openPoolAsync p (grow_all want [p] s)"
  shows "map hc_id (conns p s') = [next_id s..<next_id s + want]" "length (pools s') = length (pools s)"
    "async_opens s' = async_opens s @ map (Pair p) [next_id s..<next_id s + want]" "managed (cc s') = managed (cc s)"
    "\<And>q. q \<noteq> p \<Longrightarrow> conns q s' = conns q s"
proof -
  let ?g = "grow p want s"
  have o: "openPoolAsync p ?g = async_each p [0..<length (conns p ?g)] ?g" by (simp add: openPoolAsync_def async_each_def)
  have s': "s' = openPoolAsync p ?g" using p by (simp add: s'_def ensurePoolSize_def)
  have c: "conns p ?g = map fresh_conn [next_id s..<next_id s + want]" using grown_conns [OF p(1), where q = p and n = want] p(2) by simp
  have "\<not> conn_up ?g (conns p ?g ! j)" if "j < want" for j
    using that by (simp add: c conn_up_def fresh_conn_def) (simp add: grow_def)
  then have fresh: "\<forall>j \<in> set [0..<length (conns p ?g)]. j < length (conns p ?g) \<and> \<not> conn_up ?g (conns p ?g ! j)
      \<and> \<not> hc_inUse (conns p ?g ! j) \<and> hc_stream (conns p ?g ! j) = None"
    by (simp add: c fresh_conn_def)
  have "p < length (pools ?g)" using p(1) by simp
  note a = async_fresh [OF this distinct_upt fresh, folded o]
  have i: "ids s' = ids ?g" using a by (simp add: s')
  show "length (pools s') = length (pools s)" using lens_length [OF ids_lens [OF i]] by simp
  have "map hc_id (conns p s') = map hc_id (conns p ?g)"
    using arg_cong [OF i, of "\<lambda>l. l ! p"] p(1) \<open>length (pools s') = length (pools s)\<close> by (simp add: ids_def)
  also have "\<dots> = [next_id s..<next_id s + want]" by (simp add: c fresh_conn_def o_def)
  finally show "map hc_id (conns p s') = [next_id s..<next_id s + want]" .
  have "map (\<lambda>j. (p, hc_id (conns p ?g ! j))) [0..<length (conns p ?g)] = map (Pair p) [next_id s..<next_id s + want]"
    by (rule nth_equalityI) (simp_all add: c fresh_conn_def)
  then show "async_opens s' = async_opens s @ map (Pair p) [next_id s..<next_id s + want]"
    using a by (simp add: s')
  show "managed (cc s') = managed (cc s)" using a by (simp add: s')
  show "conns q s' = conns q s" if "q \<noteq> p" for q
    using a that grown_conns [OF p(1), where q = q and n = want] by (simp add: s')
qed

lemma repopulate_state:
  assumes "http_ok s" "\<forall>p \<in> set ps. p < length (pools s) \<and> conns p s = []" "distinct ps" "0 < want"
  defines "s' \<equiv> foldl (\<lambda>s p. openPoolAsync p (grow_all want [p] s)) s ps"
  shows "http_ok s' \<and> length (pools s') = length (pools s) \<and> managed (cc s') = managed (cc s)
    \<and> (\<forall>p. p \<notin> set ps \<longrightarrow> conns p s' = conns p s) \<and> (\<forall>p \<in> set ps. length (conns p s') = want)
    \<and> async_opens s' = async_opens s @ concat (map (\<lambda>p. map (Pair p) (map hc_id (conns p s'))) ps)"
  unfolding s'_def using assms(1-3)
proof (induction ps arbitrary: s)
  case (Cons p ps)
  let ?s = "openPoolAsync p (grow_all want [p] s)" and ?f = "\<lambda>s p. openPoolAsync p (grow_all want [p] s)"
  have p: "p < length (pools s)" "conns p s = []" using Cons.prems(2) by auto
  note f = pool_fresh [OF p assms(4)]
  have ok: "http_ok (grow_all want [p] s)" "length (pools (grow_all want [p] s)) = length (pools s)"
    using grow_all_ok [OF Cons.prems(1), of "[p]" want] p(1) by auto
  have "evolves (grow_all want [p] s) ?s"
    by (rule then_pool_async) (use ok p(1) in \<open>auto simp: http_ok_def evolves_refl\<close>)
  with ok(1) have "http_ok ?s" by (rule evolves_ok)
  moreover have pre: "\<forall>q \<in> set ps. q < length (pools ?s) \<and> conns q ?s = []" "distinct ps"
  proof -
    have "conns q ?s = conns q s" if "q \<in> set ps" for q by (rule f(5)) (use that Cons.prems(3) in auto)
    with Cons.prems(2) f(2) show "\<forall>q \<in> set ps. q < length (pools ?s) \<and> conns q ?s = []" by simp
    show "distinct ps" using Cons.prems(3) by simp
  qed
  ultimately have IH: "http_ok (foldl ?f ?s ps) \<and> length (pools (foldl ?f ?s ps)) = length (pools ?s)
    \<and> managed (cc (foldl ?f ?s ps)) = managed (cc ?s) \<and> (\<forall>q. q \<notin> set ps \<longrightarrow> conns q (foldl ?f ?s ps) = conns q ?s)
    \<and> (\<forall>q \<in> set ps. length (conns q (foldl ?f ?s ps)) = want)
    \<and> async_opens (foldl ?f ?s ps) = async_opens ?s @ concat (map (\<lambda>q. map (Pair q) (map hc_id (conns q (foldl ?f ?s ps)))) ps)"
    by (rule Cons.IH)
  have "p \<notin> set ps" using Cons.prems(3) by simp
  with IH have c: "conns p (foldl ?f ?s ps) = conns p ?s" by blast
  have "length (conns p ?s) = want" using arg_cong [OF f(1), of length] by simp
  moreover have "conns q (foldl ?f ?s ps) = conns q s" if "q \<notin> set (p # ps)" for q using that IH f(5) [of q] by simp
  ultimately show ?case using IH c f(1-4) by (simp del: grow_all.simps map_map)
qed simp

lemma reload_switches:
  assumes ok: "http_ok (hr_pools r)" "async_opens (hr_pools r) = []"
    and switch: "pc_use (hr_config (reload env n r)) \<noteq> pc_use (hr_config r)"
  defines "s' \<equiv> hr_pools (reload env n r)"
  shows "http_ok s'" "managed (cc s') = []" "\<forall>p < length (pools s'). length (conns p s') = per_pool n (hr_pools r)"
    "async_opens s' = concat (map (\<lambda>p. map (Pair p) (map hc_id (conns p s'))) [0..<length (pools s')])"
    "length (pools s') = length (pools (hr_pools r))"
proof -
  let ?s = "hr_pools r" and ?d = "drain (hr_pools r)"
  have inv: "http_inv ?s" using ok(1) by (simp add: http_ok_def)
  note d = drain_state [OF inv]
  have s': "s' = repopulate n ?d" using switch by (auto simp: s'_def reload_def Let_def split: if_splits)
  have per: "per_pool n ?d = per_pool n ?s" using d(3) by (simp add: per_pool_def)
  have "http_ok ?d" using d(2) d(4) [OF ok(2)] by (simp add: http_ok_def pending_ok_def)
  moreover have "\<forall>p \<in> set [0..<length (pools ?d)]. p < length (pools ?d) \<and> conns p ?d = []" using d(5) by simp
  moreover have "0 < per_pool n ?d" by (simp add: per_pool_def)
  ultimately have "http_ok s' \<and> length (pools s') = length (pools ?d) \<and> managed (cc s') = managed (cc ?d)
    \<and> (\<forall>p \<in> set [0..<length (pools ?d)]. length (conns p s') = per_pool n ?d)
    \<and> async_opens s' = async_opens ?d @ concat (map (\<lambda>p. map (Pair p) (map hc_id (conns p s'))) [0..<length (pools ?d)])"
    unfolding s' repopulate_def using repopulate_state [of ?d "[0..<length (pools ?d)]" "per_pool n ?d"] by simp
  with d(1) d(4) [OF ok(2)] per show "http_ok s'" "managed (cc s') = []"
    "\<forall>p < length (pools s'). length (conns p s') = per_pool n ?s"
    "async_opens s' = concat (map (\<lambda>p. map (Pair p) (map hc_id (conns p s'))) [0..<length (pools s')])"
    "length (pools s') = length (pools ?s)" by (simp_all add: d(3))
qed

lemma reload_keeps: "pc_use (hr_config (reload env n r)) = pc_use (hr_config r) \<Longrightarrow> hr_pools (reload env n r) = hr_pools r"
  by (auto simp: reload_def Let_def)

section \<open>Runs\<close>

text \<open>A reload that switches between the proxy and direct connections drops the connections of the
  pools. It keeps the joint invariant while no background opening is pending: the end of a pending
  one would register a connection that is in no pool any more.\<close>

definition may_reload :: "http_resolver \<Rightarrow> http_resolver \<Rightarrow> bool" where
  "may_reload r r' \<longleftrightarrow> async_opens (hr_pools r) = [] \<or> pc_use (hr_config r') = pc_use (hr_config r)"

lemma reload_ok:
  assumes "resolver_ok r" "may_reload r (reload env n r)"
  shows "resolver_ok (reload env n r)"
proof (cases "pc_use (hr_config (reload env n r)) = pc_use (hr_config r)")
  case True
  with assms(1) reload_keeps [OF True] show ?thesis by (simp add: resolver_ok_def)
next
  case False
  with assms reload_switches(1,5) [OF _ _ False] show ?thesis by (simp add: resolver_ok_def may_reload_def)
qed

lemma check_proxy_file_ok:
  assumes "resolver_ok r" "check_proxy_file env (th, r) = (th', r')" "may_reload r r'"
  shows "resolver_ok r'"
proof -
  have "resolver_ok (r\<lparr>hr_mtime := t\<rparr>)" for t using assms(1) by (simp add: resolver_ok_def)
  moreover have "may_reload (r\<lparr>hr_mtime := t\<rparr>) r'' = may_reload r r''" for t r'' by (simp add: may_reload_def)
  ultimately show ?thesis
    using assms reload_ok by (auto simp: check_proxy_file_def split: if_splits option.splits)
qed

lemma http_query_ok:
  assumes "resolver_ok (snd w)" "may_reload (snd w) (snd (check_proxy_file env w))"
  shows "resolver_ok (snd (fst (http_query env req w)))"
proof -
  obtain th r where c: "check_proxy_file env w = (th, r)" by fastforce
  have r: "resolver_ok r" using assms c check_proxy_file_ok [of "snd w" env "fst w" th r] by simp
  then have m: "http_maintain (hr_pools r) = Inr (hr_pools r)" by (simp add: http_maintain_def resolver_ok_def)
  define r1 where "r1 = r\<lparr>hr_perf := recordConnUse (connectedCount (cc (hr_pools r)))
    (int (sum_list (map (\<lambda>q. length (hp_conns q)) (pools (hr_pools r))))) (hr_perf r)\<rparr>"
  have "resolver_ok r1" using r by (simp add: r1_def resolver_ok_def)
  obtain r2 res where a: "http_answer env req r1 = (r2, res)" by fastforce
  have "resolver_ok r2" using http_answer_ok [OF \<open>resolver_ok r1\<close>, of env req] a by simp
  with c m a show ?thesis
    by (auto simp: http_query_def Let_def r1_def record_outcome_def resolver_ok_def split: sum.split)
qed

text \<open>The sections of the controller's own threads: a failed health check, the two sections of a
  maintenance round, and the sections of a reconnect worker that change the controller.\<close>

datatype ctl_section = Check_Failed nat nat | Scan_Down | Enqueue_Down nat | Take_Work | Reconnect_Over bool int reconnect_work

fun ctl_run :: "controller \<Rightarrow> ctl_section \<Rightarrow> controller" where
  "ctl_run c (Check_Failed i st) = check_failed i st c"
| "ctl_run c Scan_Down = fst (scan c)"
| "ctl_run c (Enqueue_Down i) = enqueue_index i c"
| "ctl_run c Take_Work = c\<lparr>reconnectQueue := tl (reconnectQueue c)\<rparr>"
| "ctl_run c (Reconnect_Over ok now w) = reconnect_done ok now w c"

text \<open>A worker opens only what is down, and it is still down when it has: the controller's own
  invariant gives this, with its condition on removals.\<close>

fun ctl_calm :: "controller \<Rightarrow> ctl_section \<Rightarrow> bool" where
  "ctl_calm c (Reconnect_Over ok now w) \<longleftrightarrow> index_of (rw_stream w) (managed c) = None \<or> reconnect_lookup w c"
| "ctl_calm c _ \<longleftrightarrow> True"

abbreviation stream_and_flag :: "managed_conn \<Rightarrow> nat \<times> nat option" where
  "stream_and_flag m \<equiv> (mc_stream m, mc_flag m)"

lemma fail_at_ok:
  assumes "ctl_ok c" "i < length (managed c)"
  shows "ctl_ok (request_reconnect i (drop_conn i c))
    \<and> map stream_and_flag (managed (request_reconnect i (drop_conn i c))) = map stream_and_flag (managed c)"
  using ctl_ok_drop [OF assms] assms(2) by (simp add: request_reconnect_def ctl_ok_update map_update_same)

lemma reconnect_done_ok:
  assumes "ctl_ok c" "ctl_calm c (Reconnect_Over ok now w)"
  shows "ctl_ok (reconnect_done ok now w c)
    \<and> map stream_and_flag (managed (reconnect_done ok now w c)) = map stream_and_flag (managed c)"
proof (cases "index_of (rw_stream w) (managed c)")
  case (Some i)
  have i: "i < length (managed c)" using index_of_Some [OF Some] by simp
  obtain a where a: "mc_flag (managed c ! i) = Some a" using flag_at [OF assms(1) i] by blast
  have "\<not> conn_flags c a" using assms(2) Some a by (simp add: reconnect_lookup_def up_def)
  let ?f = "\<lambda>m. m\<lparr>mc_reconnectPending := False, mc_lastUse := now, mc_lastCheck := now, mc_failures := 0\<rparr>"
  have "ctl_ok (mark_up a (update_at i ?f c))"
    by (rule ctl_ok_mark_up [where i = i]) (use assms(1) i a \<open>\<not> conn_flags c a\<close> in \<open>simp_all add: ctl_ok_update\<close>)
  with Some i a assms(1) show ?thesis
    by (cases ok) (simp_all add: reconnect_done_def ctl_ok_update map_update_same)
qed (use assms(1) in \<open>simp add: reconnect_done_def\<close>)

lemma ctl_run_ok:
  assumes "ctl_ok c" "ctl_calm c e"
  shows "ctl_ok (ctl_run c e) \<and> map stream_and_flag (managed (ctl_run c e)) = map stream_and_flag (managed c)"
proof (cases e)
  case (Check_Failed i st)
  with assms(1) fail_at_ok [of c i] show ?thesis by (simp add: check_failed_def)
next
  case Scan_Down
  have "map stream_and_flag (managed (fst (scan c))) = map stream_and_flag (managed c)" by (simp add: scan_def)
  with assms(1) Scan_Down show ?thesis by simp
next
  case (Enqueue_Down i)
  with assms(1) show ?thesis by (simp add: enqueue_index_def)
next
  case (Reconnect_Over ok now w)
  with assms reconnect_done_ok show ?thesis by simp
qed (use assms(1) in simp)

text \<open>A run of a resolver: queries, with their look at the proxy file, ends of background openings,
  warm-ups (\<open>order\<close> is the order in which the opening tasks run; an exception of a health check would
  leave the warm-up thread and end the program), reloads, and between them the controller's threads.\<close>

datatype http_event =
    Query http_env dns_message
  | Opened http_net int nat
  | Warm_Up http_net int int "(nat \<times> nat) list"
  | Reload proxy_env int
  | Section ctl_section

definition with_pools :: "http_thread \<times> http_resolver \<Rightarrow> (http \<Rightarrow> http) \<Rightarrow> http_thread \<times> http_resolver" where
  "with_pools w f = (fst w, (snd w)\<lparr>hr_pools := f (hr_pools (snd w))\<rparr>)"

fun http_step :: "http_thread \<times> http_resolver \<Rightarrow> http_event \<Rightarrow> http_thread \<times> http_resolver" where
  "http_step w (Query env req) = fst (http_query env req w)"
| "http_step w (Opened net now k) =
     with_pools w (\<lambda>s. if k < length (async_opens s) then (case async_opens s ! k of (p, a) \<Rightarrow> async_done net now p a s) else s)"
| "http_step w (Warm_Up net now n order) =
     with_pools w (\<lambda>s. case warmUp net now n order s of Inl e \<Rightarrow> s | Inr s' \<Rightarrow> s')"
| "http_step w (Reload penv n) = (fst w, reload penv n (snd w))"
| "http_step w (Section e) = with_pools w (\<lambda>s. s\<lparr>cc := ctl_run (cc s) e\<rparr>)"

text \<open>The conditions under which the invariant is kept.\<close>

fun http_calm :: "http_thread \<times> http_resolver \<Rightarrow> http_event \<Rightarrow> bool" where
  "http_calm w (Query env req) \<longleftrightarrow> may_reload (snd w) (snd (check_proxy_file env w))"
| "http_calm w (Opened net now k) \<longleftrightarrow> True"
| "http_calm w (Warm_Up net now n order) \<longleftrightarrow> (let s = hr_pools (snd w) in
     \<not> isl (warmUp net now n order s) \<and> set order \<subseteq> positions (grow_all (per_pool n s) [0..<length (pools s)] s))"
| "http_calm w (Reload penv n) \<longleftrightarrow> may_reload (snd w) (reload penv n (snd w))"
| "http_calm w (Section e) \<longleftrightarrow> ctl_calm (cc (hr_pools (snd w))) e"

lemma resolver_ok_with:
  assumes "resolver_ok (snd w)" "\<And>s. http_ok s \<Longrightarrow> s = hr_pools (snd w) \<Longrightarrow> http_ok (f s) \<and> length (pools (f s)) = length (pools s)"
  shows "resolver_ok (snd (with_pools w f))"
  using assms by (simp add: resolver_ok_def with_pools_def)

lemma ctl_section_ok:
  assumes "http_ok s" "ctl_calm (cc s) e"
  shows "http_ok (s\<lparr>cc := ctl_run (cc s) e\<rparr>)"
proof -
  have inv: "http_inv s" using assms(1) by (simp add: http_ok_def)
  note c = ctl_run_ok [OF http_invD(1) [OF inv] assms(2)]
  have "evolves s (s\<lparr>cc := ctl_run (cc s) e\<rparr>)"
    by (rule evolvesI) (use http_inv_cc [OF inv] c in \<open>simp_all add: ids_def\<close>)
  with assms(1) show ?thesis by (rule evolves_ok)
qed

lemma http_step_ok:
  assumes "resolver_ok (snd w)" "http_calm w e"
  shows "resolver_ok (snd (http_step w e))"
proof (cases e)
  case (Query env req)
  with assms http_query_ok show ?thesis by simp
next
  case (Opened net now k)
  have "resolver_ok (snd (with_pools w (\<lambda>s. if k < length (async_opens s)
      then (case async_opens s ! k of (p, a) \<Rightarrow> async_done net now p a s) else s)))"
    by (rule resolver_ok_with [OF assms(1)]) (use async_done_ok nth_mem in \<open>fastforce split: prod.split\<close>)
  with Opened show ?thesis by simp
next
  case (Warm_Up net now n order)
  let ?s = "hr_pools (snd w)"
  obtain s' where s': "warmUp net now n order ?s = Inr s'" using assms(2) Warm_Up
    by (cases "warmUp net now n order ?s") (simp_all add: Let_def)
  have o: "set order \<subseteq> positions (grow_all (per_pool n ?s) [0..<length (pools ?s)] ?s)" using assms(2) Warm_Up by (simp add: Let_def)
  have ok: "http_ok ?s" using assms(1) by (simp add: resolver_ok_def)
  from Warm_Up s' assms(1) warmUp_ok [OF ok s' o] show ?thesis
    by (simp add: with_pools_def resolver_ok_def)
next
  case (Reload penv n)
  with assms reload_ok show ?thesis by simp
next
  case (Section x)
  have "resolver_ok (snd (with_pools w (\<lambda>s. s\<lparr>cc := ctl_run (cc s) x\<rparr>)))"
    by (rule resolver_ok_with [OF assms(1)]) (use ctl_section_ok assms(2) Section in simp)
  with Section show ?thesis by simp
qed

interpretation http_runs: guarded_invariant http_step http_calm "\<lambda>w. resolver_ok (snd w)"
  by unfold_locales (rule http_step_ok)

section \<open>Statistics\<close>

lemma pool_stats_bounds:
  assumes "0 \<le> hp_errors q" "0 \<le> hp_successes q"
  shows "ps_connected (pool_stats_of s q) \<le> ps_total (pool_stats_of s q)"
    "0 \<le> ps_errorRatio (pool_stats_of s q) \<and> ps_errorRatio (pool_stats_of s q) \<le> 100"
proof -
  show "ps_connected (pool_stats_of s q) \<le> ps_total (pool_stats_of s q)" by (simp add: pool_stats_of_def Let_def)
  have "hp_errors q * 100 div (hp_errors q + hp_successes q) \<le> 100" if "0 < hp_errors q + hp_successes q"
  proof -
    have "hp_errors q * 100 \<le> (hp_errors q + hp_successes q) * 100" using assms by simp
    then show ?thesis using that by (metis div_le_mono nonzero_mult_div_cancel_left pos_imp_zdiv_nonneg_iff zdiv_mono1 less_irrefl)
  qed
  then show "0 \<le> ps_errorRatio (pool_stats_of s q) \<and> ps_errorRatio (pool_stats_of s q) \<le> 100"
    using assms by (simp add: pool_stats_of_def Let_def pos_imp_zdiv_nonneg_iff)
qed

end
