(* ===== verification/Http_Threads.thy ===== *)
theory Http_Threads
  imports Conn_Controller
begin

text \<open>
  The threads of \<open>src/http_resolver.cpp\<close> on one pool, interleaved with those of the connection
  controller. \<open>Http_Pool\<close> takes one query at a time; here every access to a shared flag is a step of
  its own: the test of \<open>connected\<close> and the \<open>exchange(true)\<close> of \<open>inUse\<close> in \<open>getNextConnection\<close>, the
  start and the end of an exchange, the report of its outcome to the controller, the background
  openings, the loop of \<open>doPost\<close> that reopens a connection, the health checks of \<open>warmUp\<close>, and what
  others do to the pool meanwhile: \<open>ensurePoolSize\<close>, \<open>maintain\<close> and \<open>reload\<close>.

  The controller is that of \<open>Conn_Controller\<close>, with what its maintenance thread and its reconnect
  workers hold: it keeps the flags \<open>connected\<close>, and a worker that opens a stream uses it as an
  exchange does. Connections live at addresses, which are also the addresses of their flags (a
  \<open>shared_ptr\<close> keeps them); the pool's vector is a list of addresses.
\<close>

section \<open>State\<close>

record shared_conn =
  sc_taken :: bool
  sc_stream :: "nat option"

text \<open>Where a thread is. An opening has closed its connection's old stream or not yet (the flag);
  a loop over the vector knows its position and the end it computed when it began.\<close>

datatype job =
    Free
  | Seen nat
  | Held nat
  | Exchanging nat nat
  | Giving_Up nat
  | Late nat bool
  | Opening nat bool
  | Walking nat nat bool
  | Reopening nat nat nat bool
  | Checking nat nat
  | Probing nat nat
  | Undefined

record threads =
  ts_sys :: system
  ts_heap :: "nat \<Rightarrow> shared_conn"
  ts_next :: nat
  ts_vector :: "nat list"
  ts_streams :: nat
  ts_addr :: address
  ts_jobs :: "job list"

definition threads_init :: "address \<Rightarrow> nat \<Rightarrow> threads" where
  "threads_init addr n = \<lparr>ts_sys = system_init (\<lambda>_. False), ts_heap = (\<lambda>_. \<lparr>sc_taken = False, sc_stream = None\<rparr>),
     ts_next = 0, ts_vector = [], ts_streams = 0, ts_addr = addr, ts_jobs = replicate n Free\<rparr>"

definition to_job :: "nat \<Rightarrow> job \<Rightarrow> threads \<Rightarrow> threads" where
  "to_job t j s = s\<lparr>ts_jobs := (ts_jobs s)[t := j]\<rparr>"

definition on_conn :: "nat \<Rightarrow> (shared_conn \<Rightarrow> shared_conn) \<Rightarrow> threads \<Rightarrow> threads" where
  "on_conn a f s = s\<lparr>ts_heap := (ts_heap s)(a := f (ts_heap s a))\<rparr>"

definition take_conn :: "nat \<Rightarrow> threads \<Rightarrow> threads" where
  "take_conn a = on_conn a (\<lambda>c. c\<lparr>sc_taken := True\<rparr>)"

definition let_go :: "nat \<Rightarrow> threads \<Rightarrow> threads" where
  "let_go a = on_conn a (\<lambda>c. c\<lparr>sc_taken := False\<rparr>)"

definition stream_of :: "nat \<Rightarrow> threads \<Rightarrow> nat option" where
  "stream_of a s = sc_stream (ts_heap s a)"

definition is_taken :: "nat \<Rightarrow> threads \<Rightarrow> bool" where
  "is_taken a s = sc_taken (ts_heap s a)"

text \<open>The flag \<open>connected\<close> of a connection, and calls of the controller, also with the stream that a
  connection has at the moment.\<close>

definition is_connected :: "nat \<Rightarrow> threads \<Rightarrow> bool" where
  "is_connected a s = conn_flags (ctl (ts_sys s)) a"

definition on_ctl :: "(controller \<Rightarrow> controller) \<Rightarrow> threads \<Rightarrow> threads" where
  "on_ctl f s = s\<lparr>ts_sys := (ts_sys s)\<lparr>ctl := f (ctl (ts_sys s))\<rparr>\<rparr>"

definition on_own :: "(nat \<Rightarrow> controller \<Rightarrow> controller) \<Rightarrow> nat \<Rightarrow> threads \<Rightarrow> threads" where
  "on_own f a s = (case stream_of a s of None \<Rightarrow> s | Some st \<Rightarrow> on_ctl (f st) s)"

definition set_flag :: "nat \<Rightarrow> bool \<Rightarrow> threads \<Rightarrow> threads" where
  "set_flag a b = on_ctl (\<lambda>c. c\<lparr>conn_flags := (conn_flags c)(a := b)\<rparr>)"

definition report :: "bool \<Rightarrow> int \<Rightarrow> nat \<Rightarrow> threads \<Rightarrow> threads" where
  "report ok now = on_own (if ok then (\<lambda>st. notifyUsed st now) else notifyFailure)"

section \<open>A query\<close>

text \<open>\<open>getNextConnection\<close> in two steps, then \<open>exchange\<close>: nothing when the connection is down or has
  no stream, otherwise the thread writes and reads the stream until the reply is there. \<open>doPost\<close> lets
  the connection go and then reports a success; a failure it reports first. \<open>raceUpstreams\<close> lets
  the connections go and then reports the outcome of the race, whatever it was; its exchanges run on
  threads of their own, so a connection of a race is a job here.\<close>

definition look :: "nat \<Rightarrow> nat \<Rightarrow> threads \<Rightarrow> threads" where
  "look t a s = (if ts_jobs s ! t = Free \<and> a \<in> set (ts_vector s) \<and> is_connected a s then to_job t (Seen a) s else s)"

definition claim_conn :: "nat \<Rightarrow> threads \<Rightarrow> threads" where
  "claim_conn t s = (case ts_jobs s ! t of
     Seen a \<Rightarrow> if is_taken a s then to_job t Free s else to_job t (Held a) (take_conn a s)
   | _ \<Rightarrow> s)"

definition begin_exchange :: "nat \<Rightarrow> threads \<Rightarrow> threads" where
  "begin_exchange t s = (case ts_jobs s ! t of
     Held a \<Rightarrow> (case stream_of a s of
         Some st \<Rightarrow> if is_connected a s then to_job t (Exchanging a st) s else to_job t (Giving_Up a) (report False 0 a s)
       | None \<Rightarrow> to_job t (Giving_Up a) s)
   | _ \<Rightarrow> s)"

definition end_exchange :: "nat \<Rightarrow> bool \<Rightarrow> int \<Rightarrow> threads \<Rightarrow> threads" where
  "end_exchange t ok now s = (case ts_jobs s ! t of
     Exchanging a st \<Rightarrow>
       if ok then to_job t (Late a True) (let_go a s) else to_job t (Giving_Up a) (report False now a s)
   | _ \<Rightarrow> s)"

definition give_up :: "nat \<Rightarrow> threads \<Rightarrow> threads" where
  "give_up t s = (case ts_jobs s ! t of Giving_Up a \<Rightarrow> to_job t Free (let_go a s) | _ \<Rightarrow> s)"

definition race_end :: "nat \<Rightarrow> bool \<Rightarrow> threads \<Rightarrow> threads" where
  "race_end t ok s = (case ts_jobs s ! t of
     Exchanging a st \<Rightarrow> to_job t (Late a ok) (let_go a s)
   | Held a \<Rightarrow> to_job t (Late a ok) (let_go a s)
   | _ \<Rightarrow> s)"

definition late_report :: "nat \<Rightarrow> int \<Rightarrow> threads \<Rightarrow> threads" where
  "late_report t now s = (case ts_jobs s ! t of Late a ok \<Rightarrow> to_job t Free (report ok now a s) | _ \<Rightarrow> s)"

section \<open>Openings\<close>

text \<open>\<open>openConnectionAsync\<close> and the opening tasks of \<open>warmUp\<close>: a new thread that holds the
  connection, takes it from the controller and closes it, opens a new stream, registers it if that
  succeeded, and lets the connection go. Taking the old stream from the controller, closing and
  dropping it are one step, setting the flag and registering the new one another: the stream
  belongs to the connection that the thread holds all the while.\<close>

definition close_own :: "nat \<Rightarrow> threads \<Rightarrow> threads" where
  "close_own a s = set_flag a False (on_conn a (\<lambda>c. c\<lparr>sc_stream := None\<rparr>) (on_own unmanage a s))"

definition fresh_stream :: "nat \<Rightarrow> bool \<Rightarrow> int \<Rightarrow> threads \<Rightarrow> threads" where
  "fresh_stream a ok now s =
     (let st = ts_streams s;
          s = set_flag a ok ((on_conn a (\<lambda>c. c\<lparr>sc_stream := Some st\<rparr>) s)\<lparr>ts_streams := st + 1\<rparr>)
      in if ok then on_ctl (manage (ts_addr s) st (Some a) now) s else s)"

definition spawn_open :: "nat \<Rightarrow> threads \<Rightarrow> threads" where
  "spawn_open a s =
     (if a \<notin> set (ts_vector s) \<or> is_taken a s then s
      else (take_conn a s)\<lparr>ts_jobs := ts_jobs s @ [Opening a False]\<rparr>)"

definition close_old :: "nat \<Rightarrow> threads \<Rightarrow> threads" where
  "close_old t s = (case ts_jobs s ! t of
     Opening a False \<Rightarrow> to_job t (Opening a True) (close_own a s)
   | Reopening i e a False \<Rightarrow> to_job t (Reopening i e a True) (close_own a s)
   | _ \<Rightarrow> s)"

definition opened :: "nat \<Rightarrow> bool \<Rightarrow> int \<Rightarrow> threads \<Rightarrow> threads" where
  "opened t ok now s = (case ts_jobs s ! t of
     Opening a True \<Rightarrow> to_job t Free (let_go a (fresh_stream a ok now s))
   | _ \<Rightarrow> s)"

text \<open>The last part of \<open>doPost\<close>: a loop over the vector, without a lock. \<open>init\<close> has reserved room for
  every connection a pool can get, so the vector does not move when it grows; but \<open>maintain\<close> and
  \<open>reload\<close> can make it shorter than the end the loop computed, and an access behind the vector's end
  is undefined. When one opening has failed, the next connection that is down and free is taken and
  the loop left.\<close>

definition walk_start :: "nat \<Rightarrow> threads \<Rightarrow> threads" where
  "walk_start t s = (if ts_jobs s ! t = Free then to_job t (Walking 0 (length (ts_vector s)) False) s else s)"

definition walk_on :: "nat \<Rightarrow> threads \<Rightarrow> threads" where
  "walk_on t s = (case ts_jobs s ! t of
     Walking i e tried \<Rightarrow>
       if i = e then to_job t Free s
       else if length (ts_vector s) \<le> i then to_job t Undefined s
       else let a = ts_vector s ! i in
         if is_connected a s \<or> is_taken a s then to_job t (Walking (i + 1) e tried) s
         else if tried then to_job t Free (take_conn a s)
         else to_job t (Reopening i e a False) (take_conn a s)
   | _ \<Rightarrow> s)"

definition reopened :: "nat \<Rightarrow> bool \<Rightarrow> int \<Rightarrow> threads \<Rightarrow> threads" where
  "reopened t ok now s = (case ts_jobs s ! t of
     Reopening i e a True \<Rightarrow>
       if ok then to_job t (Held a) (fresh_stream a ok now s)
       else to_job t (Walking (i + 1) e True) (let_go a (fresh_stream a ok now s))
   | _ \<Rightarrow> s)"

section \<open>What others do to the pool\<close>

text \<open>One connection of \<open>ensurePoolSize\<close>; one removed by \<open>maintain\<close> from a pool of more than two
  (whether the error ratio asks for it is left open); all closed and dropped by \<open>reload\<close>.\<close>

definition add_conn :: "threads \<Rightarrow> threads" where
  "add_conn s =
     (let a = ts_next s
      in set_flag a False (s\<lparr>ts_heap := (ts_heap s)(a := \<lparr>sc_taken = False, sc_stream = None\<rparr>),
           ts_next := a + 1, ts_vector := ts_vector s @ [a]\<rparr>))"

definition drop_last :: "threads \<Rightarrow> threads" where
  "drop_last s = (if 2 < length (ts_vector s) then s\<lparr>ts_vector := butlast (ts_vector s)\<rparr> else s)"

definition drain_conns :: "threads \<Rightarrow> threads" where
  "drain_conns s = (foldl (\<lambda>s a. close_own a s) s (ts_vector s))\<lparr>ts_vector := []\<rparr>"

text \<open>The health checks of \<open>warmUp\<close> store \<open>true\<close> into \<open>inUse\<close> without looking; those of the
  connection controller, of connections that have been idle, do not know the flag.\<close>

definition check_conn :: "nat \<Rightarrow> nat \<Rightarrow> threads \<Rightarrow> threads" where
  "check_conn t a s =
     (if ts_jobs s ! t = Free \<and> a \<in> set (ts_vector s) \<and> is_connected a s
      then (case stream_of a s of Some st \<Rightarrow> to_job t (Checking a st) (take_conn a s) | None \<Rightarrow> let_go a s)
      else s)"

definition check_end :: "nat \<Rightarrow> bool \<Rightarrow> int \<Rightarrow> threads \<Rightarrow> threads" where
  "check_end t ok now s = (case ts_jobs s ! t of
     Checking a st \<Rightarrow> to_job t Free (let_go a (report ok now a s))
   | _ \<Rightarrow> s)"

definition probe_conn :: "nat \<Rightarrow> nat \<Rightarrow> int \<Rightarrow> threads \<Rightarrow> threads" where
  "probe_conn t i now s = (let c = ctl (ts_sys s) in
     if ts_jobs s ! t = Free \<and> (i, mc_stream (managed c ! i)) \<in> set (idle_candidates now c)
     then to_job t (Probing i (mc_stream (managed c ! i))) s else s)"

definition probe_end :: "nat \<Rightarrow> bool \<Rightarrow> threads \<Rightarrow> threads" where
  "probe_end t ok s = (case ts_jobs s ! t of
     Probing i st \<Rightarrow> to_job t Free (if ok then s else on_ctl (check_failed i st) s)
   | _ \<Rightarrow> s)"

section \<open>The threads of the controller\<close>

text \<open>The steps of \<open>cc_step\<close> that the maintenance thread and the reconnect workers make, as functions;
  \<open>k\<close> picks the worker.\<close>

datatype ctl_move = Round_Scans | Round_Enqueues | Worker_Takes | Worker_Looks nat | Worker_Ends nat bool int

fun sys_move :: "ctl_move \<Rightarrow> system \<Rightarrow> system" where
  "sys_move Round_Scans s =
     (if to_enqueue s = [] then s\<lparr>ctl := fst (scan (ctl s)), to_enqueue := snd (scan (ctl s))\<rparr> else s)"
| "sys_move Round_Enqueues s =
     (case to_enqueue s of [] \<Rightarrow> s | i # is \<Rightarrow> s\<lparr>ctl := enqueue_index i (ctl s), to_enqueue := is\<rparr>)"
| "sys_move Worker_Takes s =
     (case reconnectQueue (ctl s) of [] \<Rightarrow> s
      | w # ws \<Rightarrow> s\<lparr>ctl := (ctl s)\<lparr>reconnectQueue := ws\<rparr>, in_delay := w # in_delay s\<rparr>)"
| "sys_move (Worker_Looks k) s =
     (if k < length (in_delay s)
      then let w = in_delay s ! k; s' = s\<lparr>in_delay := remove1 w (in_delay s)\<rparr>
        in if reconnect_lookup w (ctl s) then s'\<lparr>in_open := w # in_open s\<rparr> else s'
      else s)"
| "sys_move (Worker_Ends k ok now) s =
     (if k < length (in_open s)
      then let w = in_open s ! k in s\<lparr>ctl := reconnect_done ok now w (ctl s), in_open := remove1 w (in_open s)\<rparr>
      else s)"

definition control_move :: "ctl_move \<Rightarrow> threads \<Rightarrow> threads" where
  "control_move m s = s\<lparr>ts_sys := sys_move m (ts_sys s)\<rparr>"

section \<open>The interleavings\<close>

datatype turn =
    Look nat nat
  | Claim nat
  | Begin nat
  | Reply nat bool int
  | Give_Up nat
  | Race_End nat bool
  | Late_Report nat int
  | Spawn nat
  | Close_Old nat
  | Async_Opened nat bool int
  | Walk nat
  | Walk_On nat
  | Reopened nat bool int
  | Add
  | Drop_Last
  | Drain
  | Check nat nat
  | Check_End nat bool int
  | Probe nat nat int
  | Probe_End nat bool
  | Controls ctl_move

fun turn_step :: "threads \<Rightarrow> turn \<Rightarrow> threads" where
  "turn_step s (Look t a) = look t a s"
| "turn_step s (Claim t) = claim_conn t s"
| "turn_step s (Begin t) = begin_exchange t s"
| "turn_step s (Reply t ok now) = end_exchange t ok now s"
| "turn_step s (Give_Up t) = give_up t s"
| "turn_step s (Race_End t ok) = race_end t ok s"
| "turn_step s (Late_Report t now) = late_report t now s"
| "turn_step s (Spawn a) = spawn_open a s"
| "turn_step s (Close_Old t) = close_old t s"
| "turn_step s (Async_Opened t ok now) = opened t ok now s"
| "turn_step s (Walk t) = walk_start t s"
| "turn_step s (Walk_On t) = walk_on t s"
| "turn_step s (Reopened t ok now) = reopened t ok now s"
| "turn_step s Add = add_conn s"
| "turn_step s Drop_Last = drop_last s"
| "turn_step s Drain = drain_conns s"
| "turn_step s (Check t a) = check_conn t a s"
| "turn_step s (Check_End t ok now) = check_end t ok now s"
| "turn_step s (Probe t i now) = probe_conn t i now s"
| "turn_step s (Probe_End t ok) = probe_end t ok s"
| "turn_step s (Controls m) = control_move m s"

text \<open>A turn names a thread that exists; out of range it does nothing.\<close>

fun turn_thread :: "turn \<Rightarrow> nat option" where
  "turn_thread (Look t _) = Some t"
| "turn_thread (Claim t) = Some t"
| "turn_thread (Begin t) = Some t"
| "turn_thread (Reply t _ _) = Some t"
| "turn_thread (Give_Up t) = Some t"
| "turn_thread (Race_End t _) = Some t"
| "turn_thread (Late_Report t _) = Some t"
| "turn_thread (Close_Old t) = Some t"
| "turn_thread (Async_Opened t _ _) = Some t"
| "turn_thread (Walk t) = Some t"
| "turn_thread (Walk_On t) = Some t"
| "turn_thread (Reopened t _ _) = Some t"
| "turn_thread (Check t _) = Some t"
| "turn_thread (Check_End t _ _) = Some t"
| "turn_thread (Probe t _ _) = Some t"
| "turn_thread (Probe_End t _) = Some t"
| "turn_thread _ = None"

definition threads_step :: "threads \<Rightarrow> turn \<Rightarrow> threads" where
  "threads_step s e = (case turn_thread e of
     Some t \<Rightarrow> if t < length (ts_jobs s) then turn_step s e else s
   | None \<Rightarrow> turn_step s e)"

definition threads_run :: "threads \<Rightarrow> turn list \<Rightarrow> threads" where
  "threads_run = foldl threads_step"

end
