(* ===== verification/Http_Threads_Proofs.thy ===== *)
theory Http_Threads_Proofs
  imports Http_Threads Http_Runs Http_Pool_Proofs
begin

text \<open>
  What holds of every interleaving of \<open>Http_Threads\<close>: the flag \<open>inUse\<close> gives a connection to one
  thread at a time, and at most one thread, a query or a reconnect worker, uses a stream, as long as
  neither health checks nor \<open>reload\<close> nor a lost race take part; the runs that
  show what each of these can do; and that a query of \<open>Http_Pool\<close> is a run.
\<close>

section \<open>Holding a connection\<close>

text \<open>The jobs between an \<open>exchange(true)\<close> that found \<open>false\<close> (or the store of \<open>warmUp\<close>) and the
  store of \<open>false\<close>, and the jobs that read and write a stream.\<close>

fun holds :: "nat \<Rightarrow> job \<Rightarrow> bool" where
  "holds a (Held b) \<longleftrightarrow> b = a"
| "holds a (Exchanging b _) \<longleftrightarrow> b = a"
| "holds a (Giving_Up b) \<longleftrightarrow> b = a"
| "holds a (Opening b _) \<longleftrightarrow> b = a"
| "holds a (Reopening _ _ b _) \<longleftrightarrow> b = a"
| "holds a (Checking b _) \<longleftrightarrow> b = a"
| "holds a _ \<longleftrightarrow> False"

fun uses_stream :: "nat \<Rightarrow> job \<Rightarrow> bool" where
  "uses_stream st (Exchanging _ st') \<longleftrightarrow> st' = st"
| "uses_stream st (Checking _ st') \<longleftrightarrow> st' = st"
| "uses_stream st (Probing _ st') \<longleftrightarrow> st' = st"
| "uses_stream st _ \<longleftrightarrow> False"

definition holders :: "nat \<Rightarrow> threads \<Rightarrow> nat" where
  "holders a s = length (filter (holds a) (ts_jobs s))"

text \<open>The threads that use a stream: exchanges, health checks, and workers that open it.\<close>

definition reopeners :: "nat \<Rightarrow> threads \<Rightarrow> nat" where
  "reopeners st s = length (filter (\<lambda>w. rw_stream w = st) (in_open (ts_sys s)))"

definition users :: "nat \<Rightarrow> threads \<Rightarrow> nat" where
  "users st s = length (filter (uses_stream st) (ts_jobs s)) + reopeners st s"

fun flag_kept :: "turn \<Rightarrow> bool" where
  "flag_kept (Check _ _) \<longleftrightarrow> False"
| "flag_kept _ \<longleftrightarrow> True"

text \<open>The turns under which streams are not shared. The last condition is that of the controller's
  own invariant: no connection is taken from it between the two sections of a maintenance round.\<close>

fun cooperative :: "threads \<Rightarrow> turn \<Rightarrow> bool" where
  "cooperative s (Check _ _) \<longleftrightarrow> False"
| "cooperative s (Probe _ _ _) \<longleftrightarrow> False"
| "cooperative s Drain \<longleftrightarrow> False"
| "cooperative s (Race_End _ ok) \<longleftrightarrow> ok"
| "cooperative s (Close_Old _) \<longleftrightarrow> to_enqueue (ts_sys s) = []"
| "cooperative s _ \<longleftrightarrow> True"

text \<open>What the operations leave alone.\<close>

lemmas job_defs = take_conn_def let_go_def on_conn_def to_job_def is_taken_def stream_of_def

lemma job_frame [simp]:
  "ts_jobs (to_job t j s) = (ts_jobs s)[t := j]" "ts_sys (to_job t j s) = ts_sys s" "ts_next (to_job t j s) = ts_next s"
  "ts_vector (to_job t j s) = ts_vector s" "ts_streams (to_job t j s) = ts_streams s" "is_taken a (to_job t j s) = is_taken a s"
  "stream_of a (to_job t j s) = stream_of a s" "is_connected a (to_job t j s) = is_connected a s"
  by (simp_all add: job_defs is_connected_def)

lemma jobs_update [simp]:
  "is_taken a (s\<lparr>ts_jobs := js\<rparr>) = is_taken a s" "stream_of a (s\<lparr>ts_jobs := js\<rparr>) = stream_of a s"
  "is_connected a (s\<lparr>ts_jobs := js\<rparr>) = is_connected a s"
  by (simp_all add: is_taken_def stream_of_def is_connected_def)

lemma conn_frame [simp]:
  "ts_jobs (take_conn a s) = ts_jobs s" "ts_jobs (let_go a s) = ts_jobs s"
  "ts_sys (take_conn a s) = ts_sys s" "ts_sys (let_go a s) = ts_sys s"
  "ts_next (take_conn a s) = ts_next s" "ts_next (let_go a s) = ts_next s"
  "ts_vector (take_conn a s) = ts_vector s" "ts_vector (let_go a s) = ts_vector s"
  "ts_streams (take_conn a s) = ts_streams s" "ts_streams (let_go a s) = ts_streams s"
  "stream_of b (take_conn a s) = stream_of b s" "stream_of b (let_go a s) = stream_of b s"
  "is_taken b (take_conn a s) \<longleftrightarrow> b = a \<or> is_taken b s" "is_taken b (let_go a s) \<longleftrightarrow> b \<noteq> a \<and> is_taken b s"
  "is_connected b (take_conn a s) = is_connected b s" "is_connected b (let_go a s) = is_connected b s"
  by (simp_all add: job_defs is_connected_def)

lemma ctl_frame [simp]:
  "ts_jobs (on_ctl f s) = ts_jobs s" "ts_next (on_ctl f s) = ts_next s" "ts_vector (on_ctl f s) = ts_vector s"
  "ts_streams (on_ctl f s) = ts_streams s" "is_taken a (on_ctl f s) = is_taken a s" "stream_of a (on_ctl f s) = stream_of a s"
  "ts_sys (on_ctl f s) = (ts_sys s)\<lparr>ctl := f (ctl (ts_sys s))\<rparr>"
  by (simp_all add: on_ctl_def is_taken_def stream_of_def)

lemma own_frame [simp]:
  "ts_jobs (on_own f a s) = ts_jobs s" "ts_next (on_own f a s) = ts_next s" "ts_vector (on_own f a s) = ts_vector s"
  "ts_streams (on_own f a s) = ts_streams s" "is_taken b (on_own f a s) = is_taken b s" "stream_of b (on_own f a s) = stream_of b s"
  by (simp_all add: on_own_def split: option.split)

lemma report_frame [simp]:
  "ts_jobs (report ok now a s) = ts_jobs s" "ts_next (report ok now a s) = ts_next s" "ts_vector (report ok now a s) = ts_vector s"
  "ts_streams (report ok now a s) = ts_streams s" "is_taken b (report ok now a s) = is_taken b s" "stream_of b (report ok now a s) = stream_of b s"
  by (simp_all add: report_def)

lemma flag_frame [simp]:
  "ts_jobs (set_flag a b s) = ts_jobs s" "ts_next (set_flag a b s) = ts_next s" "ts_vector (set_flag a b s) = ts_vector s"
  "ts_streams (set_flag a b s) = ts_streams s" "is_taken c (set_flag a b s) = is_taken c s" "stream_of c (set_flag a b s) = stream_of c s"
  by (simp_all add: set_flag_def)

lemma close_frame [simp]:
  "ts_jobs (close_own a s) = ts_jobs s" "ts_next (close_own a s) = ts_next s" "ts_vector (close_own a s) = ts_vector s"
  "ts_streams (close_own a s) = ts_streams s" "is_taken b (close_own a s) = is_taken b s"
  "stream_of b (close_own a s) = (if b = a then None else stream_of b s)"
proof -
  have s: "sc_taken (ts_heap (on_own unmanage a s) c) = is_taken c s" "sc_stream (ts_heap (on_own unmanage a s) c) = stream_of c s" for c
    using own_frame(5,6) [of _ unmanage a s] by (simp_all add: is_taken_def stream_of_def)
  show "ts_jobs (close_own a s) = ts_jobs s" "ts_next (close_own a s) = ts_next s" "ts_vector (close_own a s) = ts_vector s"
    "ts_streams (close_own a s) = ts_streams s" "is_taken b (close_own a s) = is_taken b s"
    "stream_of b (close_own a s) = (if b = a then None else stream_of b s)"
    by (simp_all add: close_own_def set_flag_def) (simp_all add: on_conn_def is_taken_def stream_of_def s [unfolded is_taken_def stream_of_def])
qed

lemma fresh_frame [simp]:
  "ts_jobs (fresh_stream a ok now s) = ts_jobs s" "ts_next (fresh_stream a ok now s) = ts_next s"
  "ts_vector (fresh_stream a ok now s) = ts_vector s" "ts_streams (fresh_stream a ok now s) = ts_streams s + 1"
  "is_taken b (fresh_stream a ok now s) = is_taken b s"
  "stream_of b (fresh_stream a ok now s) = (if b = a then Some (ts_streams s) else stream_of b s)"
  by (simp_all add: fresh_stream_def Let_def) (simp_all add: set_flag_def on_conn_def is_taken_def stream_of_def on_ctl_def)

definition held_inv :: "threads \<Rightarrow> bool" where
  "held_inv s \<longleftrightarrow> (\<forall>a \<in> set (ts_vector s). a < ts_next s) \<and> (\<forall>a. Seen a \<in> set (ts_jobs s) \<longrightarrow> a < ts_next s)
     \<and> (\<forall>a. is_taken a s \<longrightarrow> a < ts_next s) \<and> (\<forall>a. holders a s \<le> of_bool (is_taken a s))"

lemma filter_update:
  "t < length js \<Longrightarrow> length (filter P (js[t := j])) + of_bool (P (js ! t)) = length (filter P js) + of_bool (P j)"
  by (subst (3) id_take_nth_drop [of t js]) (auto simp: upd_conv_take_nth_drop)

lemma held_move:
  assumes inv: "held_inv s" and t: "t < length (ts_jobs s)" and jobs: "ts_jobs s' = (ts_jobs s)[t := j]"
    and same: "ts_next s' = ts_next s" "set (ts_vector s') \<subseteq> set (ts_vector s)"
    and seen: "\<And>b. j = Seen b \<Longrightarrow> b < ts_next s" and known: "\<And>b. is_taken b s' \<Longrightarrow> is_taken b s \<or> b < ts_next s"
    and take: "\<And>b. holds b j \<Longrightarrow> is_taken b s' \<and> (holds b (ts_jobs s ! t) \<or> \<not> is_taken b s)"
    and keep: "\<And>b. \<not> holds b j \<Longrightarrow> is_taken b s \<Longrightarrow> is_taken b s' \<or> holds b (ts_jobs s ! t)"
  shows "held_inv s'"
proof -
  have "holders b s' \<le> of_bool (is_taken b s')" for b
  proof -
    have "holders b s' + of_bool (holds b (ts_jobs s ! t)) = holders b s + of_bool (holds b j)"
      using filter_update [OF t] by (simp add: holders_def jobs)
    moreover have "holders b s \<le> of_bool (is_taken b s)" using inv by (simp add: held_inv_def)
    ultimately show ?thesis using take [of b] keep [of b] by (cases "holds b j") (auto simp: of_bool_def split: if_splits)
  qed
  moreover have "b < ts_next s" if "Seen b \<in> set (ts_jobs s')" for b
    using inv seen that set_update_subset_insert [of "ts_jobs s" t j] unfolding jobs held_inv_def by blast
  moreover have "b < ts_next s" if "is_taken b s'" for b using known [OF that] inv unfolding held_inv_def by blast
  ultimately show ?thesis using inv same unfolding held_inv_def by (auto dest: subsetD)
qed

text \<open>The ways in which a turn changes the flags: not at all, with a thread that takes a connection,
  lets one go, or takes one and forgets it.\<close>

lemma held_known: "held_inv s \<Longrightarrow> t < length (ts_jobs s) \<Longrightarrow> ts_jobs s ! t = Seen a \<Longrightarrow> a < ts_next s"
  unfolding held_inv_def by (metis nth_mem)

lemma held_vector: "held_inv s \<Longrightarrow> a \<in> set (ts_vector s) \<Longrightarrow> a < ts_next s"
  by (simp add: held_inv_def)

lemma held_flag:
  assumes "held_inv s" "t < length (ts_jobs s)" "holds a (ts_jobs s ! t)"
  shows "is_taken a s"
proof -
  have "ts_jobs s ! t \<in> set (filter (holds a) (ts_jobs s))" using assms(2,3) by simp
  then have "0 < holders a s" unfolding holders_def using length_pos_if_in_set by fast
  moreover have "holders a s \<le> of_bool (is_taken a s)" using assms(1) by (simp add: held_inv_def)
  ultimately show ?thesis by (cases "is_taken a s") simp_all
qed

lemma held_cong:
  assumes "held_inv s" "ts_jobs s' = ts_jobs s" "ts_next s' = ts_next s" "set (ts_vector s') \<subseteq> set (ts_vector s)" "\<And>a. is_taken a s' = is_taken a s"
  shows "held_inv s'"
  using assms by (auto simp: held_inv_def holders_def)

lemma held_keep:
  assumes "held_inv s" "t < length (ts_jobs s)" "ts_jobs s' = (ts_jobs s)[t := j]" "ts_next s' = ts_next s" "ts_vector s' = ts_vector s"
    "\<And>a. is_taken a s' = is_taken a s" "\<And>b. holds b j \<longleftrightarrow> holds b (ts_jobs s ! t)" "\<And>b. j = Seen b \<Longrightarrow> b < ts_next s"
  shows "held_inv s'"
  by (rule held_move [OF assms(1-3)]) (use assms held_flag [OF assms(1,2)] in auto)

lemma held_take:
  assumes "held_inv s" "t < length (ts_jobs s)" "a < ts_next s" "\<not> is_taken a s" "\<And>b. \<not> holds b (ts_jobs s ! t)"
    and "\<And>b. holds b j \<longleftrightarrow> b = a" "\<And>b. j \<noteq> Seen b"
  shows "held_inv (to_job t j (take_conn a s))"
  by (rule held_move [OF assms(1,2), where j = j]) (use assms(3-7) in auto)

lemma held_let_go:
  assumes "held_inv s" "t < length (ts_jobs s)" "ts_jobs s' = (ts_jobs s)[t := j]" "ts_next s' = ts_next s" "ts_vector s' = ts_vector s"
    and "\<And>b. is_taken b s' \<longleftrightarrow> b \<noteq> a \<and> is_taken b s" "\<And>b. holds b (ts_jobs s ! t) \<longleftrightarrow> b = a" "\<And>b. \<not> holds b j" "\<And>b. j \<noteq> Seen b"
  shows "held_inv s'"
  by (rule held_move [OF assms(1-3)]) (use assms(4-9) in auto)

lemma held_leak: "held_inv s \<Longrightarrow> a < ts_next s \<Longrightarrow> held_inv (take_conn a s)"
  by (auto simp: held_inv_def holders_def of_bool_def split: if_splits)

lemma held_query:
  assumes inv: "held_inv s" and t: "t < length (ts_jobs s)"
  shows "held_inv (look t a s)" "held_inv (claim_conn t s)" "held_inv (begin_exchange t s)" "held_inv (end_exchange t ok now s)"
    "held_inv (give_up t s)" "held_inv (race_end t ok s)" "held_inv (late_report t now s)"
proof -
  note keep = held_keep [OF inv t] and go = held_let_go [OF inv t] and known = held_known [OF inv t] held_vector [OF inv]
  show "held_inv (look t a s)" using inv known by (auto simp: look_def intro!: keep)
  show "held_inv (claim_conn t s)" using inv known
    by (cases "ts_jobs s ! t") (auto simp: claim_conn_def intro!: held_take [OF inv t] intro: keep)
  show "held_inv (begin_exchange t s)" using inv
    by (cases "ts_jobs s ! t") (auto simp: begin_exchange_def intro: keep split: option.split)
  show "held_inv (end_exchange t ok now s)" using inv
    by (cases "ts_jobs s ! t") (auto simp: end_exchange_def intro: keep go)
  show "held_inv (give_up t s)" using inv by (cases "ts_jobs s ! t") (auto simp: give_up_def intro: go)
  show "held_inv (race_end t ok s)" using inv by (cases "ts_jobs s ! t") (auto simp: race_end_def intro: go)
  show "held_inv (late_report t now s)" using inv by (cases "ts_jobs s ! t") (auto simp: late_report_def intro: keep)
qed

lemma held_openings:
  assumes inv: "held_inv s" and t: "t < length (ts_jobs s)"
  shows "held_inv (close_old t s)" "held_inv (opened t ok now s)" "held_inv (walk_start t s)" "held_inv (walk_on t s)"
    "held_inv (reopened t ok now s)"
proof -
  note keep = held_keep [OF inv t] and go = held_let_go [OF inv t] and vec = held_vector [OF inv]
  show "held_inv (close_old t s)" using inv
    by (cases "ts_jobs s ! t") (auto simp: close_old_def intro: keep split: bool.split)
  show "held_inv (opened t ok now s)" using inv
    by (cases "ts_jobs s ! t") (auto simp: opened_def intro: go split: bool.split)
  show "held_inv (walk_start t s)" using inv by (auto simp: walk_start_def intro: keep)
  show "held_inv (reopened t ok now s)" using inv
    by (cases "ts_jobs s ! t") (auto simp: reopened_def intro: keep go split: bool.split)
  show "held_inv (walk_on t s)"
  proof (cases "ts_jobs s ! t")
    case (Walking i e tried)
    have "held_inv (to_job t Free (take_conn a s))" if "a < ts_next s" for a
      by (rule held_keep [OF held_leak [OF inv that], where t = t and j = Free]) (use t Walking in simp_all)
    with Walking inv vec show ?thesis
      by (auto simp: walk_on_def Let_def intro!: held_take [OF inv t] intro: keep)
  qed (use inv in \<open>simp_all add: walk_on_def\<close>)
qed

lemma held_checks:
  assumes inv: "held_inv s" and t: "t < length (ts_jobs s)"
  shows "held_inv (check_end t ok now s)" "held_inv (probe_conn t i now s)" "held_inv (probe_end t ok s)"
proof -
  note keep = held_keep [OF inv t] and go = held_let_go [OF inv t]
  show "held_inv (check_end t ok now s)" using inv by (cases "ts_jobs s ! t") (auto simp: check_end_def intro: go)
  show "held_inv (probe_conn t i now s)" using inv by (auto simp: probe_conn_def Let_def intro: keep)
  show "held_inv (probe_end t ok s)" using inv by (cases "ts_jobs s ! t") (auto simp: probe_end_def intro: keep)
qed

text \<open>The turns that belong to no thread of the list.\<close>

lemma held_spawn: "held_inv s \<Longrightarrow> held_inv (spawn_open a s)"
  by (auto simp: spawn_open_def held_inv_def holders_def of_bool_def split: if_splits)

lemma held_add:
  assumes "held_inv s"
  shows "held_inv (add_conn s)"
proof -
  have "\<not> is_taken (ts_next s) s" using assms by (auto simp: held_inv_def)
  then have t: "is_taken b (add_conn s) = is_taken b s" for b by (simp add: add_conn_def Let_def) (simp add: is_taken_def)
  have "ts_jobs (add_conn s) = ts_jobs s" "ts_vector (add_conn s) = ts_vector s @ [ts_next s]" "ts_next (add_conn s) = ts_next s + 1"
    by (simp_all add: add_conn_def Let_def)
  with t assms show ?thesis by (auto simp: held_inv_def holders_def less_SucI)
qed

lemma drained_frame:
  "ts_jobs (drain_conns s) = ts_jobs s" "ts_vector (drain_conns s) = []" "ts_next (drain_conns s) = ts_next s"
  "is_taken a (drain_conns s) = is_taken a s" "stream_of a (drain_conns s) = (if a \<in> set (ts_vector s) then None else stream_of a s)"
proof -
  define f where "f as s = foldl (\<lambda>s a. close_own a s) s as" for as s
  have f: "ts_jobs (f as s) = ts_jobs s \<and> ts_next (f as s) = ts_next s \<and> is_taken a (f as s) = is_taken a s
    \<and> stream_of a (f as s) = (if a \<in> set as then None else stream_of a s)" for as
    unfolding f_def by (induction as arbitrary: s) auto
  have d: "drain_conns s = (f (ts_vector s) s)\<lparr>ts_vector := []\<rparr>" by (simp add: drain_conns_def f_def)
  show "ts_jobs (drain_conns s) = ts_jobs s" "ts_vector (drain_conns s) = []" "ts_next (drain_conns s) = ts_next s"
    "is_taken a (drain_conns s) = is_taken a s" "stream_of a (drain_conns s) = (if a \<in> set (ts_vector s) then None else stream_of a s)"
    using f [of "ts_vector s"] by (simp_all add: d is_taken_def stream_of_def)
qed

lemma held_pool:
  assumes "held_inv s"
  shows "held_inv (drop_last s)" "held_inv (drain_conns s)" "held_inv (control_move m s)"
proof -
  show "held_inv (drop_last s)"
    by (rule held_cong [OF assms]) (auto simp: drop_last_def is_taken_def dest: in_set_butlastD split: if_splits)
  show "held_inv (drain_conns s)" by (rule held_cong [OF assms]) (simp_all add: drained_frame)
  show "held_inv (control_move m s)" by (rule held_cong [OF assms]) (simp_all add: control_move_def is_taken_def)
qed

lemma held_step: "held_inv s \<Longrightarrow> flag_kept e \<Longrightarrow> held_inv (threads_step s e)"
  by (cases e) (simp_all add: threads_step_def held_query held_openings held_checks held_spawn held_add held_pool)

lemma held_init: "held_inv (threads_init addr n)"
  by (auto simp: held_inv_def threads_init_def holders_def is_taken_def)

interpretation held: step_invariant threads_step flag_kept held_inv
  by unfold_locales (rule held_step)

lemma holders_le_one: "held_inv s \<Longrightarrow> holders a s \<le> 1"
  unfolding held_inv_def by (metis le_trans of_bool_less_eq_one)

lemma one_holder:
  assumes "held_inv s" "t < length (ts_jobs s)" "u < length (ts_jobs s)" "holds a (ts_jobs s ! t)" "holds a (ts_jobs s ! u)"
  shows "t = u"
proof (rule ccontr)
  assume "t \<noteq> u"
  have "length (filter (holds a) ((ts_jobs s)[t := Free])) + 1 = holders a s"
    using filter_update [OF assms(2), of "holds a" Free] assms(4) by (simp add: holders_def)
  moreover have "(ts_jobs s)[t := Free] ! u \<in> set ((ts_jobs s)[t := Free])" by (rule nth_mem) (simp add: assms(3))
  then have "ts_jobs s ! u \<in> set (filter (holds a) ((ts_jobs s)[t := Free]))" using assms(5) \<open>t \<noteq> u\<close> by simp
  then have "0 < length (filter (holds a) ((ts_jobs s)[t := Free]))" using length_pos_if_in_set by fast
  ultimately show False using holders_le_one [OF assms(1), of a] by simp
qed

section \<open>The controller under these turns\<close>

text \<open>How many works are on their way for a stream. A step adds one only for a stream it manages.\<close>

definition wc :: "system \<Rightarrow> nat \<Rightarrow> nat" where
  "wc y st = count (image_mset rw_stream (mset (works y))) st"

lemma wc_eq: "wc y st = count (image_mset rw_stream (mset (reconnectQueue (ctl y)))) st
    + count (image_mset rw_stream (mset (in_delay y))) st + count (image_mset rw_stream (mset (in_open y))) st"
  by (simp add: wc_def works_def)

lemma wc_remove1:
  "w \<in> set ws \<Longrightarrow> count (image_mset rw_stream (mset (remove1 w ws))) st + of_bool (rw_stream w = st) = count (image_mset rw_stream (mset ws)) st"
proof -
  assume "w \<in> set ws"
  then have ws: "mset ws = add_mset w (mset (remove1 w ws))" by simp
  show ?thesis by (subst ws) simp
qed

lemma queue_request:
  "reconnectQueue (request_reconnect i c) = reconnectQueue c \<or> reconnectQueue (request_reconnect i c) = reconnectQueue c @ [work_for (managed c ! i) 0]"
  by (simp add: request_reconnect_def)

lemma wc_request:
  assumes "reconnectQueue c = reconnectQueue (ctl y)" "i < length (managed c)"
  shows "wc (y\<lparr>ctl := request_reconnect i c\<rparr>) st \<le> wc y st \<or> st \<in> set (map mc_stream (managed c))"
  using queue_request [of i c] assms by (auto simp: wc_eq work_for_def set_map)

lemma streams_kept: "map stream_and_flag (managed c') = map stream_and_flag (managed c) \<Longrightarrow> map mc_stream (managed c') = map mc_stream (managed c)"
  "map stream_and_flag (managed c') = map stream_and_flag (managed c) \<Longrightarrow> map mc_flag (managed c') = map mc_flag (managed c)"
  by (drule arg_cong [where f = "map fst"], simp add: o_def) (drule arg_cong [where f = "map snd"], simp add: o_def)

text \<open>Sections that keep what is managed, and raise flags of managed connections only.\<close>

definition kept :: "controller \<Rightarrow> controller \<Rightarrow> bool" where
  "kept c c' \<longleftrightarrow> map stream_and_flag (managed c') = map stream_and_flag (managed c)
     \<and> (\<forall>b. conn_flags c' b \<longrightarrow> conn_flags c b \<or> Some b \<in> set (map mc_flag (managed c)))"

lemma kept_refl: "kept c c"
  by (simp add: kept_def)

lemma flags_request [simp]: "conn_flags (request_reconnect i c) = conn_flags c"
  by (simp add: request_reconnect_def)

lemma keys_request: "i < length (managed c) \<Longrightarrow> map stream_and_flag (managed (request_reconnect i c)) = map stream_and_flag (managed c)"
  by (simp add: request_reconnect_def map_update_same)

lemma kept_used: "kept c (notifyUsed st now c)" "conn_flags (notifyUsed st now c) = conn_flags c"
  by (auto simp: kept_def notifyUsed_def map_update_same dest: index_of_Some split: option.split)

lemma kept_failure: "kept c (notifyFailure st c)"
  by (auto simp: kept_def notifyFailure_def keys_request map_update_same drop_conn_def Let_def dest: index_of_Some
      split: option.split option.split_asm if_splits)

lemma failure_flag:
  assumes "conn_flags c b" "\<And>m. m \<in> set (managed c) \<Longrightarrow> mc_flag m = Some b \<Longrightarrow> mc_stream m \<noteq> st"
  shows "conn_flags (notifyFailure st c) b"
proof (cases "index_of st (managed c)")
  case (Some i)
  have "managed c ! i \<in> set (managed c)" "mc_stream (managed c ! i) = st" using index_of_Some [OF Some] by simp_all
  then have "mc_flag (managed c ! i) \<noteq> Some b" using assms(2) by blast
  with Some assms(1) index_of_Some [OF Some] show ?thesis
    by (auto simp: notifyFailure_def drop_conn_def Let_def split: option.split)
qed (use assms(1) in \<open>simp add: notifyFailure_def\<close>)

lemma kept_done: "kept c (reconnect_done ok now w c)" "conn_flags c b \<Longrightarrow> conn_flags (reconnect_done ok now w c) b"
proof -
  show "conn_flags c b \<Longrightarrow> conn_flags (reconnect_done ok now w c) b"
    by (auto simp: reconnect_done_def mark_up_def split: option.split bool.split)
  show "kept c (reconnect_done ok now w c)"
  proof (cases "index_of (rw_stream w) (managed c)")
    case (Some i)
    note i = index_of_Some [OF Some]
    have "Some a \<in> set (map mc_flag (managed c))" if "mc_flag (managed c ! i) = Some a" for a
      using that i by (metis imageI nth_mem set_map)
    with Some i show ?thesis
      by (auto simp: kept_def reconnect_done_def mark_up_def map_update_same split: option.split bool.split)
  qed (simp add: kept_def reconnect_done_def)
qed

lemma kept_move: "kept (ctl y) (ctl (sys_move m y)) \<and> (\<forall>b. conn_flags (ctl y) b \<longrightarrow> conn_flags (ctl (sys_move m y)) b)"
proof (cases m)
  case Round_Scans
  have "map stream_and_flag (managed (fst (scan c))) = map stream_and_flag (managed c)" "conn_flags (fst (scan c)) = conn_flags c" for c
    by (simp_all add: scan_def)
  then show ?thesis by (simp add: Round_Scans kept_def)
next
  case (Worker_Ends k ok now)
  then show ?thesis using kept_done by (simp add: Let_def kept_refl)
qed (auto simp: kept_def enqueue_index_def Let_def split: list.split)

lemma sys_move_step: "sys_move m y = y \<or> cc_step True y (sys_move m y)"
proof (cases m)
  case Round_Scans
  show ?thesis using cc_scan [of y True] by (cases "to_enqueue y = []") (simp_all add: Round_Scans)
next
  case Round_Enqueues
  show ?thesis using cc_enqueue [of y _ _ True] by (cases "to_enqueue y") (simp_all add: Round_Enqueues)
next
  case Worker_Takes
  show ?thesis using cc_take [of y _ _ True] by (cases "reconnectQueue (ctl y)") (simp_all add: Worker_Takes)
next
  case (Worker_Looks k)
  show ?thesis using cc_open [of "in_delay y ! k" y True] cc_skip [of "in_delay y ! k" y True] by (simp add: Worker_Looks Let_def)
next
  case (Worker_Ends k ok now)
  show ?thesis using cc_done [of "in_open y ! k" y True ok now] by (simp add: Worker_Ends Let_def)
qed

lemma cc_step_works:
  assumes "cc_step True y y'" "sys_inv y"
  shows "wc y' st \<le> wc y st \<or> st \<in> set (map mc_stream (managed (ctl y')))"
  using assms(1)
proof (cases rule: cc_step.cases)
  case (cc_unmanage st')
  have le: "count (image_mset rw_stream (mset (filter P ws))) st \<le> count (image_mset rw_stream (mset ws)) st" for P ws
    by (induction ws) auto
  have "reconnectQueue (unmanage st' (ctl y)) = filter (\<lambda>w. rw_stream w \<noteq> st') (reconnectQueue (ctl y))"
    by (simp add: unmanage_def remove_at_def Let_def split: option.split)
  then have q: "count (image_mset rw_stream (mset (reconnectQueue (unmanage st' (ctl y))))) st
      \<le> count (image_mset rw_stream (mset (reconnectQueue (ctl y)))) st" by (simp only: le)
  have y': "ctl y' = unmanage st' (ctl y)" "in_delay y' = in_delay y" "in_open y' = in_open y" using cc_unmanage by simp_all
  show ?thesis unfolding wc_eq y' by (intro disjI1 add_mono q order_refl)
next
  case (cc_used st' now)
  have "reconnectQueue (notifyUsed st' now (ctl y)) = reconnectQueue (ctl y)" by (simp add: notifyUsed_def split: option.split)
  with cc_used show ?thesis by (simp add: wc_eq)
next
  case (cc_failure st')
  show ?thesis
  proof (cases "index_of st' (managed (ctl y))")
    case (Some i)
    let ?c = "drop_conn i (update_at i (\<lambda>m. m\<lparr>mc_failures := mc_failures m + 1\<rparr>) (ctl y))"
    have i: "i < length (managed ?c)" using index_of_Some [OF Some] by simp
    have "map mc_stream (managed (request_reconnect i ?c)) = map mc_stream (managed ?c)"
      by (rule streams_kept(1) [OF keys_request [OF i]])
    with wc_request [of ?c y i st, OF _ i] Some cc_failure show ?thesis by (simp add: notifyFailure_def)
  qed (use cc_failure in \<open>simp add: notifyFailure_def wc_eq\<close>)
next
  case (cc_check i st')
  show ?thesis
  proof (cases "i < length (managed (ctl y)) \<and> mc_stream (managed (ctl y) ! i) = st'")
    case True
    let ?c = "drop_conn i (ctl y)"
    have i: "i < length (managed ?c)" using True by simp
    have "map mc_stream (managed (request_reconnect i ?c)) = map mc_stream (managed ?c)"
      by (rule streams_kept(1) [OF keys_request [OF i]])
    with wc_request [of ?c y i st, OF _ i] True cc_check show ?thesis by (simp add: check_failed_def)
  qed (use cc_check in \<open>auto simp: check_failed_def wc_eq\<close>)
next
  case (cc_enqueue i ks)
  have "i < length (managed (ctl y))" using assms(2) cc_enqueue by (simp add: sys_inv_def)
  then show ?thesis using cc_enqueue by (auto simp: wc_eq enqueue_index_def work_for_def set_map)
next
  case (cc_open w)
  then show ?thesis using wc_remove1 [of w "in_delay y" st] by (auto simp: wc_eq)
next
  case (cc_skip w)
  then show ?thesis using wc_remove1 [of w "in_delay y" st] by (auto simp: wc_eq)
next
  case (cc_done w ok now)
  have q: "count (image_mset rw_stream (mset (reconnectQueue (reconnect_done ok now w (ctl y))))) st
      \<le> count (image_mset rw_stream (mset (reconnectQueue (ctl y)))) st + of_bool (rw_stream w = st)"
    by (auto simp: reconnect_done_def split: option.split bool.split)
  have y': "ctl y' = reconnect_done ok now w (ctl y)" "in_delay y' = in_delay y" "in_open y' = remove1 w (in_open y)"
    using cc_done by simp_all
  show ?thesis unfolding wc_eq y' using q wc_remove1 [of w "in_open y" st] cc_done by linarith
qed (auto simp: wc_eq manage_def Let_def scan_def)

lemma single_work:
  assumes "sys_inv y" "st \<in> set (map mc_stream (managed (ctl y)))"
  shows "wc y st \<le> 1"
proof -
  from assms(2) obtain i where i: "i < length (managed (ctl y))" "mc_stream (managed (ctl y) ! i) = st"
    by (auto simp: set_map in_set_conv_nth)
  then have "entry_inv y i" using assms(1) by (simp add: sys_inv_def)
  then have "wc y st + count (mset (to_enqueue y)) i \<le> 1" using i(2) by (simp add: entry_inv_def owed_def wc_def Let_def)
  then show ?thesis by simp
qed

section \<open>The streams\<close>

text \<open>Streams belong to one connection each; what the controller manages is the current stream of a
  connection, under that connection's flag; a connection that is up is managed; and there is at most
  one reconnect on its way for a stream.\<close>

definition entry_for :: "threads \<Rightarrow> managed_conn \<Rightarrow> bool" where
  "entry_for s m \<longleftrightarrow> (\<exists>a. mc_flag m = Some a \<and> stream_of a s = Some (mc_stream m))"

definition streams_ok :: "threads \<Rightarrow> bool" where
  "streams_ok s \<longleftrightarrow> (\<forall>a st. stream_of a s = Some st \<longrightarrow> a < ts_next s \<and> st < ts_streams s)
     \<and> (\<forall>a b st. stream_of a s = Some st \<longrightarrow> stream_of b s = Some st \<longrightarrow> a = b)"

abbreviation ts_managed :: "threads \<Rightarrow> managed_conn list" where
  "ts_managed s \<equiv> managed (ctl (ts_sys s))"

definition works_ok :: "threads \<Rightarrow> bool" where
  "works_ok s \<longleftrightarrow> sys_inv (ts_sys s) \<and> (\<forall>st. wc (ts_sys s) st \<le> 1 \<and> (0 < wc (ts_sys s) st \<longrightarrow> st < ts_streams s))"

definition links :: "threads \<Rightarrow> bool" where
  "links s \<longleftrightarrow> works_ok s \<and> streams_ok s \<and> (\<forall>m \<in> set (ts_managed s). entry_for s m)
     \<and> (\<forall>a. is_connected a s \<longrightarrow> Some a \<in> set (map mc_flag (ts_managed s)))"

lemma linksD:
  assumes "links s"
  shows "sys_inv (ts_sys s)" "streams_ok s" "m \<in> set (ts_managed s) \<Longrightarrow> entry_for s m" "wc (ts_sys s) st \<le> 1"
    "0 < wc (ts_sys s) st \<Longrightarrow> st < ts_streams s" "is_connected a s \<Longrightarrow> \<exists>m \<in> set (ts_managed s). mc_flag m = Some a"
  using assms by (auto simp: links_def works_ok_def set_map image_iff) (metis)

lemma streams_okD:
  assumes "streams_ok s" "stream_of a s = Some st"
  shows "a < ts_next s" "st < ts_streams s" "stream_of b s = Some st \<Longrightarrow> b = a"
  using assms unfolding streams_ok_def by blast+

text \<open>One step of the controller's system, with the streams of the connections as they are after it.\<close>

lemma works_step:
  assumes "works_ok s" "cc_step True (ts_sys s) (ts_sys s')" "streams_ok s'" "ts_streams s \<le> ts_streams s'"
    and m: "\<And>m. m \<in> set (ts_managed s') \<Longrightarrow> entry_for s' m"
  shows "works_ok s'"
proof -
  have old: "sys_inv (ts_sys s)" "\<And>st. wc (ts_sys s) st \<le> 1" "\<And>st. 0 < wc (ts_sys s) st \<Longrightarrow> st < ts_streams s"
    using assms(1) by (simp_all add: works_ok_def)
  have inv: "sys_inv (ts_sys s')" by (rule inv_cc_step [OF assms(2) old(1)])
  have step: "wc (ts_sys s') st \<le> wc (ts_sys s) st \<or> st \<in> set (map mc_stream (ts_managed s'))" for st
    by (rule cc_step_works [OF assms(2) old(1)])
  have one: "wc (ts_sys s') st \<le> 1" for st using step [of st] old(2) [of st] single_work [OF inv, of st] by linarith
  have "st < ts_streams s'" if "0 < wc (ts_sys s') st" for st
    using step [of st]
  proof
    assume "wc (ts_sys s') st \<le> wc (ts_sys s) st"
    then have "0 < wc (ts_sys s) st" using that by simp
    from old(3) [OF this] assms(4) show ?thesis by simp
  next
    assume "st \<in> set (map mc_stream (ts_managed s'))"
    then obtain m' where "m' \<in> set (ts_managed s')" "mc_stream m' = st" by (auto simp: set_map)
    with m [OF this(1)] streams_okD(2) [OF assms(3)] show ?thesis by (auto simp: entry_for_def)
  qed
  with inv one show ?thesis by (simp add: works_ok_def)
qed

lemma works_steps:
  assumes "works_ok s" "ts_sys s' = ts_sys s \<or> cc_step True (ts_sys s) (ts_sys s')" "streams_ok s'" "ts_streams s \<le> ts_streams s'"
    and "\<And>m. m \<in> set (ts_managed s') \<Longrightarrow> entry_for s' m"
  shows "works_ok s'"
  using assms(2)
proof
  assume "ts_sys s' = ts_sys s"
  with assms(1,4) show ?thesis by (auto simp: works_ok_def intro: less_le_trans)
qed (use works_step assms in blast)

lemma links_kept:
  assumes "links s" "ts_sys s' = ts_sys s \<or> cc_step True (ts_sys s) (ts_sys s')" "kept (ctl (ts_sys s)) (ctl (ts_sys s'))"
    and same: "ts_streams s' = ts_streams s" "ts_next s' = ts_next s" "\<And>a. stream_of a s' = stream_of a s"
  shows "links s'"
proof -
  note old = linksD [OF assms(1)]
  have ok: "streams_ok s'" using old(2) same by (simp add: streams_ok_def)
  have entries: "entry_for s' m'" if "m' \<in> set (ts_managed s')" for m'
  proof -
    have "stream_and_flag m' \<in> set (map stream_and_flag (ts_managed s'))" unfolding set_map using that by (rule imageI)
    then have "stream_and_flag m' \<in> set (map stream_and_flag (ts_managed s))" using assms(3) by (simp only: kept_def)
    then obtain m where m: "m \<in> set (ts_managed s)" "mc_stream m = mc_stream m'" "mc_flag m = mc_flag m'" by (auto simp: set_map)
    from old(3) [OF m(1)] m(2,3) show ?thesis by (simp add: entry_for_def same(3))
  qed
  have up: "Some a \<in> set (map mc_flag (ts_managed s'))" if "is_connected a s'" for a
  proof -
    have "map mc_flag (ts_managed s') = map mc_flag (ts_managed s)"
      by (rule streams_kept(2)) (use assms(3) in \<open>simp add: kept_def\<close>)
    moreover have "is_connected a s \<or> Some a \<in> set (map mc_flag (ts_managed s))"
      using assms(3) that by (simp add: kept_def is_connected_def)
    ultimately show ?thesis using assms(1) by (auto simp: links_def)
  qed
  have "works_ok s'" by (rule works_steps [OF _ assms(2) ok _ entries]) (use assms(1) same(1) in \<open>simp_all add: links_def\<close>)
  with ok entries up show ?thesis by (simp add: links_def)
qed

lemma links_cong:
  "links s \<Longrightarrow> ts_sys s' = ts_sys s \<Longrightarrow> ts_streams s' = ts_streams s \<Longrightarrow> ts_next s' = ts_next s \<Longrightarrow>
    (\<And>a. stream_of a s' = stream_of a s) \<Longrightarrow> links s'"
  by (rule links_kept) (simp_all add: kept_refl)

lemma links_jobs [simp]: "links (to_job t j s) = links s" "links (take_conn a s) = links s" "links (let_go a s) = links s"
proof -
  have eq: "links s' = links s" if same: "ts_sys s' = ts_sys s" "ts_streams s' = ts_streams s" "ts_next s' = ts_next s"
    "\<And>a. stream_of a s' = stream_of a s" for s'
  proof
    show "links s' \<Longrightarrow> links s" by (erule links_cong) (simp_all add: same)
    show "links s \<Longrightarrow> links s'" by (erule links_cong) (simp_all add: same)
  qed
  show "links (to_job t j s) = links s" "links (take_conn a s) = links s" "links (let_go a s) = links s"
    by (rule eq; simp)+
qed

lemma links_move: "links s \<Longrightarrow> links (control_move m s)"
  by (rule links_kept) (use sys_move_step [of m "ts_sys s"] kept_move [of "ts_sys s" m] in \<open>auto simp: control_move_def stream_of_def\<close>)

lemma links_report: "links s \<Longrightarrow> links (report ok now a s)"
proof (rule links_kept)
  show "ts_sys (report ok now a s) = ts_sys s \<or> cc_step True (ts_sys s) (ts_sys (report ok now a s))"
    using cc_used [of True "ts_sys s" _ now] cc_failure [of True "ts_sys s"]
    by (cases "stream_of a s"; cases ok) (simp_all add: report_def on_own_def)
  show "kept (ctl (ts_sys s)) (ctl (ts_sys (report ok now a s)))"
    by (cases "stream_of a s"; cases ok) (simp_all add: report_def on_own_def kept_used(1) kept_failure kept_refl)
qed simp_all

text \<open>The connections whose stream and flag a turn may change.\<close>

definition untouched :: "nat \<Rightarrow> threads \<Rightarrow> threads \<Rightarrow> bool" where
  "untouched b s s' \<longleftrightarrow> stream_of b s' = stream_of b s \<and> (is_connected b s \<longrightarrow> is_connected b s')"

lemma report_untouched:
  assumes "links s" "b \<noteq> a \<or> ok"
  shows "untouched b s (report ok now a s)"
proof (cases "stream_of a s")
  case None
  then show ?thesis by (simp add: untouched_def report_def on_own_def)
next
  case (Some st)
  have "mc_stream m \<noteq> st" if "m \<in> set (ts_managed s)" "mc_flag m = Some b" "b \<noteq> a" for m
    using linksD(3) [OF assms(1) that(1)] that(2,3) streams_okD(3) [OF linksD(2) [OF assms(1)] Some] by (auto simp: entry_for_def)
  then show ?thesis using Some assms(2) failure_flag [of "ctl (ts_sys s)" b st] kept_used(2)
    by (auto simp: untouched_def report_def on_own_def is_connected_def)
qed

text \<open>Closing the stream of a connection: afterwards the controller has no entry for it.\<close>

lemma unmanage_others:
  assumes "m \<in> set (managed c)" "mc_stream m \<noteq> st"
  shows "m \<in> set (managed (unmanage st c))"
proof (cases "index_of st (managed c)")
  case (Some i)
  have "managed c = take i (managed c) @ managed c ! i # drop (Suc i) (managed c)"
    using index_of_Some [OF Some] by (simp add: id_take_nth_drop)
  then have "m = managed c ! i \<or> m \<in> set (take i (managed c) @ drop (Suc i) (managed c))"
    using assms(1) by (metis Un_iff insert_iff list.simps(15) set_append)
  then show ?thesis using assms(2) index_of_Some [OF Some] Some by (auto simp: unmanage_def remove_at_def Let_def)
qed (use assms(1) in \<open>simp add: unmanage_def Let_def\<close>)

lemma links_unmanaged:
  fixes a :: nat
  assumes "links s" "to_enqueue (ts_sys s) = []"
  defines "s' \<equiv> on_own unmanage a s"
  shows "sys_inv (ts_sys s')" "set (ts_managed s') \<subseteq> set (ts_managed s)" "\<And>m. m \<in> set (ts_managed s') \<Longrightarrow> mc_flag m \<noteq> Some a"
    "\<And>m c. m \<in> set (ts_managed s) \<Longrightarrow> mc_flag m = Some c \<Longrightarrow> c \<noteq> a \<Longrightarrow> m \<in> set (ts_managed s')"
    "ts_sys s' = ts_sys s \<or> cc_step True (ts_sys s) (ts_sys s')" "is_connected b s' = is_connected b s"
proof -
  note old = linksD [OF assms(1)]
  have own: "stream_of a s = Some (mc_stream m)" if "m \<in> set (ts_managed s)" "mc_flag m = Some a" for m
    using old(3) [OF that(1)] that(2) by (auto simp: entry_for_def)
  have step: "cc_step True (ts_sys s) ((ts_sys s)\<lparr>ctl := unmanage st (ctl (ts_sys s))\<rparr>)" for st
    by (rule cc_unmanage) (simp add: assms(2))
  have ctl: "ctl_ok (ctl (ts_sys s))" using old(1) by (simp add: sys_inv_def)
  show "sys_inv (ts_sys s')" "ts_sys s' = ts_sys s \<or> cc_step True (ts_sys s) (ts_sys s')"
    using old(1) inv_cc_step [OF step old(1)] step by (auto simp: s'_def on_own_def split: option.split)
  show sub: "set (ts_managed s') \<subseteq> set (ts_managed s)" "is_connected b s' = is_connected b s"
    using unmanage_facts [OF ctl] by (auto simp: s'_def on_own_def is_connected_def split: option.split)
  show "mc_flag m \<noteq> Some a" if m: "m \<in> set (ts_managed s')" for m
  proof
    assume "mc_flag m = Some a"
    then have st: "stream_of a s = Some (mc_stream m)" using own m sub(1) by blast
    then have "m \<in> set (managed (unmanage (mc_stream m) (ctl (ts_sys s))))" using m by (simp add: s'_def on_own_def)
    then show False using unmanage_facts [OF ctl, of "mc_stream m"] by (simp add: set_map)
  qed
  show "m \<in> set (ts_managed s')" if "m \<in> set (ts_managed s)" "mc_flag m = Some b" "b \<noteq> a" for m b
  proof (cases "stream_of a s")
    case (Some st)
    have "mc_stream m \<noteq> st" using old(3) [OF that(1)] that(2,3) streams_okD(3) [OF old(2) Some] by (auto simp: entry_for_def)
    with unmanage_others that(1) Some show ?thesis by (simp add: s'_def on_own_def)
  qed (use that(1) in \<open>simp add: s'_def on_own_def\<close>)
qed

lemma owner_step: "Some a \<notin> set (map mc_flag (ts_managed s)) \<Longrightarrow> cc_step True (ts_sys s) (ts_sys (set_flag a b s))"
  unfolding set_flag_def ctl_frame(7) by (rule cc_owner)

lemma flag_result [simp]:
  "ts_managed (set_flag a b s) = ts_managed s" "is_connected c (set_flag a b s) = (if c = a then b else is_connected c s)"
  by (simp_all add: set_flag_def is_connected_def)

lemma conn_update [simp]:
  "ts_sys (on_conn a f s) = ts_sys s" "ts_streams (on_conn a f s) = ts_streams s" "ts_next (on_conn a f s) = ts_next s"
  "is_connected b (on_conn a f s) = is_connected b s" "ts_addr (on_conn a f s) = ts_addr s"
  "stream_of b (on_conn a f s) = (if b = a then sc_stream (f (ts_heap s a)) else stream_of b s)"
  by (simp_all add: on_conn_def is_connected_def stream_of_def)

lemma links_close:
  assumes "links s" "to_enqueue (ts_sys s) = []"
  shows "links (close_own a s)" "b \<noteq> a \<Longrightarrow> untouched b s (close_own a s)"
proof -
  note old = linksD [OF assms(1)] and un = links_unmanaged [OF assms, where a = a]
  let ?s1 = "on_own unmanage a s" and ?s2 = "on_conn a (\<lambda>c. c\<lparr>sc_stream := None\<rparr>) (on_own unmanage a s)"
  have ok1: "streams_ok ?s1" using old(2) by (simp add: streams_ok_def)
  have e1: "entry_for ?s1 m" if "m \<in> set (ts_managed ?s1)" for m
    using old(3) un(2) that by (auto simp: entry_for_def)
  have w1: "works_ok ?s1" by (rule works_steps [OF _ un(5) ok1 _ e1]) (use assms(1) in \<open>simp_all add: links_def\<close>)
  let ?s' = "close_own a s"
  have s': "?s' = set_flag a False ?s2" by (simp add: close_own_def)
  have sys: "ts_managed ?s' = ts_managed ?s1" by (simp add: s')
  have ok: "streams_ok ?s'" using old(2) by (auto simp: streams_ok_def)
  have e: "entry_for ?s' m" if "m \<in> set (ts_managed ?s')" for m
  proof -
    have m: "m \<in> set (ts_managed ?s1)" using that sys by simp
    obtain b where b: "mc_flag m = Some b" "stream_of b s = Some (mc_stream m)" using e1 [OF m] by (auto simp: entry_for_def)
    then have "b \<noteq> a" using un(3) [OF m] by auto
    with b show ?thesis by (simp add: entry_for_def)
  qed
  have "Some a \<notin> set (map mc_flag (ts_managed ?s2))" using un(3) by (metis (no_types, lifting) conn_update(1) imageE set_map)
  from owner_step [OF this, of False] have step: "cc_step True (ts_sys ?s1) (ts_sys ?s')" by (simp add: s')
  have "works_ok ?s'" by (rule works_step [OF w1 step ok _ e]) simp_all
  moreover have "Some b \<in> set (map mc_flag (ts_managed ?s'))" if "is_connected b ?s'" for b
  proof -
    have "b \<noteq> a" "is_connected b s" using that un(6) by (simp_all add: s' split: if_splits)
    then obtain m where m: "m \<in> set (ts_managed s)" "mc_flag m = Some b" using old(6) by blast
    from un(4) [OF this \<open>b \<noteq> a\<close>] m(2) sys show ?thesis by (force simp: set_map)
  qed
  ultimately show "links ?s'" using ok e by (simp add: links_def)
  show "b \<noteq> a \<Longrightarrow> untouched b s ?s'" using un(6) by (simp add: untouched_def s')
qed

text \<open>A new stream for a connection that has none.\<close>

lemma links_fresh:
  assumes "links s" "stream_of a s = None" "a < ts_next s"
  shows "links (fresh_stream a ok now s)" "b \<noteq> a \<Longrightarrow> untouched b s (fresh_stream a ok now s)"
    "is_connected a (fresh_stream a ok now s) = ok"
proof -
  have old: "streams_ok s" "\<And>m. m \<in> set (ts_managed s) \<Longrightarrow> entry_for s m" "\<And>st. 0 < wc (ts_sys s) st \<Longrightarrow> st < ts_streams s"
    "\<And>c. is_connected c s \<Longrightarrow> \<exists>m \<in> set (ts_managed s). mc_flag m = Some c" by (rule linksD [OF assms(1)]; assumption?)+
  let ?n = "ts_streams s" and ?s' = "fresh_stream a ok now s"
  define s0 where "s0 = (on_conn a (\<lambda>c. c\<lparr>sc_stream := Some ?n\<rparr>) s)\<lparr>ts_streams := ?n + 1\<rparr>"
  define s1 where "s1 = set_flag a ok s0"
  have s0: "ts_sys s0 = ts_sys s" "ts_streams s0 = ?n + 1" "ts_next s0 = ts_next s" "ts_addr s0 = ts_addr s"
    "stream_of b s0 = (if b = a then Some ?n else stream_of b s)" "is_connected b s0 = is_connected b s" for b
    by (simp_all add: s0_def) (simp_all add: on_conn_def stream_of_def is_connected_def)
  have s1: "ts_managed s1 = ts_managed s" "ts_streams s1 = ?n + 1" "ts_next s1 = ts_next s" "works (ts_sys s1) = works (ts_sys s)"
    "stream_of b s1 = (if b = a then Some ?n else stream_of b s)" "is_connected b s1 = (if b = a then ok else is_connected b s)" for b
    by (simp_all add: s1_def s0) (simp add: set_flag_def works_def s0)
  have s': "?s' = (if ok then on_ctl (manage (ts_addr s) ?n (Some a) now) s1 else s1)"
    by (simp add: fresh_stream_def Let_def s1_def s0_def set_flag_def on_ctl_def)
  have free: "Some a \<notin> set (map mc_flag (ts_managed s))" using old(2) assms(2) by (force simp: set_map entry_for_def)
  then have own: "cc_step True (ts_sys s) (ts_sys s1)" using owner_step [of a s0 ok] s0(1) by (simp add: s1_def)
  have ok1: "streams_ok s1" using old(1) assms(3) unfolding streams_ok_def s1 by (auto simp: less_SucI split: if_splits)
  have e1: "entry_for s1 m" if m: "m \<in> set (ts_managed s)" for m
  proof -
    obtain b where b: "mc_flag m = Some b" "stream_of b s = Some (mc_stream m)"
      using old(2) [OF m] by (auto simp: entry_for_def)
    with assms(2) have "b \<noteq> a" by auto
    with b show ?thesis by (simp add: entry_for_def s1)
  qed
  have w1: "works_ok s1"
    by (rule works_step [OF _ own ok1]) (use assms(1) e1 in \<open>simp_all add: links_def s1\<close>)
  have u1: "Some b \<in> set (map mc_flag (ts_managed s))" if b: "is_connected b s1" "b \<noteq> a" for b
  proof -
    have "is_connected b s" using b by (simp add: s1)
    from old(4) [OF this] show ?thesis by (force simp: set_map)
  qed
  have flags: "is_connected b ?s' = is_connected b s1" for b
    by (simp add: s' is_connected_def manage_def Let_def)
  then show "is_connected a ?s' = ok" "b \<noteq> a \<Longrightarrow> untouched b s ?s'" by (simp_all add: untouched_def s1)
  show "links ?s'"
  proof (cases ok)
    case False
    then have eq: "?s' = s1" using s' by simp
    have "Some b \<in> set (map mc_flag (ts_managed s1))" if "is_connected b s1" for b
      using u1 [OF that] that False by (cases "b = a") (simp_all add: s1)
    with w1 ok1 e1 show ?thesis by (simp add: links_def eq s1(1))
  next
    case True
    have t': "?s' = on_ctl (manage (ts_addr s) ?n (Some a) now) s1" using s' by (simp only: True if_True)
    have fresh: "?n \<notin> set (map mc_stream (ts_managed s))"
      using old(2) streams_okD(2) [OF old(1)] by (fastforce simp: set_map entry_for_def)
    have "wc (ts_sys s) ?n = 0" using old(3) [of ?n] by (cases "wc (ts_sys s) ?n") simp_all
    then have "?n \<notin> set (map rw_stream (works (ts_sys s)))" by (simp add: wc_def count_eq_zero_iff set_map)
    then have step: "cc_step True (ts_sys s1) (ts_sys ?s')"
      using fresh free True cc_manage [of ?n "ts_sys s1" a True "ts_addr s" now] unfolding t' ctl_frame(7) s1 by blast
    obtain mc where mc: "ts_managed ?s' = ts_managed s @ [mc]" "mc_flag mc = Some a" "mc_stream mc = ?n"
      unfolding t' ctl_frame(7) by (simp add: manage_def Let_def s1(1))
    have str: "stream_of b ?s' = stream_of b s1" for b unfolding t' by simp
    have e: "entry_for ?s' m" if "m \<in> set (ts_managed ?s')" for m
    proof -
      have "m \<in> set (ts_managed s) \<or> m = mc" using that mc(1) by auto
      then show ?thesis
      proof
        assume "m = mc"
        with mc(2,3) show ?thesis by (simp add: entry_for_def str s1(5))
      next
        assume "m \<in> set (ts_managed s)"
        from e1 [OF this] show ?thesis by (simp only: entry_for_def str)
      qed
    qed
    have ok: "streams_ok ?s'" using ok1 by (simp add: s' streams_ok_def)
    have "works_ok ?s'" by (rule works_step [OF w1 step ok _ e]) (simp_all add: s1)
    moreover have "Some b \<in> set (map mc_flag (ts_managed ?s'))" if "is_connected b ?s'" for b
      using that u1 [of b] flags mc by (cases "b = a") auto
    ultimately show ?thesis using e ok by (simp add: links_def)
  qed
qed

lemma links_add:
  assumes "links s"
  shows "links (add_conn s)" "untouched b s (add_conn s)" "ts_jobs (add_conn s) = ts_jobs s"
proof -
  note old = linksD [OF assms]
  let ?a = "ts_next s" and ?s' = "add_conn s"
  define s0 where "s0 = s\<lparr>ts_heap := (ts_heap s)(?a := \<lparr>sc_taken = False, sc_stream = None\<rparr>), ts_next := ?a + 1, ts_vector := ts_vector s @ [?a]\<rparr>"
  have s': "?s' = set_flag ?a False s0" by (simp add: add_conn_def Let_def s0_def)
  have none: "stream_of ?a s = None" using streams_okD(1) [OF old(2), of ?a] by (cases "stream_of ?a s") auto
  have s0: "ts_sys s0 = ts_sys s" "ts_streams s0 = ts_streams s" "ts_next s0 = ?a + 1" "ts_jobs s0 = ts_jobs s"
    "stream_of c s0 = stream_of c s" "is_connected c s0 = is_connected c s" for c
    using none by (simp_all add: s0_def stream_of_def is_connected_def)
  have free: "Some ?a \<notin> set (map mc_flag (ts_managed s))" using old(3) none by (force simp: set_map entry_for_def)
  then have down: "\<not> is_connected ?a s" using old(6) by (force simp: set_map)
  have step: "cc_step True (ts_sys s) (ts_sys ?s')" using owner_step [of ?a s0 False] free by (simp add: s' s0)
  have sys: "ts_managed ?s' = ts_managed s" by (simp add: s' s0)
  have str: "stream_of c ?s' = stream_of c s" for c by (simp add: s' s0)
  have e: "entry_for ?s' m" if "m \<in> set (ts_managed ?s')" for m
    using old(3) [of m] that by (simp add: sys entry_for_def str)
  have ok: "streams_ok ?s'" using old(2) unfolding streams_ok_def str by (simp add: s' s0 less_SucI)
  have "works_ok ?s'" by (rule works_step [OF _ step ok _ e]) (use assms in \<open>simp_all add: links_def s' s0\<close>)
  moreover have "Some c \<in> set (map mc_flag (ts_managed ?s'))" if "is_connected c ?s'" for c
  proof -
    have "is_connected c s" using that by (simp add: s' s0 split: if_splits)
    from old(6) [OF this] show ?thesis unfolding sys by (force simp: set_map)
  qed
  ultimately show "links ?s'" using ok e by (simp add: links_def)
  show "untouched b s ?s'" using down by (cases "b = ts_next s") (simp_all add: untouched_def str s' s0)
  show "ts_jobs ?s' = ts_jobs s" by (simp add: s' s0)
qed

section \<open>What a thread may rely on\<close>

fun job_ok :: "threads \<Rightarrow> job \<Rightarrow> bool" where
  "job_ok s (Exchanging a st) \<longleftrightarrow> stream_of a s = Some st \<and> is_connected a s"
| "job_ok s (Opening a c) \<longleftrightarrow> (c \<longrightarrow> stream_of a s = None)"
| "job_ok s (Reopening i e a c) \<longleftrightarrow> (c \<longrightarrow> stream_of a s = None)"
| "job_ok s (Late a ok) \<longleftrightarrow> ok"
| "job_ok s (Checking a st) \<longleftrightarrow> False"
| "job_ok s (Probing i st) \<longleftrightarrow> False"
| "job_ok s _ \<longleftrightarrow> True"

definition jobs_ok :: "threads \<Rightarrow> bool" where
  "jobs_ok s \<longleftrightarrow> (\<forall>t < length (ts_jobs s). job_ok s (ts_jobs s ! t))"

definition shared_inv :: "threads \<Rightarrow> bool" where
  "shared_inv s \<longleftrightarrow> held_inv s \<and> links s \<and> jobs_ok s"

lemma job_ok_keep: "job_ok s j \<Longrightarrow> (\<And>b. holds b j \<Longrightarrow> untouched b s s') \<Longrightarrow> job_ok s' j"
  by (cases j) (auto simp: untouched_def)

lemma untouched_refl [simp]: "untouched b s s"
  by (simp add: untouched_def)

lemma jobs_same: "jobs_ok s \<Longrightarrow> ts_jobs s' = ts_jobs s \<Longrightarrow> (\<And>b. untouched b s s') \<Longrightarrow> jobs_ok s'"
  using job_ok_keep by (fastforce simp: jobs_ok_def)

lemma jobs_move:
  assumes "shared_inv s" "t < length (ts_jobs s)" "ts_jobs s' = (ts_jobs s)[t := j]" "job_ok s' j"
    and "\<And>b. \<not> holds b (ts_jobs s ! t) \<Longrightarrow> untouched b s s'"
  shows "jobs_ok s'"
  unfolding jobs_ok_def
proof (intro allI impI)
  fix u assume u: "u < length (ts_jobs s')"
  show "job_ok s' (ts_jobs s' ! u)"
  proof (cases "u = t")
    case True
    then show ?thesis using assms(2-4) by simp
  next
    case False
    have u': "u < length (ts_jobs s)" "ts_jobs s' ! u = ts_jobs s ! u" using u False assms(3) by simp_all
    have inv: "held_inv s" "job_ok s (ts_jobs s ! u)" using assms(1) u'(1) by (simp_all add: shared_inv_def jobs_ok_def)
    have "untouched b s s'" if "holds b (ts_jobs s ! u)" for b
      using one_holder [OF inv(1) assms(2) u'(1) _ that] False assms(5) by blast
    then show ?thesis unfolding u'(2) by (rule job_ok_keep [OF inv(2)])
  qed
qed

lemma flag_links [simp]: "links (s\<lparr>ts_jobs := js\<rparr>) = links s" "job_ok (to_job t j s) i = job_ok s i"
    "job_ok (let_go a s) i = job_ok s i"
proof -
  show "job_ok (to_job t j s) i = job_ok s i" "job_ok (let_go a s) i = job_ok s i" by (cases i; simp)+
  show "links (s\<lparr>ts_jobs := js\<rparr>) = links s"
  proof
    show "links (s\<lparr>ts_jobs := js\<rparr>) \<Longrightarrow> links s" by (erule links_cong) simp_all
    show "links s \<Longrightarrow> links (s\<lparr>ts_jobs := js\<rparr>)" by (erule links_cong) simp_all
  qed
qed

text \<open>The turns that change no stream and no flag, and those that report, close or open.\<close>

lemma shared_free:
  assumes "shared_inv s"
  shows "jobs_ok (look t a s)" "links (look t a s)" "jobs_ok (claim_conn t s)" "links (claim_conn t s)"
    "jobs_ok (give_up t s)" "links (give_up t s)" "ok \<Longrightarrow> jobs_ok (race_end t ok s)" "links (race_end t ok s)"
    "jobs_ok (walk_start t s)" "links (walk_start t s)" "jobs_ok (walk_on t s)" "links (walk_on t s)"
proof -
  have inv: "links s" "jobs_ok s" using assms by (simp_all add: shared_inv_def)
  have go: "jobs_ok (to_job t j s')" if "ts_jobs s' = ts_jobs s" "\<And>b. stream_of b s' = stream_of b s" "\<And>b. is_connected b s' = is_connected b s"
    "job_ok s j" for j s'
  proof -
    have un: "untouched b s (to_job t j s')" for b by (simp add: untouched_def that)
    have job: "job_ok (to_job t j s') j" by (rule job_ok_keep [OF that(4) un])
    show ?thesis
    proof (cases "t < length (ts_jobs s)")
      case True
      show ?thesis by (rule jobs_move [OF assms True _ job un]) (simp add: that)
    next
      case False
      show ?thesis by (rule jobs_same [OF inv(2) _ un]) (use False that in \<open>simp add: list_update_beyond\<close>)
    qed
  qed
  show "jobs_ok (look t a s)" "links (look t a s)" using inv go by (simp_all add: look_def)
  show "jobs_ok (claim_conn t s)" "links (claim_conn t s)"
    using inv go by (simp_all add: claim_conn_def split: job.split)
  show "jobs_ok (give_up t s)" "links (give_up t s)"
    using inv go by (simp_all add: give_up_def split: job.split)
  show "ok \<Longrightarrow> jobs_ok (race_end t ok s)" "links (race_end t ok s)"
    using inv go by (simp_all add: race_end_def split: job.split)
  show "jobs_ok (walk_start t s)" "links (walk_start t s)" using inv go by (simp_all add: walk_start_def)
  show "jobs_ok (walk_on t s)" "links (walk_on t s)"
    using inv go by (simp_all add: walk_on_def Let_def split: job.split)
qed

lemma shared_reports:
  assumes inv: "shared_inv s" and t: "t < length (ts_jobs s)"
  shows "jobs_ok (begin_exchange t s) \<and> links (begin_exchange t s)" "jobs_ok (end_exchange t ok now s) \<and> links (end_exchange t ok now s)"
    "jobs_ok (late_report t now s) \<and> links (late_report t now s)"
proof -
  have l: "links s" "jobs_ok s" using inv by (simp_all add: shared_inv_def)
  note move = jobs_move [OF inv t] and un = report_untouched [OF l(1)]
  show "jobs_ok (begin_exchange t s) \<and> links (begin_exchange t s)"
  proof (cases "ts_jobs s ! t")
    case (Held a)
    have "jobs_ok (to_job t (Giving_Up a) (report False 0 a s))"
      by (rule move [where j = "Giving_Up a"]) (use un [of _ a False 0] Held in \<open>simp_all add: untouched_def\<close>)
    moreover have "jobs_ok (to_job t (Giving_Up a) s)"
      by (rule move [where j = "Giving_Up a"]) (simp_all add: untouched_def)
    moreover have "jobs_ok (to_job t (Exchanging a st) s)" if "stream_of a s = Some st" "is_connected a s" for st
      by (rule move [where j = "Exchanging a st"]) (use that in \<open>simp_all add: untouched_def\<close>)
    ultimately show ?thesis using Held l links_report by (simp add: begin_exchange_def split: option.split)
  qed (use l in \<open>simp_all add: begin_exchange_def\<close>)
  show "jobs_ok (end_exchange t ok now s) \<and> links (end_exchange t ok now s)"
  proof (cases "ts_jobs s ! t")
    case (Exchanging a st)
    have "jobs_ok (to_job t (Giving_Up a) (report False now a s))"
      by (rule move [where j = "Giving_Up a"]) (use un [of _ a False now] Exchanging in \<open>simp_all add: untouched_def\<close>)
    moreover have "jobs_ok (to_job t (Late a True) (let_go a s))"
      by (rule move [where j = "Late a True"]) (simp_all add: untouched_def)
    ultimately show ?thesis using Exchanging l links_report by (simp add: end_exchange_def)
  qed (use l in \<open>simp_all add: end_exchange_def\<close>)
  show "jobs_ok (late_report t now s) \<and> links (late_report t now s)"
  proof (cases "ts_jobs s ! t")
    case (Late a ok)
    then have ok using l(2) t by (auto simp: jobs_ok_def dest!: spec [of _ t])
    then have "jobs_ok (to_job t Free (report ok now a s))"
      by (intro move [where j = Free]) (use un [of _ a ok now] in \<open>simp_all add: untouched_def\<close>)
    then show ?thesis using Late l links_report by (simp add: late_report_def)
  qed (use l in \<open>simp_all add: late_report_def\<close>)
qed

lemma shared_openings:
  assumes inv: "shared_inv s" and t: "t < length (ts_jobs s)"
  shows "to_enqueue (ts_sys s) = [] \<Longrightarrow> jobs_ok (close_old t s) \<and> links (close_old t s)"
    "jobs_ok (opened t ok now s) \<and> links (opened t ok now s)" "jobs_ok (reopened t ok now s) \<and> links (reopened t ok now s)"
proof -
  have l: "links s" "jobs_ok s" "held_inv s" using inv by (simp_all add: shared_inv_def)
  note move = jobs_move [OF inv t]
  have job: "job_ok s (ts_jobs s ! t)" using l(2) t by (simp add: jobs_ok_def)
  have known: "a < ts_next s" if "holds a (ts_jobs s ! t)" for a
    using held_flag [OF l(3) t that] l(3) by (simp add: held_inv_def)
  show "jobs_ok (close_old t s) \<and> links (close_old t s)" if q: "to_enqueue (ts_sys s) = []"
  proof -
    note close = links_close [OF l(1) q]
    have "jobs_ok (to_job t j (close_own a s))" if "j = Opening a True \<or> (\<exists>i e. j = Reopening i e a True)" "holds a (ts_jobs s ! t)" for j a
    proof (rule move [where j = j])
      show "untouched b s (to_job t j (close_own a s))" if "\<not> holds b (ts_jobs s ! t)" for b
        using close(2) [of b a] \<open>holds a (ts_jobs s ! t)\<close> that by (auto simp: untouched_def)
    qed (use that(1) in auto)
    then show ?thesis using l close(1) by (cases "ts_jobs s ! t") (auto simp: close_old_def split: bool.split)
  qed
  have fresh: "jobs_ok (to_job t j (fresh_stream a ok now s))" "jobs_ok (to_job t j (let_go a (fresh_stream a ok now s)))"
    if "holds a (ts_jobs s ! t)" "stream_of a s = None" "\<And>s. job_ok s j" for j a
  proof -
    note f = links_fresh [OF l(1) that(2) known [OF that(1)], where ok = ok and now = now]
    have "untouched b s (fresh_stream a ok now s)" if "\<not> holds b (ts_jobs s ! t)" for b
      using f(2) [of b] \<open>holds a (ts_jobs s ! t)\<close> that by auto
    then show "jobs_ok (to_job t j (fresh_stream a ok now s))" "jobs_ok (to_job t j (let_go a (fresh_stream a ok now s)))"
      using that(3) by (auto intro!: move [where j = j] simp: untouched_def)
  qed
  have up: "links (fresh_stream a ok now s)" if "holds a (ts_jobs s ! t)" "stream_of a s = None" for a
    by (rule links_fresh(1) [OF l(1) that(2) known [OF that(1)]])
  show "jobs_ok (opened t ok now s) \<and> links (opened t ok now s)"
    using l job fresh up by (cases "ts_jobs s ! t") (auto simp: opened_def split: bool.split)
  show "jobs_ok (reopened t ok now s) \<and> links (reopened t ok now s)"
    using l job fresh up by (cases "ts_jobs s ! t") (auto simp: reopened_def split: bool.split)
qed

lemma shared_pool:
  assumes "shared_inv s"
  shows "jobs_ok (spawn_open a s) \<and> links (spawn_open a s)" "jobs_ok (add_conn s) \<and> links (add_conn s)"
    "jobs_ok (drop_last s) \<and> links (drop_last s)" "jobs_ok (control_move m s) \<and> links (control_move m s)"
proof -
  have l: "links s" "jobs_ok s" using assms by (simp_all add: shared_inv_def)
  have "job_ok (s\<lparr>ts_heap := h, ts_jobs := js\<rparr>) j = job_ok (s\<lparr>ts_heap := h\<rparr>) j" for h js j
    by (cases j) (simp_all add: stream_of_def is_connected_def)
  have "untouched b s ((take_conn a s)\<lparr>ts_jobs := js\<rparr>)" for b js by (simp add: untouched_def)
  then have "job_ok s j \<Longrightarrow> job_ok ((take_conn a s)\<lparr>ts_jobs := js\<rparr>) j" for j js using job_ok_keep by blast
  then have "jobs_ok ((take_conn a s)\<lparr>ts_jobs := ts_jobs s @ [Opening a False]\<rparr>)"
    using l(2) by (auto simp: jobs_ok_def nth_append less_Suc_eq)
  then show "jobs_ok (spawn_open a s) \<and> links (spawn_open a s)" using l by (simp add: spawn_open_def)
  show "jobs_ok (add_conn s) \<and> links (add_conn s)"
    using links_add [OF l(1)] jobs_same [OF l(2)] by blast
  have "links (drop_last s)" by (rule links_cong [OF l(1)]) (simp_all add: drop_last_def stream_of_def)
  moreover have "jobs_ok (drop_last s)"
    by (rule jobs_same [OF l(2)]) (simp_all add: drop_last_def untouched_def stream_of_def is_connected_def)
  ultimately show "jobs_ok (drop_last s) \<and> links (drop_last s)" by simp
  have "jobs_ok (control_move m s)"
    by (rule jobs_same [OF l(2)]) (use kept_move [of "ts_sys s" m] in \<open>auto simp: control_move_def untouched_def stream_of_def is_connected_def\<close>)
  then show "jobs_ok (control_move m s) \<and> links (control_move m s)" using links_move [OF l(1)] by simp
qed

lemma shared_step:
  assumes inv: "shared_inv s" and e: "cooperative s e"
  shows "shared_inv (threads_step s e)"
proof -
  have l: "links s" "jobs_ok s" "held_inv s" using inv by (simp_all add: shared_inv_def)
  have "held_inv (threads_step s e)"
  proof (rule held_step [OF l(3)])
    show "flag_kept e" using e by (cases e) simp_all
  qed
  moreover have "jobs_ok (threads_step s e) \<and> links (threads_step s e)"
  proof (cases "\<exists>t. turn_thread e = Some t \<and> length (ts_jobs s) \<le> t")
    case True
    then show ?thesis using l by (auto simp: threads_step_def)
  next
    case False
    have stuck: "jobs_ok (check_end t ok now s) \<and> links (check_end t ok now s)" "jobs_ok (probe_end t ok s) \<and> links (probe_end t ok s)"
      if "t < length (ts_jobs s)" for t ok now
      using l that unfolding jobs_ok_def check_end_def probe_end_def by (auto split: job.split)
    show ?thesis
      using e False shared_free [OF inv] shared_reports [OF inv] shared_openings [OF inv] shared_pool [OF inv] stuck l
      by (cases e) (simp_all add: threads_step_def)
  qed
  ultimately show ?thesis by (simp add: shared_inv_def)
qed

lemma shared_init: "shared_inv (threads_init addr n)"
proof -
  have "sys_inv (system_init (\<lambda>_. False))"
    by (simp add: inv_unfold ctl_ok_def system_init_def controller_init_def ups_def)
  moreover have "wc (system_init (\<lambda>_. False)) st = 0" for st
    by (simp add: wc_def works_def system_init_def controller_init_def)
  ultimately have "links (threads_init addr n)"
    by (simp add: links_def works_ok_def streams_ok_def threads_init_def stream_of_def is_connected_def)
       (simp add: system_init_def controller_init_def)
  then show ?thesis using held_init [of addr n] by (simp add: shared_inv_def jobs_ok_def) (simp add: threads_init_def)
qed

interpretation shared: guarded_invariant threads_step cooperative shared_inv
  by unfold_locales (rule shared_step)

section \<open>One thread per stream\<close>

lemma filter_length_mono: "(\<And>x. x \<in> set xs \<Longrightarrow> P x \<Longrightarrow> Q x) \<Longrightarrow> length (filter P xs) \<le> length (filter Q xs)"
  by (induction xs) auto

lemma jobs_okD: "jobs_ok s \<Longrightarrow> j \<in> set (ts_jobs s) \<Longrightarrow> job_ok s j"
  by (auto simp: jobs_ok_def in_set_conv_nth)

lemma using_one:
  assumes "shared_inv s"
  shows "length (filter (uses_stream st) (ts_jobs s)) \<le> 1"
proof (cases "\<exists>a. stream_of a s = Some st")
  case True
  then obtain a where a: "stream_of a s = Some st" by blast
  have l: "links s" "jobs_ok s" "held_inv s" using assms by (simp_all add: shared_inv_def)
  have "holds a j" if "j \<in> set (ts_jobs s)" "uses_stream st j" for j
    using jobs_okD [OF l(2) that(1)] that(2) streams_okD(3) [OF linksD(2) [OF l(1)] a] by (cases j) auto
  then have "length (filter (uses_stream st) (ts_jobs s)) \<le> holders a s"
    unfolding holders_def by (rule filter_length_mono)
  with holders_le_one [OF l(3), of a] show ?thesis by simp
next
  case False
  have "\<not> uses_stream st j" if "j \<in> set (ts_jobs s)" for j
    using jobs_okD [of s, OF _ that] assms False by (cases j) (auto simp: shared_inv_def)
  then have "filter (uses_stream st) (ts_jobs s) = []" by (simp add: filter_empty_conv)
  then show ?thesis by simp
qed

text \<open>A connection that is up waits for no reconnect.\<close>

lemma up_not_owed:
  assumes "links s" "is_connected a s" "stream_of a s = Some st"
  shows "wc (ts_sys s) st = 0"
proof -
  obtain m where m: "m \<in> set (ts_managed s)" "mc_flag m = Some a" using linksD(6) [OF assms(1,2)] by blast
  then have st: "mc_stream m = st" using linksD(3) [OF assms(1) m(1)] assms(3) by (auto simp: entry_for_def)
  obtain i where i: "i < length (ts_managed s)" "ts_managed s ! i = m" using m(1) by (auto simp: in_set_conv_nth)
  have "entry_inv (ts_sys s) i" using linksD(1) [OF assms(1)] i(1) by (simp add: sys_inv_def)
  then have "owed (ts_sys s) i = 0" using assms(2) m(2) by (simp add: entry_inv_def i(2) is_connected_def up_def Let_def)
  then show ?thesis by (simp add: owed_def i(2) st wc_def)
qed

lemma reopeners_works: "reopeners st s \<le> wc (ts_sys s) st"
proof -
  have eq: "length (filter (\<lambda>w. rw_stream w = st) ws) = count (image_mset rw_stream (mset ws)) st" for ws
    by (induction ws) auto
  show ?thesis unfolding reopeners_def wc_eq eq by simp
qed

lemma users_le_one:
  assumes "shared_inv s"
  shows "users st s \<le> 1"
proof (cases "filter (uses_stream st) (ts_jobs s) = []")
  case True
  have "links s" using assms by (simp add: shared_inv_def)
  from reopeners_works [of st s] linksD(4) [OF this, of st] show ?thesis by (simp add: users_def True)
next
  case False
  then obtain j where j: "j \<in> set (ts_jobs s)" "uses_stream st j" by (auto simp: filter_empty_conv)
  have l: "links s" "jobs_ok s" using assms by (simp_all add: shared_inv_def)
  obtain a where "j = Exchanging a st" using jobs_okD [OF l(2) j(1)] j(2) by (cases j) auto
  then have "is_connected a s" "stream_of a s = Some st" using jobs_okD [OF l(2) j(1)] by simp_all
  then have "reopeners st s = 0" using up_not_owed [OF l(1)] reopeners_works [of st s] by simp
  with using_one [OF assms] show ?thesis by (simp add: users_def)
qed

lemma shared_run: "guarded cooperative threads_step (threads_init addr n) es \<Longrightarrow> shared_inv (threads_run (threads_init addr n) es)"
  unfolding threads_run_def by (rule shared.guarded_run [OF shared_init])

lemma exchange_owns:
  assumes "shared_inv s" "Exchanging a st \<in> set (ts_jobs s)"
  shows "stream_of a s = Some st" "is_connected a s" "is_taken a s" "stream_of b s = Some st \<Longrightarrow> b = a"
proof -
  have l: "links s" "jobs_ok s" "held_inv s" using assms(1) by (simp_all add: shared_inv_def)
  show st: "stream_of a s = Some st" "is_connected a s" using jobs_okD [OF l(2) assms(2)] by simp_all
  obtain t where "t < length (ts_jobs s)" "ts_jobs s ! t = Exchanging a st" using assms(2) by (auto simp: in_set_conv_nth)
  with held_flag [OF l(3), of t a] show "is_taken a s" by simp
  show "stream_of b s = Some st \<Longrightarrow> b = a" using streams_okD(3) [OF linksD(2) [OF l(1)] st(1)] .
qed

lemma threads_exclusive:
  assumes "s = threads_run (threads_init addr n) es" "list_all flag_kept es"
  shows "holders a s \<le> 1 \<and> (guarded cooperative threads_step (threads_init addr n) es \<longrightarrow> users st s \<le> 1
    \<and> (Exchanging a st \<in> set (ts_jobs s) \<longrightarrow> stream_of a s = Some st \<and> is_connected a s \<and> is_taken a s
       \<and> (\<forall>b. stream_of b s = Some st \<longrightarrow> b = a)))"
proof -
  have "held_inv s" unfolding assms(1) threads_run_def by (rule held.inv_run [OF held_init assms(2)])
  then have "holders a s \<le> 1" by (rule holders_le_one)
  then show ?thesis using users_le_one exchange_owns shared_run [of addr n es] unfolding assms(1) by blast
qed

section \<open>Streams that are shared\<close>

text \<open>One connection that is up, a query on it, and three runs: a race that was lost lets the
  connection go, another query begins its exchange, then the race reports the failure and a reconnect
  worker reopens the same stream; an opening takes a connection away while a worker opens its stream;
  and the loop of \<open>doPost\<close> goes on when the vector has become shorter, past a connection that is
  being opened.\<close>

definition one_up :: "turn list" where
  "one_up = [Add, Spawn 0, Close_Old 2, Async_Opened 2 True 0]"

definition querying :: "nat \<Rightarrow> turn list" where
  "querying t = [Look t 0, Claim t, Begin t]"

definition lost_race :: "turn list" where
  "lost_race = one_up @ querying 0 @ [Race_End 0 False] @ querying 1
     @ [Late_Report 0 0, Controls Worker_Takes, Controls (Worker_Looks 0)]"

definition opened_twice :: "turn list" where
  "opened_twice = one_up @ querying 0 @ [Reply 0 False 0, Give_Up 0, Controls Worker_Takes, Controls (Worker_Looks 0),
     Walk 0, Walk_On 0, Close_Old 0]"

definition past_the_end :: "turn list" where
  "past_the_end = [Add, Add, Add, Spawn 1, Walk 0, Walk_On 0, Close_Old 0, Drop_Last, Reopened 0 False 0, Walk_On 0, Walk_On 0]"

lemmas run_defs = one_up_def querying_def lost_race_def opened_twice_def past_the_end_def

lemma lost_race_run: "users 0 (threads_run (threads_init addr 2) lost_race) = 2"
  by code_simp

lemma opened_twice_run:
  "stream_of 0 (threads_run (threads_init addr 2) opened_twice) = None" "reopeners 0 (threads_run (threads_init addr 2) opened_twice) = 1"
  by code_simp+

lemma past_the_end_run: "Undefined \<in> set (ts_jobs (threads_run (threads_init addr 2) past_the_end))"
  "guarded cooperative threads_step (threads_init addr 2) past_the_end"
  by code_simp+

lemma busy_run:
  "guarded cooperative threads_step (threads_init addr 2) (one_up @ querying 0)"
  "ts_jobs (threads_run (threads_init addr 2) (one_up @ querying 0)) = [Exchanging 0 0, Free, Free]"
  "ts_vector (threads_run (threads_init addr 2) (one_up @ querying 0)) = [0]"
  by code_simp+

lemma users_here:
  assumes "shared_inv s" "t < length (ts_jobs s)" "ts_jobs s ! t = Exchanging a st"
  shows "users st s = 1" "reopeners st s = 0"
proof -
  have "Exchanging a st \<in> set (filter (uses_stream st) (ts_jobs s))" using nth_mem [OF assms(2)] assms(3) by simp
  then have "0 < length (filter (uses_stream st) (ts_jobs s))" by (rule length_pos_if_in_set)
  moreover have "length (filter (uses_stream st) (ts_jobs s)) + reopeners st s \<le> 1"
    using users_le_one [OF assms(1), of st] unfolding users_def .
  ultimately show "users st s = 1" "reopeners st s = 0" unfolding users_def by linarith+
qed

lemma one_more_user:
  assumes "users st s = 1" "u < length (ts_jobs s)" "ts_jobs s ! u = Free" "uses_stream st j"
    and "ts_jobs s' = (ts_jobs s)[u := j]" "ts_sys s' = ts_sys s"
  shows "users st s' = 2"
proof -
  have "length (filter (uses_stream st) (ts_jobs s')) = length (filter (uses_stream st) (ts_jobs s)) + 1"
    using filter_update [OF assms(2), of "uses_stream st" j] assms(3,4) unfolding assms(5) by simp
  moreover have "reopeners st s' = reopeners st s" by (simp add: reopeners_def assms(6))
  ultimately show ?thesis using assms(1) unfolding users_def by linarith
qed

lemma check_shares:
  assumes inv: "shared_inv s" and t: "t < length (ts_jobs s)" "ts_jobs s ! t = Exchanging a st"
    and u: "u < length (ts_jobs s)" "ts_jobs s ! u = Free" and a: "a \<in> set (ts_vector s)"
  shows "users st (threads_step s (Check u a)) = 2" "\<not> is_taken a (threads_run s [Check u a, Check_End u ok now])"
proof -
  have "Exchanging a st \<in> set (ts_jobs s)" using nth_mem [OF t(1)] t(2) by simp
  note e = exchange_owns [OF inv this]
  have c: "threads_step s (Check u a) = to_job u (Checking a st) (take_conn a s)"
    using u a e(1,2) by (simp add: threads_step_def check_conn_def)
  show "users st (threads_step s (Check u a)) = 2"
    by (rule one_more_user [OF users_here(1) [OF inv t] u, where j = "Checking a st"]) (simp_all add: c)
  show "\<not> is_taken a (threads_run s [Check u a, Check_End u ok now])"
    using u by (simp add: threads_run_def c) (simp add: threads_step_def check_end_def)
qed

lemma probe_shares:
  assumes inv: "shared_inv s" and t: "t < length (ts_jobs s)" "ts_jobs s ! t = Exchanging a st"
    and u: "u < length (ts_jobs s)" "ts_jobs s ! u = Free" and i: "(i, st) \<in> set (idle_candidates now (ctl (ts_sys s)))"
  shows "users st (threads_step s (Probe u i now)) = 2"
proof -
  have "mc_stream (ts_managed s ! i) = st" using i by (auto simp: idle_candidates_def in_set_enumerate_eq)
  then have c: "threads_step s (Probe u i now) = to_job u (Probing i st) s"
    using u i by (simp add: threads_step_def probe_conn_def Let_def)
  show ?thesis by (rule one_more_user [OF users_here(1) [OF inv t] u, where j = "Probing i st"]) (simp_all add: c)
qed

lemma checks_share:
  assumes "s = threads_run (threads_init addr n) es" "guarded cooperative threads_step (threads_init addr n) es"
    and "t < length (ts_jobs s)" "ts_jobs s ! t = Exchanging a st" "u < length (ts_jobs s)" "ts_jobs s ! u = Free"
    and "a \<in> set (ts_vector s)"
  shows "users st (threads_step s (Check u a)) = 2 \<and> \<not> is_taken a (threads_run s [Check u a, Check_End u ok now])
    \<and> ((i, st) \<in> set (idle_candidates now (ctl (ts_sys s))) \<longrightarrow> users st (threads_step s (Probe u i now)) = 2)
    \<and> stream_of a (threads_step s Drain) = None
    \<and> users 0 (threads_run (threads_init addr 2) lost_race) = 2
    \<and> stream_of 0 (threads_run (threads_init addr 2) opened_twice) = None \<and> reopeners 0 (threads_run (threads_init addr 2) opened_twice) = 1
    \<and> Undefined \<in> set (ts_jobs (threads_run (threads_init addr 2) past_the_end))"
proof -
  have inv: "shared_inv s" unfolding assms(1) by (rule shared_run [OF assms(2)])
  have "stream_of a (threads_step s Drain) = None" using assms(7) by (simp add: threads_step_def drained_frame)
  with check_shares [OF inv assms(3-7)] probe_shares [OF inv assms(3-6)] show ?thesis
    by (simp add: lost_race_run opened_twice_run past_the_end_run(1))
qed

section \<open>A query of \<open>Http_Pool\<close> is a run\<close>

text \<open>One pool of a resolver as the threads see it, at the addresses of its connections, with the
  controller of the resolver and what the controller's threads hold.\<close>

definition shared_heap :: "http_conn list \<Rightarrow> nat \<Rightarrow> shared_conn" where
  "shared_heap cs a = (case conn_index a cs of
     None \<Rightarrow> \<lparr>sc_taken = False, sc_stream = None\<rparr>
   | Some j \<Rightarrow> \<lparr>sc_taken = hc_inUse (cs ! j), sc_stream = hc_stream (cs ! j)\<rparr>)"

definition shared_of :: "nat \<Rightarrow> http \<Rightarrow> system \<Rightarrow> job list \<Rightarrow> threads" where
  "shared_of p s y js = (let u = hp_url (pools s ! p) in
     \<lparr>ts_sys = y\<lparr>ctl := cc s\<rparr>, ts_heap = shared_heap (conns p s), ts_next = next_id s, ts_vector = map hc_id (conns p s),
      ts_streams = next_stream s, ts_addr = (u_host u, u_port u, u_target u), ts_jobs = js\<rparr>)"

lemma index_same_ids: "map hc_id cs' = map hc_id cs \<Longrightarrow> conn_index a cs' = conn_index a cs"
proof (induction cs arbitrary: cs')
  case (Cons c cs)
  then obtain c' ds where c: "cs' = c' # ds" "hc_id c' = hc_id c" "map hc_id ds = map hc_id cs" by (cases cs') auto
  from Cons.IH [OF c(3)] show ?case by (simp add: c(1,2))
qed simp

lemma index_own: "distinct (map hc_id cs) \<Longrightarrow> j < length cs \<Longrightarrow> conn_index (hc_id (cs ! j)) cs = Some j"
proof (induction cs arbitrary: j)
  case (Cons c cs)
  then show ?case by (cases j) (auto simp: set_map)
qed simp

lemma index_id: "conn_index a cs = Some j \<Longrightarrow> j < length cs \<and> hc_id (cs ! j) = a"
  by (induction cs arbitrary: j) (auto split: if_splits)

lemma shared_heap_update:
  assumes "distinct (map hc_id cs)" "j < length cs"
  shows "shared_heap (cs[j := (cs ! j)\<lparr>hc_inUse := b\<rparr>]) =
    (shared_heap cs)(hc_id (cs ! j) := (shared_heap cs (hc_id (cs ! j)))\<lparr>sc_taken := b\<rparr>)"
proof
  fix a
  have i: "conn_index a (cs[j := (cs ! j)\<lparr>hc_inUse := b\<rparr>]) = conn_index a cs"
    by (rule index_same_ids) (use assms(2) in \<open>simp add: map_update_same\<close>)
  show "shared_heap (cs[j := (cs ! j)\<lparr>hc_inUse := b\<rparr>]) a =
      ((shared_heap cs)(hc_id (cs ! j) := (shared_heap cs (hc_id (cs ! j)))\<lparr>sc_taken := b\<rparr>)) a"
    using index_own [OF assms] index_id [of a cs] assms(2) unfolding shared_heap_def i
    by (cases "conn_index a cs") (auto simp: nth_list_update)
qed

lemma shared_inUse:
  assumes "p < length (pools s)" "j < length (conns p s)" "distinct (map hc_id (conns p s))"
  shows "shared_of p (set_inUse p j b s) y js = on_conn (hc_id (conns p s ! j)) (\<lambda>c. c\<lparr>sc_taken := b\<rparr>) (shared_of p s y js)"
proof -
  have "hp_url (pools (set_inUse p j b s) ! p) = hp_url (pools s ! p)" "next_id (set_inUse p j b s) = next_id s"
    "next_stream (set_inUse p j b s) = next_stream s"
    using assms(1) by (simp_all add: set_inUse_def upd_conn_def upd_pool_def)
  then show ?thesis using assms shared_heap_update [OF assms(3,2)]
    by (simp add: shared_of_def on_conn_def Let_def map_update_same)
qed

lemma query_run:
  assumes "t < length (ts_jobs s)" "ts_jobs s ! t = Free" "a \<in> set (ts_vector s)" "is_connected a s" "\<not> is_taken a s" "stream_of a s = Some st"
  shows "threads_run s [Look t a, Claim t, Begin t, Reply t True now, Late_Report t now] = report True now a (let_go a (take_conn a s))"
proof -
  have same: "(ts_jobs s)[t := Free] = ts_jobs s" using assms(2) list_update_id [of "ts_jobs s" t] by simp
  have run: "threads_run s [Look t a, Claim t, Begin t, Reply t True now, Late_Report t now] =
      to_job t Free (report True now a (to_job t (Late a True) (let_go a (to_job t (Exchanging a st) (to_job t (Held a) (take_conn a (to_job t (Seen a) s)))))))"
    using assms
    by (simp add: threads_run_def threads_step_def look_def claim_conn_def begin_exchange_def end_exchange_def late_report_def)
  show ?thesis unfolding run using assms(6) same
    by (cases s) (simp add: report_def on_own_def on_ctl_def job_defs)
qed

text \<open>A query that \<open>try_pool\<close> answers is a run in which a thread looks, claims, exchanges, lets go and
  reports. The counters of a pool and of the network are not in the threads' state.\<close>

lemma shared_frame:
  assumes "p < length (pools s)" "\<And>q. hp_conns (f q) = hp_conns q" "\<And>q. hp_url (f q) = hp_url q"
  shows "shared_of p (upd_pool p f s) y js = shared_of p s y js" "shared_of p (s\<lparr>net_calls := n\<rparr>) y js = shared_of p s y js"
  using assms by (simp_all add: shared_of_def upd_pool_def Let_def)

lemma next_taken:
  assumes p: "p < length (pools s)" and i: "0 \<le> sint (hp_next (pools s ! p))" and d: "distinct (map hc_id (conns p s))"
    and r: "getNextConnection p s = (s', Inr (Some j))"
  shows "j < length (conns p s)" "conn_up s (conns p s ! j)" "\<not> hc_inUse (conns p s ! j)"
    "\<exists>s0. s' = set_inUse p j True s0 \<and> pools s0 = (pools s)[p := (pools s ! p)\<lparr>hp_next := hp_next (pools s ! p) + 1\<rparr>] \<and> cc s0 = cc s
      \<and> (\<forall>y js. shared_of p s0 y js = shared_of p s y js)"
proof -
  show j: "j < length (conns p s)" "conn_up s (conns p s ! j)" "\<not> hc_inUse (conns p s ! j)"
    using getNextConnection_ok [OF i] r by simp_all
  let ?s = "upd_pool p (\<lambda>q. q\<lparr>hp_next := hp_next q + 1\<rparr>) s"
  have "s' = set_inUse p j True ?s"
    using r by (auto simp: getNextConnection_def Let_def split: if_splits sum.splits option.splits)
  then show "\<exists>s0. s' = set_inUse p j True s0 \<and> pools s0 = (pools s)[p := (pools s ! p)\<lparr>hp_next := hp_next (pools s ! p) + 1\<rparr>] \<and> cc s0 = cc s
      \<and> (\<forall>y js. shared_of p s0 y js = shared_of p s y js)"
    using p by (intro exI [of _ ?s]) (simp add: shared_frame, simp add: upd_pool_def)
qed

lemma try_pool_is_run:
  assumes p: "p < length (pools s)" and i: "0 \<le> sint (hp_next (pools s ! p))" and d: "distinct (map hc_id (conns p s))"
    and r: "try_pool net now p s = (s', Inr (Some m))" and t: "t < length js" "js ! t = Free"
  shows "\<exists>a. shared_of p s' y js = threads_run (shared_of p s y js) [Look t a, Claim t, Begin t, Reply t True now, Late_Report t now]"
proof -
  obtain s1 j where next_conn: "getNextConnection p s = (s1, Inr (Some j))"
    using r by (auto simp: try_pool_def split: prod.splits sum.splits option.splits)
  note c = next_taken [OF p i d next_conn]
  obtain s0 where s0: "s1 = set_inUse p j True s0" "pools s0 = (pools s)[p := (pools s ! p)\<lparr>hp_next := hp_next (pools s ! p) + 1\<rparr>]"
    "cc s0 = cc s" "\<And>y js. shared_of p s0 y js = shared_of p s y js" using c(4) by blast
  have p0: "p < length (pools s0)" "conns p s0 = conns p s" using p s0(2) by simp_all
  let ?a = "hc_id (conns p s ! j)" and ?s = "shared_of p s y js" and ?s1 = "s1\<lparr>net_calls := net_calls s1 + 1\<rparr>"
  have s': "s' = exchange_succeeded now p j (set_inUse p j False ?s1)" and st1: "hc_stream (conns p s1 ! j) \<noteq> None"
    using r next_conn by (auto simp: try_pool_def do_exchange_def Let_def split: if_splits sum.splits option.splits)
  have conns1: "conns p s1 = (conns p s)[j := (conns p s ! j)\<lparr>hc_inUse := True\<rparr>]" "length (pools s1) = length (pools s0)"
    using p0 by (simp_all add: s0(1))
  then obtain st where st: "hc_stream (conns p s ! j) = Some st" using st1 c(1) by auto
  have own: "sc_stream (shared_heap (conns p s) ?a) = Some st" "sc_taken (shared_heap (conns p s) ?a) = hc_inUse (conns p s ! j)"
    using index_own [OF d c(1)] st by (simp_all add: shared_heap_def)
  have is_taken: "shared_of p s1 y js = take_conn ?a ?s"
    unfolding s0(1) take_conn_def using shared_inUse [of p s0 j True y js] p0 c(1) d by (simp add: s0(4))
  have ids: "map hc_id (conns p s1) = map hc_id (conns p s)" using c(1) by (simp add: conns1 map_update_same)
  have freed: "shared_of p (set_inUse p j False ?s1) y js = let_go ?a (take_conn ?a ?s)"
    unfolding let_go_def is_taken [symmetric]
    using shared_inUse [of p ?s1 j False y js] shared_frame(2) [of p s1 "\<lambda>q. q" "net_calls s1 + 1" y js] p0 conns1 c(1) d ids
    by simp
  have "shared_of p s' y js = report True now ?a (let_go ?a (take_conn ?a ?s))"
  proof -
    let ?s2 = "set_inUse p j False ?s1"
    have p2: "p < length (pools ?s2)" and stream2: "hc_stream (conns p ?s2 ! j) = Some st"
      using p0 conns1 c(1) st by simp_all
    have s2: "s' = upd_pool p (\<lambda>q. q\<lparr>hp_successes := hp_successes q + 1\<rparr>) (?s2\<lparr>cc := notifyUsed st now (cc ?s2)\<rparr>)"
      unfolding s' exchange_succeeded_def on_stream_def by (simp only: stream2 option.case)
    have "shared_of p s' y js = shared_of p (?s2\<lparr>cc := notifyUsed st now (cc ?s2)\<rparr>) y js"
      unfolding s2 by (rule shared_frame(1)) (use p2 in simp_all)
    also have "\<dots> = on_ctl (notifyUsed st now) (shared_of p ?s2 y js)" by (simp add: shared_of_def on_ctl_def Let_def)
    also have "\<dots> = report True now ?a (let_go ?a (take_conn ?a ?s))"
      using own(1) unfolding freed by (simp add: report_def on_own_def) (simp add: stream_of_def shared_of_def Let_def)
    finally show ?thesis .
  qed
  moreover have "threads_run ?s [Look t ?a, Claim t, Begin t, Reply t True now, Late_Report t now] = report True now ?a (let_go ?a (take_conn ?a ?s))"
    by (rule query_run [where st = st])
       (use t c(1-3) own in \<open>simp_all add: shared_of_def Let_def is_connected_def conn_up_def is_taken_def stream_of_def set_map\<close>)
  ultimately show ?thesis by metis
qed

end
