(* ===== verification/Http_Properties.thy ===== *)
theory Http_Properties
  imports Http_Runs Http_Threads_Proofs Cache_Properties
begin

text \<open>
  The properties of the DNS-over-HTTPS resolver: its exchanges, its connection pools, and the way
  they share their connections with the controller.
\<close>

section \<open>Concrete requests and networks\<close>

lemma h_pack: "pack (w_request i) = Inr (encode (w_request i))"
  using wf_message_sendable [OF w_request_wf] by (simp add: pack_eq_encode)

definition h_header :: bytes where
  "h_header = lit ''HTTP/1.1 200 OK'' @ CRLF @ lit ''Content-Length: 3'' @ CRLF @ lit ''Server: x''"

lemma h_split: "concat [take k r, drop k r] = r"
  by simp

definition h_last :: bytes where
  "h_last = lit ''HTTP/1.1 200 OK'' @ CRLF"

definition h_net :: http_net where
  "h_net = \<lparr>hn_exchange = (\<lambda>_. Inr None), hn_open = (\<lambda>_. False)\<rparr>"

definition h_env :: http_env where
  "h_env = \<lparr>he_proxy = \<lparr>pe_file = Some (lit ''http://proxy:8080/''), pe_var = (\<lambda>_. None), pe_gnome = ([], [], [])\<rparr>,
     he_mtime = None, he_net = h_net, he_udp = (\<lambda>_ _ _. None), he_now = 5, he_us = 1, he_in_time = (\<lambda>_. True), he_order = [],
     he_recommended = 24, he_fanOut = False, he_noise = False\<rparr>"

definition h_created :: http_resolver where
  "h_created = http_create ((he_proxy h_env)\<lparr>pe_file := None\<rparr>) perf_init (lit ''https://dns.google/dns-query'') [] []"

lemma h_created_ok: "resolver_ok h_created"
  unfolding h_created_def by (rule http_create_ok)

section \<open>Exchanges\<close>

text \<open>C22: However a complete response arrives in segments, and whatever follows it on the stream,
  an exchange reads exactly it: with status 200, a header that ends at its first empty line
  and a Content-Length line before its last line that gives the length of the nonempty body,
  the result is the parsed body.\<close>

theorem framing_independent:
  "complete_response hdr body \<Longrightarrow> contains (lit ''200'') (takeWhile (\<lambda>c. c \<noteq> 13) hdr) \<Longrightarrow>
    concat cs = hdr @ header_end @ body \<Longrightarrow>
    exchange True True (map Chunk cs @ es) = (case parse body of Inl e \<Rightarrow> Inl (Dns e) | Inr m \<Rightarrow> Inr (Some m))"
  by (rule exchange_framed)

theorem framing_independent_witness:
  "exchange True True [Chunk (take 40 (h_header @ header_end @ [1, 2, 3])), Chunk (drop 40 (h_header @ header_end @ [1, 2, 3])), Failed]
    = (case parse [1, 2, 3] of Inl e \<Rightarrow> Inl (Dns e) | Inr m \<Rightarrow> Inr (Some m))"
  proof -
  let ?r = "h_header @ header_end @ [1, 2, 3]"
  have "find_sub header_end (h_header @ header_end) = Some (length h_header)" "content_length h_header = Inr (Some 3)"
    "contains (lit ''200'') (takeWhile (\<lambda>c. c \<noteq> 13) h_header)" by code_simp+
  then have "complete_response h_header [1, 2, 3]" "contains (lit ''200'') (takeWhile (\<lambda>c. c \<noteq> 13) h_header)"
    by (simp_all add: complete_response_def)
  from framing_independent [OF this h_split [of 40], of "[Failed]"] show ?thesis by simp
qed

text \<open>A Content-Length in the last line of the header is not found, because the search ends before
  the line end of that line: reading stops with the header, and a body that arrives in a later
  segment is lost.\<close>

lemma last_content_length_ignored:
  "find_sub cl_tag (h @ cl_tag) = Some (length h) \<Longrightarrow> list_all isdigit ds \<Longrightarrow>
    find_sub header_end ((h @ cl_tag @ ds) @ header_end) = Some (length (h @ cl_tag @ ds)) \<Longrightarrow>
    \<not> contains (lit ''chunked'') (h @ cl_tag @ ds) \<Longrightarrow>
    exchange True True (Chunk ((h @ cl_tag @ ds) @ header_end) # Chunk body # es) = Inr None"
  using header_only [of "h @ cl_tag @ ds"] content_length_last [of h ds] by blast

text \<open>When the server closes the connection inside the body, the bytes received are parsed as a
  message of the announced length, that is also past the end of what was received.\<close>

lemma short_body_read_past:
  "find_sub header_end (hdr @ header_end) = Some (length hdr) \<Longrightarrow> content_length hdr = Inr (Some n) \<Longrightarrow>
    contains (lit ''200'') (takeWhile (\<lambda>c. c \<noteq> 13) hdr) \<Longrightarrow> length body < n \<Longrightarrow>
    exchange True True [Chunk (hdr @ header_end @ body), Eof]
      = (case parse_span body n of Inl e \<Rightarrow> Inl (Dns e) | Inr m \<Rightarrow> Inr (Some m))"
  by (rule cut_short)

section \<open>Addresses\<close>

text \<open>The URL of an upstream is taken apart into the host, port and path it was written with;
  without a port and path the defaults 443 and /dns-query are used.\<close>

lemma upstream_url_parsed:
  "58 \<notin> set scheme \<Longrightarrow> 58 \<notin> set host \<Longrightarrow> 47 \<notin> set host \<Longrightarrow> 47 \<notin> set port \<Longrightarrow>
    parseUrl (scheme @ lit ''://'' @ host @ 58 # port @ 47 # path) = \<lparr>u_host = host, u_port = port, u_target = 47 # path\<rparr>
    \<and> parseUrl (scheme @ lit ''://'' @ host) = \<lparr>u_host = host, u_port = lit ''443'', u_target = lit ''/dns-query''\<rparr>"
  using parseUrl_full parseUrl_short by blast

section \<open>Pools and controller\<close>

definition h_thread :: http_thread where
  "h_thread = \<lparr>lastProxyCheck = 0, queryCount = 0\<rparr>"

definition h_events :: "http_event list" where
  "h_events = [Reload (he_proxy h_env) 24, Query h_env (w_request 1), Opened h_net 7 0, Section Scan_Down,
     Section (Check_Failed 0 0), Query h_env (w_request 2)]"

text \<open>C23: In every run of a resolver with one upstream, made of queries (with their look at the
  proxy file), ends of background openings, warm-ups, reloads and, between these, sections of
  the controller's own threads, with any outcomes of the network and any requests, the
  controller's counter is the number of managed connections that are up, and every connection
  it manages is a connection of the pool, known to it by its current stream and its own flag.
  Two conditions are asked of the run: a reload, whoever makes it, does not switch between
  proxy and direct connections while a background opening is pending, and a connection is
  still down when a reconnect worker has reopened it; a warm-up opens connections of the pool
  and does not throw.\<close>

theorem connection_bookkeeping:
  "guarded http_calm http_step (th, http_create env pm primary [] fallback) es \<Longrightarrow>
    s = hr_pools (snd (foldl http_step (th, http_create env pm primary [] fallback) es)) \<Longrightarrow>
    connectedCount (cc s) = int (length (filter (up (conn_flags (cc s))) (managed (cc s))))
    \<and> (\<forall>m \<in> set (managed (cc s)). \<exists>p j. entry_of_conn s m (p, j))"
  using http_runs.guarded_run [of "(th, http_create env pm primary [] fallback)" es] http_create_ok [of env pm primary fallback]
  by (auto simp: resolver_ok_def http_ok_def http_inv_def ctl_ok_def ups_def)

theorem connection_bookkeeping_witness:
  "\<exists>s. s = hr_pools (snd (foldl http_step (h_thread, h_created) h_events))
    \<and> connectedCount (cc s) = int (length (filter (up (conn_flags (cc s))) (managed (cc s))))"
  proof -
  have "async_opens (hr_pools h_created) = []" by (simp add: h_created_def http_create_def)
  then have "http_calm (h_thread, h_created) (Reload (he_proxy h_env) 24)" by (simp add: may_reload_def)
  moreover have "http_calm w (Query h_env m)" for w m
    by (cases w) (simp add: check_proxy_file_def h_env_def may_reload_def)
  ultimately have "guarded http_calm http_step (h_thread, h_created) h_events"
    unfolding h_events_def by (simp del: http_calm.simps(1,4))
  from connection_bookkeeping [OF this [unfolded h_created_def] refl] show ?thesis unfolding h_created_def by blast
qed

text \<open>A reload that switches between proxy and direct connections, while no opening is pending,
  leaves the controller with no connection to manage; each pool then has the recommended share
  of new connections, at least two, and exactly these are being opened.\<close>

lemma reload_opens_all:
  "http_ok (hr_pools r) \<Longrightarrow> async_opens (hr_pools r) = [] \<Longrightarrow> pc_use (hr_config (reload env n r)) \<noteq> pc_use (hr_config r) \<Longrightarrow>
    s = hr_pools (reload env n r) \<Longrightarrow>
    managed (cc s) = [] \<and> (\<forall>p < length (pools s). length (conns p s) = nat (max 2 (n div int (length (pools (hr_pools r))))))
    \<and> async_opens s = concat (map (\<lambda>p. map (Pair p) (map hc_id (conns p s))) [0..<length (pools s)])"
  using reload_switches [of r env n] unfolding per_pool_def by blast

definition h_half :: http where
  "h_half = (fresh_pool (parseUrl (lit ''https://dns.google'')) 3)\<lparr>cc := controller_init (\<lambda>a. a = 2)\<rparr>"

text \<open>While the round robin counter has not overflowed, the search takes a connection that is up and
  not in use, and it comes back empty only if there is none.\<close>

lemma free_connection_found:
  "0 \<le> sint (hp_next (pools s ! p)) \<Longrightarrow>
    case snd (getNextConnection p s) of
      Inl e \<Rightarrow> False
    | Inr None \<Rightarrow> \<forall>c \<in> set (conns p s). \<not> (conn_up s c \<and> \<not> hc_inUse c)
    | Inr (Some j) \<Rightarrow> j < length (conns p s) \<and> conn_up s (conns p s ! j) \<and> \<not> hc_inUse (conns p s ! j)"
  by (rule getNextConnection_ok)

text \<open>C24: With one upstream, no racing of upstreams (fan-out off) and while no connection can be
  opened, each query marks one more connection as in use and never frees it: after k failing
  queries on a new pool the connections 1 to k are blocked for good, although nothing uses
  them.\<close>

theorem failed_openings_block:
  "length reqs < n \<Longrightarrow> (\<And>i. \<not> hn_open net i) \<Longrightarrow> recommended \<le> int n \<Longrightarrow>
    list_all (\<lambda>req. \<exists>wire. pack req = Inr wire) reqs \<Longrightarrow> s = post_all net recommended reqs (fresh_pool u n) \<Longrightarrow> i < n \<Longrightarrow>
    \<not> conn_up s (conns 0 s ! i) \<and> (hc_inUse (conns 0 s ! i) \<longleftrightarrow> 1 \<le> i \<and> i \<le> length reqs)"
  using post_all_blocked [of 0 "fresh_pool u n" reqs net recommended] fresh_pool_blocked [of n u]
  by (auto simp: blocked_def all_down_def)

theorem failed_openings_block_witness:
  "hc_inUse (conns 0 (post_all h_net 2 [w_request 1, w_request 2] (fresh_pool (parseUrl []) 3)) ! 2)"
  proof -
  have packs: "list_all (\<lambda>req. \<exists>wire. pack req = Inr wire) [w_request 1, w_request 2]" using h_pack by simp
  have closed: "\<And>i. \<not> hn_open h_net i" by (simp add: h_net_def)
  show ?thesis
    using conjunct2 [OF failed_openings_block [where n = 3 and i = 2, OF _ closed _ packs refl, of 2 "parseUrl []"]] by simp
qed

definition h_two :: http_resolver where
  "h_two = http_create (he_proxy h_env) perf_init (lit ''https://dns.google/dns-query'') (lit ''https://dns.quad9.net/dns-query'') []"

text \<open>C25: With two upstreams the periodic maintenance of a healthy first pool locks the mutex that
  it already holds: at least ten exchanges with less than 5 percent errors and fewer than 64
  connections suffice.\<close>

theorem maintenance_deadlocks:
  "2 \<le> length (pools s) \<Longrightarrow> 10 \<le> hp_successes (pools s ! 0) + hp_errors (pools s ! 0) \<Longrightarrow>
    hp_errors (pools s ! 0) * 100 div (hp_successes (pools s ! 0) + hp_errors (pools s ! 0)) < 5 \<Longrightarrow>
    length (conns 0 s) < 64 \<Longrightarrow> http_maintain s = Inl Deadlock"
  by (rule maintain_deadlock)

theorem maintenance_deadlocks_witness:
  "http_maintain (hr_pools h_two \<lparr>pools := map (\<lambda>q. q\<lparr>hp_successes := 10\<rparr>) (pools (hr_pools h_two))\<rparr>) = Inl Deadlock"
  by (rule maintenance_deadlocks) (simp_all add: h_two_def http_create_def new_pool_def lit_def)

section \<open>Threads\<close>



text \<open>C27: The flag does not protect an exchange from the rest of the program. A health check of
  warmUp that meets it, or one of the controller once the connection counts as idle, makes a
  second thread read and write the same stream; the end of warmUp's check frees the connection
  under the running exchange; and reload takes the stream away from it. A race that was lost
  lets its connections go before it reports the failure: in a run without checks and reload
  another query exchanges on the stream that a reconnect worker reopens because of the report.
  An opening closes and drops a stream while a reconnect worker is opening it. And the loop
  that reopens connections reads behind the end of the vector when maintenance has dropped a
  connection meanwhile.\<close>

theorem streams_shared_by_checks:
  "s = threads_run (threads_init addr n) es \<Longrightarrow> guarded cooperative threads_step (threads_init addr n) es \<Longrightarrow>
    t < length (ts_jobs s) \<Longrightarrow> ts_jobs s ! t = Exchanging a st \<Longrightarrow> u < length (ts_jobs s) \<Longrightarrow> ts_jobs s ! u = Free \<Longrightarrow>
    a \<in> set (ts_vector s) \<Longrightarrow>
    users st (threads_step s (Check u a)) = 2 \<and> \<not> is_taken a (threads_run s [Check u a, Check_End u ok now])
    \<and> ((i, st) \<in> set (idle_candidates now (ctl (ts_sys s))) \<longrightarrow> users st (threads_step s (Probe u i now)) = 2)
    \<and> stream_of a (threads_step s Drain) = None
    \<and> users 0 (threads_run (threads_init addr 2) lost_race) = 2
    \<and> stream_of 0 (threads_run (threads_init addr 2) opened_twice) = None \<and> reopeners 0 (threads_run (threads_init addr 2) opened_twice) = 1
    \<and> Undefined \<in> set (ts_jobs (threads_run (threads_init addr 2) past_the_end))"
  by (rule checks_share)

theorem streams_shared_by_checks_witness:
  "users 0 (threads_step (threads_run (threads_init ([], [], []) 2) (one_up @ querying 0)) (Check 1 0)) = 2
  \<and> users 0 (threads_step (threads_run (threads_init ([], [], []) 2) (one_up @ querying 0)) (Probe 1 0 4000000000)) = 2"
  proof -
  let ?s = "threads_run (threads_init ([], [], []) 2) (one_up @ querying 0)"
  have "(0, 0) \<in> set (idle_candidates 4000000000 (ctl (ts_sys ?s)))" by code_simp
  with streams_shared_by_checks [OF refl busy_run(1), where t = 0 and a = 0 and st = 0 and u = 1 and i = 0 and now = 4000000000] show ?thesis
    unfolding busy_run by simp
qed

end
