(* ===== verification/Conn_Stop.thy ===== *)
theory Conn_Stop
  imports Conn_Controller
begin

text \<open>
  \<open>ConnectionController::stop\<close>: once the maintenance thread has been joined and \<open>reconnectStop_\<close> is
  set, under the mutex this time, the reconnect workers go on until the queue is empty
  (\<open>reconnectLoop\<close>). Only they move then; a failed reconnect is queued again, at most five times.
\<close>

inductive drain_step :: "system \<Rightarrow> system \<Rightarrow> bool" where
  take: "reconnectQueue (ctl s) = w # ws \<Longrightarrow>
     drain_step s (s\<lparr>ctl := (ctl s)\<lparr>reconnectQueue := ws\<rparr>, in_delay := w # in_delay s\<rparr>)"
| try_it: "w \<in> set (in_delay s) \<Longrightarrow> reconnect_lookup w (ctl s) \<Longrightarrow>
     drain_step s (s\<lparr>in_delay := remove1 w (in_delay s), in_open := w # in_open s\<rparr>)"
| skip: "w \<in> set (in_delay s) \<Longrightarrow> \<not> reconnect_lookup w (ctl s) \<Longrightarrow>
     drain_step s (s\<lparr>in_delay := remove1 w (in_delay s)\<rparr>)"
| finish: "w \<in> set (in_open s) \<Longrightarrow>
     drain_step s (s\<lparr>ctl := reconnect_done ok now w (ctl s), in_open := remove1 w (in_open s)\<rparr>)"

inductive_cases drain_stepE: "drain_step s s'"

lemma drain_is_cc: "drain_step s s' \<Longrightarrow> cc_step strict s s'"
  by (induction rule: drain_step.induct) (auto intro: cc_step.intros)

section \<open>What is left to do\<close>

definition tries :: "reconnect_work \<Rightarrow> nat" where
  "tries w = 3 * (6 - rw_retries w)"

definition drain_rank :: "system \<Rightarrow> nat" where
  "drain_rank s = sum_list (map (\<lambda>w. tries w + 3) (reconnectQueue (ctl s)))
     + sum_list (map (\<lambda>w. tries w + 2) (in_delay s)) + sum_list (map (\<lambda>w. tries w + 1) (in_open s))"

lemma sum_list_remove1: "w \<in> set ws \<Longrightarrow> sum_list (map f (remove1 w ws)) + f w = (sum_list (map f ws) :: nat)"
  by (induction ws) auto

lemma queue_reconnect_done:
  "reconnectQueue (reconnect_done ok now w c) = reconnectQueue c
   \<or> rw_retries w < 5 \<and> reconnectQueue (reconnect_done ok now w c) = reconnectQueue c @ [w\<lparr>rw_retries := rw_retries w + 1\<rparr>]"
  by (cases ok) (auto simp: reconnect_done_def mark_up_def enqueue_work_def update_at_def split: option.split)

lemma drain_shrinks: "drain_step s s' \<Longrightarrow> drain_rank s' < drain_rank s"
proof (induction rule: drain_step.induct)
  case (take s w ws)
  then show ?case by (simp add: drain_rank_def)
next
  case (try_it w s)
  then show ?case using sum_list_remove1 [of w "in_delay s" "\<lambda>w. tries w + 2"] by (simp add: drain_rank_def)
next
  case (skip w s)
  then show ?case using sum_list_remove1 [of w "in_delay s" "\<lambda>w. tries w + 2"] by (simp add: drain_rank_def)
next
  case (finish w s ok now)
  then show ?case
    using sum_list_remove1 [of w "in_open s" "\<lambda>w. tries w + 1"] queue_reconnect_done [of ok now w "ctl s"]
    by (auto simp: drain_rank_def tries_def)
qed

lemma drain_enabled:
  assumes "works s \<noteq> []"
  shows "\<exists>s'. drain_step s s'"
proof -
  from assms consider w ws where "reconnectQueue (ctl s) = w # ws" | w where "w \<in> set (in_delay s)" | w where "w \<in> set (in_open s)"
    by (cases "reconnectQueue (ctl s)"; cases "in_delay s"; cases "in_open s") (auto simp: works_def)
  then show ?thesis
  proof cases
    case (2 w)
    then show ?thesis by (cases "reconnect_lookup w (ctl s)") (auto intro: drain_step.intros)
  qed (auto intro: drain_step.intros)
qed

interpretation draining: winding_down drain_step "\<lambda>_. True" drain_rank "\<lambda>s. works s = []"
  by unfold_locales (auto intro: drain_shrinks drain_enabled)

lemma rank_le: "drain_rank s \<le> 21 * length (works s)"
proof -
  have w: "sum_list (map (\<lambda>w. tries w + k) ws) \<le> 21 * length ws" if "k \<le> 3" for k ws
    using that by (induction ws) (auto simp: tries_def)
  show ?thesis using w [of 3 "reconnectQueue (ctl s)"] w [of 2 "in_delay s"] w [of 1 "in_open s"]
    by (simp add: drain_rank_def works_def)
qed

end
