(* ===== verification/Conn_Properties.thy ===== *)
theory Conn_Properties
  imports Conn_Proofs Conn_Stop
begin

text \<open>
  The properties of the connection controller.
\<close>

section \<open>Reconnecting\<close>

lemma reconnect_delay_bound: "n \<le> 5 \<Longrightarrow> reconnect_delay n \<le> 160"
proof -
  assume "n \<le> 5"
  then have "(2 :: nat) ^ n \<le> 2 ^ 5" by (intro power_increasing) simp_all
  with \<open>n \<le> 5\<close> show ?thesis by (simp add: reconnect_delay_def)
qed

definition c_managed :: system where
  "c_managed = (system_init (\<lambda>_. True))\<lparr>ctl := manage ([], [], []) 1 (Some 1) 0 (ctl (system_init (\<lambda>_. True)))\<rparr>"

lemma c_managed_reachable: "cc_reachable True c_managed"
proof -
  have "cc_step True (system_init (\<lambda>_. True)) c_managed"
    unfolding c_managed_def by (rule cc_manage) (simp_all add: system_init_def controller_init_def works_def)
  then show ?thesis unfolding cc_reachable_def by blast
qed

text \<open>C28: In every interleaving of the owner's calls, health checks, the maintenance thread and the
  reconnect workers in which no connection is removed between the sections of a maintenance
  round, and in which the owner keeps its own discipline (it registers a stream or a flag only
  while neither is registered and no reconnect is on its way for the stream, and writes a flag
  itself only while that is not registered): the counters are right; a connection that is
  waiting for a reconnect is down and has exactly one reconnect on its way, any other has
  none; and no reconnect is tried more than six times or waits longer than 160 ms.\<close>

theorem controller_consistent:
  "cc_reachable True s \<Longrightarrow>
    connectedCount (ctl s) = int (length (filter (up (conn_flags (ctl s))) (managed (ctl s)))) \<and> totalCount (ctl s) = length (managed (ctl s))
    \<and> (\<forall>i < length (managed (ctl s)). owed s i = of_bool (mc_reconnectPending (managed (ctl s) ! i))
        \<and> (mc_reconnectPending (managed (ctl s) ! i) \<longrightarrow> \<not> up (conn_flags (ctl s)) (managed (ctl s) ! i)))
    \<and> (\<forall>w \<in> set (works s). rw_retries w \<le> 5 \<and> reconnect_delay (rw_retries w) \<le> 160)"
  using cc_reachable_inv [of s] reconnect_delay_bound
  by (auto simp: sys_inv_def ctl_ok_def ups_def entry_inv_def Let_def)

theorem controller_consistent_witness:
  "connectedCount (ctl c_managed) = int (length (filter (up (conn_flags (ctl c_managed))) (managed (ctl c_managed))))"
  using controller_consistent [OF c_managed_reachable] by (simp add: system_init_def controller_init_def)

text \<open>Without that restriction the bookkeeping breaks: a run that removes one connection between the
  two sections of a maintenance round ends with a counter that is too high and with a
  connection that is down, marked as waiting for a reconnect, and has none on its way.\<close>

lemma stale_index_loses_connection:
  "\<exists>s. cc_reachable False s \<and> connectedCount (ctl s) = int (length (filter (up (conn_flags (ctl s))) (managed (ctl s)))) + 1
    \<and> works s = [] \<and> to_enqueue s = [] \<and> list_ex (\<lambda>m. mc_reconnectPending m \<and> \<not> up (conn_flags (ctl s)) m) (managed (ctl s))"
  proof -
  have "\<not> Option.is_none (cc_run lost_run (system_init (\<lambda>_. True)))" by code_simp
  then have run: "cc_run lost_run (system_init (\<lambda>_. True)) = Some lost_state"
    by (cases "cc_run lost_run (system_init (\<lambda>_. True))") (simp_all add: lost_state_def)
  from cc_run_steps [OF this] have "cc_reachable False lost_state" unfolding cc_reachable_def by blast
  moreover have "connectedCount (ctl lost_state) = int (length (filter (up (conn_flags (ctl lost_state))) (managed (ctl lost_state)))) + 1"
    "works lost_state = []" "to_enqueue lost_state = []"
    "list_ex (\<lambda>m. mc_reconnectPending m \<and> \<not> up (conn_flags (ctl lost_state)) m) (managed (ctl lost_state))" by code_simp+
  ultimately show ?thesis by blast
qed

text \<open>C29: After the maintenance thread has been joined, the reconnect workers take at most 21 steps
  for every reconnect that is on its way, whatever the openings return; they stop only when no
  reconnect is left, queued, waiting or being opened.\<close>

theorem reconnects_drain:
  "(drain_step ^^ n) s s' \<Longrightarrow> n \<le> 21 * length (works s) \<and> (works s' = [] \<or> (\<exists>s''. drain_step s' s''))"
  using draining.bounded [where s = s and n = n and s' = s'] draining.moves [where s = s'] rank_le [of s] by fastforce

theorem reconnects_drain_witness:
  "\<nexists>s'. (drain_step ^^ 22) (c_managed\<lparr>ctl := notifyFailure 1 (ctl c_managed)\<rparr>) s'"
  proof -
  have "works (c_managed\<lparr>ctl := notifyFailure 1 (ctl c_managed)\<rparr>) = [\<lparr>rw_stream = 1, rw_addr = ([], [], []), rw_retries = 0\<rparr>]"
    by code_simp
  with reconnects_drain [of 22 "c_managed\<lparr>ctl := notifyFailure 1 (ctl c_managed)\<rparr>"] show ?thesis by fastforce
qed

end
