(* ===== verification/Logger.thy ===== *)
theory Logger
  imports Std_String
begin

text \<open>
  \<open>class Logger\<close> of \<open>src/logger.hpp\<close>: the level filter and the two line formats. The time, printed
  by \<open>put_time\<close>, is a parameter.
\<close>

section \<open>Levels\<close>

datatype log_level = Debug | Info | Warn | Error

text \<open>An enumeration is ordered by its declaration.\<close>

fun level_rank :: "log_level \<Rightarrow> nat" where
  "level_rank Debug = 0"
| "level_rank Info = 1"
| "level_rank Warn = 2"
| "level_rank Error = 3"

lemma level_rank_inject: "level_rank a = level_rank b \<Longrightarrow> a = b"
  by (cases a; cases b) simp_all

instantiation log_level :: linorder
begin

definition less_eq_log_level :: "log_level \<Rightarrow> log_level \<Rightarrow> bool" where
  "less_eq_log_level a b \<longleftrightarrow> level_rank a \<le> level_rank b"

definition less_log_level :: "log_level \<Rightarrow> log_level \<Rightarrow> bool" where
  "less_log_level a b \<longleftrightarrow> level_rank a < level_rank b"

instance
  by standard (auto simp: less_eq_log_level_def less_log_level_def intro: level_rank_inject)

end

fun levelName :: "log_level \<Rightarrow> bytes" where
  "levelName Debug = lit ''DEBUG''"
| "levelName Info = lit ''INFO''"
| "levelName Warn = lit ''WARN''"
| "levelName Error = lit ''ERROR''"

record logger =
  lg_level :: log_level
  lg_json :: bool

definition logger_init :: logger where
  "logger_init = \<lparr>lg_level = Info, lg_json = False\<rparr>"

section \<open>Lines\<close>

text \<open>The characters are the quote 34, the backslash 92 and the line end 10.\<close>

fun json_escape :: "bytes \<Rightarrow> bytes" where
  "json_escape [] = []"
| "json_escape (c # s) =
     (if c = 34 then [92, 34] else if c = 92 then [92, 92] else if c = 10 then [92, 110] else [c]) @ json_escape s"

definition json_head :: "bytes \<Rightarrow> log_level \<Rightarrow> bytes" where
  "json_head ts l = lit ''{'' @ [34] @ lit ''ts'' @ [34] @ lit '':'' @ [34] @ ts @ [34] @ lit '','' @ [34] @ lit ''level'' @ [34]
     @ lit '':'' @ [34] @ levelName l @ [34] @ lit '','' @ [34] @ lit ''msg'' @ [34] @ lit '':'' @ [34]"

definition json_line :: "bytes \<Rightarrow> log_level \<Rightarrow> bytes \<Rightarrow> bytes" where
  "json_line ts l msg = json_head ts l @ json_escape msg @ [34] @ lit ''}'' @ [10]"

definition text_line :: "bytes \<Rightarrow> log_level \<Rightarrow> bytes \<Rightarrow> bytes" where
  "text_line ts l msg = ts @ lit '' '' @ levelName l @ lit '': '' @ msg @ [10]"

text \<open>What a call prints: \<open>dt\<close> and \<open>t\<close> are the current time in the two formats.\<close>

definition log_output :: "bytes \<Rightarrow> bytes \<Rightarrow> log_level \<Rightarrow> bytes \<Rightarrow> logger \<Rightarrow> bytes" where
  "log_output dt t l msg lg =
     (if l < lg_level lg then [] else if lg_json lg then json_line dt l msg else text_line t l msg)"

section \<open>A message cannot leave its field\<close>

text \<open>Where a string literal ends: behind the first quote that no backslash precedes.\<close>

fun string_end :: "bytes \<Rightarrow> bytes option" where
  "string_end [] = None"
| "string_end (c # s) =
     (if c = 34 then Some s
      else if c = 92 then (case s of [] \<Rightarrow> None | e # t \<Rightarrow> string_end t)
      else string_end s)"

text \<open>A reader of JSON strings: it refuses control characters and escapes JSON does not have. The form
  with four hexadecimal digits, which the logger does not write, is refused too; whether bytes from
  128 are UTF-8 is not its concern.\<close>

definition escaped_char :: "u8 \<Rightarrow> u8 option" where
  "escaped_char e = (if e = 34 \<or> e = 92 \<or> e = 47 then Some e else
     map_of [(98, 8), (102, 12), (110, 10), (114, 13), (116, 9)] e)"

fun json_string :: "bytes \<Rightarrow> (bytes \<times> bytes) option" where
  "json_string [] = None"
| "json_string (c # s) =
     (if c = 34 then Some ([], s)
      else if c < 32 then None
      else if c = 92
      then (case s of [] \<Rightarrow> None
        | e # t \<Rightarrow> (case escaped_char e of None \<Rightarrow> None
          | Some d \<Rightarrow> map_option (apfst ((#) d)) (json_string t)))
      else map_option (apfst ((#) c)) (json_string s))"

text \<open>The characters a record can carry: \<open>json_escape\<close> treats the line end only.\<close>

definition loggable :: "bytes \<Rightarrow> bool" where
  "loggable msg \<longleftrightarrow> list_all (\<lambda>c. 32 \<le> c \<or> c = 10) msg"

lemma string_end_escape: "string_end (json_escape msg @ 34 # rest) = Some rest"
  by (induction msg) simp_all

lemma json_string_escape:
  "json_string (json_escape msg @ 34 # rest) = (if loggable msg then Some (msg, rest) else None)"
proof (induction msg)
  case (Cons c msg)
  have "escaped_char 34 = Some 34" "escaped_char 92 = Some 92" "escaped_char 110 = Some 10"
    by (simp_all add: escaped_char_def)
  with Cons show ?case by (auto simp: loggable_def not_less)
qed (simp add: loggable_def)

lemma json_escape_no_newline: "10 \<notin> set (json_escape msg)"
  by (induction msg) simp_all

text \<open>Every record is one line, if the time is printed without line ends.\<close>

lemma levelName_plain: "10 \<notin> set (levelName l)" "34 \<notin> set (levelName l)"
  by (cases l; simp add: lit_def)+

lemma json_line_one:
  assumes "10 \<notin> set ts"
  shows "getlines 10 (json_line ts l msg @ rest) = butlast (json_line ts l msg) # getlines 10 rest"
proof -
  let ?b = "butlast (json_line ts l msg)"
  have j: "json_line ts l msg = ?b @ [10]" by (simp add: json_line_def butlast_append)
  have "10 \<notin> set ?b"
    using assms levelName_plain json_escape_no_newline [of msg]
    by (simp add: json_line_def json_head_def butlast_append lit_def)
  then show ?thesis using getlines_cons [of 10 ?b rest] j by (metis append.assoc append_Cons append_Nil)
qed

lemma json_line_message:
  "string_end (drop (length (json_head ts l)) (json_line ts l msg @ rest)) = Some (lit ''}'' @ 10 # rest)"
  "json_string (drop (length (json_head ts l)) (json_line ts l msg @ rest))
    = (if loggable msg then Some (msg, lit ''}'' @ 10 # rest) else None)"
  using string_end_escape [of msg "lit ''}'' @ 10 # rest"] json_string_escape [of msg "lit ''}'' @ 10 # rest"]
  by (simp_all add: json_line_def)

end
