(* ===== verification/Config.thy ===== *)
theory Config
  imports Http_Url Std_Map Logger
begin

text \<open>
  The configuration of the program (\<open>src/main.cpp\<close>): the reader of the config file, the command
  line, and the decisions that \<open>main\<close> takes from them.
\<close>

section \<open>The reader of the config file\<close>

text \<open>A search for a character from a position on is a search in the rest of the text.\<close>

definition json_blank :: "u8 \<Rightarrow> bool" where
  "json_blank c \<longleftrightarrow> c = 32 \<or> c = 9 \<or> c = 13 \<or> c = 10"

definition value_end :: "u8 \<Rightarrow> bool" where
  "value_end c \<longleftrightarrow> c = 44 \<or> c = 125 \<or> c = 10 \<or> c = 13"

definition blank :: "u8 \<Rightarrow> bool" where
  "blank c \<longleftrightarrow> c = 32 \<or> c = 9"

lemma split_first_shorter: "split_first c s = Some (a, b) \<Longrightarrow> length b < length s"
  by (auto simp: split_first_def split: if_splits)
    (metis diff_less gr0I in_set_conv_nth length_0_conv length_pos_if_in_set less_nat_zero_code zero_less_Suc)

type_synonym settings = "(bytes \<times> bytes) list"

function json_loop :: "bytes \<Rightarrow> settings \<Rightarrow> settings" where
  "json_loop s kv =
     (case split_first 34 s of None \<Rightarrow> kv
      | Some (_, s1) \<Rightarrow>
     (case split_first 34 s1 of None \<Rightarrow> kv
      | Some (key, s2) \<Rightarrow>
     (case split_first 58 s2 of None \<Rightarrow> kv
      | Some (_, s3) \<Rightarrow>
     (case dropWhile json_blank s3 of [] \<Rightarrow> kv
      | c # s4 \<Rightarrow>
          if c = 34
          then (case split_first 34 s4 of None \<Rightarrow> kv | Some (val, s5) \<Rightarrow> json_loop s5 (omap_insert key val kv))
          else let val = takeWhile (\<lambda>c. \<not> value_end c) (c # s4)
               in json_loop (drop (length val) (c # s4)) (omap_insert key (strip_back blank (dropWhile blank val)) kv)))))"
  by pat_completeness auto
termination
proof (relation "measure (\<lambda>(s, kv). length s)", goal_cases)
  case (2 s kv _ _ s1 _ key s2 _ _ s3 c s4 _ val s5)
  then show ?case
    using split_first_shorter [of 34 s] split_first_shorter [of 34 s1] split_first_shorter [of 58 s2] split_first_shorter [of 34 s4]
      length_dropWhile_le [of json_blank s3] by fastforce
next
  case (3 s kv _ _ s1 _ key s2 _ _ s3 c s4 val)
  then show ?case
    using split_first_shorter [of 34 s] split_first_shorter [of 34 s1] split_first_shorter [of 58 s2]
      length_dropWhile_le [of json_blank s3] by fastforce
qed simp

declare json_loop.simps [simp del]

text \<open>\<open>content\<close> is the text of the file, if it can be opened.\<close>

definition parseJson :: "bytes option \<Rightarrow> settings" where
  "parseJson content = (case content of None \<Rightarrow> [] | Some s \<Rightarrow> json_loop s [])"

section \<open>The options\<close>

record config =
  dnsListenAddr :: bytes
  dnsUnqualifiedUpstream :: bytes
  dnsServerForDomain :: bytes
  fallbackUpstream :: bytes
  enableDnsToHttps :: bool
  httpsUpstream :: bytes
  httpsUpstream2 :: bytes
  httpsClientCAFile :: bytes
  cacheFile :: bytes
  enableCache :: bool
  enableHttpsToDns :: bool
  dnsUpstream :: bytes
  httpsCertFile :: bytes
  httpsKeyFile :: bytes
  httpsAddr :: bytes
  insecureHttpServer :: bool
  monitoringListenAddr :: bytes
  logLevel :: bytes
  logFormat :: bytes
  cfg_proxy :: bytes
  cfg_noProxy :: bytes
  configFile :: bytes

definition default_config :: config where
  "default_config = \<lparr>dnsListenAddr = lit '':53'',
     dnsUnqualifiedUpstream = [],
     dnsServerForDomain = [],
     fallbackUpstream = lit ''8.8.8.8:53'',
     enableDnsToHttps = False,
     httpsUpstream = lit ''https://dns.google/dns-query'',
     httpsUpstream2 = [],
     httpsClientCAFile = [],
     cacheFile = [],
     enableCache = True,
     enableHttpsToDns = False,
     dnsUpstream = lit ''8.8.8.8:53'',
     httpsCertFile = [],
     httpsKeyFile = [],
     httpsAddr = lit '':443'',
     insecureHttpServer = False,
     monitoringListenAddr = [],
     logLevel = lit ''info'',
     logFormat = lit ''text'',
     cfg_proxy = [],
     cfg_noProxy = [],
     configFile = []\<rparr>"

text \<open>The two chains of comparisons with the names of the options are look-ups in this table.\<close>

datatype option_key =
    Dns_Listen_Addr | Dns_Unqualified_Upstream | Dns_Server_For_Domain | Fallback_Upstream
  | Enable_Dns_To_Https | Https_Upstream | Https_Upstream2 | Https_Client_Cafile
  | Cache_File | Enable_Cache | Enable_Https_To_Dns | Dns_Upstream
  | Https_Cert | Https_Key | Https_Server_Addr | Insecure_Http_Server
  | Monitoring_Listen_Addr | Log_Level | Log_Format | Proxy
  | No_Proxy

definition option_names :: "(bytes \<times> option_key) list" where
  "option_names =
     [(lit ''dns_listen_addr'', Dns_Listen_Addr),
      (lit ''dns_unqualified_upstream'', Dns_Unqualified_Upstream),
      (lit ''dns_server_for_domain'', Dns_Server_For_Domain),
      (lit ''fallback_upstream'', Fallback_Upstream),
      (lit ''enable_dns_to_https'', Enable_Dns_To_Https),
      (lit ''https_upstream'', Https_Upstream),
      (lit ''https_upstream2'', Https_Upstream2),
      (lit ''https_client_cafile'', Https_Client_Cafile),
      (lit ''cache_file'', Cache_File),
      (lit ''enable_cache'', Enable_Cache),
      (lit ''enable_https_to_dns'', Enable_Https_To_Dns),
      (lit ''dns_upstream'', Dns_Upstream),
      (lit ''https_cert'', Https_Cert),
      (lit ''https_key'', Https_Key),
      (lit ''https_server_addr'', Https_Server_Addr),
      (lit ''insecure_http_server'', Insecure_Http_Server),
      (lit ''monitoring_listen_addr'', Monitoring_Listen_Addr),
      (lit ''log_level'', Log_Level),
      (lit ''log_format'', Log_Format),
      (lit ''proxy'', Proxy),
      (lit ''no_proxy'', No_Proxy)]"

definition truth :: "bytes \<Rightarrow> bool" where
  "truth v \<longleftrightarrow> v = lit ''true'' \<or> v = lit ''1''"

fun set_json :: "option_key \<Rightarrow> bytes \<Rightarrow> config \<Rightarrow> config" where
  "set_json Dns_Listen_Addr v cfg = cfg\<lparr>dnsListenAddr := v\<rparr>"
| "set_json Dns_Unqualified_Upstream v cfg = cfg\<lparr>dnsUnqualifiedUpstream := v\<rparr>"
| "set_json Dns_Server_For_Domain v cfg = cfg\<lparr>dnsServerForDomain := v\<rparr>"
| "set_json Fallback_Upstream v cfg = cfg\<lparr>fallbackUpstream := v\<rparr>"
| "set_json Enable_Dns_To_Https v cfg = cfg\<lparr>enableDnsToHttps := truth v\<rparr>"
| "set_json Https_Upstream v cfg = cfg\<lparr>httpsUpstream := v\<rparr>"
| "set_json Https_Upstream2 v cfg = cfg\<lparr>httpsUpstream2 := v\<rparr>"
| "set_json Https_Client_Cafile v cfg = cfg\<lparr>httpsClientCAFile := v\<rparr>"
| "set_json Cache_File v cfg = cfg\<lparr>cacheFile := v\<rparr>"
| "set_json Enable_Cache v cfg = cfg\<lparr>enableCache := (truth v \<or> v = [])\<rparr>"
| "set_json Enable_Https_To_Dns v cfg = cfg\<lparr>enableHttpsToDns := truth v\<rparr>"
| "set_json Dns_Upstream v cfg = cfg\<lparr>dnsUpstream := v\<rparr>"
| "set_json Https_Cert v cfg = cfg\<lparr>httpsCertFile := v\<rparr>"
| "set_json Https_Key v cfg = cfg\<lparr>httpsKeyFile := v\<rparr>"
| "set_json Https_Server_Addr v cfg = cfg\<lparr>httpsAddr := v\<rparr>"
| "set_json Insecure_Http_Server v cfg = cfg\<lparr>insecureHttpServer := truth v\<rparr>"
| "set_json Monitoring_Listen_Addr v cfg = cfg\<lparr>monitoringListenAddr := v\<rparr>"
| "set_json Log_Level v cfg = cfg\<lparr>logLevel := v\<rparr>"
| "set_json Log_Format v cfg = cfg\<lparr>logFormat := v\<rparr>"
| "set_json Proxy v cfg = cfg\<lparr>cfg_proxy := v\<rparr>"
| "set_json No_Proxy v cfg = cfg\<lparr>cfg_noProxy := v\<rparr>"

text \<open>On the command line a flag other than \<open>enable_cache\<close> is set whatever its value. There is no option
  for the cache file.\<close>

fun set_cli :: "option_key \<Rightarrow> bytes \<Rightarrow> config \<Rightarrow> config option" where
  "set_cli Dns_Listen_Addr v cfg = Some (cfg\<lparr>dnsListenAddr := v\<rparr>)"
| "set_cli Dns_Unqualified_Upstream v cfg = Some (cfg\<lparr>dnsUnqualifiedUpstream := v\<rparr>)"
| "set_cli Dns_Server_For_Domain v cfg = Some (cfg\<lparr>dnsServerForDomain := v\<rparr>)"
| "set_cli Fallback_Upstream v cfg = Some (cfg\<lparr>fallbackUpstream := v\<rparr>)"
| "set_cli Enable_Dns_To_Https v cfg = Some (cfg\<lparr>enableDnsToHttps := True\<rparr>)"
| "set_cli Https_Upstream v cfg = Some (cfg\<lparr>httpsUpstream := v\<rparr>)"
| "set_cli Https_Upstream2 v cfg = Some (cfg\<lparr>httpsUpstream2 := v\<rparr>)"
| "set_cli Https_Client_Cafile v cfg = Some (cfg\<lparr>httpsClientCAFile := v\<rparr>)"
| "set_cli Cache_File v cfg = None"
| "set_cli Enable_Cache v cfg = Some (cfg\<lparr>enableCache := (v = [] \<or> truth v)\<rparr>)"
| "set_cli Enable_Https_To_Dns v cfg = Some (cfg\<lparr>enableHttpsToDns := True\<rparr>)"
| "set_cli Dns_Upstream v cfg = Some (cfg\<lparr>dnsUpstream := v\<rparr>)"
| "set_cli Https_Cert v cfg = Some (cfg\<lparr>httpsCertFile := v\<rparr>)"
| "set_cli Https_Key v cfg = Some (cfg\<lparr>httpsKeyFile := v\<rparr>)"
| "set_cli Https_Server_Addr v cfg = Some (cfg\<lparr>httpsAddr := v\<rparr>)"
| "set_cli Insecure_Http_Server v cfg = Some (cfg\<lparr>insecureHttpServer := True\<rparr>)"
| "set_cli Monitoring_Listen_Addr v cfg = Some (cfg\<lparr>monitoringListenAddr := v\<rparr>)"
| "set_cli Log_Level v cfg = Some (cfg\<lparr>logLevel := v\<rparr>)"
| "set_cli Log_Format v cfg = Some (cfg\<lparr>logFormat := v\<rparr>)"
| "set_cli Proxy v cfg = Some (cfg\<lparr>cfg_proxy := v\<rparr>)"
| "set_cli No_Proxy v cfg = Some (cfg\<lparr>cfg_noProxy := v\<rparr>)"

definition json_setting :: "bytes \<Rightarrow> bytes \<Rightarrow> config \<Rightarrow> config" where
  "json_setting k v cfg = (case map_of option_names k of None \<Rightarrow> cfg | Some opt \<Rightarrow> set_json opt v cfg)"

definition cli_setting :: "bytes \<Rightarrow> bytes \<Rightarrow> config \<Rightarrow> config option" where
  "cli_setting k v cfg =
     (if take 2 k = lit ''--'' then (case map_of option_names (drop 2 k) of None \<Rightarrow> None | Some opt \<Rightarrow> set_cli opt v cfg)
      else None)"

section \<open>The command line\<close>

definition split_option :: "bytes \<Rightarrow> bytes \<times> bytes" where
  "split_option arg = (case split_first 61 arg of None \<Rightarrow> (arg, []) | Some (k, v) \<Rightarrow> (k, v))"

definition config_option :: bytes where "config_option = lit ''--config''"

fun config_arg :: "bytes list \<Rightarrow> bytes" where
  "config_arg [] = []"
| "config_arg (arg # args) =
     (let (key, val) = split_option arg in if key = config_option then val else config_arg args)"

text \<open>The result of the second pass: run, print the usage, or reject an option.\<close>

datatype startup = Run config | Usage | Unknown_Option bytes

fun cli_loop :: "bytes list \<Rightarrow> config \<Rightarrow> startup" where
  "cli_loop [] cfg = Run cfg"
| "cli_loop (arg # args) cfg =
     (if arg = lit ''--help'' \<or> arg = lit ''-h'' then Usage
      else let (key, val) = split_option arg in
        if key = config_option then cli_loop args cfg
        else case cli_setting key val cfg of None \<Rightarrow> Unknown_Option key | Some cfg \<Rightarrow> cli_loop args cfg)"

definition parseArgs :: "(bytes \<Rightarrow> bytes option) \<Rightarrow> bytes list \<Rightarrow> startup" where
  "parseArgs read args =
     (let path = config_arg args; cfg = default_config\<lparr>configFile := path\<rparr>;
          cfg = (if path \<noteq> [] then foldl (\<lambda>cfg (k, v). json_setting k v cfg) cfg (parseJson (read path)) else cfg)
      in cli_loop args cfg)"

section \<open>Which value an option has\<close>

fun option_value :: "option_key \<Rightarrow> config \<Rightarrow> bytes + bool" where
  "option_value Dns_Listen_Addr cfg = Inl (dnsListenAddr cfg)"
| "option_value Dns_Unqualified_Upstream cfg = Inl (dnsUnqualifiedUpstream cfg)"
| "option_value Dns_Server_For_Domain cfg = Inl (dnsServerForDomain cfg)"
| "option_value Fallback_Upstream cfg = Inl (fallbackUpstream cfg)"
| "option_value Enable_Dns_To_Https cfg = Inr (enableDnsToHttps cfg)"
| "option_value Https_Upstream cfg = Inl (httpsUpstream cfg)"
| "option_value Https_Upstream2 cfg = Inl (httpsUpstream2 cfg)"
| "option_value Https_Client_Cafile cfg = Inl (httpsClientCAFile cfg)"
| "option_value Cache_File cfg = Inl (cacheFile cfg)"
| "option_value Enable_Cache cfg = Inr (enableCache cfg)"
| "option_value Enable_Https_To_Dns cfg = Inr (enableHttpsToDns cfg)"
| "option_value Dns_Upstream cfg = Inl (dnsUpstream cfg)"
| "option_value Https_Cert cfg = Inl (httpsCertFile cfg)"
| "option_value Https_Key cfg = Inl (httpsKeyFile cfg)"
| "option_value Https_Server_Addr cfg = Inl (httpsAddr cfg)"
| "option_value Insecure_Http_Server cfg = Inr (insecureHttpServer cfg)"
| "option_value Monitoring_Listen_Addr cfg = Inl (monitoringListenAddr cfg)"
| "option_value Log_Level cfg = Inl (logLevel cfg)"
| "option_value Log_Format cfg = Inl (logFormat cfg)"
| "option_value Proxy cfg = Inl (cfg_proxy cfg)"
| "option_value No_Proxy cfg = Inl (cfg_noProxy cfg)"

definition is_flag :: "option_key \<Rightarrow> bool" where
  "is_flag opt \<longleftrightarrow> opt \<in> {Enable_Dns_To_Https, Enable_Cache, Enable_Https_To_Dns, Insecure_Http_Server}"

definition json_value :: "option_key \<Rightarrow> bytes \<Rightarrow> bytes + bool" where
  "json_value opt v = (if is_flag opt then Inr (truth v \<or> (opt = Enable_Cache \<and> v = [])) else Inl v)"

definition cli_value :: "option_key \<Rightarrow> bytes \<Rightarrow> bytes + bool" where
  "cli_value opt v = (if is_flag opt then Inr (opt = Enable_Cache \<longrightarrow> v = [] \<or> truth v) else Inl v)"

lemma set_json_own: "option_value opt (set_json opt v cfg) = json_value opt v"
  by (cases opt) (auto simp: json_value_def is_flag_def)

lemma set_json_other: "opt \<noteq> opt' \<Longrightarrow> option_value opt (set_json opt' v cfg) = option_value opt cfg"
  by (cases opt'; cases opt) simp_all

lemma set_cli_own: "set_cli opt v cfg = Some cfg' \<Longrightarrow> option_value opt cfg' = cli_value opt v"
  by (cases opt) (auto simp: cli_value_def is_flag_def)

lemma set_cli_other: "opt \<noteq> opt' \<Longrightarrow> set_cli opt' v cfg = Some cfg' \<Longrightarrow> option_value opt cfg' = option_value opt cfg"
  by (cases opt'; cases opt) auto

section \<open>Which value wins\<close>

fun last_arg :: "bytes \<Rightarrow> bytes list \<Rightarrow> bytes option" where
  "last_arg k [] = None"
| "last_arg k (arg # args) =
     (case last_arg k args of Some v \<Rightarrow> Some v
      | None \<Rightarrow> if fst (split_option arg) = k then Some (snd (split_option arg)) else None)"

lemma option_names_inject:
  assumes "map_of option_names n = Some opt" "map_of option_names n' = Some opt"
  shows "n = n'"
proof -
  have "distinct (map snd option_names)" by (simp add: option_names_def)
  then have "inj_on snd (set option_names)" by (simp add: distinct_map)
  from inj_onD [OF this, of "(n, opt)" "(n', opt)"] show ?thesis using assms by (simp add: map_of_SomeD)
qed

lemma json_setting_value:
  assumes "map_of option_names n = Some opt"
  shows "option_value opt (json_setting k v cfg) = (if k = n then json_value opt v else option_value opt cfg)"
proof (cases "k = n")
  case True
  then show ?thesis using assms by (simp add: json_setting_def set_json_own)
next
  case False
  show ?thesis
  proof (cases "map_of option_names k")
    case (Some opt')
    with False assms have "opt \<noteq> opt'" using option_names_inject by blast
    with False Some show ?thesis by (simp add: json_setting_def set_json_other)
  qed (use False in \<open>simp add: json_setting_def\<close>)
qed

lemma json_fold_value:
  assumes "map_of option_names n = Some opt"
  shows "distinct (map fst kvs) \<Longrightarrow> option_value opt (foldl (\<lambda>cfg (k, v). json_setting k v cfg) cfg kvs)
    = (case map_of kvs n of Some v \<Rightarrow> json_value opt v | None \<Rightarrow> option_value opt cfg)"
proof (induction kvs arbitrary: cfg)
  case (Cons kv kvs)
  obtain k v where kv: "kv = (k, v)" by fastforce
  have "map_of kvs n = None" if "k = n" using Cons.prems kv that by (auto simp: map_of_eq_None_iff)
  with Cons kv show ?case by (auto simp: json_setting_value [OF assms] split: option.split)
qed simp

lemma cli_setting_value:
  assumes "map_of option_names n = Some opt" "cli_setting k v cfg = Some cfg'"
  shows "option_value opt cfg' = (if k = lit ''--'' @ n then cli_value opt v else option_value opt cfg)"
proof -
  obtain opt' where o: "take 2 k = lit ''--''" "map_of option_names (drop 2 k) = Some opt'" "set_cli opt' v cfg = Some cfg'"
    using assms(2) by (auto simp: cli_setting_def split: if_splits option.splits)
  have k: "k = lit ''--'' @ drop 2 k" using o(1) by (metis append_take_drop_id)
  show ?thesis
  proof (cases "drop 2 k = n")
    case True
    then have "opt' = opt" using o(2) assms(1) by simp
    with True k set_cli_own [OF o(3)] show ?thesis by metis
  next
    case False
    then have "opt \<noteq> opt'" using option_names_inject [OF assms(1)] o(2) by auto
    moreover have "k \<noteq> lit ''--'' @ n" using False k by (metis append_eq_conv_conj)
    ultimately show ?thesis using set_cli_other [OF _ o(3)] by simp
  qed
qed

lemma config_is_no_option: "map_of option_names n = Some opt \<Longrightarrow> config_option \<noteq> lit ''--'' @ n"
proof
  assume n: "map_of option_names n = Some opt" and "config_option = lit ''--'' @ n"
  then have "drop 2 config_option = drop 2 (lit ''--'' @ n)" by (simp only:)
  then have "n = drop 2 config_option" by (simp add: lit_def)
  moreover have "map_of option_names (drop 2 config_option) = None" by code_simp
  ultimately show False using n by simp
qed

lemma cli_loop_value:
  assumes "map_of option_names n = Some opt"
  shows "cli_loop args cfg = Run cfg' \<Longrightarrow> option_value opt cfg'
    = (case last_arg (lit ''--'' @ n) args of Some v \<Rightarrow> cli_value opt v | None \<Rightarrow> option_value opt cfg)"
proof (induction args arbitrary: cfg)
  case (Cons arg args)
  obtain k v where kv: "split_option arg = (k, v)" by fastforce
  show ?case
  proof (cases "k = config_option")
    case True
    with Cons kv config_is_no_option [OF assms] show ?thesis by (auto split: if_splits option.split)
  next
    case False
    with Cons.prems kv obtain cfg1 where c: "cli_setting k v cfg = Some cfg1" "cli_loop args cfg1 = Run cfg'"
      by (auto split: if_splits option.splits)
    from Cons.IH [OF c(2)] cli_setting_value [OF assms c(1)] kv show ?thesis by (auto split: option.split)
  qed
qed simp

lemma json_loop_wf: "omap_wf kv \<Longrightarrow> omap_wf (json_loop s kv)"
proof (induction s kv rule: json_loop.induct)
  case (1 s kv)
  then show ?case
    by (subst json_loop.simps) (auto simp: Let_def omap_wf_insert split: option.split list.split)
qed

lemma parseJson_distinct: "distinct (map fst (parseJson content))"
  using json_loop_wf [OF omap_wf_Nil] by (auto simp: parseJson_def omap_wf_distinct split: option.split)

lemma default_config_file: "option_value opt (default_config\<lparr>configFile := path\<rparr>) = option_value opt default_config"
  by (cases opt) simp_all

lemma parseArgs_value:
  assumes "parseArgs read args = Run cfg" "map_of option_names n = Some opt"
  shows "option_value opt cfg =
    (case last_arg (lit ''--'' @ n) args of Some v \<Rightarrow> cli_value opt v
     | None \<Rightarrow>
         (case (if config_arg args = [] then None else map_of (parseJson (read (config_arg args))) n) of
            Some v \<Rightarrow> json_value opt v
          | None \<Rightarrow> option_value opt default_config))"
  using cli_loop_value [OF assms(2)] assms(1) json_fold_value [OF assms(2) parseJson_distinct] default_config_file
  by (simp add: parseArgs_def Let_def split: option.split)

section \<open>Config files\<close>

text \<open>A file as the documentation shows it: one entry on a line.\<close>

datatype json_entry = Quoted bytes bytes | Bare bytes bytes

fun entry_pair :: "json_entry \<Rightarrow> bytes \<times> bytes" where
  "entry_pair (Quoted k v) = (k, v)"
| "entry_pair (Bare k v) = (k, v)"

fun json_entry_ok :: "json_entry \<Rightarrow> bool" where
  "json_entry_ok (Quoted k v) \<longleftrightarrow> 34 \<notin> set k \<and> 34 \<notin> set v"
| "json_entry_ok (Bare k v) \<longleftrightarrow> 34 \<notin> set k \<and> v \<noteq> [] \<and> hd v \<noteq> 34 \<and> \<not> json_blank (hd v) \<and> \<not> blank (last v)
     \<and> list_all (\<lambda>c. \<not> value_end c) v"

fun entry_text :: "json_entry \<Rightarrow> bytes" where
  "entry_text (Quoted k v) = 34 # k @ 34 # 58 # 32 # 34 # v @ [34]"
| "entry_text (Bare k v) = 34 # k @ 34 # 58 # 32 # v"

fun entries_json :: "json_entry list \<Rightarrow> bytes" where
  "entries_json [] = 10 # lit ''}''"
| "entries_json (e # es) = 10 # lit ''  '' @ entry_text e @ (if es = [] then [] else lit '','') @ entries_json es"

definition config_text :: "json_entry list \<Rightarrow> bytes" where
  "config_text es = lit ''{'' @ entries_json es"

lemma json_loop_entry:
  assumes e: "json_entry_ok e" and pre: "34 \<notin> set pre" and rest: "rest \<noteq> []" "value_end (hd rest)"
  shows "json_loop (pre @ entry_text e @ rest) kv = (case entry_pair e of (k, v) \<Rightarrow> json_loop rest (omap_insert k v kv))"
proof (cases e)
  case (Quoted k v)
  have "split_first 34 (pre @ entry_text e @ rest) = Some (pre, k @ 34 # 58 # 32 # 34 # v @ 34 # rest)"
    using split_first_append [OF pre] Quoted by simp
  then show ?thesis
    using e Quoted split_first_append [of 34 k] split_first_append [of 34 v] split_first_append [of 58 "[]"]
    by (subst json_loop.simps) (simp add: json_blank_def)
next
  case (Bare k v)
  with e obtain c w where v: "v = c # w" "c \<noteq> 34" "\<not> json_blank c" by (cases v) auto
  have "split_first 34 (pre @ entry_text e @ rest) = Some (pre, k @ 34 # 58 # 32 # c # w @ rest)"
    using split_first_append [OF pre] Bare v by simp
  moreover have "split_first 34 (k @ 34 # 58 # 32 # c # w @ rest) = Some (k, 58 # 32 # c # w @ rest)"
    using e Bare by (simp add: split_first_append)
  moreover have "split_first 58 (58 # 32 # c # w @ rest) = Some ([], 32 # c # w @ rest)"
    using split_first_append [of 58 "[]"] by simp
  moreover have "takeWhile (\<lambda>c. \<not> value_end c) (c # w @ rest) = c # w"
    using e Bare rest v takeWhile_append2 [of "c # w"] by (cases rest) (simp_all add: list_all_iff)
  moreover have "strip_back blank (dropWhile blank (c # w)) = c # w"
    using e Bare v strip_back_all [of blank 32 v 0] by (simp add: blank_def json_blank_def)
  moreover have "dropWhile json_blank (32 # c # w @ rest) = c # w @ rest" using v by (simp add: json_blank_def)
  ultimately show ?thesis using v Bare by (subst json_loop.simps) (simp add: Let_def)
qed

fun insert_entries :: "json_entry list \<Rightarrow> settings \<Rightarrow> settings" where
  "insert_entries [] kv = kv"
| "insert_entries (e # es) kv = insert_entries es (omap_insert (fst (entry_pair e)) (snd (entry_pair e)) kv)"

lemma entries_json_hd: "entries_json es \<noteq> []" "value_end (hd (entries_json es))"
  by (cases es; simp add: value_end_def)+

lemma json_loop_no_quote: "34 \<notin> set s \<Longrightarrow> json_loop s kv = kv"
  by (subst json_loop.simps) (simp add: split_first_None)

lemma json_loop_entries:
  "list_all json_entry_ok es \<Longrightarrow> 34 \<notin> set pre \<Longrightarrow> json_loop (pre @ entries_json es) kv = insert_entries es kv"
proof (induction es arbitrary: pre kv)
  case Nil
  then show ?case by (simp add: json_loop_no_quote lit_def)
next
  case (Cons e es)
  define sep where "sep = (if es = [] then [] else lit '','')"
  have rest: "sep @ entries_json es \<noteq> []" "value_end (hd (sep @ entries_json es))" "34 \<notin> set sep"
    using entries_json_hd [of es] by (auto simp: sep_def lit_def value_end_def)
  have "34 \<notin> set (pre @ 10 # lit ''  '')" using Cons.prems by (simp add: lit_def)
  from json_loop_entry [OF _ this rest(1,2), of e kv] Cons rest(3)
  show ?case by (simp add: sep_def split: prod.split)
qed

lemma insert_entries_lookup:
  "omap_wf kv \<Longrightarrow> map_of (insert_entries es kv) k
    = (case map_of (rev (map entry_pair es)) k of Some v \<Rightarrow> Some v | None \<Rightarrow> map_of kv k)"
proof (induction es arbitrary: kv)
  case (Cons e es)
  then show ?case
    by (cases "entry_pair e") (auto simp: omap_wf_insert map_of_omap_insert map_add_def split: option.split)
qed simp

text \<open>What is read from a file is the sequence of its entries, the last entry of a key counting.\<close>

lemma parseJson_config_text:
  "list_all json_entry_ok es \<Longrightarrow> map_of (parseJson (Some (config_text es))) k = map_of (rev (map entry_pair es)) k"
  using json_loop_entries [of es "lit ''{''" "[]"] insert_entries_lookup [OF omap_wf_Nil, of es k]
  by (simp add: parseJson_def config_text_def lit_def split: option.splits)

end
