(* ===== verification/Monitor_Server.thy ===== *)
theory Monitor_Server
  imports Http_Exchange Http_Url
begin

text \<open>
  The monitoring server of \<open>src/monitor_server.cpp\<close>: its address, the accept loop, the routing of a
  request, the files below the web root and the text of the response. The file system is a
  parameter; the socket calls appear as what they return. The two pages with numbers are in
  \<open>Monitor_Pages\<close> and are arguments here.
\<close>

section \<open>Start and stop\<close>

record monitor =
  mon_addr :: bytes
  mon_wwwRoot :: bytes
  mon_logoPath :: bytes
  mon_port :: int
  mon_open :: bool
  mon_running :: bool

text \<open>\<open>make_address\<close> fails on anything that is no IP address; \<open>bind host port\<close> says whether opening,
  binding and listening succeed. The port of an endpoint has 16 bits. Both exceptions leave the
  constructor.\<close>

datatype address_error = Bad_Port std_error | Bad_Host

definition endpoint_port :: "int \<Rightarrow> u16" where
  "endpoint_port p = of_int p"

definition monitor_create :: "(bytes \<Rightarrow> bool) \<Rightarrow> (bytes \<Rightarrow> u16 \<Rightarrow> bool) \<Rightarrow> bytes \<Rightarrow> bytes \<Rightarrow> bytes
    \<Rightarrow> address_error + monitor" where
  "monitor_create is_address bind addr wwwRoot logoPath =
     (let m = \<lparr>mon_addr = addr, mon_wwwRoot = wwwRoot, mon_logoPath = logoPath, mon_port = 0,
               mon_open = False, mon_running = False\<rparr>
      in case find_sub [58] addr of
           None \<Rightarrow> Inr m
         | Some colon \<Rightarrow>
             let host = (if 0 < colon then take colon addr else lit ''127.0.0.1'')
             in case stoi (drop (colon + 1) addr) of
                  Inl e \<Rightarrow> Inl (Bad_Port e)
                | Inr port \<Rightarrow>
                    if \<not> is_address host then Inl Bad_Host
                    else Inr (m\<lparr>mon_port := port, mon_open := bind host (endpoint_port port)\<rparr>))"

definition monitor_start :: "monitor \<Rightarrow> monitor" where
  "monitor_start m = (if mon_open m then m\<lparr>mon_running := True\<rparr> else m)"

text \<open>\<open>stop\<close> connects to its own port so that a blocked \<open>accept\<close> returns; the second component is the
  port connected to.\<close>

definition monitor_stop :: "monitor \<Rightarrow> monitor \<times> u16 option" where
  "monitor_stop m =
     (m\<lparr>mon_running := False, mon_open := False\<rparr>, if 0 < mon_port m then Some (endpoint_port (mon_port m)) else None)"

text \<open>The accept loop: each step is the value of \<open>running_\<close> and the result of \<open>accept\<close>; an error does
  not end the loop.\<close>

fun monitor_accept :: "(bool \<times> 'sock option) list \<Rightarrow> 'sock list" where
  "monitor_accept [] = []"
| "monitor_accept ((running, r) # steps) =
     (if \<not> running then []
      else case r of None \<Rightarrow> monitor_accept steps | Some sock \<Rightarrow> sock # monitor_accept steps)"

section \<open>Files\<close>

record file_system =
  fs_regular :: "bytes \<Rightarrow> bool"
  fs_read :: "bytes \<Rightarrow> bytes option"

definition serveFile :: "file_system \<Rightarrow> bytes \<Rightarrow> bytes \<Rightarrow> bytes" where
  "serveFile fs wwwRoot path =
     (if contains (lit ''..'') path then []
      else let filePath = wwwRoot @ path in
        if \<not> fs_regular fs filePath then []
        else case fs_read fs filePath of None \<Rightarrow> [] | Some content \<Rightarrow> content)"

definition content_types :: "(bytes \<times> bytes) list" where
  "content_types =
     [(lit ''.html'', lit ''text/html; charset=utf-8''),
      (lit ''.css'', lit ''text/css; charset=utf-8''),
      (lit ''.js'', lit ''application/javascript; charset=utf-8''),
      (lit ''.json'', lit ''application/json''),
      (lit ''.png'', lit ''image/png''),
      (lit ''.svg'', lit ''image/svg+xml''),
      (lit ''.ico'', lit ''image/x-icon'')]"

definition octet_stream :: bytes where "octet_stream = lit ''application/octet-stream''"

definition contentTypeFor :: "bytes \<Rightarrow> bytes" where
  "contentTypeFor path =
     (if 46 \<notin> set path then octet_stream
      else case map_of content_types (46 # snd (split_last 46 path)) of None \<Rightarrow> octet_stream | Some t \<Rightarrow> t)"

fun htmlEscape :: "bytes \<Rightarrow> bytes" where
  "htmlEscape [] = []"
| "htmlEscape (c # s) =
     (if c = 60 then lit ''&lt;'' else if c = 62 then lit ''&gt;'' else if c = 38 then lit ''&amp;''
      else if c = 34 then lit ''&quot;'' else [c]) @ htmlEscape s"

section \<open>One request\<close>

datatype monitor_reply =
    Page (page_status: bytes) (page_type: bytes) (page_body: bytes)
  | Event_Stream

definition status_ok :: bytes where "status_ok = lit ''HTTP/1.1 200 OK''"
definition status_not_found :: bytes where "status_not_found = lit ''HTTP/1.1 404 Not Found''"

definition not_found :: monitor_reply where
  "not_found = Page status_not_found (lit ''text/plain'') (lit ''404 Not Found'')"

definition renderHealth :: bytes where "renderHealth = lit ''OK''"

text \<open>The routing of a path; \<open>metrics\<close> and \<open>stats\<close> are the rendered pages.\<close>

definition monitor_route :: "file_system \<Rightarrow> bytes \<Rightarrow> bytes \<Rightarrow> monitor \<Rightarrow> bytes \<Rightarrow> monitor_reply" where
  "monitor_route fs metrics stats m path =
     (if path = lit ''/api/stream'' then Event_Stream
      else if path = lit ''/health'' then Page status_ok (lit ''text/plain'') renderHealth
      else if path = lit ''/metrics'' then Page status_ok (lit ''text/plain; version=0.0.4'') metrics
      else if path = lit ''/api/stats'' then Page status_ok (lit ''application/json'') stats
      else if path = lit ''/logo.png'' \<and> mon_logoPath m \<noteq> []
      then (case fs_read fs (mon_logoPath m) of
              Some img \<Rightarrow> Page status_ok (lit ''image/png'') img
            | None \<Rightarrow> not_found)
      else let servePath = (if path = lit ''/'' then lit ''/index.html'' else path);
               body = serveFile fs (mon_wwwRoot m) servePath
        in if body \<noteq> [] then Page status_ok (contentTypeFor servePath) body else not_found)"

text \<open>The head of a response without its final line end, and the whole text.\<close>

definition page_head :: "bytes \<Rightarrow> bytes \<Rightarrow> bytes \<Rightarrow> bytes" where
  "page_head status ctype body =
     status @ CRLF @ lit ''Content-Type: '' @ ctype @ CRLF
       @ lit ''Content-Length: '' @ to_string (length body) @ CRLF @ lit ''Connection: close''"

definition page_text :: "bytes \<Rightarrow> bytes \<Rightarrow> bytes \<Rightarrow> bytes" where
  "page_text status ctype body = page_head status ctype body @ CRLF @ CRLF @ body"

text \<open>Only the first read counts: method and path are its first two words. \<open>received\<close> is \<open>None\<close> on an
  error of \<open>read_some\<close>.\<close>

definition request_path :: "bytes \<Rightarrow> bytes" where
  "request_path req = fst (next_word (snd (next_word req)))"

definition handleRequest :: "file_system \<Rightarrow> bytes \<Rightarrow> bytes \<Rightarrow> monitor \<Rightarrow> bytes option \<Rightarrow> monitor_reply option" where
  "handleRequest fs metrics stats m received =
     (case received of None \<Rightarrow> None
      | Some req \<Rightarrow> if req = [] then None else Some (monitor_route fs metrics stats m (request_path (take 4096 req))))"

section \<open>The event stream\<close>

definition stream_header :: bytes where
  "stream_header = lit ''HTTP/1.1 200 OK'' @ CRLF @ lit ''Content-Type: text/event-stream'' @ CRLF
     @ lit ''Cache-Control: no-cache'' @ CRLF @ lit ''Connection: keep-alive'' @ CRLF
     @ lit ''Access-Control-Allow-Origin: *'' @ CRLF @ CRLF"

definition stream_event :: "bytes \<Rightarrow> bytes" where
  "stream_event json = lit ''data: '' @ json @ [10, 10]"

text \<open>A round of the loop: the value of \<open>running_\<close>, the page rendered, and whether the write succeeds.
  The result is what has been written.\<close>

fun stream_rounds :: "(bool \<times> bytes \<times> bool) list \<Rightarrow> bytes" where
  "stream_rounds [] = []"
| "stream_rounds ((running, json, ok) # rounds) =
     (if \<not> running then [] else if \<not> ok then [] else stream_event json @ stream_rounds rounds)"

definition handleStream :: "bool \<Rightarrow> (bool \<times> bytes \<times> bool) list \<Rightarrow> bytes" where
  "handleStream header_ok rounds = (if header_ok then stream_header @ stream_rounds rounds else [])"

end
