(* ===== verification/Main_Program.thy ===== *)
theory Main_Program
  imports Config Monitor_Server System_Resolver Cache_File
begin

text \<open>
  The function \<open>main\<close> of \<open>src/main.cpp\<close>: the decisions it takes from the configuration, the
  components it builds, the rates it adds to the statistics, the queries that warm up the cache,
  and the loop that waits for signals, as a state machine whose steps are interleaved with the
  signals. The file system and what binds an address are parameters.
\<close>

section \<open>Where the web pages are\<close>

text \<open>\<open>bin.substr(0, bin.rfind('/') + 1)\<close>: all of the path up to its last slash, nothing without one.\<close>

definition dir_part :: "bytes \<Rightarrow> bytes" where
  "dir_part bin = strip_back (\<lambda>c. c \<noteq> 47) bin"

definition findWwwDir :: "(bytes \<Rightarrow> bool) \<Rightarrow> bytes \<Rightarrow> bytes" where
  "findWwwDir is_dir bin =
     (if 47 \<in> set bin \<and> is_dir (dir_part bin @ lit ''../www'') then dir_part bin @ lit ''../www''
      else if is_dir (lit ''/usr/local/share/lynx/www'') then lit ''/usr/local/share/lynx/www''
      else dir_part bin @ lit ''www'')"

definition findLogo :: "(bytes \<Rightarrow> bool) \<Rightarrow> bytes \<Rightarrow> bytes" where
  "findLogo exists bin =
     (if 47 \<in> set bin \<and> exists (dir_part bin @ lit ''logo.png'') then dir_part bin @ lit ''logo.png''
      else if exists (lit ''/usr/local/share/lynx/logo.png'') then lit ''/usr/local/share/lynx/logo.png''
      else [])"

section \<open>Start-up\<close>

definition log_settings :: "config \<Rightarrow> logger \<Rightarrow> logger" where
  "log_settings cfg lg =
     (let lg = (if logLevel cfg = lit ''debug'' then lg\<lparr>lg_level := Debug\<rparr>
                else if logLevel cfg = lit ''info'' then lg\<lparr>lg_level := Info\<rparr>
                else if logLevel cfg = lit ''warn'' then lg\<lparr>lg_level := Warn\<rparr>
                else if logLevel cfg = lit ''error'' then lg\<lparr>lg_level := Error\<rparr>
                else lg)
      in if logFormat cfg = lit ''json'' then lg\<lparr>lg_json := True\<rparr> else lg)"

type_synonym environment = "bytes \<Rightarrow> bytes option"

definition set_proxy_env :: "config \<Rightarrow> environment \<Rightarrow> environment" where
  "set_proxy_env cfg env =
     (let env = (if cfg_proxy cfg \<noteq> [] then env(lit ''https_proxy'' := Some (cfg_proxy cfg)) else env)
      in if cfg_noProxy cfg \<noteq> [] then env(lit ''no_proxy'' := Some (cfg_noProxy cfg)) else env)"

definition monitor_address :: "config \<Rightarrow> bytes" where
  "monitor_address cfg = (if monitoringListenAddr cfg = [] then lit ''127.0.0.1:8080'' else monitoringListenAddr cfg)"

text \<open>The world around \<open>main\<close>: files, directories, addresses, the environment and the time.\<close>

record os =
  os_read :: "bytes \<Rightarrow> bytes option"
  os_is_dir :: "bytes \<Rightarrow> bool"
  os_exists :: "bytes \<Rightarrow> bool"
  os_is_address :: "bytes \<Rightarrow> bool"
  os_bind :: "bytes \<Rightarrow> u16 \<Rightarrow> bool"
  os_env :: environment
  os_now :: int

text \<open>What has been built: the monitor, the DNS server with its resolver, the HTTPS server with its
  arguments.\<close>

record dns_part =
  dp_listen :: bytes
  dp_unqualified :: bytes
  dp_overrides :: domain_map
  dp_cache :: "caching option"

record https_part =
  hp_addr :: bytes
  hp_upstream :: bytes
  hp_cert :: bytes
  hp_key :: bytes
  hp_insecure :: bool

record program =
  pr_logger :: logger
  pr_env :: environment
  pr_monitor :: monitor
  pr_dns :: "dns_part option"
  pr_https :: "https_part option"

text \<open>The cache with the content of its file; \<open>loadCache\<close> may throw.\<close>

definition make_cache :: "os \<Rightarrow> bytes \<Rightarrow> caching \<Rightarrow> dns_error + caching" where
  "make_cache w cache_file c =
     (if cache_file = [] then Inr c
      else case os_read w cache_file of None \<Rightarrow> Inr c
      | Some s \<Rightarrow> bindE (load_bytes (os_now w) s (cache c)) (\<lambda>m. Inr (c\<lparr>cache := m\<rparr>)))"

definition make_dns :: "os \<Rightarrow> config \<Rightarrow> dns_error + dns_part" where
  "make_dns w cfg =
     bindE (if enableCache cfg then bindE (make_cache w (cacheFile cfg) (caching_init perf_init ttl_init)) (\<lambda>c. Inr (Some c))
            else Inr None)
       (\<lambda>c. Inr \<lparr>dp_listen = dnsListenAddr cfg, dp_unqualified = dnsUnqualifiedUpstream cfg,
                 dp_overrides = fromString (dnsServerForDomain cfg), dp_cache = c\<rparr>)"

definition make_https :: "config \<Rightarrow> https_part" where
  "make_https cfg = \<lparr>hp_addr = httpsAddr cfg, hp_upstream = dnsUpstream cfg, hp_cert = httpsCertFile cfg,
     hp_key = httpsKeyFile cfg, hp_insecure = insecureHttpServer cfg\<rparr>"

text \<open>\<open>main\<close> has no \<open>try\<close>: an exception ends the program.\<close>

datatype death = Monitor_Death address_error | Cache_Death dns_error

datatype started = Exited int | Aborted death | Up program

definition main_start :: "os \<Rightarrow> bytes \<Rightarrow> bytes list \<Rightarrow> started" where
  "main_start w argv0 args =
     (case parseArgs (os_read w) args of
        Usage \<Rightarrow> Exited 0
      | Unknown_Option _ \<Rightarrow> Exited 1
      | Run cfg \<Rightarrow>
          (case monitor_create (os_is_address w) (os_bind w) (monitor_address cfg)
                  (findWwwDir (os_is_dir w) argv0) (findLogo (os_exists w) argv0) of
             Inl e \<Rightarrow> Aborted (Monitor_Death e)
           | Inr mon \<Rightarrow>
               if \<not> enableDnsToHttps cfg \<and> \<not> enableHttpsToDns cfg then Exited 1
               else case (if enableDnsToHttps cfg then bindE (make_dns w cfg) (\<lambda>d. Inr (Some d)) else Inr None) of
                 Inl e \<Rightarrow> Aborted (Cache_Death e)
               | Inr d \<Rightarrow>
                   Up \<lparr>pr_logger = log_settings cfg logger_init, pr_env = set_proxy_env cfg (os_env w),
                       pr_monitor = monitor_start mon, pr_dns = d,
                       pr_https = (if enableHttpsToDns cfg then Some (make_https cfg) else None)\<rparr>))"

section \<open>Statistics of the cache\<close>

definition supplementary :: "caching \<Rightarrow> perf_snapshot \<Rightarrow> perf_snapshot" where
  "supplementary c sn = sn\<lparr>turboHitRate := rate (turboHits c) (cacheHits c), staleHitRate := rate (staleHits c) (totalQueries c)\<rparr>"

section \<open>Filling the cache\<close>

definition prewarm_names :: "bytes list" where
  "prewarm_names = map lit [
     ''google.com'', ''youtube.com'', ''facebook.com'', ''amazon.com'',
     ''yahoo.com'', ''wikipedia.org'', ''reddit.com'', ''twitter.com'',
     ''instagram.com'', ''linkedin.com'', ''netflix.com'', ''github.com'',
     ''apple.com'', ''microsoft.com'', ''stackoverflow.com'', ''cloudflare.com'',
     ''whatsapp.com'', ''zoom.us'', ''office.com'', ''live.com'']"

definition prewarm_queries :: "dns_message list" where
  "prewarm_queries = concat (map (\<lambda>n. [createQuery n type_A 1, createQuery n type_AAAA 1]) prewarm_names)"

definition main_prewarm :: "'e backend \<Rightarrow> bool \<Rightarrow> (nat \<Rightarrow> clock) \<Rightarrow> caching \<Rightarrow> caching \<times> ('e + nat)" where
  "main_prewarm back fan tss c = query_all back fan tss 0 prewarm_queries c"

section \<open>Waiting for signals\<close>

text \<open>Where the main thread is: at the three tests of its loop, in the \<open>n\<close>th poll of the drain, or
  past the loop. A termination signal starts a thread that stops the loop three seconds later.
  \<open>ps_resolver\<close> says whether \<open>resolverRef\<close> is set: \<open>main\<close> sets it, before the loop, only when
  \<open>enable_dns_to_https\<close> is on.\<close>

datatype place_in_loop = At_Running | At_Reload | At_Drain | Polling nat | Left

record control =
  ps_running :: bool
  ps_draining :: bool
  ps_reload :: bool
  ps_timers :: nat
  ps_place :: place_in_loop
  ps_resolver :: bool
  ps_env :: environment
  ps_reloads :: nat

datatype signal = SIGHUP | SIGINT | SIGTERM

definition control_init :: "bool \<Rightarrow> environment \<Rightarrow> control" where
  "control_init res env = \<lparr>ps_running = True, ps_draining = False, ps_reload = False, ps_timers = 0,
     ps_place = At_Running, ps_resolver = res, ps_env = env, ps_reloads = 0\<rparr>"

definition signalHandler :: "signal \<Rightarrow> control \<Rightarrow> control" where
  "signalHandler sig s =
     (if sig = SIGHUP then s\<lparr>ps_reload := True\<rparr> else s\<lparr>ps_draining := True, ps_timers := ps_timers s + 1\<rparr>)"

definition stop_timer :: "control \<Rightarrow> control" where
  "stop_timer s = (if 0 < ps_timers s then s\<lparr>ps_timers := ps_timers s - 1, ps_running := False\<rparr> else s)"

definition proxy_vars :: "bytes list" where
  "proxy_vars = [lit ''https_proxy'', lit ''HTTPS_PROXY'', lit ''http_proxy'', lit ''HTTP_PROXY'']"

text \<open>One step of the main thread; \<open>idle\<close> is what a poll sees: no pending task and no connection in
  use. \<open>ps_reloads\<close> counts the calls of \<open>reload\<close>; without a resolver a request is taken and none is made.\<close>

definition main_step :: "bool \<Rightarrow> control \<Rightarrow> control" where
  "main_step idle s =
     (case ps_place s of
        At_Running \<Rightarrow> s\<lparr>ps_place := (if ps_running s then At_Reload else Left)\<rparr>
      | At_Reload \<Rightarrow>
          (let s = (if ps_reload s
                    then s\<lparr>ps_reload := False, ps_env := (\<lambda>v. if v \<in> set proxy_vars then None else ps_env s v),
                           ps_reloads := (if ps_resolver s then ps_reloads s + 1 else ps_reloads s)\<rparr>
                    else s)
           in s\<lparr>ps_place := At_Drain\<rparr>)
      | At_Drain \<Rightarrow> s\<lparr>ps_place := (if ps_draining s then Polling 0 else At_Running)\<rparr>
      | Polling i \<Rightarrow>
          if i < 30 \<and> \<not> idle then s\<lparr>ps_place := Polling (i + 1)\<rparr>
          else s\<lparr>ps_running := False, ps_place := Left\<rparr>
      | Left \<Rightarrow> s)"

datatype control_event = Signal signal | Timer | Main_Thread bool

fun control_step :: "control \<Rightarrow> control_event \<Rightarrow> control" where
  "control_step s (Signal sig) = signalHandler sig s"
| "control_step s Timer = stop_timer s"
| "control_step s (Main_Thread idle) = main_step idle s"

text \<open>What is stopped after the loop, in this order.\<close>

datatype part = Dns_Server_Part | Https_Server_Part | Monitor_Part | Tuner_Part

definition shutdown_order :: "program \<Rightarrow> part list" where
  "shutdown_order p =
     (if pr_dns p \<noteq> None then [Dns_Server_Part] else []) @ (if pr_https p \<noteq> None then [Https_Server_Part] else [])
       @ [Monitor_Part, Tuner_Part]"

end
