(* ===== verification/Main_Proofs.thy ===== *)
theory Main_Proofs
  imports Main_Program
begin

text \<open>
  What \<open>main\<close> guarantees: the loop ends after a termination signal and only then, a request to
  reload is not lost, the rates it reports lie between 0 and 1, the warm-up counts every query, and
  how a start ends.
\<close>

section \<open>The loop\<close>

definition control_inv :: "control \<Rightarrow> bool" where
  "control_inv s \<longleftrightarrow> (0 < ps_timers s \<or> \<not> ps_running s \<longrightarrow> ps_draining s)
     \<and> (case ps_place s of Polling i \<Rightarrow> i \<le> 30 \<and> ps_draining s | Left \<Rightarrow> ps_draining s | _ \<Rightarrow> True)"

lemma control_step_inv: "control_inv s \<Longrightarrow> control_inv (control_step s e)"
proof (cases e)
  case (Main_Thread idle)
  then show "control_inv s \<Longrightarrow> control_inv (control_step s e)"
    by (cases "ps_place s") (auto simp: control_inv_def main_step_def Let_def)
qed (auto simp: control_inv_def signalHandler_def stop_timer_def split: place_in_loop.splits)

interpretation loop: step_invariant control_step "\<lambda>_. True" control_inv
  by unfold_locales (rule control_step_inv)

lemma control_inv_init: "control_inv (control_init res env)"
  by (simp add: control_inv_def control_init_def)

text \<open>How many steps the main thread still takes when it drains.\<close>

fun distance :: "place_in_loop \<Rightarrow> nat" where
  "distance At_Running = 34"
| "distance At_Reload = 33"
| "distance At_Drain = 32"
| "distance (Polling i) = 31 - i"
| "distance Left = 0"

definition is_main :: "control_event \<Rightarrow> bool" where
  "is_main e \<longleftrightarrow> (\<exists>idle. e = Main_Thread idle)"

lemma is_main_simps [simp]: "is_main (Main_Thread idle)" "\<not> is_main (Signal sig)" "\<not> is_main Timer"
  by (simp_all add: is_main_def)

lemma draining_stays: "ps_draining s \<Longrightarrow> ps_draining (control_step s e)"
  by (cases e) (auto simp: main_step_def signalHandler_def stop_timer_def Let_def split: place_in_loop.split)

lemma distance_step:
  assumes "control_inv s" "ps_draining s"
  shows "distance (ps_place (control_step s e)) \<le> distance (ps_place s) - (if is_main e then 1 else 0)"
proof (cases e)
  case (Main_Thread idle)
  with assms show ?thesis by (cases "ps_place s") (auto simp: main_step_def Let_def)
qed (simp_all add: signalHandler_def stop_timer_def)

lemma draining_ends:
  "control_inv s \<Longrightarrow> ps_draining s \<Longrightarrow> distance (ps_place s) \<le> length (filter is_main es) \<Longrightarrow>
    ps_place (foldl control_step s es) = Left"
proof (induction es arbitrary: s)
  case Nil
  then show ?case by (cases "ps_place s") (auto simp: control_inv_def)
next
  case (Cons e es)
  have "distance (ps_place (control_step s e)) \<le> length (filter is_main es)"
    using distance_step [OF Cons.prems(1,2), of e] Cons.prems(3) by (cases "is_main e") simp_all
  with Cons show ?case using control_step_inv draining_stays by simp
qed

lemma distance_bound: "distance p \<le> 34"
  by (cases p) simp_all

section \<open>Reloading\<close>

definition is_hup :: "control_event \<Rightarrow> bool" where
  "is_hup e \<longleftrightarrow> e = Signal SIGHUP"

lemma reload_step:
  "ps_reloads (control_step s e) + of_bool (ps_reload (control_step s e)) \<le> ps_reloads s + of_bool (ps_reload s) + of_bool (is_hup e)"
  "ps_resolver s \<Longrightarrow> is_hup e \<or> ps_reload s \<Longrightarrow> ps_reload (control_step s e) \<or> ps_reloads s < ps_reloads (control_step s e)"
  "ps_reloads s \<le> ps_reloads (control_step s e)"
  "ps_resolver (control_step s e) = ps_resolver s"
  "\<not> ps_resolver s \<Longrightarrow> ps_reloads (control_step s e) = ps_reloads s"
proof -
  have main: "ps_reloads (main_step idle s) + of_bool (ps_reload (main_step idle s)) \<le> ps_reloads s + of_bool (ps_reload s)"
    "ps_resolver s \<Longrightarrow> ps_reload s \<longrightarrow> ps_reload (main_step idle s) \<or> ps_reloads s < ps_reloads (main_step idle s)"
    "ps_reloads s \<le> ps_reloads (main_step idle s)" "ps_resolver (main_step idle s) = ps_resolver s"
    "\<not> ps_resolver s \<Longrightarrow> ps_reloads (main_step idle s) = ps_reloads s" for idle
    by (cases "ps_place s"; simp add: main_step_def Let_def)+
  have signal: "ps_reloads (signalHandler sig s) = ps_reloads s" "ps_resolver (signalHandler sig s) = ps_resolver s" "ps_reload (signalHandler sig s) \<longleftrightarrow> ps_reload s \<or> sig = SIGHUP" for sig
    by (cases sig; simp add: signalHandler_def)+
  have timer: "ps_reloads (stop_timer s) = ps_reloads s" "ps_resolver (stop_timer s) = ps_resolver s" "ps_reload (stop_timer s) = ps_reload s" by (simp_all add: stop_timer_def)
  show "ps_reloads (control_step s e) + of_bool (ps_reload (control_step s e)) \<le> ps_reloads s + of_bool (ps_reload s) + of_bool (is_hup e)"
  proof (cases e)
    case (Main_Thread idle)
    then show ?thesis using main(1) [of idle] by (simp add: is_hup_def)
  qed (auto simp: signal timer is_hup_def)
  show "ps_resolver s \<Longrightarrow> is_hup e \<or> ps_reload s \<Longrightarrow> ps_reload (control_step s e) \<or> ps_reloads s < ps_reloads (control_step s e)"
  proof (cases e)
    case (Main_Thread idle)
    assume "ps_resolver s" "is_hup e \<or> ps_reload s"
    with Main_Thread show ?thesis using main(2) [of idle] by (simp add: is_hup_def)
  qed (auto simp: signal timer is_hup_def)
  show "ps_reloads s \<le> ps_reloads (control_step s e)" using main(3) by (cases e) (simp_all add: signal timer)
  show "ps_resolver (control_step s e) = ps_resolver s"
    "\<not> ps_resolver s \<Longrightarrow> ps_reloads (control_step s e) = ps_reloads s"
    using main(4,5) by (cases e; simp add: signal timer)+
qed

lemma reload_count:
  "ps_reloads (foldl control_step s es) + of_bool (ps_reload (foldl control_step s es))
    \<le> ps_reloads s + of_bool (ps_reload s) + length (filter is_hup es)"
proof (induction es arbitrary: s)
  case (Cons e es)
  from Cons.IH [of "control_step s e"] reload_step(1) [of s e] show ?case by (cases "is_hup e") simp_all
qed simp

lemma reloads_mono: "ps_reloads s \<le> ps_reloads (foldl control_step s es)"
  by (induction es arbitrary: s) (auto intro: order_trans reload_step(3))

lemma resolver_stays: "ps_resolver (foldl control_step s es) = ps_resolver s"
  by (induction es arbitrary: s) (simp_all add: reload_step(4))

text \<open>Without a resolver nothing is reloaded.\<close>

lemma no_resolver_no_reload: "\<not> ps_resolver s \<Longrightarrow> ps_reloads (foldl control_step s es) = ps_reloads s"
  by (induction es arbitrary: s) (simp_all add: reload_step(4,5))

text \<open>A request is served within three steps of the main thread, unless the program is ending.\<close>

fun reload_distance :: "place_in_loop \<Rightarrow> nat" where
  "reload_distance At_Reload = 1"
| "reload_distance At_Running = 2"
| "reload_distance _ = 3"

lemma reload_distance_step:
  assumes "control_inv s" "ps_resolver s" "\<not> ps_draining (control_step s e)" "ps_reload s" "ps_reloads (control_step s e) = ps_reloads s"
  shows "ps_reload (control_step s e)
    \<and> reload_distance (ps_place (control_step s e)) + (if is_main e then 1 else 0) \<le> reload_distance (ps_place s)"
proof (cases e)
  case (Main_Thread idle)
  with assms show ?thesis
    by (cases "ps_place s") (auto simp: control_inv_def main_step_def Let_def split: if_splits)
qed (use assms in \<open>auto simp: signalHandler_def stop_timer_def\<close>)

lemma reload_served:
  "control_inv s \<Longrightarrow> ps_resolver s \<Longrightarrow> ps_reload s \<Longrightarrow> reload_distance (ps_place s) \<le> length (filter is_main es) \<Longrightarrow>
    ps_reloads s < ps_reloads (foldl control_step s es) \<or> ps_draining (foldl control_step s es)"
proof (induction es arbitrary: s)
  case Nil
  then show ?case by (cases "ps_place s") simp_all
next
  case (Cons e es)
  let ?s = "control_step s e"
  have drain: "ps_draining ?s \<Longrightarrow> ps_draining (foldl control_step ?s es)"
    by (induction es arbitrary: s e) (auto simp: draining_stays)
  show ?case
  proof (cases "ps_draining ?s \<or> ps_reloads s < ps_reloads ?s")
    case True
    with drain reloads_mono [of ?s es] show ?thesis by auto
  next
    case False
    then have same: "ps_reloads ?s = ps_reloads s" using reload_step(3) [of s e] by simp
    from reload_distance_step [OF Cons.prems(1,2) _ Cons.prems(3) same] False Cons.prems(4)
    have "ps_reload ?s" "reload_distance (ps_place ?s) \<le> length (filter is_main es)" by (auto split: if_splits)
    with Cons.IH [OF control_step_inv [OF Cons.prems(1), of e]] Cons.prems(2) reload_step(4) same show ?thesis by simp
  qed
qed

section \<open>Rates\<close>

lemma rate_bounds: "0 \<le> part \<Longrightarrow> part \<le> tot \<Longrightarrow> 0 \<le> rate part tot \<and> rate part tot \<le> 1"
  by (simp add: rate_def divide_le_eq_1)

lemma supplementary_bounds:
  assumes "counts_inv c"
  shows "0 \<le> turboHitRate (supplementary c sn)" "turboHitRate (supplementary c sn) \<le> 1"
    "0 \<le> staleHitRate (supplementary c sn)" "staleHitRate (supplementary c sn) \<le> 1"
  using assms rate_bounds [of "turboHits c" "cacheHits c"] rate_bounds [of "staleHits c" "totalQueries c"]
  by (simp_all add: supplementary_def counts_inv_def)

section \<open>The warm-up\<close>

lemma query_answers:
  assumes "length (questions req) = 1" "\<And>f. \<exists>r. back req f = Inr (Some r)"
  shows "\<exists>r. snd (query back fan ts req af s) = Inr (Some r)"
proof -
  obtain r where "back req fan = Inr (Some r)" using assms(2) by blast
  with assms(1) show ?thesis by (auto simp: query_def Let_def split: prod.split option.split)
qed

lemma query_all_counts_all:
  assumes "\<And>m f. m \<in> set ms \<Longrightarrow> length (questions m) = 1 \<and> (\<exists>r. back m f = Inr (Some r))"
  shows "snd (query_all back fan tss i ms s) = Inr (length ms)"
  using assms
proof (induction ms arbitrary: i s)
  case (Cons m ms)
  obtain s' r where q: "query back fan (tss i) m False s = (s', Inr (Some r))"
    using query_answers [of m "back" fan "tss i" False s] Cons.prems by (metis list.set_intros(1) prod.collapse)
  obtain s'' where "query_all back fan tss (Suc i) ms s' = (s'', Inr (length ms))"
    using Cons.IH [of "Suc i" s'] Cons.prems by (metis list.set_intros(2) prod.collapse)
  with q show ?case by simp
qed simp

text \<open>A name of at most 63 bytes has no longer label.\<close>

lemma label_length: "l \<in> set (labels n) \<Longrightarrow> length l \<le> length n"
proof (induction n rule: length_induct)
  case (1 n)
  define p where "p = takeWhile (\<lambda>c. c \<noteq> dot) n"
  have step: "labels n = (let r = (if p = n then [] else labels (drop (Suc (length p)) n)) in if p = [] then r else p # r)"
    by (subst labels_step) (simp add: Let_def p_def [symmetric])
  have "length p \<le> length n" by (simp add: p_def length_takeWhile_le)
  moreover have "length l \<le> length n" if "p \<noteq> n" "l \<in> set (labels (drop (Suc (length p)) n))"
  proof -
    have "n \<noteq> []" using that(1) by (auto simp: p_def)
    then have "length (drop (Suc (length p)) n) < length n" by simp
    with 1(1) that(2) show ?thesis by fastforce
  qed
  ultimately show ?case using 1(2) by (auto simp: step Let_def split: if_splits)
qed

lemma short_sendable: "length n \<le> 63 \<Longrightarrow> sendable n"
  using label_length by (force simp: sendable_def list_all_iff)

lemma prewarm_queries_ok:
  "length prewarm_queries = 40"
  "list_all (\<lambda>m. length (questions m) = 1 \<and> all_sendable m) prewarm_queries"
proof -
  show "length prewarm_queries = 40" by (simp add: prewarm_queries_def prewarm_names_def)
  have "list_all (\<lambda>n. length n \<le> 63) prewarm_names" by (simp add: prewarm_names_def lit_def)
  then show "list_all (\<lambda>m. length (questions m) = 1 \<and> all_sendable m) prewarm_queries"
    by (auto simp: prewarm_queries_def list_all_iff createQuery_def all_sendable_def short_sendable)
qed

lemma prewarm_counts_all:
  assumes "servers r \<noteq> []"
  shows "snd (main_prewarm (sys_backend net r) fan tss c) = Inr 40"
proof -
  have "\<exists>m'. sys_backend net r m f = Inr (Some m')" if "m \<in> set prewarm_queries" for m f
  proof -
    have m: "length (questions m) = 1" "all_sendable m" using that prewarm_queries_ok(2) by (auto simp: list_all_iff)
    then have "questions m \<noteq> []" "pack m = Inr (encode m)" by (auto simp: pack_eq_encode)
    from sys_query_sources [OF this(1) assms this(2)] show ?thesis by (simp add: sys_backend_def)
  qed
  then have "snd (query_all (sys_backend net r) fan tss 0 prewarm_queries c) = Inr (length prewarm_queries)"
    using prewarm_queries_ok(2) by (intro query_all_counts_all) (auto simp: list_all_iff)
  then show ?thesis by (simp add: main_prewarm_def prewarm_queries_ok(1))
qed

section \<open>How a start ends\<close>

text \<open>Without \<open>--monitoring_listen_addr\<close> the pages are served on the loopback address only.\<close>

lemma default_monitor:
  assumes "monitoringListenAddr cfg = []" "is_address (lit ''127.0.0.1'')"
  shows "monitor_create is_address bind (monitor_address cfg) www logo
    = Inr \<lparr>mon_addr = lit ''127.0.0.1:8080'', mon_wwwRoot = www, mon_logoPath = logo, mon_port = 8080,
           mon_open = bind (lit ''127.0.0.1'') 8080, mon_running = False\<rparr>"
proof -
  have "find_sub [58] (lit ''127.0.0.1:8080'') = Some 9" "drop (9 + 1) (lit ''127.0.0.1:8080'') = lit ''8080''"
    "take 9 (lit ''127.0.0.1:8080'') = lit ''127.0.0.1''" "stoi (lit ''8080'') = Inr 8080" by code_simp+
  with assms show ?thesis by (simp add: monitor_create_def monitor_address_def endpoint_port_def Let_def)
qed

lemma start_cases:
  assumes "parseArgs (os_read w) args = Run cfg"
    and "monitor_create (os_is_address w) (os_bind w) (monitor_address cfg)
      (findWwwDir (os_is_dir w) argv0) (findLogo (os_exists w) argv0) = Inr mon"
  shows "main_start w argv0 args =
    (if \<not> enableDnsToHttps cfg \<and> \<not> enableHttpsToDns cfg then Exited 1
     else case (if enableDnsToHttps cfg then bindE (make_dns w cfg) (\<lambda>d. Inr (Some d)) else Inr None) of
       Inl e \<Rightarrow> Aborted (Cache_Death e)
     | Inr d \<Rightarrow> Up \<lparr>pr_logger = log_settings cfg logger_init, pr_env = set_proxy_env cfg (os_env w),
         pr_monitor = monitor_start mon, pr_dns = d,
         pr_https = (if enableHttpsToDns cfg then Some (make_https cfg) else None)\<rparr>)"
  using assms by (simp add: main_start_def)

text \<open>A cache file with one entry that does not parse ends the program before it serves anything.\<close>

lemma damaged_cache_aborts:
  assumes "parseArgs (os_read w) args = Run cfg" "enableDnsToHttps cfg" "enableCache cfg" "cacheFile cfg \<noteq> []"
    and "os_read w (cacheFile cfg) = Some s" "load_bytes (os_now w) s [] = Inl e"
    and "monitor_create (os_is_address w) (os_bind w) (monitor_address cfg)
      (findWwwDir (os_is_dir w) argv0) (findLogo (os_exists w) argv0) = Inr mon"
  shows "main_start w argv0 args = Aborted (Cache_Death e)"
  using assms by (simp add: start_cases make_dns_def make_cache_def caching_init_def)

end
