(* ===== verification/Monitor_Proofs.thy ===== *)
theory Monitor_Proofs
  imports Monitor_Server
begin

text \<open>
  What the monitoring server guarantees: which files it serves, that its responses can be read back
  by the HTTP client of this program, and the escape of HTML.
\<close>

section \<open>Where a file is\<close>

text \<open>The directory entry that a path names, from the root down and last step first: empty
  components and \<open>.\<close> stay, \<open>..\<close> goes up. Symbolic links are not considered.\<close>

fun walk :: "bytes list \<Rightarrow> bytes list \<Rightarrow> bytes list" where
  "walk here [] = here"
| "walk here (c # cs) =
     (if c = [] \<or> c = lit ''.'' then walk here cs
      else if c = lit ''..'' then walk (tl here) cs
      else walk (c # here) cs)"

definition place :: "bytes \<Rightarrow> bytes list" where
  "place path = walk [] (getlines 47 path)"

lemma walk_getlines_append:
  "walk here (getlines 47 (r @ 47 # p)) = walk (walk here (getlines 47 r)) (getlines 47 p)"
proof (induction "47 :: u8" r arbitrary: here rule: getlines.induct)
  case (1 r)
  show ?case
  proof (cases "47 \<in> set r")
    case False
    then show ?thesis using getlines_cons [of 47 r p] by (cases "r = []") (auto simp: getlines_one)
  next
    case True
    then obtain l r' where r: "r = l @ 47 # r'" "47 \<notin> set l" by (metis split_list_first)
    then have "r \<noteq> []" "drop (Suc (length (takeWhile (\<lambda>c. c \<noteq> 47) r))) r = r'" by simp_all
    with 1 have ih: "walk h (getlines 47 (r' @ 47 # p)) = walk (walk h (getlines 47 r')) (getlines 47 p)" for h by simp
    show ?thesis using r by (simp add: getlines_cons ih)
  qed
qed

lemma walk_down: "lit ''..'' \<notin> set cs \<Longrightarrow> \<exists>below. walk here cs = below @ here"
proof (induction cs arbitrary: here)
  case (Cons c cs)
  then have "\<exists>below. walk h cs = below @ h" for h by simp
  from this [of here] this [of "c # here"] Cons.prems show ?case by (auto simp: Cons_eq_append_conv)
qed simp

lemma getlines_inside: "l \<in> set (getlines d s) \<Longrightarrow> \<exists>a b. s = a @ l @ b"
proof (induction d s rule: getlines.induct)
  case (1 d s)
  show ?case
  proof (cases "s = []")
    case False
    let ?l = "takeWhile (\<lambda>c. c \<noteq> d) s"
    have "getlines d s = ?l # getlines d (drop (Suc (length ?l)) s)" using False by (subst getlines.simps) (simp add: Let_def)
    with 1 have "l = ?l \<or> l \<in> set (getlines d (drop (Suc (length ?l)) s))" by simp
    then show ?thesis
    proof
      assume "l = ?l"
      then have "s = [] @ l @ dropWhile (\<lambda>c. c \<noteq> d) s" by simp
      then show ?thesis by blast
    next
      assume "l \<in> set (getlines d (drop (Suc (length ?l)) s))"
      with 1 False obtain a b where "drop (Suc (length ?l)) s = a @ l @ b" by blast
      then have "s = (take (Suc (length ?l)) s @ a) @ l @ b" by (metis append.assoc append_take_drop_id)
      then show ?thesis by blast
    qed
  qed (use 1 in simp)
qed

lemma no_dots_component: "\<not> contains (lit ''..'') path \<Longrightarrow> lit ''..'' \<notin> set (getlines d path)"
proof -
  assume "\<not> contains (lit ''..'') path"
  moreover have "lit ''..'' \<noteq> []" by (simp add: lit_def)
  ultimately show ?thesis by (metis contains_def find_sub_inside getlines_inside)
qed

lemma place_below:
  assumes "\<not> contains (lit ''..'') (47 # p)"
  shows "\<exists>below. place (www @ 47 # p) = below @ place www"
proof -
  have "getlines 47 (47 # p) = [] # getlines 47 p" using getlines_cons [of 47 "[]" p] by simp
  with no_dots_component [OF assms, of 47] have "lit ''..'' \<notin> set (getlines 47 p)" by simp
  from walk_down [OF this] show ?thesis by (simp add: place_def walk_getlines_append)
qed

text \<open>Every page that is not one of the fixed ones is the content of a regular file, named by the web
  root and the path; a path with a leading slash names a file below the web root.\<close>

definition fixed_paths :: "bytes list" where
  "fixed_paths = [lit ''/api/stream'', lit ''/health'', lit ''/metrics'', lit ''/api/stats'', lit ''/logo.png'']"

lemma served_file:
  assumes "monitor_route fs metrics stats m path = Page status_ok ctype body" "path \<notin> set fixed_paths"
  obtains f where "fs_regular fs f" "fs_read fs f = Some body" "body \<noteq> []"
    "f = mon_wwwRoot m @ (if path = lit ''/'' then lit ''/index.html'' else path)" "\<not> contains (lit ''..'') path"
proof -
  let ?p = "if path = lit ''/'' then lit ''/index.html'' else path"
  have "serveFile fs (mon_wwwRoot m) ?p = body" "body \<noteq> []"
    using assms by (auto simp: monitor_route_def fixed_paths_def not_found_def status_ok_def status_not_found_def lit_def
        Let_def split: if_splits)
  then have fs: "\<not> contains (lit ''..'') ?p" "fs_regular fs (mon_wwwRoot m @ ?p)" "fs_read fs (mon_wwwRoot m @ ?p) = Some body"
    by (auto simp: serveFile_def Let_def split: if_splits option.splits)
  have "\<not> contains (lit ''..'') path"
  proof (cases "path = lit ''/''")
    case True
    have "\<not> contains (lit ''..'') (lit ''/'')" by code_simp
    with True show ?thesis by simp
  qed (use fs(1) in simp)
  with fs \<open>body \<noteq> []\<close> that show ?thesis by blast
qed

lemma served_below_root:
  assumes "monitor_route fs metrics stats m (47 # p) = Page status_ok ctype body" "47 # p \<notin> set fixed_paths"
  shows "\<exists>f below. fs_regular fs f \<and> fs_read fs f = Some body \<and> place f = below @ place (mon_wwwRoot m)"
proof -
  from served_file [OF assms] obtain f where fs: "fs_regular fs f" "fs_read fs f = Some body"
    "f = mon_wwwRoot m @ (if 47 # p = lit ''/'' then lit ''/index.html'' else 47 # p)" "\<not> contains (lit ''..'') (47 # p)"
    by blast
  show ?thesis
  proof (cases "47 # p = lit ''/''")
    case True
    have "\<not> contains (lit ''..'') (47 # lit ''index.html'')" by code_simp
    from place_below [OF this] True fs show ?thesis by (auto simp: lit_def)
  qed (use fs place_below in auto)
qed

text \<open>Without the leading slash a file beside the web root can be reached.\<close>

lemma sibling_served:
  "\<exists>fs m path f. monitor_route fs [] [] m path = Page status_ok octet_stream (lit ''secret'')
    \<and> place f = lit ''www-private'' # tl (place (mon_wwwRoot m)) \<and> fs_read fs f = Some (lit ''secret'')"
proof -
  let ?f = "lit ''/srv/www-private''"
  let ?fs = "\<lparr>fs_regular = (\<lambda>x. x = ?f), fs_read = (\<lambda>x. if x = ?f then Some (lit ''secret'') else None)\<rparr>"
  let ?m = "\<lparr>mon_addr = lit '':8080'', mon_wwwRoot = lit ''/srv/www'', mon_logoPath = [], mon_port = 8080,
    mon_open = True, mon_running = True\<rparr>"
  have "monitor_route ?fs [] [] ?m (lit ''-private'') = Page status_ok octet_stream (lit ''secret'')"
    "place ?f = lit ''www-private'' # tl (place (mon_wwwRoot ?m))" "fs_read ?fs ?f = Some (lit ''secret'')" by code_simp+
  then show ?thesis by blast
qed

section \<open>The response on the wire\<close>

text \<open>The header ends where the client's reader looks for its end.\<close>

lemma find_end_here: "13 \<notin> set l \<Longrightarrow> find_sub header_end (l @ header_end) = Some (length l)"
  using find_sub_skip [of 13 l "[10, 13, 10]" header_end] by (simp add: header_end_def)

lemma find_end_line:
  "13 \<notin> set l \<Longrightarrow> c \<noteq> 13 \<Longrightarrow>
    find_sub header_end (l @ CRLF @ c # rest) = map_option (\<lambda>i. length l + (2 + i)) (find_sub header_end (c # rest))"
  using find_sub_skip [of 13 l "[10, 13, 10]" "CRLF @ c # rest"]
  by (cases "find_sub [13, 10, 13, 10] (c # rest)") (auto simp: header_end_def CRLF_def)

lemma to_string_plain: "13 \<notin> set (to_string n)" "length (to_string n) \<le> Suc n"
proof -
  show "13 \<notin> set (to_string n)" using to_string_digits(2) [of n] by (auto simp: list_all_iff isdigit_def)
  show "length (to_string n) \<le> Suc n"
    by (induction n rule: to_string.induct) (subst to_string.simps, auto)
qed

lemma to_string_length: "n < 10 ^ Suc k \<Longrightarrow> length (to_string n) \<le> Suc k"
proof (induction k arbitrary: n)
  case 0
  then show ?case by (simp add: to_string.simps)
next
  case (Suc k)
  then have "length (to_string (n div 10)) \<le> Suc k" by simp
  then show ?case by (subst to_string.simps) simp
qed

definition plain_field :: "bytes \<Rightarrow> bool" where
  "plain_field s \<longleftrightarrow> 13 \<notin> set s \<and> 67 \<notin> set s"

lemma page_head_end:
  assumes "plain_field status" "plain_field ctype"
  shows "find_sub header_end (page_head status ctype body @ header_end) = Some (length (page_head status ctype body))"
proof -
  let ?l1 = "lit ''Content-Type: '' @ ctype" and ?l2 = "lit ''Content-Length: '' @ to_string (length body)"
    and ?l3 = "lit ''Connection: close''"
  have no: "13 \<notin> set status" "13 \<notin> set ?l1" "13 \<notin> set ?l2" "13 \<notin> set ?l3"
    using assms to_string_plain by (auto simp: plain_field_def lit_def)
  have head: "\<exists>r. ?l1 @ s = 67 # r" "\<exists>r. ?l2 @ s = 67 # r" "\<exists>r. ?l3 @ s = 67 # r" for s by (simp_all add: lit_def)
  obtain r1 r2 r3 where r: "?l3 @ header_end = 67 # r3" "?l2 @ CRLF @ ?l3 @ header_end = 67 # r2"
    "?l1 @ CRLF @ ?l2 @ CRLF @ ?l3 @ header_end = 67 # r1" using head by metis
  have "find_sub header_end (67 # r3) = Some (length ?l3)" using find_end_here [OF no(4)] r(1) by simp
  then have "find_sub header_end (67 # r2) = Some (length ?l2 + (2 + length ?l3))"
    using find_end_line [OF no(3), of 67 r3] r by simp
  then have "find_sub header_end (67 # r1) = Some (length ?l1 + (2 + (length ?l2 + (2 + length ?l3))))"
    using find_end_line [OF no(2), of 67 r2] r by simp
  then have "find_sub header_end (status @ CRLF @ 67 # r1)
      = Some (length status + (2 + (length ?l1 + (2 + (length ?l2 + (2 + length ?l3))))))"
    using find_end_line [OF no(1), of 67 r1] by simp
  moreover have "page_head status ctype body @ header_end = status @ CRLF @ 67 # r1"
    using r(3) by (simp add: page_head_def)
  moreover have "length (page_head status ctype body) = length status + (2 + (length ?l1 + (2 + (length ?l2 + (2 + length ?l3)))))"
    by (simp add: page_head_def CRLF_def)
  ultimately show ?thesis by simp
qed

lemma page_content_length:
  assumes "plain_field status" "plain_field ctype" "length body < 2 ^ 64"
  shows "content_length (page_head status ctype body) = Inr (Some (length body))"
proof -
  let ?n = "to_string (length body)" and ?l3 = "lit ''Connection: close''"
  define pre where "pre = status @ CRLF @ lit ''Content-Type: '' @ ctype @ CRLF"
  have hdr: "page_head status ctype body = pre @ cl_tag @ ?n @ CRLF @ ?l3" by (simp add: page_head_def pre_def cl_tag_def)
  have cl: "cl_tag = 67 # lit ''ontent-Length: ''" "length cl_tag = 16" by (simp_all add: cl_tag_def lit_def)
  have "67 \<notin> set (status @ CRLF)" "67 \<notin> set (lit ''ontent-Type: '' @ ctype @ CRLF)"
    using assms by (auto simp: plain_field_def CRLF_def lit_def)
  note skip = this [THEN find_sub_skip [where pat = "lit ''ontent-Length: ''"]]
  have here: "find_sub cl_tag (cl_tag @ s) = Some 0" for s by (rule find_sub_here) (simp add: cl)
  have ct: "find_sub cl_tag (lit ''Content-Type: '' @ ctype @ CRLF @ cl_tag @ s) = Some (14 + length ctype + 2)" for s
  proof -
    have "lit ''Content-Type: '' = 67 # lit ''ontent-Type: ''" by (simp add: lit_def)
    moreover have "find_sub cl_tag (67 # lit ''ontent-Type: '' @ x) = map_option Suc (find_sub cl_tag (lit ''ontent-Type: '' @ x))" for x
      by (simp add: cl_tag_def lit_def)
    ultimately show ?thesis using skip(2) [of "cl_tag @ s"] here [of s] by (simp add: cl(1) CRLF_def lit_def)
  qed
  have i: "find_sub cl_tag (pre @ cl_tag @ s) = Some (length pre)" for s
    using skip(1) [of "lit ''Content-Type: '' @ ctype @ CRLF @ cl_tag @ s"] ct [of s]
    by (simp add: cl(1) pre_def) (simp add: CRLF_def lit_def)
  have "drop (length pre + 16) (page_head status ctype body) = ?n @ CRLF @ ?l3"
    unfolding hdr using cl(2) by simp
  moreover have "find_sub CRLF (?n @ CRLF @ ?l3) = Some (length ?n)"
    using find_sub_skip [of 13 ?n "[10]" "CRLF @ ?l3"] to_string_plain(1) by (simp add: CRLF_def)
  moreover have "length ?n \<le> 31"
  proof -
    have "length body < 10 ^ Suc 30" using assms(3) by simp
    from to_string_length [OF this] show ?thesis by simp
  qed
  moreover have "stoul ?n = Inr (length body)" using stoul_to_string [OF assms(3), of "[]"] by simp
  ultimately show ?thesis
    using i [of "?n @ CRLF @ ?l3"] hdr cl(2) by (simp add: content_length_def find_at_def Let_def)
qed

lemma page_complete:
  "plain_field status \<Longrightarrow> plain_field ctype \<Longrightarrow> body \<noteq> [] \<Longrightarrow> length body < 2 ^ 64
    \<Longrightarrow> complete_response (page_head status ctype body) body"
  using page_head_end page_content_length by (simp add: complete_response_def)

lemma content_types_plain: "plain_field (contentTypeFor path)"
proof -
  have "list_all (\<lambda>(_, t). plain_field t) content_types" "plain_field octet_stream" by code_simp+
  then show ?thesis by (auto simp: contentTypeFor_def list_all_iff split: option.split dest!: map_of_SomeD)
qed

lemma page_plain:
  "monitor_route fs metrics stats m path = Page status ctype body \<Longrightarrow> plain_field status \<and> plain_field ctype"
proof -
  have "plain_field status_ok" "plain_field status_not_found" "plain_field (lit ''text/plain'')"
    "plain_field (lit ''text/plain; version=0.0.4'')" "plain_field (lit ''application/json'')" "plain_field (lit ''image/png'')"
    by code_simp+
  then show "monitor_route fs metrics stats m path = Page status ctype body \<Longrightarrow> plain_field status \<and> plain_field ctype"
    using content_types_plain by (auto simp: monitor_route_def not_found_def Let_def split: if_splits option.splits)
qed

text \<open>A reader that gets the response in any segments stops with its last byte, and the body is what
  follows the header.\<close>

lemma page_read_back:
  assumes "monitor_route fs metrics stats m path = Page status ctype body" "body \<noteq> []" "length body < 2 ^ 64"
    and "concat cs = page_text status ctype body"
  shows "\<exists>fr. read_response (map Chunk cs @ es) framing_init = Inr (Some fr)
    \<and> respBuf fr = page_text status ctype body \<and> drop (headerEndPos fr + 4) (respBuf fr) = body"
proof -
  let ?hdr = "page_head status ctype body"
  have r: "complete_response ?hdr body" using page_complete page_plain [OF assms(1)] assms(2,3) by blast
  have whole: "page_text status ctype body = ?hdr @ header_end @ body" by (simp add: page_text_def header_end_def CRLF_def)
  have "framed ?hdr body framing_init" by (simp add: framed_def framing_init_def)
  moreover have "cs \<noteq> []" using assms(4) whole by (auto simp: header_end_def)
  ultimately obtain fr where "read_response (map Chunk cs @ es) framing_init = Inr (Some fr)"
    "respBuf fr = ?hdr @ header_end @ body" "headerEndPos fr = length ?hdr"
    using read_response_at_end [OF r] assms(4) whole by (force simp: framing_init_def)
  then show ?thesis using whole by simp
qed

section \<open>HTML\<close>

text \<open>The reader of the four entities.\<close>

definition entities :: "(bytes \<times> u8) list" where
  "entities = [(lit ''&lt;'', 60), (lit ''&gt;'', 62), (lit ''&amp;'', 38), (lit ''&quot;'', 34)]"

function html_decode :: "bytes \<Rightarrow> bytes" where
  "html_decode s =
     (case s of [] \<Rightarrow> []
      | c # s' \<Rightarrow>
          (case find (\<lambda>(e, _). take (length e) s = e) entities of
             Some (e, d) \<Rightarrow> d # html_decode (drop (max 1 (length e)) s)
           | None \<Rightarrow> c # html_decode s'))"
  by pat_completeness auto
termination by (relation "measure length") auto

declare html_decode.simps [simp del]

lemma html_decode_escape: "html_decode (htmlEscape s) = s"
proof (induction s)
  case (Cons c s)
  consider "c = 60" | "c = 62" | "c = 38" | "c = 34" | "c \<notin> {60, 62, 38, 34}" by blast
  then show ?case using Cons by cases (subst html_decode.simps; simp add: entities_def lit_def)+
qed (simp add: html_decode.simps)

lemma html_escape_plain: "60 \<notin> set (htmlEscape s) \<and> 62 \<notin> set (htmlEscape s) \<and> 34 \<notin> set (htmlEscape s)"
  by (induction s) (auto simp: lit_def)

end
