(* ===== verification/Json_Text.thy ===== *)
theory Json_Text
  imports Std_String
begin

text \<open>
  JSON as the pages of the monitoring server use it: values, their print, and a reader that inverts
  it. The reader takes strings without escapes only; the pages do not escape.
\<close>

text \<open>A quoted text.\<close>

definition qt :: "bytes \<Rightarrow> bytes" where
  "qt s = 34 # s @ [34]"

section \<open>JSON values and their print\<close>

datatype json =
    J_Num bytes
  | J_Str bytes
  | J_Bool bool
  | J_Obj json_members
  | J_Arr json_elements
and json_members = M_End | M bytes json json_members
and json_elements = E_End | E json json_elements

fun print_json :: "json \<Rightarrow> bytes"
and print_members :: "bool \<Rightarrow> json_members \<Rightarrow> bytes"
and print_elements :: "bool \<Rightarrow> json_elements \<Rightarrow> bytes" where
  "print_json (J_Num s) = s"
| "print_json (J_Str s) = qt s"
| "print_json (J_Bool b) = (if b then lit ''true'' else lit ''false'')"
| "print_json (J_Obj ms) = 123 # print_members True ms @ [125]"
| "print_json (J_Arr es) = 91 # print_elements True es @ [93]"
| "print_members first M_End = []"
| "print_members first (M k v ms) = (if first then [] else [44]) @ qt k @ [58] @ print_json v @ print_members False ms"
| "print_elements first E_End = []"
| "print_elements first (E v es) = (if first then [] else [44]) @ print_json v @ print_elements False es"

section \<open>A reader\<close>

definition plain_char :: "u8 \<Rightarrow> bool" where
  "plain_char c \<longleftrightarrow> 32 \<le> c \<and> c \<noteq> 34 \<and> c \<noteq> 92"

definition num_char :: "u8 \<Rightarrow> bool" where
  "num_char c \<longleftrightarrow> isdigit c \<or> c = 45 \<or> c = 46"

text \<open>An optional sign, an integer without leading zeros, an optional fraction.\<close>

definition number_ok :: "bytes \<Rightarrow> bool" where
  "number_ok s \<longleftrightarrow>
     (let t = (if take 1 s = [45] then tl s else s); ip = takeWhile isdigit t; r = dropWhile isdigit t
      in ip \<noteq> [] \<and> (1 < length ip \<longrightarrow> hd ip \<noteq> 48) \<and> (r = [] \<or> (hd r = 46 \<and> tl r \<noteq> [] \<and> list_all isdigit (tl r))))"

definition read_string :: "bytes \<Rightarrow> (bytes \<times> bytes) option" where
  "read_string s =
     (case dropWhile plain_char s of [] \<Rightarrow> None
      | c # r \<Rightarrow> if c = 34 then Some (takeWhile plain_char s, r) else None)"

definition read_key :: "bytes \<Rightarrow> (bytes \<times> bytes) option" where
  "read_key s =
     (case s of [] \<Rightarrow> None
      | q # r \<Rightarrow> if q \<noteq> 34 then None
          else case read_string r of None \<Rightarrow> None
          | Some (k, r) \<Rightarrow> (case r of [] \<Rightarrow> None | c # r \<Rightarrow> if c = 58 then Some (k, r) else None))"

definition after_comma :: "bool \<Rightarrow> bytes \<Rightarrow> bytes option" where
  "after_comma first s = (if first then Some s else case s of [] \<Rightarrow> None | c # r \<Rightarrow> if c = 44 then Some r else None)"

fun read_json :: "nat \<Rightarrow> bytes \<Rightarrow> (json \<times> bytes) option"
and read_members :: "nat \<Rightarrow> bool \<Rightarrow> bytes \<Rightarrow> (json_members \<times> bytes) option"
and read_elements :: "nat \<Rightarrow> bool \<Rightarrow> bytes \<Rightarrow> (json_elements \<times> bytes) option" where
  "read_json 0 s = None"
| "read_json (Suc n) s =
     (case s of [] \<Rightarrow> None
      | c # r \<Rightarrow>
          if c = 123 then map_option (apfst J_Obj) (read_members n True r)
          else if c = 91 then map_option (apfst J_Arr) (read_elements n True r)
          else if c = 34 then map_option (apfst J_Str) (read_string r)
          else if take 4 s = lit ''true'' then Some (J_Bool True, drop 4 s)
          else if take 5 s = lit ''false'' then Some (J_Bool False, drop 5 s)
          else let t = takeWhile num_char s in if number_ok t then Some (J_Num t, drop (length t) s) else None)"
| "read_members 0 first s = None"
| "read_members (Suc n) first s =
     (if take 1 s = [125] then Some (M_End, tl s)
      else case after_comma first s of None \<Rightarrow> None
      | Some s \<Rightarrow> (case read_key s of None \<Rightarrow> None
      | Some (k, s) \<Rightarrow> (case read_json n s of None \<Rightarrow> None
      | Some (v, s) \<Rightarrow> map_option (apfst (M k v)) (read_members n False s))))"
| "read_elements 0 first s = None"
| "read_elements (Suc n) first s =
     (if take 1 s = [93] then Some (E_End, tl s)
      else case after_comma first s of None \<Rightarrow> None
      | Some s \<Rightarrow> (case read_json n s of None \<Rightarrow> None
      | Some (v, s) \<Rightarrow> map_option (apfst (E v)) (read_elements n False s)))"

fun json_plain :: "json \<Rightarrow> bool"
and members_plain :: "json_members \<Rightarrow> bool"
and elements_plain :: "json_elements \<Rightarrow> bool" where
  "json_plain (J_Num s) \<longleftrightarrow> number_ok s \<and> list_all num_char s"
| "json_plain (J_Str s) \<longleftrightarrow> list_all plain_char s"
| "json_plain (J_Bool b) \<longleftrightarrow> True"
| "json_plain (J_Obj ms) \<longleftrightarrow> members_plain ms"
| "json_plain (J_Arr es) \<longleftrightarrow> elements_plain es"
| "members_plain M_End \<longleftrightarrow> True"
| "members_plain (M k v ms) \<longleftrightarrow> list_all plain_char k \<and> json_plain v \<and> members_plain ms"
| "elements_plain E_End \<longleftrightarrow> True"
| "elements_plain (E v es) \<longleftrightarrow> json_plain v \<and> elements_plain es"

fun fuel_json :: "json \<Rightarrow> nat" and fuel_members :: "json_members \<Rightarrow> nat" and fuel_elements :: "json_elements \<Rightarrow> nat" where
  "fuel_json (J_Obj ms) = Suc (fuel_members ms)"
| "fuel_json (J_Arr es) = Suc (fuel_elements es)"
| "fuel_json _ = 1"
| "fuel_members M_End = 1"
| "fuel_members (M k v ms) = Suc (fuel_json v + fuel_members ms)"
| "fuel_elements E_End = 1"
| "fuel_elements (E v es) = Suc (fuel_json v + fuel_elements es)"

section \<open>Reading back a print\<close>

lemma read_string_plain: "list_all plain_char s \<Longrightarrow> read_string (s @ 34 # rest) = Some (s, rest)"
  by (induction s) (auto simp: read_string_def plain_char_def split: list.splits)

lemma read_key_plain: "list_all plain_char k \<Longrightarrow> read_key (qt k @ 58 # rest) = Some (k, rest)"
  by (simp add: read_key_def qt_def read_string_plain)

lemma number_start: "number_ok s \<Longrightarrow> list_all num_char s \<Longrightarrow> \<exists>c r. s = c # r \<and> (isdigit c \<or> c = 45)"
  by (cases s) (auto simp: number_ok_def Let_def num_char_def isdigit_def split: if_splits)

lemma digit_range: "isdigit c \<Longrightarrow> c \<notin> {123, 91, 34, 116, 102, 93, 125, 44}"
  by (auto simp: isdigit_def)

lemma print_start: "json_plain t \<Longrightarrow> \<exists>c r. print_json t = c # r \<and> c \<noteq> 93"
proof (cases t)
  case (J_Num s)
  then show "json_plain t \<Longrightarrow> ?thesis" using number_start [of s] digit_range by fastforce
qed (auto simp: qt_def lit_def)

definition stops :: "bytes \<Rightarrow> bool" where
  "stops rest \<longleftrightarrow> rest = [] \<or> \<not> num_char (hd rest)"

lemma stops_simps [simp]: "stops (44 # r)" "stops (125 # r)" "stops (93 # r)" "stops []"
  by (simp_all add: stops_def num_char_def isdigit_def)

lemma stops_after: "stops (print_members False ms @ 125 # rest)" "stops (print_elements False es @ 93 # rest)"
  by (cases ms; simp) (cases es; simp)

lemma read_number:
  assumes "number_ok s" "list_all num_char s" "stops rest"
  shows "read_json (Suc n) (s @ rest) = Some (J_Num s, rest)"
proof -
  obtain c r where s: "s = c # r" "isdigit c \<or> c = 45" using number_start assms(1,2) by blast
  have "c \<notin> {123, 91, 34, 116, 102}" using s(2) digit_range by auto
  moreover have "takeWhile num_char (s @ rest) = s"
    using assms(2,3) by (cases rest) (auto simp: takeWhile_append list_all_iff stops_def)
  ultimately show ?thesis using assms(1) s(1) by (simp add: lit_def Let_def)
qed

lemma read_print:
  "json_plain t \<Longrightarrow> fuel_json t \<le> n \<Longrightarrow> stops rest \<Longrightarrow> read_json n (print_json t @ rest) = Some (t, rest)"
  "members_plain ms \<Longrightarrow> fuel_members ms \<le> n \<Longrightarrow> read_members n first (print_members first ms @ 125 # rest) = Some (ms, rest)"
  "elements_plain es \<Longrightarrow> fuel_elements es \<le> n \<Longrightarrow> read_elements n first (print_elements first es @ 93 # rest) = Some (es, rest)"
proof (induction t and ms and es arbitrary: n rest and n first rest and n first rest)
  case (J_Num s)
  then show ?case using read_number by (cases n) simp_all
next
  case (J_Str s)
  then show ?case by (cases n) (simp_all add: qt_def read_string_plain)
next
  case (J_Bool b)
  then show ?case by (cases n) (auto simp: lit_def)
next
  case (J_Obj ms)
  then show ?case by (cases n) simp_all
next
  case (J_Arr es)
  then show ?case by (cases n) simp_all
next
  case M_End
  then show ?case by (cases n) simp_all
next
  case (M k v ms)
  from M.prems(2) obtain m where n: "n = Suc m" "fuel_json v \<le> m" "fuel_members ms \<le> m" by (cases n) auto
  let ?rest = "print_members False ms @ 125 # rest"
  have "read_json m (print_json v @ ?rest) = Some (v, ?rest)" using M n stops_after by simp
  moreover have "read_members m False ?rest = Some (ms, rest)" using M n by simp
  moreover have "read_key (qt k @ 58 # print_json v @ ?rest) = Some (k, print_json v @ ?rest)"
    using M.prems by (simp add: read_key_plain)
  moreover have "take 1 (qt k @ 58 # print_json v @ ?rest) \<noteq> [125]" by (simp add: qt_def)
  ultimately show ?case using n(1) by (cases first) (simp_all add: after_comma_def)
next
  case E_End
  then show ?case by (cases n) simp_all
next
  case (E v es)
  from E.prems(2) obtain m where n: "n = Suc m" "fuel_json v \<le> m" "fuel_elements es \<le> m" by (cases n) auto
  let ?rest = "print_elements False es @ 93 # rest"
  have "read_json m (print_json v @ ?rest) = Some (v, ?rest)" using E n stops_after by simp
  moreover have "read_elements m False ?rest = Some (es, rest)" using E n by simp
  moreover have "take 1 (print_json v @ ?rest) \<noteq> [93]" using print_start [of v] E.prems(1) by auto
  ultimately show ?case using n(1) by (cases first) (simp_all add: after_comma_def)
qed

end
