(* ===== verification/Monitor_Pages.thy ===== *)
theory Monitor_Pages
  imports Auto_Tuner Http_Resolver Monitor_Server Json_Text
begin

text \<open>
  The two pages of the monitoring server that show measurements: \<open>renderPrometheus\<close> and
  \<open>renderJson\<close> of \<open>src/monitor_server.cpp\<close>. A real is printed by the stream: with two digits after
  the point in the JSON page, in the default format, the parameter \<open>shown\<close>, in the other.
\<close>

section \<open>Numbers\<close>

definition int_text :: "int \<Rightarrow> bytes" where
  "int_text i = (if i < 0 then 45 # to_string (nat (- i)) else to_string (nat i))"

text \<open>\<open>std::fixed\<close> with precision 2: the nearest number of hundredths, a tie going to the even one.\<close>

definition hundredths :: "real \<Rightarrow> int" where
  "hundredths x =
     (let f = \<lfloor>100 * x\<rfloor>; r = 100 * x - of_int f in
      if r < 1 / 2 then f else if 1 / 2 < r then f + 1 else if even f then f else f + 1)"

definition two_digits :: "nat \<Rightarrow> bytes" where
  "two_digits n = [48 + of_nat (n div 10), 48 + of_nat (n mod 10)]"

definition fixed2 :: "real \<Rightarrow> bytes" where
  "fixed2 x =
     (let n = nat (hundredths \<bar>x\<bar>) in
      (if x < 0 then [45] else []) @ to_string (n div 100) @ 46 # two_digits (n mod 100))"

section \<open>What is shown\<close>

record figures =
  fg_perf :: perf_snapshot
  fg_tuner :: auto_tuner
  fg_lm :: latency_manager
  fg_queries :: int
  fg_ttl :: ttl_config
  fg_pools :: "(pool_stats \<times> bytes) list option"
  fg_time :: bytes

section \<open>The text format of Prometheus\<close>

definition metric :: "bytes \<Rightarrow> bytes \<Rightarrow> bytes \<Rightarrow> bytes" where
  "metric name help v =
     lit ''# HELP '' @ name @ lit '' '' @ help @ [10] @ lit ''# TYPE '' @ name @ lit '' gauge'' @ [10] @ name @ lit '' '' @ v @ [10]"

definition renderPrometheus :: "(real \<Rightarrow> bytes) \<Rightarrow> figures \<Rightarrow> bytes" where
  "renderPrometheus shown fg =
     (let perf = fg_perf fg; tuner = fg_tuner fg in
      metric (lit ''lynx_avg_latency_ms'') (lit ''Average query latency'') (shown (avgLatencyMs perf)) @ [10]
      @ metric (lit ''lynx_p95_latency_ms'') (lit ''P95 query latency'') (shown (p95LatencyMs perf)) @ [10]
      @ metric (lit ''lynx_cache_hit_rate'') (lit ''Cache hit rate (0-1)'') (shown (cacheHitRate perf)) @ [10]
      @ metric (lit ''lynx_error_rate'') (lit ''Error rate (0-1)'') (shown (errorRate perf)) @ [10]
      @ metric (lit ''lynx_conn_utilization'') (lit ''Connection utilization (0-1)'') (shown (connUtilization perf)) @ [10]
      @ metric (lit ''lynx_active_connections'') (lit ''Active upstream connections'') (int_text (activeConnections perf)) @ [10]
      @ metric (lit ''lynx_recommended_connections'') (lit ''Auto-tuner recommended connections'') (int_text (connCount tuner)) @ [10]
      @ metric (lit ''lynx_recommended_threads'') (lit ''Auto-tuner recommended threads'') (int_text (threadCount tuner)) @ [10]
      @ metric (lit ''lynx_cache_refresh_pct'') (lit ''Cache refresh threshold percent'') (int_text (refreshPct tuner)) @ [10]
      @ metric (lit ''lynx_fan_out_enabled'') (lit ''Whether parallel fan-out is active'') (if fanOut tuner then lit ''1'' else lit ''0'') @ [10]
      @ metric (lit ''lynx_thread_pool_load'') (lit ''Pending tasks in thread pool'') (int_text (threadPoolLoad perf))
      @ metric (lit ''lynx_thread_pool_workers'') (lit ''Actual worker threads'') (int_text (threadPoolWorkers perf)))"

section \<open>The JSON page\<close>

text \<open>A key with its colon.\<close>

definition jkey :: "string \<Rightarrow> bytes" where
  "jkey k = qt (lit k) @ [58]"

definition pool_text :: "pool_stats \<times> bytes \<Rightarrow> bytes" where
  "pool_text = (\<lambda>(ps, ip).
     lit ''{'' @ jkey ''host'' @ qt (ps_host ps) @ [44] @ jkey ''port'' @ qt (ps_port ps) @ [44] @ jkey ''ip'' @ qt ip @ [44]
     @ jkey ''connected'' @ int_text (int (ps_connected ps)) @ [44] @ jkey ''total'' @ int_text (int (ps_total ps)) @ [44]
     @ jkey ''err'' @ int_text (ps_errors ps) @ [44] @ jkey ''ok'' @ int_text (ps_successes ps) @ [44]
     @ jkey ''error_ratio'' @ int_text (ps_errorRatio ps) @ lit ''}'')"

text \<open>The loop over the pools; \<open>first\<close> says that no comma is due.\<close>

fun pools_text :: "bool \<Rightarrow> (pool_stats \<times> bytes) list \<Rightarrow> bytes" where
  "pools_text first [] = []"
| "pools_text first (p # ps) = (if first then [] else [44]) @ pool_text p @ pools_text False ps"

definition renderJson :: "figures \<Rightarrow> bytes" where
  "renderJson fg =
     (let perf = fg_perf fg; tuner = fg_tuner fg; lm = fg_lm fg in
      lit ''{'' @ jkey ''timestamp'' @ qt (fg_time fg) @ [44]
      @ jkey ''latency'' @ lit ''{'' @ jkey ''avg_ms'' @ fixed2 (avgLatencyMs perf) @ [44]
        @ jkey ''p95_ms'' @ fixed2 (p95LatencyMs perf) @ lit ''}'' @ [44]
      @ jkey ''cache'' @ lit ''{'' @ jkey ''hit_rate'' @ fixed2 (cacheHitRate perf) @ [44]
        @ jkey ''turbo_hit_rate'' @ fixed2 (turboHitRate perf) @ [44]
        @ jkey ''stale_hit_rate'' @ fixed2 (staleHitRate perf) @ lit ''}'' @ [44]
      @ jkey ''errors'' @ lit ''{'' @ jkey ''rate'' @ fixed2 (errorRate perf) @ lit ''}'' @ [44]
      @ jkey ''connections'' @ lit ''{'' @ jkey ''active'' @ int_text (activeConnections perf) @ [44]
        @ jkey ''recommended'' @ int_text (connCount tuner) @ [44]
        @ jkey ''utilization'' @ fixed2 (connUtilization perf) @ lit ''}'' @ [44]
      @ jkey ''thread_pool'' @ lit ''{'' @ jkey ''pending'' @ int_text (threadPoolLoad perf) @ [44]
        @ jkey ''workers'' @ int_text (threadPoolWorkers perf) @ [44]
        @ jkey ''recommended'' @ int_text (threadCount tuner) @ lit ''}'' @ [44]
      @ jkey ''latency_manager'' @ lit ''{'' @ jkey ''target_avg_ms'' @ fixed2 (avgMs (lm_targets lm)) @ [44]
        @ jkey ''target_p95_ms'' @ fixed2 (p95Ms (lm_targets lm)) @ [44]
        @ jkey ''urgency'' @ int_text (urgency lm) @ [44]
        @ jkey ''gap_pct'' @ fixed2 (gapPct lm) @ [44]
        @ jkey ''bottleneck'' @ qt (lit (bottleneck lm)) @ lit ''}'' @ [44]
      @ jkey ''auto_tuner'' @ lit ''{'' @ jkey ''cache_refresh_pct'' @ int_text (refreshPct tuner) @ [44]
        @ jkey ''fan_out'' @ (if fanOut tuner then lit ''true'' else lit ''false'') @ [44]
        @ jkey ''latency_trend'' @ fixed2 (trendSlope tuner) @ [44]
        @ jkey ''qps'' @ fixed2 (qps tuner) @ [44]
        @ jkey ''connection_growth'' @ lit ''0'' @ [44]
        @ jkey ''connection_growth_per_cycle'' @ lit ''0'' @ [44]
        @ jkey ''total_queries'' @ int_text (fg_queries fg) @ [44]
        @ jkey ''min_ttl_secs'' @ int_text (minTTLSecs (fg_ttl fg)) @ [44]
        @ jkey ''negative_ttl_secs'' @ int_text (negativeTTLSecs (fg_ttl fg)) @ lit ''}'' @ [44]
      @ jkey ''upstream_health'' @ lit ''{'' @ jkey ''pools'' @ lit ''[''
      @ (case fg_pools fg of None \<Rightarrow> [] | Some ps \<Rightarrow> pools_text True ps)
      @ lit '']}}'')"

end
