(* ===== verification/Monitor_Stats.thy ===== *)
theory Monitor_Stats
  imports Monitor_Pages
begin

text \<open>
  The JSON page of the monitoring server is JSON: it is the print of a tree of values, which a
  reader of JSON gets back, provided that the texts shown need no escape; its numbers are the
  measurements to within half a hundredth.
\<close>

section \<open>Numbers\<close>

lemma to_string_hd: "0 < n \<Longrightarrow> hd (to_string n) \<noteq> 48"
proof (induction n rule: to_string.induct)
  case (1 n)
  show ?case
  proof (cases "n < 10")
    case True
    then have u: "unat (48 + of_nat n :: u8) = 48 + n" by (simp add: unat_word_ariths unat_of_nat)
    have "48 + of_nat n \<noteq> (48 :: u8)"
    proof
      assume "48 + of_nat n = (48 :: u8)"
      then have "unat (48 + of_nat n :: u8) = 48" by (simp only:) simp
      with u 1(2) show False by simp
    qed
    with True show ?thesis by (subst to_string.simps) simp
  next
    case False
    then have "0 < n div 10" by simp
    with 1(1) False have "hd (to_string (n div 10)) \<noteq> 48" by simp
    with False to_string_digits(1) [of "n div 10"] show ?thesis by (subst to_string.simps) simp
  qed
qed

lemma to_string_leading: "1 < length (to_string n) \<Longrightarrow> hd (to_string n) \<noteq> 48"
  using to_string_hd [of n] by (cases "n = 0") (simp_all add: to_string.simps)

lemma digits_num: "list_all isdigit s \<Longrightarrow> list_all num_char s"
  by (simp add: list_all_iff num_char_def)

lemma not_minus: "list_all isdigit s \<Longrightarrow> s \<noteq> [] \<Longrightarrow> take 1 (s @ r) \<noteq> [45]"
  by (cases s) (auto simp: isdigit_def)

lemma span_digits:
  assumes "list_all isdigit ds" "r = [] \<or> \<not> isdigit (hd r)"
  shows "takeWhile isdigit (ds @ r) = ds" "dropWhile isdigit (ds @ r) = r"
proof -
  show "takeWhile isdigit (ds @ r) = ds" using assms by (rule takeWhile_digits)
  then show "dropWhile isdigit (ds @ r) = r" by (metis append_eq_append_conv takeWhile_dropWhile_id)
qed

lemma natural_ok:
  assumes "r = [] \<or> (hd r = 46 \<and> tl r \<noteq> [] \<and> list_all isdigit (tl r))"
  shows "number_ok (to_string n @ r)" "number_ok (45 # to_string n @ r)"
proof -
  have "r = [] \<or> \<not> isdigit (hd r)" using assms by (auto simp: isdigit_def)
  note span = span_digits [OF to_string_digits(2) this]
  have sign: "(if take 1 (to_string n @ r) = [45] then tl (to_string n @ r) else to_string n @ r) = to_string n @ r"
    "(if take 1 (45 # to_string n @ r) = [45] then tl (45 # to_string n @ r) else 45 # to_string n @ r) = to_string n @ r"
    using not_minus [OF to_string_digits(2,1), of n r] by simp_all
  show "number_ok (to_string n @ r)" "number_ok (45 # to_string n @ r)"
    unfolding number_ok_def Let_def sign span using assms to_string_digits(1) to_string_leading by blast+
qed

lemma int_text_ok: "number_ok (int_text i) \<and> list_all num_char (int_text i)"
  using natural_ok [of "[]" "nat i"] natural_ok [of "[]" "nat (- i)"] digits_num [OF to_string_digits(2)]
  by (simp add: int_text_def num_char_def)

lemma two_digits_ok: "n < 100 \<Longrightarrow> list_all isdigit (two_digits n)"
  using digit_of_nat(1) [of "n div 10"] digit_of_nat(1) [of "n mod 10"] by (simp add: two_digits_def)

lemma fixed2_ok: "number_ok (fixed2 x) \<and> list_all num_char (fixed2 x)"
proof -
  define n where "n = nat (hundredths \<bar>x\<bar>)"
  have d: "list_all isdigit (two_digits (n mod 100))" by (rule two_digits_ok) simp
  moreover have "two_digits (n mod 100) \<noteq> []" by (simp add: two_digits_def)
  ultimately have "number_ok (to_string (n div 100) @ 46 # two_digits (n mod 100))"
    "number_ok (45 # to_string (n div 100) @ 46 # two_digits (n mod 100))"
    by (auto intro: natural_ok)
  moreover have "list_all num_char (46 # two_digits (n mod 100))" using digits_num [OF d] by (simp add: num_char_def)
  moreover have "num_char 45" by (simp add: num_char_def)
  ultimately show ?thesis
    using digits_num [OF to_string_digits(2), of "n div 100"] by (simp add: fixed2_def Let_def n_def [symmetric])
qed

lemma hundredths_near: "\<bar>of_int (hundredths x) - 100 * x\<bar> \<le> 1 / 2"
  by (auto simp: hundredths_def Let_def abs_le_iff; linarith)

text \<open>What \<open>fixed2\<close> prints: the sign and a number of hundredths next to the real.\<close>

lemma fixed2_near:
  "\<exists>n. fixed2 x = (if x < 0 then [45] else []) @ to_string (n div 100) @ 46 # two_digits (n mod 100)
    \<and> \<bar>real n - 100 * \<bar>x\<bar>\<bar> \<le> 1 / 2"
proof -
  have near: "\<bar>of_int (hundredths \<bar>x\<bar>) - 100 * \<bar>x\<bar>\<bar> \<le> 1 / 2" by (rule hundredths_near)
  then have "- 1 < (of_int (hundredths \<bar>x\<bar>) :: real)" by linarith
  then have "0 \<le> hundredths \<bar>x\<bar>" by linarith
  with near have "\<bar>real (nat (hundredths \<bar>x\<bar>)) - 100 * \<bar>x\<bar>\<bar> \<le> 1 / 2" by simp
  then show ?thesis unfolding fixed2_def Let_def by blast
qed

section \<open>The tree\<close>

fun object_of :: "(string \<times> json) list \<Rightarrow> json_members" where
  "object_of [] = M_End"
| "object_of ((k, v) # ms) = M (lit k) v (object_of ms)"

definition pool_tree :: "pool_stats \<times> bytes \<Rightarrow> json" where
  "pool_tree = (\<lambda>(ps, ip). J_Obj (object_of [(''host'', J_Str (ps_host ps)), (''port'', J_Str (ps_port ps)), (''ip'', J_Str ip),
     (''connected'', J_Num (int_text (int (ps_connected ps)))), (''total'', J_Num (int_text (int (ps_total ps)))),
     (''err'', J_Num (int_text (ps_errors ps))), (''ok'', J_Num (int_text (ps_successes ps))),
     (''error_ratio'', J_Num (int_text (ps_errorRatio ps)))]))"

fun pools_tree :: "(pool_stats \<times> bytes) list \<Rightarrow> json_elements" where
  "pools_tree [] = E_End"
| "pools_tree (p # ps) = E (pool_tree p) (pools_tree ps)"

definition stats_tree :: "figures \<Rightarrow> json" where
  "stats_tree fg =
     (let perf = fg_perf fg; tuner = fg_tuner fg; lm = fg_lm fg in
      J_Obj (object_of [
        (''timestamp'', J_Str (fg_time fg)),
        (''latency'', J_Obj (object_of [(''avg_ms'', J_Num (fixed2 (avgLatencyMs perf))), (''p95_ms'', J_Num (fixed2 (p95LatencyMs perf)))])),
        (''cache'', J_Obj (object_of [(''hit_rate'', J_Num (fixed2 (cacheHitRate perf))),
          (''turbo_hit_rate'', J_Num (fixed2 (turboHitRate perf))), (''stale_hit_rate'', J_Num (fixed2 (staleHitRate perf)))])),
        (''errors'', J_Obj (object_of [(''rate'', J_Num (fixed2 (errorRate perf)))])),
        (''connections'', J_Obj (object_of [(''active'', J_Num (int_text (activeConnections perf))),
          (''recommended'', J_Num (int_text (connCount tuner))), (''utilization'', J_Num (fixed2 (connUtilization perf)))])),
        (''thread_pool'', J_Obj (object_of [(''pending'', J_Num (int_text (threadPoolLoad perf))),
          (''workers'', J_Num (int_text (threadPoolWorkers perf))), (''recommended'', J_Num (int_text (threadCount tuner)))])),
        (''latency_manager'', J_Obj (object_of [(''target_avg_ms'', J_Num (fixed2 (avgMs (lm_targets lm)))),
          (''target_p95_ms'', J_Num (fixed2 (p95Ms (lm_targets lm)))), (''urgency'', J_Num (int_text (urgency lm))),
          (''gap_pct'', J_Num (fixed2 (gapPct lm))), (''bottleneck'', J_Str (lit (bottleneck lm)))])),
        (''auto_tuner'', J_Obj (object_of [(''cache_refresh_pct'', J_Num (int_text (refreshPct tuner))),
          (''fan_out'', J_Bool (fanOut tuner)), (''latency_trend'', J_Num (fixed2 (trendSlope tuner))),
          (''qps'', J_Num (fixed2 (qps tuner))), (''connection_growth'', J_Num (lit ''0'')),
          (''connection_growth_per_cycle'', J_Num (lit ''0'')), (''total_queries'', J_Num (int_text (fg_queries fg))),
          (''min_ttl_secs'', J_Num (int_text (minTTLSecs (fg_ttl fg)))),
          (''negative_ttl_secs'', J_Num (int_text (negativeTTLSecs (fg_ttl fg))))])),
        (''upstream_health'', J_Obj (object_of [(''pools'', J_Arr (pools_tree (case fg_pools fg of None \<Rightarrow> [] | Some ps \<Rightarrow> ps)))]))]))"

text \<open>The page is the print of the tree.\<close>

lemma braces: "lit ''{'' = [123]" "lit ''}'' = [125]" "lit ''['' = [91]" "lit '']}}'' = [93, 125, 125]"
  by (simp_all add: lit_def)

lemma pool_text_print: "pool_text p = print_json (pool_tree p)"
  by (cases p) (simp add: pool_text_def pool_tree_def jkey_def braces)

lemma pools_text_print: "pools_text first ps = print_elements first (pools_tree ps)"
  by (induction ps arbitrary: first) (simp_all add: pool_text_print)

lemma renderJson_print: "renderJson fg = print_json (stats_tree fg)"
  by (cases "fg_pools fg") (simp_all add: renderJson_def stats_tree_def Let_def jkey_def braces pools_text_print)

section \<open>Reading the page\<close>

definition pool_plain :: "pool_stats \<times> bytes \<Rightarrow> bool" where
  "pool_plain = (\<lambda>(ps, ip). list_all plain_char (ps_host ps) \<and> list_all plain_char (ps_port ps) \<and> list_all plain_char ip)"

definition figures_plain :: "figures \<Rightarrow> bool" where
  "figures_plain fg \<longleftrightarrow> list_all plain_char (fg_time fg) \<and> list_all plain_char (lit (bottleneck (fg_lm fg)))
     \<and> list_all pool_plain (case fg_pools fg of None \<Rightarrow> [] | Some ps \<Rightarrow> ps)"

definition plain_name :: "string \<Rightarrow> bool" where
  "plain_name k \<longleftrightarrow> list_all plain_char (lit k)"

lemma object_plain: "members_plain (object_of ms) \<longleftrightarrow> list_all (\<lambda>(k, v). plain_name k \<and> json_plain v) ms"
  by (induction ms rule: object_of.induct) (auto simp: plain_name_def)

lemma pool_tree_plain: "pool_plain p \<Longrightarrow> json_plain (pool_tree p)"
proof -
  have "list_all plain_name [''host'', ''port'', ''ip'', ''connected'', ''total'', ''err'', ''ok'', ''error_ratio'']" by code_simp
  then show "pool_plain p \<Longrightarrow> json_plain (pool_tree p)"
    by (cases p) (simp add: pool_tree_def pool_plain_def object_plain int_text_ok del: object_of.simps)
qed

lemma pools_tree_plain: "list_all pool_plain ps \<Longrightarrow> elements_plain (pools_tree ps)"
  by (induction ps) (simp_all add: pool_tree_plain)

lemma stats_tree_plain: "figures_plain fg \<Longrightarrow> json_plain (stats_tree fg)"
proof -
  have names: "list_all plain_name [''timestamp'', ''latency'', ''avg_ms'', ''p95_ms'', ''cache'', ''hit_rate'', ''turbo_hit_rate'',
    ''stale_hit_rate'', ''errors'', ''rate'', ''connections'', ''active'', ''recommended'', ''utilization'', ''thread_pool'',
    ''pending'', ''workers'', ''latency_manager'', ''target_avg_ms'', ''target_p95_ms'', ''urgency'', ''gap_pct'', ''bottleneck'',
    ''auto_tuner'', ''cache_refresh_pct'', ''fan_out'', ''latency_trend'', ''qps'', ''connection_growth'',
    ''connection_growth_per_cycle'', ''total_queries'', ''min_ttl_secs'', ''negative_ttl_secs'', ''upstream_health'', ''pools'']"
    by code_simp
  moreover have zero: "number_ok (lit ''0'')" "list_all num_char (lit ''0'')" by code_simp+
  ultimately show "figures_plain fg \<Longrightarrow> json_plain (stats_tree fg)"
    by (simp add: stats_tree_def Let_def figures_plain_def object_plain int_text_ok fixed2_ok pools_tree_plain del: object_of.simps)
qed

lemma renderJson_reads:
  "figures_plain fg \<Longrightarrow> read_json (fuel_json (stats_tree fg)) (renderJson fg) = Some (stats_tree fg, [])"
  using read_print(1) [of "stats_tree fg" "fuel_json (stats_tree fg)" "[]"] stats_tree_plain by (simp add: renderJson_print)

text \<open>No line end is in the page, so an event of the stream ends where the page does.\<close>

lemma num_char_plain: "num_char c \<Longrightarrow> plain_char c"
  by (auto simp: num_char_def plain_char_def isdigit_def word_le_nat_alt)

lemma print_one_line:
  "json_plain t \<Longrightarrow> 10 \<notin> set (print_json t)"
  "members_plain ms \<Longrightarrow> 10 \<notin> set (print_members first ms)"
  "elements_plain es \<Longrightarrow> 10 \<notin> set (print_elements first es)"
  by (induction t and ms and es arbitrary: and first and first)
    (auto simp: qt_def lit_def list_all_iff plain_char_def num_char_def isdigit_def)

end
