(* ===== verification/Https_Server.thy ===== *)
theory Https_Server
  imports Server_Proofs Std_String
begin

text \<open>
  The DNS-over-HTTPS server of \<open>src/https_server.cpp\<close>: one thread for each connection, which
  reads one request, forwards the DNS query in it over UDP and answers. The TLS handshake and the
  parser of HTTP messages are library code: a handler gets the parsed request and yields the
  response. \<open>udp\<close> says what the exchange with a host and port received, \<open>None\<close> for any exception of
  the socket calls; that \<open>receive_from\<close> may wait for ever is not expressed. The result \<open>Inl e\<close> is an
  exception that ends the connection without a response; \<open>Inl Bad_Access\<close> is a read outside the
  message, which no handler catches.
\<close>

section \<open>Requests and responses\<close>

datatype verb = Get | Post | Other_Verb

record https_request =
  rq_verb :: verb
  rq_target :: bytes
  rq_content_type :: bytes
  rq_body :: bytes
  rq_version :: nat

record https_response =
  rs_status :: nat
  rs_version :: nat
  rs_content_type :: bytes
  rs_body :: bytes

definition dns_media :: bytes where "dns_media = lit ''application/dns-message''"

definition text_response :: "nat \<Rightarrow> https_request \<Rightarrow> bytes \<Rightarrow> https_response" where
  "text_response status rq body =
     \<lparr>rs_status = status, rs_version = rq_version rq, rs_content_type = lit ''text/plain'', rs_body = body\<rparr>"

section \<open>Forwarding\<close>

text \<open>The receive buffer has 4096 bytes: the rest of a longer datagram is lost.\<close>

definition forward :: "upstream \<Rightarrow> bytes \<Rightarrow> dns_message \<Rightarrow> dns_message option dns_result" where
  "forward udp up req =
     (let (host, port) = split_upstream up in
      bindE (pack req) (\<lambda>wire.
        case udp host port wire of None \<Rightarrow> Inr None
        | Some resp \<Rightarrow> bindE (parse (take 4096 resp)) (\<lambda>m. Inr (Some (m\<lparr>header := (header m)\<lparr>hid := hid (header req)\<rparr>\<rparr>)))))"

definition upstream_reply :: "upstream \<Rightarrow> bytes \<Rightarrow> dns_message \<Rightarrow> dns_message dns_result" where
  "upstream_reply udp up req =
     (case forward udp up req of
        Inr (Some m) \<Rightarrow> Inr m
      | Inr None \<Rightarrow> Inr (createError req rcode_ServFail)
      | Inl e \<Rightarrow> if e = Bad_Access then Inl e else Inr (createError req rcode_ServFail))"

text \<open>The answer to the body of a POST request; both variants of the handler contain this code.\<close>

definition dns_response :: "upstream \<Rightarrow> bytes \<Rightarrow> https_request \<Rightarrow> https_response dns_result" where
  "dns_response udp up rq =
     bindE (parse (rq_body rq)) (\<lambda>req.
       if questions req \<noteq> []
       then bindE (upstream_reply udp up req) (\<lambda>reply. bindE (pack reply) (\<lambda>wire.
         Inr \<lparr>rs_status = 200, rs_version = rq_version rq, rs_content_type = dns_media, rs_body = wire\<rparr>))
       else Inr (text_response 400 rq (lit ''invalid DNS message'')))"

section \<open>The two handlers\<close>

definition tls_handler :: "upstream \<Rightarrow> bytes \<Rightarrow> https_request \<Rightarrow> https_response dns_result" where
  "tls_handler udp up rq =
     (if rq_verb rq = Post \<and> rq_content_type rq = dns_media then dns_response udp up rq
      else Inr (text_response 400 rq (lit ''unsupported request'')))"

definition validPath :: "bytes \<Rightarrow> bool" where
  "validPath target \<longleftrightarrow> target = lit ''/dns-query'' \<or> target = lit ''/resolve''"

definition plain_handler :: "upstream \<Rightarrow> bytes \<Rightarrow> https_request \<Rightarrow> https_response dns_result" where
  "plain_handler udp up rq =
     (if validPath (rq_target rq) \<and> rq_verb rq = Post \<and> rq_content_type rq = dns_media then dns_response udp up rq
      else if validPath (rq_target rq) \<and> rq_verb rq = Get
      then Inr (text_response 501 rq (lit ''GET method not yet implemented''))
      else Inr (text_response 400 rq (lit ''unsupported request type'')))"

section \<open>Listening\<close>

text \<open>Host and port of the listen address; \<open>std::stoi\<close> may throw.\<close>

definition https_endpoint :: "bytes \<Rightarrow> std_error + (bytes \<times> int)" where
  "https_endpoint addr =
     (case find_sub [colon] addr of
        None \<Rightarrow> Inr (lit ''0.0.0.0'', 443)
      | Some i \<Rightarrow> bindE (stoi (drop (i + 1) addr)) (\<lambda>port. Inr (if 0 < i then take i addr else lit ''0.0.0.0'', port)))"

text \<open>The accept loop: each step is the value of \<open>running_\<close> and the result of \<open>accept\<close>; the sockets
  accepted each get a thread. The first error ends the loop.\<close>

fun https_accept :: "(bool \<times> 'sock option) list \<Rightarrow> 'sock list" where
  "https_accept [] = []"
| "https_accept ((running, r) # steps) =
     (if \<not> running then []
      else case r of None \<Rightarrow> [] | Some sock \<Rightarrow> sock # https_accept steps)"

text \<open>What a connection receives: \<open>rq\<close> is \<open>None\<close> when the handshake or the reading of the request
  throws.\<close>

definition https_connection :: "bool \<Rightarrow> upstream \<Rightarrow> bytes \<Rightarrow> https_request option \<Rightarrow> https_response option" where
  "https_connection insecure udp up rq =
     (case rq of None \<Rightarrow> None
      | Some rq \<Rightarrow>
          (case (if insecure then plain_handler udp up rq else tls_handler udp up rq) of
             Inl _ \<Rightarrow> None | Inr resp \<Rightarrow> Some resp))"

section \<open>What a client gets\<close>

lemma upstream_reply_id: "upstream_reply udp up req = Inr m \<Longrightarrow> hid (header m) = hid (header req)"
  by (auto simp: upstream_reply_def forward_def exc_simps split: prod.splits sum.splits option.splits if_splits)

lemma dns_response_cases:
  assumes "dns_response udp up rq = Inr resp"
  obtains (answer) req reply where "parse (rq_body rq) = Inr req" "questions req \<noteq> []"
      "upstream_reply udp up req = Inr reply" "pack reply = Inr (rs_body resp)"
      "rs_status resp = 200" "rs_content_type resp = dns_media"
    | (invalid) req where "parse (rq_body rq) = Inr req" "questions req = []"
      "resp = text_response 400 rq (lit ''invalid DNS message'')"
proof -
  obtain req where req: "parse (rq_body rq) = Inr req" using assms by (auto simp: dns_response_def exc_simps)
  show ?thesis
  proof (cases "questions req = []")
    case True
    with assms req show ?thesis by (intro invalid) (simp_all add: dns_response_def)
  next
    case False
    with assms req obtain reply wire where "upstream_reply udp up req = Inr reply" "pack reply = Inr wire"
      "resp = \<lparr>rs_status = 200, rs_version = rq_version rq, rs_content_type = dns_media, rs_body = wire\<rparr>"
      by (auto simp: dns_response_def exc_simps)
    with req False show ?thesis by (intro answer) simp_all
  qed
qed

lemma dns_response_id:
  assumes "dns_response udp up rq = Inr resp" "rs_status resp = 200"
  shows "packet_id (rs_body resp) = packet_id (rq_body rq)"
  using assms(1)
proof (cases rule: dns_response_cases)
  case answer
  then show ?thesis using packet_id_pack packet_id_parse upstream_reply_id by simp
next
  case invalid
  then show ?thesis using assms(2) by (simp add: text_response_def)
qed

lemma connection_id:
  assumes "https_connection insecure udp up (Some rq) = Some resp" "rs_status resp = 200"
  shows "rs_content_type resp = dns_media \<and> packet_id (rs_body resp) = packet_id (rq_body rq) \<and> rs_version resp = rq_version rq"
proof -
  have "dns_response udp up rq = Inr resp"
    using assms by (auto simp: https_connection_def plain_handler_def tls_handler_def text_response_def
        split: if_splits sum.splits)
  moreover from this assms(2) have "rs_content_type resp = dns_media \<and> rs_version resp = rq_version rq"
    by (auto simp: dns_response_def text_response_def exc_simps split: if_splits)
  ultimately show ?thesis using dns_response_id assms(2) by blast
qed

text \<open>An upstream that fails, for whatever reason, costs the client nothing but the answer: it gets
  SERVFAIL for its own question.\<close>

lemma upstream_failure:
  assumes "parse (rq_body rq) = Inr req" "questions req \<noteq> []" "all_sendable req"
    and "\<And>host port wire resp. udp host port wire = Some resp \<Longrightarrow> \<exists>e. parse (take 4096 resp) = Inl e \<and> e \<noteq> Bad_Access"
  shows "dns_response udp up rq
    = Inr \<lparr>rs_status = 200, rs_version = rq_version rq, rs_content_type = dns_media, rs_body = encode (createError req rcode_ServFail)\<rparr>"
proof -
  obtain host port where up: "split_upstream up = (host, port)" by fastforce
  have wire: "pack req = Inr (encode req)" using assms(3) by (simp add: pack_eq_encode)
  have "upstream_reply udp up req = Inr (createError req rcode_ServFail)"
  proof (cases "udp host port (encode req)")
    case None
    then show ?thesis by (simp add: upstream_reply_def forward_def up wire)
  next
    case (Some resp)
    from assms(4) [OF this] obtain e where "parse (take 4096 resp) = Inl e" "e \<noteq> Bad_Access" by blast
    with Some show ?thesis by (simp add: upstream_reply_def forward_def up wire)
  qed
  with assms sendable_createError show ?thesis by (simp add: dns_response_def)
qed

text \<open>A body that is no DNS message gets no response, although the handler has one for it.\<close>

lemma malformed_body_closes:
  "rq_verb rq = Post \<Longrightarrow> rq_content_type rq = dns_media \<Longrightarrow> validPath (rq_target rq) \<Longrightarrow> parse (rq_body rq) = Inl e
    \<Longrightarrow> https_connection insecure udp up (Some rq) = None"
  by (simp add: https_connection_def plain_handler_def tls_handler_def dns_response_def)

text \<open>The plain variant is the TLS variant on the two paths, apart from GET.\<close>

lemma plain_eq_tls:
  "validPath (rq_target rq) \<Longrightarrow> rq_verb rq = Post \<Longrightarrow> rq_content_type rq = dns_media
    \<Longrightarrow> plain_handler udp up rq = tls_handler udp up rq"
  by (simp add: plain_handler_def tls_handler_def)

text \<open>Connections are served until the first accept error only.\<close>

lemma https_accept_prefix:
  "https_accept steps = map (\<lambda>(_, r). the r) (takeWhile (\<lambda>(running, r). running \<and> r \<noteq> None) steps)"
  by (induction steps rule: https_accept.induct) (auto split: option.split)

end
