(* ===== verification/Service_Properties.thy ===== *)
theory Service_Properties
  imports Main_Proofs Monitor_Proofs Monitor_Stats Https_Server Dns_Listen System_Properties
begin

text \<open>
  The properties of the program around the resolvers: its options, its log, the main loop, the
  sockets, and the two web servers.
\<close>

section \<open>A configuration\<close>

definition s_entries :: "json_entry list" where
  "s_entries = [Quoted (lit ''log_level'') (lit ''warn''), Bare (lit ''enable_dns_to_https'') (lit ''true''),
     Quoted (lit ''dns_listen_addr'') (lit '':5300'')]"

definition s_args :: "bytes list" where
  "s_args = map lit [''--config=lynx.json'', ''--log_level=debug'']"

definition s_read :: "bytes \<Rightarrow> bytes option" where
  "s_read path = (if path = lit ''lynx.json'' then Some (config_text s_entries) else None)"

definition s_config :: config where
  "s_config = default_config\<lparr>configFile := lit ''lynx.json'', enableDnsToHttps := True, dnsListenAddr := lit '':5300'',
     logLevel := lit ''debug''\<rparr>"

lemma s_run: "parseArgs s_read s_args = Run s_config"
  by code_simp

section \<open>Options\<close>

text \<open>C34: In every configuration that the program runs with, an option has the value of its last
  occurrence on the command line; without one, the value that the config file gives it;
  without that, its default. For a flag the value on the command line counts for nothing: its
  presence turns the option on, also as =false; only enable_cache reads it.\<close>

theorem option_priority:
  "parseArgs read args = Run cfg \<Longrightarrow> map_of option_names n = Some opt \<Longrightarrow>
    option_value opt cfg =
      (case last_arg (lit ''--'' @ n) args of Some v \<Rightarrow> cli_value opt v
       | None \<Rightarrow> (case (if config_arg args = [] then None else map_of (parseJson (read (config_arg args))) n) of
             Some v \<Rightarrow> json_value opt v
           | None \<Rightarrow> option_value opt default_config))"
  by (rule parseArgs_value)

theorem option_priority_witness:
  "option_value Log_Level s_config = cli_value Log_Level (lit ''debug'')
    \<and> option_value Dns_Listen_Addr s_config = json_value Dns_Listen_Addr (lit '':5300'')
    \<and> option_value Proxy s_config = option_value Proxy default_config"
  proof -
  have names: "map_of option_names (lit ''log_level'') = Some Log_Level"
    "map_of option_names (lit ''dns_listen_addr'') = Some Dns_Listen_Addr" "map_of option_names (lit ''proxy'') = Some Proxy"
    by code_simp+
  have args: "last_arg (lit ''--'' @ lit ''log_level'') s_args = Some (lit ''debug'')"
    "last_arg (lit ''--'' @ lit ''dns_listen_addr'') s_args = None" "last_arg (lit ''--'' @ lit ''proxy'') s_args = None"
    by code_simp+
  have conf: "config_arg s_args \<noteq> []" "map_of (parseJson (s_read (config_arg s_args))) (lit ''dns_listen_addr'') = Some (lit '':5300'')"
    "map_of (parseJson (s_read (config_arg s_args))) (lit ''proxy'') = None"
    by code_simp+
  show ?thesis
    using option_priority [OF s_run names(1)] option_priority [OF s_run names(2)] option_priority [OF s_run names(3)]
    by (simp add: args conf)
qed

text \<open>C35: A config file with one entry on a line, quoted or bare, is read as it was written: every
  key has the value of its last entry, and no other key has one.\<close>

theorem config_file_round_trip:
  "list_all json_entry_ok es \<Longrightarrow> map_of (parseJson (Some (config_text es))) k = map_of (rev (map entry_pair es)) k"
  by (rule parseJson_config_text)

theorem config_file_round_trip_witness:
  "map_of (parseJson (Some (config_text s_entries))) (lit ''enable_dns_to_https'') = Some (lit ''true'')"
  proof -
  have "list_all json_entry_ok s_entries" "map_of (rev (map entry_pair s_entries)) (lit ''enable_dns_to_https'') = Some (lit ''true'')" by code_simp+
  with config_file_round_trip [of s_entries] show ?thesis by simp
qed

section \<open>The log\<close>

text \<open>C36: In the JSON format a message cannot leave its record, whatever bytes it holds: the record
  is one line of the log, and the string that holds the message ends at its own closing quote,
  behind which only the end of the record follows. A strict reader of JSON strings finds
  exactly the message there if it has no control character but line ends, and refuses the
  record if it has another one: those are written as they are.\<close>

theorem log_message_contained:
  "10 \<notin> set ts \<Longrightarrow>
    getlines 10 (json_line ts l msg @ rest) = butlast (json_line ts l msg) # getlines 10 rest
    \<and> string_end (drop (length (json_head ts l)) (json_line ts l msg @ rest)) = Some (lit ''}'' @ 10 # rest)
    \<and> json_string (drop (length (json_head ts l)) (json_line ts l msg @ rest))
        = (if loggable msg then Some (msg, lit ''}'' @ 10 # rest) else None)"
  using json_line_one json_line_message by blast

theorem log_message_contained_witness:
  "getlines 10 (json_line (lit ''now'') Warn [34, 10, 92] @ lit ''next'') = butlast (json_line (lit ''now'') Warn [34, 10, 92]) # getlines 10 (lit ''next'')
    \<and> json_string (drop (length (json_head (lit ''now'') Warn)) (json_line (lit ''now'') Warn [34, 10, 92] @ lit ''next''))
      = Some ([34, 10, 92], lit ''}'' @ 10 # lit ''next'')
    \<and> json_string (drop (length (json_head (lit ''now'') Warn)) (json_line (lit ''now'') Warn [9] @ lit ''next'')) = None"
  proof -
  have t: "10 \<notin> set (lit ''now'')" "loggable [34, 10, 92]" "\<not> loggable [9]" by (simp_all add: lit_def loggable_def)
  with log_message_contained [OF t(1), of Warn "[34, 10, 92]" "lit ''next''"] log_message_contained [OF t(1), of Warn "[9]" "lit ''next''"]
  show ?thesis by simp
qed

section \<open>The main loop\<close>

text \<open>C37: In every interleaving of signals, timers and the main thread: the loop is left only after
  a termination signal, and after one the main thread leaves it within 34 of its steps,
  whatever its polls see and whatever further signals arrive.\<close>

theorem main_loop_ends:
  "s = foldl control_step (control_init res env) es \<Longrightarrow>
    (ps_place s = Left \<longrightarrow> ps_draining s)
    \<and> (ps_draining s \<and> 34 \<le> length (filter is_main es') \<longrightarrow> ps_place (foldl control_step s es') = Left)"
  proof (intro conjI impI)
  assume s: "s = foldl control_step (control_init res env) es"
  have inv: "control_inv s" unfolding s by (rule loop.inv_run [OF control_inv_init]) (simp add: list_all_iff)
  then show "ps_place s = Left \<Longrightarrow> ps_draining s" by (simp add: control_inv_def)
  assume d: "ps_draining s \<and> 34 \<le> length (filter is_main es')"
  then have "distance (ps_place s) \<le> length (filter is_main es')" using distance_bound [of "ps_place s"] by linarith
  with draining_ends [OF inv] d show "ps_place (foldl control_step s es') = Left" by blast
qed

theorem main_loop_ends_witness:
  "ps_place (foldl control_step (foldl control_step (control_init True (\<lambda>_. None)) [Main_Thread True, Signal SIGTERM]) (replicate 34 (Main_Thread False))) = Left"
  proof -
  have "ps_draining (foldl control_step (control_init True (\<lambda>_. None)) [Main_Thread True, Signal SIGTERM])"
    by (simp add: control_init_def main_step_def signalHandler_def)
  moreover have "filter is_main (replicate 34 (Main_Thread False)) = replicate 34 (Main_Thread False)" by simp
  ultimately show ?thesis using main_loop_ends [OF refl, of True "\<lambda>_. None" "[Main_Thread True, Signal SIGTERM]" "replicate 34 (Main_Thread False)"]
    by (metis length_replicate order_refl)
qed

text \<open>C38: Requests to reload are merged but not lost, when there is a resolver: at most as many
  reloads are made as SIGHUP signals have arrived, and a pending request is served within
  three steps of the main thread unless a termination signal has arrived. Without a resolver
  (enable_dns_to_https off) requests are taken and no reload is ever made.\<close>

theorem reload_requests_served:
  "s = foldl control_step (control_init res env) es \<Longrightarrow>
    ps_reloads s + of_bool (ps_reload s) \<le> length (filter is_hup es)
    \<and> (res \<and> ps_reload s \<and> 3 \<le> length (filter is_main es') \<longrightarrow>
        ps_reloads s < ps_reloads (foldl control_step s es') \<or> ps_draining (foldl control_step s es'))
    \<and> (\<not> res \<longrightarrow> ps_reloads (foldl control_step s es') = 0)"
  proof (intro conjI impI)
  assume s: "s = foldl control_step (control_init res env) es"
  show "ps_reloads s + of_bool (ps_reload s) \<le> length (filter is_hup es)"
    using reload_count [of "control_init res env" es] by (simp add: s control_init_def)
  have inv: "control_inv s" unfolding s by (rule loop.inv_run [OF control_inv_init]) (simp add: list_all_iff)
  have r: "ps_resolver s = res" by (simp add: s resolver_stays control_init_def)
  show "\<not> res \<Longrightarrow> ps_reloads (foldl control_step s es') = 0"
    using r no_resolver_no_reload [of "control_init res env" es] no_resolver_no_reload [of s es'] by (simp add: s control_init_def)
  assume p: "res \<and> ps_reload s \<and> 3 \<le> length (filter is_main es')"
  have "reload_distance (ps_place s) \<le> 3" by (cases "ps_place s") simp_all
  with p r reload_served [OF inv, of es'] show "ps_reloads s < ps_reloads (foldl control_step s es') \<or> ps_draining (foldl control_step s es')"
    by linarith
qed

theorem reload_requests_served_witness:
  "0 < ps_reloads (foldl control_step (foldl control_step (control_init True (\<lambda>_. None)) [Main_Thread False, Signal SIGHUP, Signal SIGHUP])
      (replicate 3 (Main_Thread False)))"
  proof -
  define s where "s = foldl control_step (control_init True (\<lambda>_. None)) [Main_Thread False, Signal SIGHUP, Signal SIGHUP]"
  have "ps_reload s" "\<not> ps_draining (foldl control_step s (replicate 3 (Main_Thread False)))"
    by (simp_all add: s_def control_init_def main_step_def signalHandler_def numeral_3_eq_3)
  moreover have "filter is_main (replicate 3 (Main_Thread False)) = replicate 3 (Main_Thread False)" by simp
  ultimately show ?thesis using reload_requests_served [OF s_def, of "replicate 3 (Main_Thread False)"]
    by (simp add: s_def)
qed

section \<open>The sockets\<close>

text \<open>Whatever interface the listen address names, the sixteen UDP workers bind the port on all
  interfaces; a server told to listen on the loopback address receives queries from
  everywhere.\<close>

lemma workers_bind_all_interfaces:
  "58 \<notin> set host \<Longrightarrow> host \<noteq> [] \<Longrightarrow> n < 65536 \<Longrightarrow> is_address host \<Longrightarrow> (\<And>b. opens b) \<Longrightarrow> i < NUM_WORKERS \<Longrightarrow>
    (Udp_Worker i, lit ''0.0.0.0'', of_nat n) \<in> set (listenAndServe is_address opens (host @ 58 # to_string n))"
  by (rule workers_bind_everything)

section \<open>The monitoring server\<close>

definition s_monitor :: monitor where
  "s_monitor = \<lparr>mon_addr = lit '':8080'', mon_wwwRoot = lit ''/srv/www'', mon_logoPath = [], mon_port = 8080,
     mon_open = True, mon_running = True\<rparr>"

definition s_files :: file_system where
  "s_files = \<lparr>fs_regular = (\<lambda>f. f = lit ''/srv/www/a.css''), fs_read = (\<lambda>f. if f = lit ''/srv/www/a.css'' then Some (lit ''hi'') else None)\<rparr>"

text \<open>C39: Whatever path with a leading slash a client asks for, unless it is one of the five fixed
  ones, a page with status 200 is the content of a regular file whose place, with dots
  resolved, is below the web root.\<close>

theorem files_below_web_root:
  "monitor_route fs metrics stats m (47 # p) = Page status_ok ctype body \<Longrightarrow> 47 # p \<notin> set fixed_paths \<Longrightarrow>
    \<exists>f below. fs_regular fs f \<and> fs_read fs f = Some body \<and> place f = below @ place (mon_wwwRoot m)"
  by (rule served_below_root)

theorem files_below_web_root_witness:
  "\<exists>f below. fs_regular s_files f \<and> fs_read s_files f = Some (lit ''hi'') \<and> place f = below @ place (mon_wwwRoot s_monitor)"
  proof -
  have "monitor_route s_files [] [] s_monitor (47 # lit ''a.css'') = Page status_ok (lit ''text/css; charset=utf-8'') (lit ''hi'')"
    "47 # lit ''a.css'' \<notin> set fixed_paths" by code_simp+
  from files_below_web_root [OF this] show ?thesis .
qed

text \<open>Every page that the monitoring server sends is read back by the program's own reader of HTTP
  responses, in whatever segments it arrives: the reader stops with the last byte, and what
  follows the header is the page.\<close>

lemma monitor_pages_readable:
  "monitor_route fs metrics stats m path = Page status ctype body \<Longrightarrow> body \<noteq> [] \<Longrightarrow> length body < 2 ^ 64 \<Longrightarrow>
    concat cs = page_text status ctype body \<Longrightarrow>
    \<exists>fr. read_response (map Chunk cs @ es) framing_init = Inr (Some fr)
      \<and> respBuf fr = page_text status ctype body \<and> drop (headerEndPos fr + 4) (respBuf fr) = body"
  by (rule page_read_back)

definition s_figures :: figures where
  "s_figures = \<lparr>fg_perf = snapshot id perf_init, fg_tuner = at_init, fg_lm = lm_init, fg_queries = 7, fg_ttl = ttl_init,
     fg_pools = Some [(\<lparr>ps_host = lit ''dns.google'', ps_port = lit ''443'', ps_connected = 1, ps_total = 2, ps_errors = 0,
       ps_successes = 5, ps_errorRatio = 0\<rparr>, lit ''8.8.8.8'')],
     fg_time = lit ''2024-05-01 10:00:00''\<rparr>"

text \<open>C40: The statistics page is the JSON print of the tree of its figures: a reader of JSON gets
  exactly that tree back, if the texts in it (time, bottleneck, hosts, ports, addresses) need
  no escape; every real is shown to within half a hundredth.\<close>

theorem stats_page_is_json:
  "(figures_plain fg \<longrightarrow> read_json (fuel_json (stats_tree fg)) (renderJson fg) = Some (stats_tree fg, []))
    \<and> (\<exists>n. fixed2 x = (if x < 0 then [45] else []) @ to_string (n div 100) @ 46 # two_digits (n mod 100)
          \<and> \<bar>real n - 100 * \<bar>x\<bar>\<bar> \<le> 1 / 2)"
  using renderJson_reads fixed2_near by blast

theorem stats_page_is_json_witness:
  "read_json (fuel_json (stats_tree s_figures)) (renderJson s_figures) = Some (stats_tree s_figures, [])"
  proof -
  have "figures_plain s_figures" by (simp add: figures_plain_def s_figures_def lm_init_def plain_char_def lit_def pool_plain_def)
  with stats_page_is_json [of s_figures] show ?thesis by blast
qed

section \<open>The HTTPS server\<close>

definition s_post :: https_request where
  "s_post = \<lparr>rq_verb = Post, rq_target = lit ''/dns-query'', rq_content_type = dns_media, rq_body = encode (w_request 4), rq_version = 11\<rparr>"

definition s_servfail :: "https_request \<Rightarrow> https_response" where
  "s_servfail rq = \<lparr>rs_status = 200, rs_version = rq_version rq, rs_content_type = dns_media,
     rs_body = encode (createError (with_counts (w_request 4)) rcode_ServFail)\<rparr>"

lemma s_parse: "parse (rq_body s_post) = Inr (with_counts (w_request 4))"
  using parse_encode [OF w_request_wf] by (simp add: s_post_def)

lemma s_request: "questions (with_counts (w_request 4)) \<noteq> []" "all_sendable (with_counts (w_request 4))"
  using wf_message_sendable [OF w_request_wf, of 4] by (simp_all add: all_sendable_def with_counts_def w_request_def)

lemma s_answer: "dns_response (\<lambda>_ _ _. None) [] s_post = Inr (s_servfail s_post)"
  using upstream_failure [OF s_parse s_request, of "\<lambda>_ _ _. None" "[]"] by (simp add: s_servfail_def)

text \<open>Every response with status 200, over TLS or plain, is a DNS message with the id of the query
  in the request's body, has the media type of DNS messages and the HTTP version of the
  request.\<close>

lemma doh_reply_id:
  "https_connection insecure udp hosts_up (Some rq) = Some resp \<Longrightarrow> rs_status resp = 200 \<Longrightarrow>
    rs_content_type resp = dns_media \<and> packet_id (rs_body resp) = packet_id (rq_body rq) \<and> rs_version resp = rq_version rq"
  by (rule connection_id)

text \<open>When the upstream server cannot be reached or answers with something that is no DNS message,
  the client still gets status 200 with a SERVFAIL reply to its own question.\<close>

lemma doh_upstream_failure:
  "parse (rq_body rq) = Inr req \<Longrightarrow> questions req \<noteq> [] \<Longrightarrow> all_sendable req \<Longrightarrow>
    (\<And>host port wire resp. udp host port wire = Some resp \<Longrightarrow> \<exists>e. parse (take 4096 resp) = Inl e \<and> e \<noteq> Bad_Access) \<Longrightarrow>
    dns_response udp hosts_up rq = Inr \<lparr>rs_status = 200, rs_version = rq_version rq, rs_content_type = dns_media,
      rs_body = encode (createError req rcode_ServFail)\<rparr>"
  by (rule upstream_failure)

end
