(* ===== verification/Dns_Text.thy ===== *)
theory Dns_Text
  imports Dns_Codec Std_String
begin

text \<open>
  The text forms of records and messages (\<open>rdataToString\<close>, \<open>typeToString\<close> and \<open>toString\<close> of
  \<open>src/dns_protocol.cpp\<close>). \<open>inet_ntop\<close> prints the four bytes of an \<open>in_addr\<close> in the order in which
  they are in memory; its form of an IPv6 address is the parameter \<open>ntop6\<close>.
\<close>

section \<open>Record data\<close>

definition rdataToUint16 :: "bytes \<Rightarrow> nat \<Rightarrow> u16" where
  "rdataToUint16 rd off = (if length rd < off + 2 then 0 else be16 (rd ! off) (rd ! (off + 1)))"

definition rdataToUint32 :: "bytes \<Rightarrow> nat \<Rightarrow> u32" where
  "rdataToUint32 rd off =
     (if length rd < off + 4 then 0 else be32 (rd ! off) (rd ! (off + 1)) (rd ! (off + 2)) (rd ! (off + 3)))"

text \<open>The bytes of an integer in the memory of a little-endian machine.\<close>

definition in_memory :: "u32 \<Rightarrow> bytes" where
  "in_memory v = rev (writeU32 v)"

definition ntop4 :: "bytes \<Rightarrow> bytes" where
  "ntop4 bs = to_string (unat (bs ! 0)) @ lit ''.'' @ to_string (unat (bs ! 1)) @ lit ''.'' @ to_string (unat (bs ! 2))
     @ lit ''.'' @ to_string (unat (bs ! 3))"

definition hex_digit :: "u8 \<Rightarrow> u8" where
  "hex_digit d = (if d < 10 then 48 + d else 87 + d)"

definition hex_text :: "bytes \<Rightarrow> bytes" where
  "hex_text rd = concat (map (\<lambda>b. [hex_digit (drop_bit 4 b), hex_digit (b AND 0xF)]) rd)"

definition type_TXT :: u16 where "type_TXT = 16"
definition type_ANY :: u16 where "type_ANY = 255"

definition space :: bytes where "space = lit '' ''"

text \<open>The five numbers at the end of an SOA record.\<close>

definition soa_numbers :: "bytes \<Rightarrow> nat \<Rightarrow> bytes dns_result" where
  "soa_numbers rd p =
     bindE (readU32 rd p) (\<lambda>serial. bindE (readU32 rd (p + 4)) (\<lambda>refresh. bindE (readU32 rd (p + 8)) (\<lambda>retry.
     bindE (readU32 rd (p + 12)) (\<lambda>expire. bindE (readU32 rd (p + 16)) (\<lambda>minimum.
       Inr (to_string (unat serial) @ space @ to_string (unat refresh) @ space @ to_string (unat retry) @ space
            @ to_string (unat expire) @ space @ to_string (unat minimum)))))))"

definition raw_text :: "bytes \<Rightarrow> bytes" where
  "raw_text rd = [92, 35] @ hex_text rd"

definition rdataToString :: "(bytes \<Rightarrow> bytes) \<Rightarrow> dns_rr \<Rightarrow> bytes dns_result" where
  "rdataToString ntop6 rr =
     (let rd = rr_rdata rr; n = length rd in
      if rr_type rr = type_A \<and> 4 \<le> n then Inr (ntop4 (in_memory (rdataToUint32 rd 0)))
      else if rr_type rr = type_AAAA \<and> 16 \<le> n then Inr (ntop6 (take 16 rd))
      else if rr_type rr = type_CNAME \<or> rr_type rr = type_NS \<or> rr_type rr = type_PTR
      then bindE (wireToName rd n 0) (\<lambda>(name, p). Inr name)
      else if rr_type rr = type_MX \<and> 2 \<le> n
      then bindE (wireToName rd n 2) (\<lambda>(name, p). Inr (to_string (unat (rdataToUint16 rd 0)) @ space @ name))
      else if rr_type rr = type_SOA \<and> 22 \<le> n
      then bindE (wireToName rd n 0) (\<lambda>(mname, p). bindE (wireToName rd n p) (\<lambda>(rname, p).
             if p + 20 \<le> n then bindE (soa_numbers rd p) (\<lambda>numbers. Inr (mname @ space @ rname @ space @ numbers))
             else Inr (raw_text rd)))
      else Inr (raw_text rd))"

section \<open>Types, classes and messages\<close>

definition type_names :: "(u16 \<times> bytes) list" where
  "type_names = [(1, lit ''A''), (2, lit ''NS''), (5, lit ''CNAME''), (6, lit ''SOA''), (12, lit ''PTR''), (15, lit ''MX''),
     (16, lit ''TXT''), (28, lit ''AAAA''), (33, lit ''SRV''), (41, lit ''OPT''), (255, lit ''ANY'')]"

definition typeToString :: "u16 \<Rightarrow> bytes" where
  "typeToString t = (case map_of type_names t of Some s \<Rightarrow> s | None \<Rightarrow> lit ''TYPE'' @ to_string (unat t))"

definition classToString :: "u16 \<Rightarrow> bytes" where
  "classToString c = (if c = 1 then lit ''IN'' else lit ''CLASS'' @ to_string (unat c))"

definition header_text :: "dns_header \<Rightarrow> bytes" where
  "header_text h =
     lit '';; id: '' @ to_string (unat (hid h)) @ lit '' flags: ''
     @ (if hdr_qr h then lit ''QR '' else []) @ (if hdr_aa h then lit ''AA '' else []) @ (if hdr_tc h then lit ''TC '' else [])
     @ (if hdr_rd h then lit ''RD '' else []) @ (if hdr_ra h then lit ''RA '' else [])
     @ lit '' rcode: '' @ to_string (unat (hdr_rcode h)) @ lit '' qd: '' @ to_string (unat (qdcount h))
     @ lit '' an: '' @ to_string (unat (ancount h)) @ lit '' ns: '' @ to_string (unat (nscount h))
     @ lit '' ar: '' @ to_string (unat (arcount h)) @ [10]"

definition question_text :: "dns_question \<Rightarrow> bytes" where
  "question_text q = lit '';; Q: '' @ qname q @ space @ typeToString (qtype q) @ space @ classToString (qclass q) @ [10]"

definition rr_text :: "(bytes \<Rightarrow> bytes) \<Rightarrow> dns_rr \<Rightarrow> bytes dns_result" where
  "rr_text ntop6 rr = bindE (rdataToString ntop6 rr) (\<lambda>d.
     Inr (rr_name rr @ space @ to_string (unat (rr_ttl rr)) @ space @ classToString (rr_class rr) @ space
          @ typeToString (rr_type rr) @ space @ d @ [10]))"

fun printRRs :: "(bytes \<Rightarrow> bytes) \<Rightarrow> dns_rr list \<Rightarrow> bytes dns_result" where
  "printRRs ntop6 [] = Inr []"
| "printRRs ntop6 (rr # rrs) = bindE (rr_text ntop6 rr) (\<lambda>s. bindE (printRRs ntop6 rrs) (\<lambda>t. Inr (s @ t)))"

definition toString :: "(bytes \<Rightarrow> bytes) \<Rightarrow> dns_message \<Rightarrow> bytes dns_result" where
  "toString ntop6 m =
     bindE (printRRs ntop6 (answers m)) (\<lambda>an. bindE (printRRs ntop6 (authorities m)) (\<lambda>au.
     bindE (printRRs ntop6 (additionals m)) (\<lambda>ad.
       Inr (header_text (header m) @ concat (map question_text (questions m)) @ an @ au @ ad))))"

section \<open>What is printed\<close>

text \<open>No record makes the printer read outside its data.\<close>

lemma wireToName_inside: "p \<le> length rd \<Longrightarrow> wireToName rd (length rd) p \<noteq> Inl Bad_Access"
  using name_reader.read_bad [of "length rd" rd p] by auto

lemma rdata_text_safe: "rdataToString ntop6 rr \<noteq> Inl Bad_Access"
proof -
  let ?rd = "rr_rdata rr"
  have soa: "soa_numbers ?rd p \<noteq> Inl Bad_Access" if "p + 20 \<le> length ?rd" for p
    using readU32_safe [of p ?rd] readU32_safe [of "p + 4" ?rd] readU32_safe [of "p + 8" ?rd]
      readU32_safe [of "p + 12" ?rd] readU32_safe [of "p + 16" ?rd] that by (auto simp: soa_numbers_def exc_simps)
  have name: "wireToName ?rd (length ?rd) p \<noteq> Inl Bad_Access" if "p \<le> length ?rd" for p
    by (rule wireToName_inside [OF that])
  have next_pos: "q \<le> length ?rd" if "wireToName ?rd (length ?rd) p = Inr (n, q)" for n p q
    using wireToName_within [OF order_refl that] by simp
  show ?thesis using soa name next_pos
    by (auto simp: rdataToString_def Let_def exc_simps split: if_splits prod.splits)
qed

text \<open>Records whose data is a name print it; the address of an A record comes out backwards.\<close>

lemma name_record_text:
  assumes "rr_type rr \<in> {type_CNAME, type_NS, type_PTR}" "nameToWire n = Inr (rr_rdata rr)"
  shows "rdataToString ntop6 rr = Inr (normalise n)"
  using assms wireToName_nameToWire [OF assms(2), of _ "[]" "[]" "length (rr_rdata rr)"]
  by (auto simp: rdataToString_def type_defs)

lemma u8_high_bit: "8 \<le> k \<Longrightarrow> \<not> bit (x :: u8) k"
  using bit_imp_le_length [of x k] by auto

lemma writeU32_be32: "writeU32 (be32 a b c d) = [a, b, c, d]"
  by (simp add: writeU32_def be32_def) (auto intro!: bit_word_eqI simp: bit_simps u8_high_bit)

lemma address_text_reversed:
  assumes "rr_type rr = type_A" "rr_rdata rr = [a, b, c, d]"
  shows "rdataToString ntop6 rr = Inr (ntop4 [d, c, b, a])"
proof -
  have "writeU32 (be32 a b c d) = [a, b, c, d]" by (rule writeU32_be32)
  then show ?thesis using assms by (simp add: rdataToString_def rdataToUint32_def in_memory_def)
qed

text \<open>The raw form can be read back.\<close>

definition of_hex_digit :: "u8 \<Rightarrow> u8" where
  "of_hex_digit c = (if c < 58 then c - 48 else c - 87)"

fun unhex :: "bytes \<Rightarrow> bytes" where
  "unhex (h # l # s) = (push_bit 4 (of_hex_digit h) OR of_hex_digit l) # unhex s"
| "unhex _ = []"

lemma of_hex_digit_nibble: "d < 16 \<Longrightarrow> of_hex_digit (hex_digit d) = d"
proof -
  assume d: "d < 16"
  then have "unat d < 16" by (simp add: word_less_nat_alt)
  then show ?thesis
    by (auto simp: of_hex_digit_def hex_digit_def word_less_nat_alt unat_word_ariths)
qed

lemma nibbles:
  fixes b :: u8
  shows "drop_bit 4 b < 16" "b AND 0xF < 16" "push_bit 4 (drop_bit 4 b) OR (b AND 0xF) = b"
proof -
  have "unat (drop_bit 4 b) = unat b div 16" unfolding unat_drop_bit_eq by (simp add: drop_bit_eq_div)
  also have "\<dots> < 16" using unat_u8_less [of b] by simp
  finally show "drop_bit 4 b < 16" by (simp only: word_less_nat_alt) simp
  have m: "b AND 0xF = take_bit 4 b" by (simp add: take_bit_eq_mask mask_eq_exp_minus_1)
  have "unat (take_bit 4 b) < 16" unfolding unsigned_take_bit_eq using take_bit_nat_less_exp [of 4 "unat b"] by simp
  then show "b AND 0xF < 16" unfolding m by (simp only: word_less_nat_alt) simp
  show "push_bit 4 (drop_bit 4 b) OR (b AND 0xF) = b"
    unfolding m by (rule bit_word_eqI) (auto simp: bit_simps)
qed

lemma unhex_hex_text: "unhex (hex_text rd) = rd"
  by (induction rd) (simp_all add: hex_text_def of_hex_digit_nibble nibbles)

text \<open>Different types have different texts.\<close>

definition type_of_text :: "bytes \<Rightarrow> u16 option" where
  "type_of_text s =
     (case map_of (map (\<lambda>(t, n). (n, t)) type_names) s of Some t \<Rightarrow> Some t
      | None \<Rightarrow> (case stoul (drop 4 s) of Inl _ \<Rightarrow> None | Inr n \<Rightarrow> Some (of_nat n)))"

lemma type_of_typeToString: "type_of_text (typeToString t) = Some t"
proof (cases "map_of type_names t")
  case (Some s)
  then have "(t, s) \<in> set type_names" by (rule map_of_SomeD)
  moreover have "list_all (\<lambda>(t, s). map_of (map (\<lambda>(t, n). (n, t)) type_names) s = Some t) type_names" by code_simp
  ultimately show ?thesis using Some by (auto simp: typeToString_def type_of_text_def list_all_iff)
next
  case None
  let ?d = "to_string (unat t)"
  have "map_of (map (\<lambda>(t, n). (n, t)) type_names) (lit ''TYPE'' @ ?d) = None"
    by (simp add: type_names_def lit_def)
  moreover have "stoul ?d = Inr (unat t)"
    using stoul_to_string [of "unat t" "[]"] unat_u16_less [of t] by simp
  moreover have "drop 4 (lit ''TYPE'' @ ?d) = ?d" by (simp add: lit_def)
  ultimately show ?thesis using None by (simp add: typeToString_def type_of_text_def)
qed

end
