(* ===== verification/Spec2Isabelle.thy ===== *)
theory Spec2Isabelle
  imports Dns_Properties Cache_Properties Server_Properties Tuning_Properties System_Properties
    Http_Properties Conn_Properties Service_Properties Dns_Text
begin

text \<open>
  A model of Lynx DNS, the forwarding DNS server under \<open>src/\<close>, and proofs about it.

  \<^bold>\<open>The program.\<close> \<open>main.cpp\<close> reads the options, builds the parts
  and waits for signals. \<open>dns_server.cpp\<close> receives queries over UDP and TCP. Each
  client has a budget of requests per second (\<open>RateLimiter\<close>). A query whose answer is
  cached is answered at once by the receiving thread (\<open>peekCacheRaw\<close>); any other is a
  task of a thread pool (\<open>ThreadPool\<close>), which parses it
  (\<open>dns_protocol.cpp\<close>) and chooses an upstream: the domain map's
  (\<open>domain_map.cpp\<close>), the one for unqualified names, or the resolver. The resolver is
  \<open>CachingResolver\<close>, a two-level cache around \<open>SystemResolver\<close>
  (getaddrinfo, UDP, DoH) or \<open>HttpResolver\<close> (pools of TLS connections, which
  \<open>ConnectionController\<close> watches and reconnects). A control loop
  (\<open>auto_tuner.cpp\<close>) reads the measurements of \<open>perf_monitor.cpp\<close>, has
  \<open>latency_manager.cpp\<close> grade them, and sets the number of connections and threads, the
  refresh threshold and the TTL limits of the cache. \<open>monitor_server.cpp\<close> shows the
  measurements, \<open>https_server.cpp\<close> takes queries over HTTPS.

  \<^bold>\<open>Theories.\<close>
  \<^item> \<open>Prelude\<close>: bytes, the error monad \<open>bindE\<close>, C library functions
    on characters; \<open>Std_String\<close>: searching in strings, numbers and digits;
    \<open>Std_Map\<close>: \<open>std::map\<close> as a sorted association list, an instance of
    \<open>kv_store\<close>; \<open>Json_Text\<close>: JSON values, their print and a reader;
    \<open>Codec\<close>: the interfaces \<open>bounded_reader\<close> and
    \<open>buffer_codec\<close> of readers and writers on a byte buffer;
    \<open>Step_Invariant\<close>: the interface \<open>step_invariant\<close> of a state with
    operations that keep an invariant, with the cache, its counters, the rate limiter and the main
    loop as instances; \<open>guarded_invariant\<close>, where an operation is admissible in some states
    only, with the runs of the HTTP resolver and the threads on a pool; and \<open>winding_down\<close>, of what comes
    to rest after finitely many steps, with background threads after a stop, the cache's destructor
    and the reconnect workers as instances. \<open>Periodic\<close>: the loop of the background
    threads and their rhythms.
  \<^item> \<open>Dns_Wire\<close>, \<open>Dns_Name\<close>, \<open>Dns_Message\<close>,
    \<open>Dns_Codec\<close>, \<open>Dns_Text\<close>: \<open>dns_protocol\<close>.
    \<open>parse\<close> and \<open>pack\<close> are the code's loops over a buffer with positions
    for its pointers; a read outside the buffer is the error \<open>Bad_Access\<close>, an exception
    any other error. \<open>encode\<close> is the reference encoding; \<open>Dns_Normal\<close> says
    what a parsed message looks like; \<open>Dns_Text\<close> has the text forms.
    \<open>Name_Equals\<close>: \<open>nameEquals\<close> with the SSE4.2 instructions as functions
    on 16 bytes, against the scalar build.
  \<^item> \<open>Domain_Map\<close>: the class \<open>DomainMap\<close>. \<open>Clock\<close>: time
    and TTL settings; \<open>Perf_Monitor\<close>, \<open>Latency_Manager\<close>,
    \<open>Auto_Tuner\<close>: the control loop, with one definition for each section of the long
    function \<open>tune\<close>.
  \<^item> \<open>Caching_Resolver\<close>: state and operations of the cache;
    \<open>Cache_Proofs\<close>: its invariant; \<open>Cache_Answers\<close>: what is answered from
    it, and its counters; \<open>Cache_File\<close>: the file written at shutdown and read at start;
    \<open>Cache_Threads\<close>, \<open>Cache_Life\<close>: the threads of the resolver from its
    construction to the end of its destructor, interleaved.
  \<^item> \<open>Rate_Limiter\<close>, \<open>Thread_Pool\<close>, \<open>Dns_Server\<close>,
    \<open>Dns_Listen\<close>, \<open>Server_Stop\<close>, \<open>Server_Proofs\<close>:
    \<open>dns_server.cpp\<close>. The server uses a resolver through the record
    \<open>resolver_ops\<close>, and the proofs through the interface \<open>id_resolver\<close>,
    which the caching resolver and the bare system resolver provide.
  \<^item> \<open>System_Resolver\<close>: \<open>system_resolver.cpp\<close>, alone, and behind
    cache and server (\<open>serve\<close>).
  \<^item> \<open>Http_Url\<close>, \<open>Http_Exchange\<close>, \<open>Http_Pool\<close>,
    \<open>Http_Resolver\<close>: \<open>http_resolver.cpp\<close>: addresses and proxies, one
    exchange on the bytes of the stream, the pools and the queries on them, the whole resolver.
    \<open>Http_Pool_Proofs\<close>, \<open>Http_Invariant\<close>, \<open>Http_Steps\<close>,
    \<open>Http_Runs\<close>: its invariant, kept by every operation, and by runs of queries,
    openings, warm-ups, reloads and sections of the controller. \<open>Http_Threads\<close>,
    \<open>Http_Threads_Proofs\<close>: the threads on one pool and those of the controller,
    interleaved. \<open>Conn_Controller\<close>, \<open>Conn_Proofs\<close>:
    \<open>connection_controller.cpp\<close> as a step relation, with its invariant;
    \<open>Conn_Stop\<close>: the end of its reconnect workers.
  \<^item> \<open>Config\<close>, \<open>Main_Program\<close>, \<open>Main_Proofs\<close>:
    \<open>main.cpp\<close>: options and config file, what is built from them, the main loop as a
    state machine. \<open>Logger\<close>: \<open>logger.hpp\<close>.
  \<^item> \<open>Monitor_Server\<close>, \<open>Monitor_Proofs\<close>,
    \<open>Monitor_Pages\<close>, \<open>Monitor_Stats\<close>: \<open>monitor_server.cpp\<close>:
    routing, files and responses; the two pages with numbers. \<open>Https_Server\<close>:
    \<open>https_server.cpp\<close>.
  \<^item> The theories named \<open>_Properties\<close> state the properties, each with an
    application at a concrete input where it has hypotheses.

  \<^bold>\<open>What is shown.\<close> Packing and parsing are inverse on well-formed messages, the
  size computed before packing is exact, and the parser's only read outside a packet is the one of
  an SOA record whose length test wraps around. A parsed message has as many records as its header
  says and RDATA without compression, and packing it again loses nothing. Name compression ends
  after at most ten jumps. The vectorised name comparison equals the scalar one. The most specific
  override wins. The cache keeps an invariant under every sequence of its operations: at most 50000
  entries, each with a bounded TTL written into all its records, found under the key it was stored
  for; a stored reply is what queries get until its lifetime is over, unless something takes its slot;
  the cache file reads back, and a cache that
  starts with it keeps the invariant again. However the threads of the caching resolver interleave,
  its destructor comes to rest within 69 steps: it has finished, with the file written when all of them
  had ended, or an exception has ended the program, or it waits for ever for the refresh worker.
  The limiter lets a client through at most 200 times in a second and never blocks one that stays
  below its rate. In every interleaving of the thread pool no task is lost, run twice or reordered
  in the queue, and shrinking never leaves fewer than the minimum of live workers. A reply carries
  the id of its query. The tuner's outputs stay in their ranges and grow only under its own rules.
  The system resolver asks its sources in their order. A complete HTTP response is read the same in
  any segments; with one upstream, the pools and the connection controller agree on what is connected,
  as long as no reload switches the proxy while an opening is pending and no connection is opened
  under a reconnect worker. The flag \<open>inUse\<close> gives a connection to one thread at a time,
  and no stream is used by two, in runs without health checks, a draining reload and lost races.
  After a stop the reconnect workers empty their queue, and every background thread ends
  after at most a minute of sleep and one more round of work. An option's value comes from the
  command line, the config file, or its default, in this order; config files read back. The main
  loop ends after a termination signal and serves requests to reload. A log message in the
  JSON format stays in its record, and a JSON reader finds it there unless it has a control character
  other than a line end. The monitoring server serves files below its root only, its responses are read back by the
  program's own reader, and its JSON page is JSON with the numbers it should show. The HTTPS server
  answers with the id of the query, and with SERVFAIL when its upstream fails.

  \<^bold>\<open>What is wrong in the code\<close> is stated as theorems where it can be: among
  others the SOA read, the error code lost in cached replies, the receive threads that a malformed
  packet ends, connections blocked for good by failed openings, streams that health checks,
  \<open>reload\<close> and, after a lost race, a reconnect worker share with a running query, a
  loop that runs past the end of a vector, a deadlock of the pool maintenance, a connection
  lost by a stale index, UDP workers that listen on all interfaces and that a stop may leave waiting
  for ever, a refresh worker that ends before it has begun, and a notification that it can miss, so
  that the destructor waits for ever.

  \<^bold>\<open>Bounds and fuel.\<close> The jump count of \<open>wire_to_name_loop\<close> is the
  code's own limit of ten, the retry loop of the HTTP resolver ends by a measure. The only fuel is
  that of the JSON reader, a reference definition; the size of the tree (\<open>fuel_json\<close>)
  is enough. All other loops are structural or have a measure. Header fields, TTLs, hashes, ports,
  ring indices and the round robin counter are words of their width; counters that cannot reach
  their limit in any realistic run (64-bit statistics) are integers. A \<open>double\<close> is a
  real: rounding is not modelled.

  \<^bold>\<open>Concurrency.\<close> The thread pool, the connection controller and the main loop
  are modelled at the grain of their critical sections and atomic accesses, and interleave freely.
  So are the threads of the caching resolver around its flag, its mutex and its condition variable,
  where a thread sleeps until it is notified; but an operation of the cache itself is one step; the
  clock gives every reading inside an operation a value of its own, so that time may pass between
  them. The HTTP resolver is modelled twice: in \<open>Http_Resolver\<close> whole queries run one
  after the other, and the background openings that they start end at any later time, in any order;
  in \<open>Http_Threads\<close> the accesses of all threads to one pool interleave with each other
  and with the steps of the connection controller's own threads, without the contents of the
  exchanges. \<open>try_pool_is_run\<close> says that a query of the former is a run of the latter.

  \<^bold>\<open>Not modelled.\<close> Sockets and their options, TLS, \<open>getaddrinfo\<close>,
  libcurl, boost::asio and boost::beast are parameters that say what a call returned; that a call
  may block for ever is not expressed. Log messages, the usage text and the detached threads'
  lifetimes are left out; threads are started and joined in the models of the caching resolver and
  of the UDP workers only. The dashboard, the scripts and the tests are in other languages.
\<close>

end
